(* ===== verification/Go_Prelude.thy ===== *)
theory Go_Prelude
  imports Main "HOL-Library.AList" "HOL-Library.List_Lexorder" "HOL-Library.Char_ord"
    "HOL-Library.Multiset"
begin

text \<open>
  The Go vocabulary the components share: results with errors and panics, maps with an
  iteration order, the functions of \<^verbatim>\<open>strings\<close>, \<^verbatim>\<open>strconv\<close> and \<^verbatim>\<open>time\<close> the
  sources call, the in-place reversal loop, and the lemmas on them that the component
  proofs use as simplification rules.

  Conventions.  A Go \<^verbatim>\<open>string\<close> or \<^verbatim>\<open>[]byte\<close> is a \<open>char list\<close> (bytes); case mapping and
  white space follow Go on ASCII.  A pointer that may be nil is an \<open>option\<close>.  A Go map is
  an association list with distinct keys whose list order is the order in which
  \<^verbatim>\<open>range\<close> visits it: Go leaves that order open, so a lemma about a loop over a map is
  stated for every order of the list.  Where the code tells a nil map from an empty one
  the map is an \<open>option\<close>.
\<close>

section \<open>Rule collections\<close>

named_theorems go_map_simps \<open>lookups after stores into Go maps\<close>
named_theorems go_string_simps \<open>characterisations of the string functions\<close>
named_theorems res_elims \<open>inversion of successful results\<close>

section \<open>Results, errors and panics\<close>

text \<open>
  \<open>Errorf f args errs\<close> is \<^verbatim>\<open>fmt.Errorf(f, ...)\<close> with \<^verbatim>\<open>%s\<close>, \<^verbatim>\<open>%q\<close> or \<^verbatim>\<open>%v\<close>: the text of the
  errors \<open>errs\<close> is part of the message, but they are not wrapped, so \<^verbatim>\<open>errors.As\<close> does
  not find them.  The other constructors are the error types the code tells apart.
\<close>

datatype go_error =
    Errorf string "string list" "go_error list"
  | ResponseError int "string option"   \<comment> \<open>azcore.ResponseError: status code, Retry-After header\<close>
  | NetError string                     \<comment> \<open>a net.Error\<close>
  | DNSError bool                       \<comment> \<open>net.DNSError: IsNotFound\<close>
  | ArgumentError string go_error       \<comment> \<open>loader.ArgumentError: Field, Err\<close>
  | KubeNotFound                        \<comment> \<open>apierrors.IsNotFound\<close>
  | KubeError string                    \<comment> \<open>any other error of the Kubernetes client\<close>
  | LibError string                     \<comment> \<open>an error value of another library function\<close>

datatype 'a res = Ok 'a | Err go_error | Panic string

fun res_bind :: "'a res \<Rightarrow> ('a \<Rightarrow> 'b res) \<Rightarrow> 'b res" where
  "res_bind (Ok x) f = f x"
| "res_bind (Err e) f = Err e"
| "res_bind (Panic p) f = Panic p"

definition res_map :: "('a \<Rightarrow> 'b) \<Rightarrow> 'a res \<Rightarrow> 'b res" where
  "res_map f r = res_bind r (\<lambda>x. Ok (f x))"

fun is_Ok :: "'a res \<Rightarrow> bool" where
  "is_Ok (Ok x) = True"
| "is_Ok (Err e) = False"
| "is_Ok (Panic p) = False"

text \<open>Running a fallible step over a list, in order, up to the first failure.\<close>

fun res_list :: "('a \<Rightarrow> 'b res) \<Rightarrow> 'a list \<Rightarrow> 'b list res" where
  "res_list f [] = Ok []"
| "res_list f (x # xs) = res_bind (f x) (\<lambda>y. res_bind (res_list f xs) (\<lambda>ys. Ok (y # ys)))"

fun res_fold :: "('a \<Rightarrow> 's \<Rightarrow> 's res) \<Rightarrow> 'a list \<Rightarrow> 's \<Rightarrow> 's res" where
  "res_fold f [] s = Ok s"
| "res_fold f (x # xs) s = res_bind (f x s) (res_fold f xs)"

lemma res_bind_eq_Ok [simp]: "res_bind r f = Ok y \<longleftrightarrow> (\<exists>x. r = Ok x \<and> f x = Ok y)"
  by (cases r) auto

lemma res_bind_eq_Err: "res_bind r f = Err e \<longleftrightarrow> r = Err e \<or> (\<exists>x. r = Ok x \<and> f x = Err e)"
  by (cases r) auto

lemma res_bind_eq_Panic:
  "res_bind r f = Panic p \<longleftrightarrow> r = Panic p \<or> (\<exists>x. r = Ok x \<and> f x = Panic p)"
  by (cases r) auto

lemma res_bind_Ok_right [simp]: "res_bind r Ok = r"
  by (cases r) auto

lemma res_bind_assoc: "res_bind (res_bind r f) g = res_bind r (\<lambda>x. res_bind (f x) g)"
  by (cases r) auto

lemma res_map_simps [simp]:
  "res_map f (Ok x) = Ok (f x)"
  "res_map f (Err e) = Err e"
  "res_map f (Panic p) = Panic p"
  by (simp_all add: res_map_def)

lemma is_Ok_iff: "is_Ok r \<longleftrightarrow> (\<exists>x. r = Ok x)"
  by (cases r) auto

lemma res_bind_cong [fundef_cong]:
  "r = r' \<Longrightarrow> (\<And>x. r' = Ok x \<Longrightarrow> f x = g x) \<Longrightarrow> res_bind r f = res_bind r' g"
  by (cases r') auto

lemma res_list_cong [fundef_cong]:
  "xs = ys \<Longrightarrow> (\<And>x. x \<in> set ys \<Longrightarrow> f x = g x) \<Longrightarrow> res_list f xs = res_list g ys"
proof (induction ys arbitrary: xs)
  case (Cons y ys)
  have "res_list f ys = res_list g ys"
    using Cons.IH [of ys] Cons.prems(2) by simp
  with Cons.prems show ?case by simp
qed simp

lemma res_list_eq_Ok:
  "res_list f xs = Ok ys \<longleftrightarrow> list_all2 (\<lambda>x y. f x = Ok y) xs ys"
  by (induction xs arbitrary: ys) (auto simp: list_all2_Cons1)

lemma res_list_Ok_all: "(\<And>x. x \<in> set xs \<Longrightarrow> f x = Ok (g x)) \<Longrightarrow> res_list f xs = Ok (map g xs)"
  by (induction xs) auto

lemma res_list_succeeds: "(\<And>x. x \<in> set xs \<Longrightarrow> \<exists>y. f x = Ok y) \<Longrightarrow> \<exists>ys. res_list f xs = Ok ys"
  by (induction xs) auto

lemma res_fold_append: "res_fold f (xs @ ys) s = res_bind (res_fold f xs s) (res_fold f ys)"
proof (induction xs arbitrary: s)
  case (Cons x xs)
  then show ?case by (cases "f x s") auto
qed simp

text \<open>A predicate every step keeps holds after the loop.\<close>

lemma res_fold_invariant:
  assumes "res_fold f xs s = Ok t" and "P s"
    and "\<And>x s s'. x \<in> set xs \<Longrightarrow> P s \<Longrightarrow> f x s = Ok s' \<Longrightarrow> P s'"
  shows "P t"
  using assms
proof (induction xs arbitrary: s)
  case (Cons x xs)
  from Cons.prems(1) obtain s' where s': "f x s = Ok s'" "res_fold f xs s' = Ok t"
    by auto
  from Cons.prems(2,3) s'(1) have "P s'" by auto
  with s'(2) Cons.prems(3) show ?case
    using Cons.IH [of s'] by auto
qed simp

section \<open>Go maps\<close>

type_synonym ('k, 'v) gomap = "('k \<times> 'v) list"

text \<open>\<^verbatim>\<open>m[k] = v\<close> keeps the position of a present key and adds an absent one at the end.\<close>

abbreviation gostore :: "'k \<Rightarrow> 'v \<Rightarrow> ('k, 'v) gomap \<Rightarrow> ('k, 'v) gomap" where
  "gostore \<equiv> AList.update"

abbreviation godelete :: "'k \<Rightarrow> ('k, 'v) gomap \<Rightarrow> ('k, 'v) gomap" where
  "godelete \<equiv> AList.delete"

abbreviation golookup :: "('k, 'v) gomap \<Rightarrow> 'k \<Rightarrow> 'v option" where
  "golookup \<equiv> map_of"

definition gokeys :: "('k, 'v) gomap \<Rightarrow> 'k list" where
  "gokeys m = map fst m"

definition gomap_ok :: "('k, 'v) gomap \<Rightarrow> bool" where
  "gomap_ok m \<longleftrightarrow> distinct (gokeys m)"

definition gohas :: "('k, 'v) gomap \<Rightarrow> 'k \<Rightarrow> bool" where
  "gohas m k \<longleftrightarrow> golookup m k \<noteq> None"

text \<open>Storing every entry of a list, in order.\<close>

definition gostore_all :: "('k, 'v) gomap \<Rightarrow> ('k, 'v) gomap \<Rightarrow> ('k, 'v) gomap" where
  "gostore_all kvs m = fold (\<lambda>(k, v). gostore k v) kvs m"

text \<open>Two maps with the same entries, whatever the order.\<close>

definition gomap_eq :: "('k, 'v) gomap \<Rightarrow> ('k, 'v) gomap \<Rightarrow> bool" where
  "gomap_eq m n \<longleftrightarrow> map_of m = map_of n"

lemma golookup_gostore [simp, go_map_simps]:
  "golookup (gostore k v m) k' = (if k' = k then Some v else golookup m k')"
  by (simp add: AList.update_conv')

lemma gokeys_gostore [simp]:
  "set (gokeys (gostore k v m)) = insert k (set (gokeys m))"
  by (simp add: gokeys_def AList.dom_update)

lemma gohas_iff: "gohas m k \<longleftrightarrow> k \<in> set (gokeys m)"
  by (auto simp: gohas_def gokeys_def map_of_eq_None_iff)

lemma gomap_ok_Nil [simp]: "gomap_ok []"
  by (simp add: gomap_ok_def gokeys_def)

lemma gomap_ok_gostore [simp]: "gomap_ok m \<Longrightarrow> gomap_ok (gostore k v m)"
  by (simp add: gomap_ok_def gokeys_def AList.distinct_update)

lemma gomap_ok_godelete [simp]: "gomap_ok m \<Longrightarrow> gomap_ok (godelete k m)"
  by (simp add: gomap_ok_def gokeys_def AList.distinct_delete)

lemma golookup_in_set: "gomap_ok m \<Longrightarrow> golookup m k = Some v \<longleftrightarrow> (k, v) \<in> set m"
  by (simp add: gomap_ok_def gokeys_def)

lemma gokeys_Nil [simp]: "gokeys [] = []"
  by (simp add: gokeys_def)

lemma length_gokeys [simp]: "length (gokeys m) = length m"
  by (simp add: gokeys_def)

text \<open>
  The interface of a key-value store and what follows for loops that fill one: the last
  store of a key wins, and with distinct keys the order of the loop does not matter.
\<close>

locale kv_store =
  fixes store :: "'k \<Rightarrow> 'v \<Rightarrow> 'm \<Rightarrow> 'm"
    and lookup :: "'m \<Rightarrow> 'k \<Rightarrow> 'v option"
  assumes lookup_store: "lookup (store k v m) k' = (if k' = k then Some v else lookup m k')"
begin

lemma lookup_fold_store:
  "lookup (fold (\<lambda>(k, v). store k v) kvs m) k
    = (case map_of (rev kvs) k of Some v \<Rightarrow> Some v | None \<Rightarrow> lookup m k)"
proof (induction kvs arbitrary: m)
  case (Cons kv kvs)
  then show ?case
    by (cases kv) (auto simp: lookup_store map_add_def split: option.splits)
qed simp

lemma lookup_fold_store_distinct:
  assumes "distinct (map fst kvs)"
  shows "lookup (fold (\<lambda>(k, v). store k v) kvs m) k
    = (case map_of kvs k of Some v \<Rightarrow> Some v | None \<Rightarrow> lookup m k)"
proof -
  have "map_of (rev kvs) = map_of kvs"
    using assms by (intro map_of_inject_set [THEN iffD2]) (auto simp: rev_map [symmetric])
  then show ?thesis by (simp add: lookup_fold_store)
qed

lemma fold_store_order:
  assumes "distinct (map fst kvs)" and "mset kvs = mset kvs'"
  shows "lookup (fold (\<lambda>(k, v). store k v) kvs m) = lookup (fold (\<lambda>(k, v). store k v) kvs' m)"
proof -
  have d: "distinct (map fst kvs')"
    using assms by (metis mset_map mset_eq_imp_distinct_iff)
  have "map_of kvs = map_of kvs'"
    using assms d by (intro map_of_inject_set [THEN iffD2]) (auto dest: mset_eq_setD)
  then show ?thesis
    by (intro ext) (simp add: lookup_fold_store_distinct assms(1) d)
qed

end

interpretation gomap: kv_store gostore golookup
  by unfold_locales (rule golookup_gostore)

lemma golookup_gostore_all [go_map_simps]:
  "golookup (gostore_all kvs m) k
    = (case map_of (rev kvs) k of Some v \<Rightarrow> Some v | None \<Rightarrow> golookup m k)"
  unfolding gostore_all_def by (rule gomap.lookup_fold_store)

lemma gomap_ok_gostore_all [simp]: "gomap_ok m \<Longrightarrow> gomap_ok (gostore_all kvs m)"
  unfolding gostore_all_def
  by (induction kvs arbitrary: m) (auto split: prod.splits)

lemma gokeys_gostore_all [simp]:
  "set (gokeys (gostore_all kvs m)) = set (gokeys kvs) \<union> set (gokeys m)"
  unfolding gostore_all_def
proof (induction kvs arbitrary: m)
  case (Cons kv kvs)
  then show ?case by (cases kv) (simp add: gokeys_def AList.dom_update Un_commute)
qed simp

section \<open>The in-place reversal loop\<close>

text \<open>
  \<^verbatim>\<open>for i < j { a[i], a[j] = a[j], a[i]; i++; j-- }\<close>, which the code writes three times.
  The loop runs only while \<open>i < j\<close>, so \<open>j - 1\<close> never goes below zero.
\<close>

function swap_loop :: "'a list \<Rightarrow> nat \<Rightarrow> nat \<Rightarrow> 'a list" where
  "swap_loop xs i j =
     (if i < j then swap_loop (xs[i := xs ! j, j := xs ! i]) (Suc i) (j - 1) else xs)"
  by pat_completeness auto
termination
  by (relation "measure (\<lambda>(xs, i, j). j - i)") auto

declare swap_loop.simps [simp del]

lemma length_swap_loop [simp]: "length (swap_loop xs i j) = length xs"
proof (induction xs i j rule: swap_loop.induct)
  case (1 xs i j)
  then show ?case by (subst swap_loop.simps) simp
qed

lemma nth_swap_loop:
  "j < length xs \<Longrightarrow> k < length xs \<Longrightarrow>
   swap_loop xs i j ! k = (if i \<le> k \<and> k \<le> j then xs ! (i + j - k) else xs ! k)"
proof (induction xs i j rule: swap_loop.induct)
  case (1 xs i j)
  show ?case
  proof (cases "i < j")
    case True
    let ?ys = "xs[i := xs ! j, j := xs ! i]"
    have "swap_loop ?ys (Suc i) (j - 1) ! k =
        (if Suc i \<le> k \<and> k \<le> j - 1 then ?ys ! (Suc i + (j - 1) - k) else ?ys ! k)"
      using "1.IH" [OF True] "1.prems" True by simp
    moreover have "Suc i + (j - 1) = i + j" using True by simp
    ultimately show ?thesis
      using True "1.prems"
      by (subst swap_loop.simps) (auto simp: nth_list_update)
  next
    case False
    then have "i \<le> k \<and> k \<le> j \<Longrightarrow> i + j - k = k" by linarith
    with False show ?thesis by (subst swap_loop.simps) simp
  qed
qed

lemma swap_loop_rev: "swap_loop xs 0 (length xs - 1) = rev xs"
proof (cases "xs = []")
  case False
  then show ?thesis
    by (intro nth_equalityI) (auto simp: nth_swap_loop rev_nth)
qed (subst swap_loop.simps, simp)

end
