(* ===== verification/Go_Strings.thy ===== *)
theory Go_Strings
  imports Go_Prelude
begin

text \<open>
  The functions of Go's \<^verbatim>\<open>strings\<close>, \<^verbatim>\<open>strconv\<close> and \<^verbatim>\<open>time\<close> packages that the sources call,
  with the facts about them the component theories use.
\<close>

section \<open>Characters\<close>

abbreviation (input) LF :: char where "LF \<equiv> CHR 0x0A"
abbreviation (input) CR :: char where "CR \<equiv> CHR 0x0D"
abbreviation (input) SP :: char where "SP \<equiv> CHR 0x20"
abbreviation (input) DQ :: char where "DQ \<equiv> CHR 0x22"
abbreviation (input) BS :: char where "BS \<equiv> CHR 0x5C"
abbreviation (input) SLASH :: char where "SLASH \<equiv> CHR 0x2F"
abbreviation (input) STAR :: char where "STAR \<equiv> CHR 0x2A"

section \<open>Prefixes, suffixes and searching\<close>

definition HasPrefix :: "string \<Rightarrow> string \<Rightarrow> bool" where
  "HasPrefix s p \<longleftrightarrow> take (length p) s = p"

definition HasSuffix :: "string \<Rightarrow> string \<Rightarrow> bool" where
  "HasSuffix s p \<longleftrightarrow> length p \<le> length s \<and> drop (length s - length p) s = p"

definition TrimPrefix :: "string \<Rightarrow> string \<Rightarrow> string" where
  "TrimPrefix s p = (if HasPrefix s p then drop (length p) s else s)"

definition TrimSuffix :: "string \<Rightarrow> string \<Rightarrow> string" where
  "TrimSuffix s p = (if HasSuffix s p then take (length s - length p) s else s)"

text \<open>\<^verbatim>\<open>strings.Index\<close> and \<^verbatim>\<open>strings.LastIndex\<close>; \<open>None\<close> is Go's -1.\<close>

fun Index :: "string \<Rightarrow> string \<Rightarrow> nat option" where
  "Index [] p = (if p = [] then Some 0 else None)"
| "Index (c # s) p = (if HasPrefix (c # s) p then Some 0 else map_option Suc (Index s p))"

fun LastIndex :: "string \<Rightarrow> string \<Rightarrow> nat option" where
  "LastIndex [] p = (if p = [] then Some 0 else None)"
| "LastIndex (c # s) p =
     (case LastIndex s p of
        Some i \<Rightarrow> Some (Suc i)
      | None \<Rightarrow> if HasPrefix (c # s) p then Some 0 else None)"

section \<open>Splitting and joining\<close>

lemma HasPrefix_iff [go_string_simps]: "HasPrefix s p \<longleftrightarrow> (\<exists>r. s = p @ r)"
  unfolding HasPrefix_def by (metis append_eq_conv_conj append_take_drop_id)

lemma HasPrefix_append [simp]: "HasPrefix (p @ r) p"
  by (simp add: HasPrefix_def)

lemma LastIndex_prefix: "LastIndex s p = Some i \<Longrightarrow> HasPrefix (drop i s) p"
  by (induction s p arbitrary: i rule: LastIndex.induct) (auto simp: HasPrefix_def split: option.splits if_splits)

lemma Index_Some:
  assumes "Index s p = Some i"
  shows "\<exists>a b. s = a @ p @ b \<and> length a = i"
  using assms
proof (induction s arbitrary: i)
  case (Cons c s)
  show ?case
  proof (cases "HasPrefix (c # s) p")
    case True
    with Cons.prems show ?thesis
      by (auto simp: HasPrefix_iff)
  next
    case False
    with Cons.prems obtain j where j: "Index s p = Some j" "i = Suc j"
      by auto
    from Cons.IH [OF j(1)] obtain a b where "s = a @ p @ b" "length a = j"
      by auto
    then have "c # s = (c # a) @ p @ b" "length (c # a) = i"
      using j(2) by auto
    then show ?thesis by blast
  qed
qed (auto split: if_splits)

lemma Index_bound: "Index s p = Some i \<Longrightarrow> i + length p \<le> length s"
  by (auto dest!: Index_Some)

text \<open>
  \<^verbatim>\<open>strings.Split\<close>.  An empty separator makes Go split into characters; the custom
  resource definition gives separators a minimal length of one.
\<close>

function Split :: "string \<Rightarrow> string \<Rightarrow> string list" where
  "Split s p =
     (if p = [] then map (\<lambda>c. [c]) s
      else case Index s p of
             None \<Rightarrow> [s]
           | Some i \<Rightarrow> take i s # Split (drop (i + length p) s) p)"
  by pat_completeness auto
termination
proof (relation "measure (\<lambda>(s, p). length s)", goal_cases)
  case (2 s p i)
  then have "i + length p \<le> length s" and "0 < length p"
    by (auto dest: Index_bound)
  then have "length s - (i + length p) < length s" by linarith
  then show ?case by simp
qed simp

declare Split.simps [simp del]

fun Join :: "string list \<Rightarrow> string \<Rightarrow> string" where
  "Join [] p = []"
| "Join [x] p = x"
| "Join (x # y # ys) p = x @ p @ Join (y # ys) p"

lemma Split_nonempty: "p \<noteq> [] \<Longrightarrow> Split s p \<noteq> []"
  by (subst Split.simps) (simp split: option.split)

lemma Join_Cons: "ys \<noteq> [] \<Longrightarrow> Join (x # ys) p = x @ p @ Join ys p"
  by (cases ys) auto

lemma Join_Split: "p \<noteq> [] \<Longrightarrow> Join (Split s p) p = s"
proof (induction s p rule: Split.induct)
  case (1 s p)
  show ?case
  proof (cases "Index s p")
    case None
    with "1.prems" show ?thesis by (subst Split.simps) simp
  next
    case (Some i)
    from Index_Some [OF Some] obtain a b where s: "s = a @ p @ b" "length a = i" by blast
    have "Join (Split (drop (i + length p) s) p) p = drop (i + length p) s"
      using "1.IH" "1.prems" Some by blast
    then show ?thesis
      using "1.prems" Some s
      by (subst Split.simps) (simp add: Join_Cons Split_nonempty)
  qed
qed

text \<open>Single separator characters.\<close>

lemma Index_absent: "c \<notin> set s \<Longrightarrow> Index s [c] = None"
  by (induction s) (auto simp: HasPrefix_def)

lemma LastIndex_absent: "c \<notin> set s \<Longrightarrow> LastIndex s [c] = None"
  by (induction s) (auto simp: HasPrefix_def)

lemma Index_char_append: "c \<notin> set s \<Longrightarrow> Index (s @ c # t) [c] = Some (length s)"
  by (induction s) (auto simp: HasPrefix_def)

lemma Split_Join_char:
  assumes "xs \<noteq> []" and "\<forall>x \<in> set xs. c \<notin> set x"
  shows "Split (Join xs [c]) [c] = xs"
  using assms
proof (induction xs "[c]" rule: Join.induct)
  case (2 x)
  then show ?case by (subst Split.simps) (simp add: Index_absent)
next
  case (3 x y ys)
  then show ?case by (subst Split.simps) (simp add: Index_char_append)
qed simp

lemma Split_inject: "p \<noteq> [] \<Longrightarrow> Split s p = Split t p \<Longrightarrow> s = t"
  by (metis Join_Split)

section \<open>Case, white space and trimming\<close>

definition lower_char :: "char \<Rightarrow> char" where
  "lower_char c = (if CHR ''A'' \<le> c \<and> c \<le> CHR ''Z'' then char_of (of_char c + (32 :: nat)) else c)"

definition ToLower :: "string \<Rightarrow> string" where
  "ToLower s = map lower_char s"

definition EqualFold :: "string \<Rightarrow> string \<Rightarrow> bool" where
  "EqualFold s t \<longleftrightarrow> ToLower s = ToLower t"

text \<open>\<^verbatim>\<open>strings.Trim(s, cutset)\<close>: leading and trailing characters of the set are removed.\<close>

definition Trim :: "string \<Rightarrow> string \<Rightarrow> string" where
  "Trim s cutset =
     rev (dropWhile (\<lambda>c. c \<in> set cutset) (rev (dropWhile (\<lambda>c. c \<in> set cutset) s)))"

definition space_chars :: string where
  "space_chars = [CHR 0x09, CHR 0x0A, CHR 0x0B, CHR 0x0C, CHR 0x0D, CHR '' '']"

definition TrimSpace :: "string \<Rightarrow> string" where
  "TrimSpace s = Trim s space_chars"

lemma length_ToLower [simp]: "length (ToLower s) = length s"
  by (simp add: ToLower_def)

lemma ToLower_append [simp]: "ToLower (s @ t) = ToLower s @ ToLower t"
  by (simp add: ToLower_def)

lemma EqualFold_refl [simp]: "EqualFold s s"
  by (simp add: EqualFold_def)

section \<open>Decimal numbers\<close>

definition digit_val :: "char \<Rightarrow> nat option" where
  "digit_val c = (if CHR ''0'' \<le> c \<and> c \<le> CHR ''9'' then Some (of_char c - 48) else None)"

fun digits_val :: "nat \<Rightarrow> string \<Rightarrow> nat option" where
  "digits_val n [] = Some n"
| "digits_val n (c # s) =
     (case digit_val c of None \<Rightarrow> None | Some d \<Rightarrow> digits_val (10 * n + d) s)"

text \<open>
  \<^verbatim>\<open>strconv.Atoi\<close>: an optional sign, at least one decimal digit and nothing else, in the
  range of a 64-bit signed integer; \<open>None\<close> is a non-nil error.
\<close>

definition Atoi :: "string \<Rightarrow> int option" where
  "Atoi s =
     (let neg = (s \<noteq> [] \<and> hd s = CHR ''-'');
          ds = (if s \<noteq> [] \<and> (hd s = CHR ''-'' \<or> hd s = CHR ''+'') then tl s else s)
      in if ds = [] then None
         else case digits_val 0 ds of
                None \<Rightarrow> None
              | Some n \<Rightarrow>
                  let v = (if neg then - int n else int n)
                  in if - (2 ^ 63) \<le> v \<and> v < 2 ^ 63 then Some v else None)"

definition digit_char :: "nat \<Rightarrow> char" where
  "digit_char d = char_of (48 + d)"

fun Itoa :: "nat \<Rightarrow> string" where
  "Itoa n = (if n < 10 then [digit_char n] else Itoa (n div 10) @ [digit_char (n mod 10)])"

declare Itoa.simps [simp del]

lemma digit_val_digit_char: "d < 10 \<Longrightarrow> digit_val (digit_char d) = Some d"
  by (auto simp: digit_val_def digit_char_def less_eq_char_def)

lemma digits_val_append:
  "digits_val n (s @ t) = (case digits_val n s of None \<Rightarrow> None | Some m \<Rightarrow> digits_val m t)"
  by (induction s arbitrary: n) (auto split: option.splits)

lemma Itoa_nonempty [simp]: "Itoa n \<noteq> []"
  by (subst Itoa.simps) simp

lemma digits_val_Itoa: "digits_val 0 (Itoa n) = Some n"
proof (induction n rule: Itoa.induct)
  case (1 n)
  show ?case
  proof (cases "n < 10")
    case True
    then show ?thesis by (subst Itoa.simps) (simp add: digit_val_digit_char)
  next
    case False
    with "1.IH" show ?thesis
      by (subst Itoa.simps) (simp add: digits_val_append digit_val_digit_char)
  qed
qed

lemma Itoa_digits: "c \<in> set (Itoa n) \<Longrightarrow> digit_val c \<noteq> None"
proof (induction n rule: Itoa.induct)
  case (1 n)
  then show ?case
    by (subst (asm) Itoa.simps) (auto simp: digit_val_digit_char split: if_splits)
qed

lemma Atoi_Itoa: "int n < 2 ^ 63 \<Longrightarrow> Atoi (Itoa n) = Some (int n)"
proof -
  assume n: "int n < 2 ^ 63"
  have "digit_val (hd (Itoa n)) \<noteq> None"
    by (intro Itoa_digits [of _ n]) simp
  then have "hd (Itoa n) \<noteq> CHR ''-''" "hd (Itoa n) \<noteq> CHR ''+''"
    by (auto simp: digit_val_def less_eq_char_def)
  with n show ?thesis
    by (simp add: Atoi_def digits_val_Itoa Let_def)
qed

lemma Itoa_inject: "Itoa m = Itoa n \<Longrightarrow> m = n"
  by (metis digits_val_Itoa option.inject)

section \<open>Machine integers and time\<close>

text \<open>
  Durations are 64-bit signed nanosecond counts; arithmetic that can leave the range wraps.
  A \<^verbatim>\<open>metav1.Time\<close> is its distance in nanoseconds from the zero time, so \<open>IsZero t\<close> is
  \<open>t = 0\<close>; \<^verbatim>\<open>Time.Sub\<close> saturates at the duration range.
\<close>

type_synonym go_time = int
type_synonym duration = int

definition wrap64 :: "int \<Rightarrow> int" where
  "wrap64 x = (x + 2 ^ 63) mod 2 ^ 64 - 2 ^ 63"

definition time_Sub :: "go_time \<Rightarrow> go_time \<Rightarrow> duration" where
  "time_Sub t u = max (- (2 ^ 63)) (min (2 ^ 63 - 1) (t - u))"

definition second :: duration where "second = 1000000000"
definition millisecond :: duration where "millisecond = 1000000"
definition minute :: duration where "minute = 60000000000"
definition hour :: duration where "hour = 3600000000000"

lemma wrap64_id: "- (2 ^ 63) \<le> x \<Longrightarrow> x < 2 ^ 63 \<Longrightarrow> wrap64 x = x"
  by (simp add: wrap64_def)

lemma wrap64_range: "- (2 ^ 63) \<le> wrap64 x" "wrap64 x < 2 ^ 63"
proof -
  have "0 \<le> (x + 2 ^ 63) mod 2 ^ 64" "(x + 2 ^ 63) mod 2 ^ 64 < 2 ^ 64"
    by simp_all
  moreover have "(2 :: int) ^ 64 = 2 ^ 63 + 2 ^ 63" by simp
  ultimately show "- (2 ^ 63) \<le> wrap64 x" "wrap64 x < 2 ^ 63"
    unfolding wrap64_def by linarith+
qed

lemmas duration_defs = second_def millisecond_def minute_def hour_def

end
