(* ===== verification/Api_Types.thy ===== *)
theory Api_Types
  imports Go_Strings
begin

text \<open>
  The custom resource of \<^verbatim>\<open>api/v1/azureappconfigurationprovider_types.go\<close>: one record per
  struct, field names prefixed by the struct, and the conversion between a selector and
  the comparable form that keys the ETag maps.  Dynamic values (Go's \<^verbatim>\<open>interface{}\<close> as
  \<^verbatim>\<open>encoding/json\<close> fills it) and the document codecs of the libraries are here too.
\<close>

section \<open>Dynamic values and codecs\<close>

text \<open>
  \<^verbatim>\<open>interface{}\<close> as JSON and YAML produce it.  A number is the text Go prints for it.
\<close>

datatype go_value =
    VNil
  | VBool bool
  | VNum string
  | VStr string
  | VList "go_value list"
  | VMap "(string \<times> go_value) list"

type_synonym object = "(string, go_value) gomap"

text \<open>
  The encoders and decoders of \<^verbatim>\<open>encoding/json\<close> and \<^verbatim>\<open>gopkg.in/yaml.v3\<close>: parameters of the
  model, which the definitions that marshal or unmarshal take as an argument.  The controller's
  \<^verbatim>\<open>utils.go\<close> imports \<^verbatim>\<open>gopkg.in/yaml.v2\<close> instead, a decoder of its own, and ignores its error:
  \<^verbatim>\<open>yaml_v2_Unmarshal\<close> is what it leaves in a nil map, with the keys of nested maps, of any type
  there, as texts.
\<close>

record codec =
  json_Marshal :: "go_value \<Rightarrow> string res"
  json_Unmarshal :: "string \<Rightarrow> go_value res"
  yaml_Marshal :: "go_value \<Rightarrow> string res"
  yaml_Unmarshal :: "string \<Rightarrow> go_value res"
  yaml_v2_Unmarshal :: "string \<Rightarrow> object option"

text \<open>
  Unmarshalling into a \<^verbatim>\<open>map[string]interface{}\<close>: null gives the nil map, anything but an
  object is a type error.
\<close>

fun as_object :: "go_value \<Rightarrow> object option res" where
  "as_object (VMap m) = Ok (Some m)"
| "as_object VNil = Ok None"
| "as_object _ = Err (LibError ''cannot unmarshal into Go value of type map'')"

text \<open>Unmarshalling into a \<^verbatim>\<open>[]string\<close>: null elements stay the empty string.\<close>

fun as_string :: "go_value \<Rightarrow> string res" where
  "as_string (VStr s) = Ok s"
| "as_string VNil = Ok []"
| "as_string _ = Err (LibError ''cannot unmarshal into Go value of type string'')"

fun as_strings :: "go_value \<Rightarrow> string list option res" where
  "as_strings (VList vs) = res_map Some (res_list as_string vs)"
| "as_strings VNil = Ok None"
| "as_strings _ = Err (LibError ''cannot unmarshal into Go value of type []string'')"

text \<open>
  \<^verbatim>\<open>reflect.DeepEqual\<close> on such values: lists element by element, maps with equal key sets
  and deeply equal values, whatever their order.
\<close>

function (sequential) deep_eq :: "go_value \<Rightarrow> go_value \<Rightarrow> bool" where
  "deep_eq (VMap m) (VMap n) \<longleftrightarrow>
     length m = length n \<and>
     list_all (\<lambda>(k, v). case golookup n k of None \<Rightarrow> False | Some w \<Rightarrow> deep_eq v w) m"
| "deep_eq (VList vs) (VList ws) \<longleftrightarrow>
     length vs = length ws \<and> list_all (\<lambda>(v, w). deep_eq v w) (zip vs ws)"
| "deep_eq v w \<longleftrightarrow> v = w"
  by pat_completeness auto
termination
proof (relation "measure (size \<circ> fst)", goal_cases)
  case (2 m n x k v w)
  then have "v \<in> snd ` set m" by force
  then have "size v < size (VMap m)" by (induction m) force+
  then show ?case by simp
next
  case (3 vs ws x v w)
  then have "v \<in> set vs" by (auto dest: set_zip_leftD)
  then have "size v < size (VList vs)" by (simp add: size_list_estimation' less_Suc_eq_le)
  then show ?case by simp
qed simp

text \<open>Every map inside has distinct keys, as Go's maps do.\<close>

fun value_ok :: "go_value \<Rightarrow> bool" where
  "value_ok (VMap m) \<longleftrightarrow> gomap_ok m \<and> list_all (\<lambda>(k, v). value_ok v) m"
| "value_ok (VList vs) \<longleftrightarrow> list_all value_ok vs"
| "value_ok _ \<longleftrightarrow> True"

lemma deep_eq_refl: "value_ok v \<Longrightarrow> deep_eq v v"
proof (induction v)
  case (VMap m)
  have "\<exists>w. golookup m k = Some w \<and> deep_eq v w" if kv: "(k, v) \<in> set m" for k v
  proof -
    have "golookup m k = Some v"
      using VMap.prems kv by (simp add: golookup_in_set)
    moreover have "deep_eq v v"
      using VMap.IH [OF kv, of v] VMap.prems kv by (auto simp: list_all_iff)
    ultimately show ?thesis by blast
  qed
  then show ?case by (fastforce simp: list_all_iff)
next
  case (VList vs)
  then show ?case by (auto simp: list_all_iff set_zip)
qed auto

text \<open>An encoder and a decoder agree on a value, up to the order of maps.\<close>

definition round_trips :: "(go_value \<Rightarrow> string res) \<Rightarrow> (string \<Rightarrow> go_value res) \<Rightarrow> go_value \<Rightarrow> bool" where
  "round_trips enc dec v \<longleftrightarrow> (\<exists>s w. enc v = Ok s \<and> dec s = Ok w \<and> value_ok w \<and> deep_eq v w)"

lemma deep_eq_VMap_left: "deep_eq (VMap m) w \<longleftrightarrow> (\<exists>n. w = VMap n \<and> deep_eq (VMap m) (VMap n))"
  by (cases w) auto

lemma deep_eq_lookup:
  assumes "deep_eq (VMap m) (VMap n)" and "gomap_ok m"
  shows "golookup m k = Some v \<Longrightarrow> \<exists>w. golookup n k = Some w \<and> deep_eq v w"
  using assms by (fastforce simp: list_all_iff golookup_in_set split: option.splits)

lemma deep_eq_keys:
  assumes "deep_eq (VMap m) (VMap n)" and "gomap_ok m" and "gomap_ok n"
  shows "set (gokeys n) = set (gokeys m)"
proof -
  have "k \<in> set (gokeys n)" if "k \<in> set (gokeys m)" for k
  proof -
    from that obtain v where "golookup m k = Some v"
      by (auto simp: gohas_iff [symmetric] gohas_def)
    with deep_eq_lookup [OF assms(1,2)] show ?thesis
      by (auto simp: gohas_iff [symmetric] gohas_def)
  qed
  then have "set (gokeys m) \<subseteq> set (gokeys n)" by blast
  moreover have "card (set (gokeys m)) = card (set (gokeys n))"
    using assms by (simp add: gomap_ok_def distinct_card)
  ultimately show ?thesis
    using card_subset_eq [of "set (gokeys n)" "set (gokeys m)"] by simp
qed

lemma length_godelete:
  assumes "gomap_ok m"
  shows "length (godelete k m) = (if k \<in> set (gokeys m) then length m - 1 else length m)"
proof -
  have "length (godelete k m) = card (set (gokeys (godelete k m)))"
    using assms by (simp add: gomap_ok_godelete [unfolded gomap_ok_def] gomap_ok_def distinct_card)
  moreover have "set (gokeys (godelete k m)) = set (gokeys m) - {k}"
    by (simp add: gokeys_def AList.delete_keys)
  moreover have "card (set (gokeys m)) = length m"
    using assms by (simp add: gomap_ok_def distinct_card)
  ultimately show ?thesis by (simp add: card_Diff_singleton)
qed

text \<open>Deep equality survives the removal of a key on both sides.\<close>

lemma deep_eq_godelete:
  assumes "deep_eq (VMap m) (VMap n)" and "gomap_ok m" and "gomap_ok n"
  shows "deep_eq (VMap (godelete k m)) (VMap (godelete k n))"
proof -
  have "length m = length n" using assms(1) by simp
  then have "length (godelete k m) = length (godelete k n)"
    using assms deep_eq_keys [OF assms] by (simp add: length_godelete)
  moreover have "\<exists>w. golookup (godelete k n) k' = Some w \<and> deep_eq v w"
    if "(k', v) \<in> set (godelete k m)" for k' v
  proof -
    from that have "k' \<noteq> k" and kv: "(k', v) \<in> set m"
      by (auto simp: AList.delete_eq)
    then have "golookup m k' = Some v" using assms(2) by (simp add: golookup_in_set)
    with deep_eq_lookup [OF assms(1,2)] \<open>k' \<noteq> k\<close> show ?thesis
      by (simp add: AList.delete_conv')
  qed
  ultimately show ?thesis by (fastforce simp: list_all_iff)
qed

section \<open>The resource\<close>

datatype DataType = Default | Properties | Yaml | Json | OtherDataType string

record DataOptions =
  do_Type :: DataType
  do_Key :: string
  do_Separator :: "string option"

record ConfigurationGenerationParameters =
  ct_ConfigMapName :: string
  ct_ConfigMapData :: "DataOptions option"

text \<open>\<open>sel_TagFilters\<close> tells a nil slice from an empty one, as the validation does.\<close>

record Selector =
  sel_KeyFilter :: "string option"
  sel_LabelFilter :: "string option"
  sel_TagFilters :: "string list option"
  sel_SnapshotName :: "string option"

text \<open>
  A sentinel is the key of Go maps, and its label is a pointer: two sentinels are the same
  key only when the pointers are.  A pointer to a string is its address and what it points to.
\<close>

type_synonym str_ptr = "nat \<times> string"

record Sentinel =
  sen_Key :: string
  sen_Label :: "str_ptr option"

record RefreshMonitoring =
  mon_Sentinels :: "Sentinel list"

record DynamicConfigurationRefreshParameters =
  dr_Monitoring :: "RefreshMonitoring option"
  dr_Interval :: string
  dr_Enabled :: bool

record AzureAppConfigurationKeyValueOptions =
  kvo_Selectors :: "Selector list"
  kvo_TrimKeyPrefixes :: "string list"
  kvo_Refresh :: "DynamicConfigurationRefreshParameters option"

record FeatureFlagRefreshSettings =
  ffr_Interval :: string
  ffr_Enabled :: bool

record AzureAppConfigurationFeatureFlagOptions =
  ff_Selectors :: "Selector list"
  ff_Refresh :: "FeatureFlagRefreshSettings option"

record ManagedIdentityReferenceParameters =
  mir_ConfigMap :: string
  mir_Key :: string

record WorkloadIdentityParameters =
  wi_ManagedIdentityClientId :: "string option"
  wi_ManagedIdentityClientIdReference :: "ManagedIdentityReferenceParameters option"
  wi_ServiceAccountName :: "string option"

record AzureAppConfigurationProviderAuth =
  auth_ManagedIdentityClientId :: "string option"
  auth_ServicePrincipalReference :: "string option"
  auth_WorkloadIdentity :: "WorkloadIdentityParameters option"

record AzureKeyVaultPerVaultAuth =
  kv_Uri :: string
  kv_Auth :: "AzureAppConfigurationProviderAuth option"

record AzureKeyVaultAuth =
  kva_Auth :: "AzureAppConfigurationProviderAuth option"
  kva_KeyVaults :: "AzureKeyVaultPerVaultAuth list"

record RefreshSettings =
  rs_Interval :: string
  rs_Enabled :: bool

record SecretGenerationParameters =
  sg_SecretName :: string
  sg_SecretData :: "DataOptions option"

record SecretReferenceOptions =
  sr_Target :: SecretGenerationParameters
  sr_Auth :: "AzureKeyVaultAuth option"
  sr_Refresh :: "RefreshSettings option"

record ProviderSpec =
  spec_Endpoint :: "string option"
  spec_ReplicaDiscoveryEnabled :: bool
  spec_LoadBalancingEnabled :: bool
  spec_ConnectionStringReference :: "string option"
  spec_Target :: ConfigurationGenerationParameters
  spec_Auth :: "AzureAppConfigurationProviderAuth option"
  spec_Configuration :: AzureAppConfigurationKeyValueOptions
  spec_Secret :: "SecretReferenceOptions option"
  spec_FeatureFlag :: "AzureAppConfigurationFeatureFlagOptions option"

datatype AppConfigurationSyncPhase =
    PhaseUnset | PhasePending | PhaseRunning | PhaseComplete | PhaseFailed | PhaseUpdateFailed

datatype StatusMessage =
    NoMessage | SyncCompleteMessage | CreateFailMessage | UpdateFailMessage | SyncRunningMessage

record RefreshStatus =
  rst_LastKeyVaultReferenceRefreshTime :: go_time
  rst_LastKeyValueRefreshTime :: go_time
  rst_LastFeatureFlagRefreshTime :: go_time

record ProviderStatus =
  st_LastReconcileTime :: go_time
  st_LastSyncTime :: go_time
  st_Phase :: AppConfigurationSyncPhase
  st_Message :: StatusMessage
  st_RefreshStatus :: RefreshStatus

text \<open>The object itself with the part of its metadata the code reads.\<close>

record Provider =
  pv_Name :: string
  pv_Namespace :: string
  pv_UID :: string
  pv_Generation :: int
  pv_Annotations :: "(string, string) gomap"
  pv_Labels :: "(string, string) gomap"
  pv_Spec :: ProviderSpec
  pv_Status :: ProviderStatus

section \<open>Comparable selectors\<close>

record ComparableSelector =
  cs_KeyFilter :: "string option"
  cs_LabelFilter :: "string option"
  cs_TagFilters :: "string option"
  cs_SnapshotName :: "string option"

definition slice :: "'a list option \<Rightarrow> 'a list" where
  "slice xs = (case xs of None \<Rightarrow> [] | Some ys \<Rightarrow> ys)"

definition MakeComparable :: "codec \<Rightarrow> Selector \<Rightarrow> ComparableSelector" where
  "MakeComparable cd selector =
     \<lparr> cs_KeyFilter = sel_KeyFilter selector,
       cs_LabelFilter = sel_LabelFilter selector,
       cs_TagFilters =
         (if length (slice (sel_TagFilters selector)) > 0 then
            (let sortedTags = sort (slice (sel_TagFilters selector))
             in case json_Marshal cd (VList (map VStr sortedTags)) of
                  Ok tagFiltersBytes \<Rightarrow> Some tagFiltersBytes
                | _ \<Rightarrow> Some (Join sortedTags '',''))
          else None),
       cs_SnapshotName = sel_SnapshotName selector \<rparr>"

definition FromComparable :: "codec \<Rightarrow> ComparableSelector \<Rightarrow> Selector" where
  "FromComparable cd c =
     \<lparr> sel_KeyFilter = cs_KeyFilter c,
       sel_LabelFilter = cs_LabelFilter c,
       sel_TagFilters =
         (case cs_TagFilters c of
            None \<Rightarrow> None
          | Some s \<Rightarrow>
              if s \<noteq> [] then
                (case res_bind (json_Unmarshal cd s) as_strings of
                   Ok tagFilters \<Rightarrow> tagFilters
                 | _ \<Rightarrow> Some (Split s '',''))
              else None),
       sel_SnapshotName = cs_SnapshotName c \<rparr>"

text \<open>
  What the code relies on in \<^verbatim>\<open>encoding/json\<close> for lists of strings: encoding succeeds with a
  non-empty text that decodes to the same list.
\<close>

definition json_strings_ok :: "codec \<Rightarrow> string set \<Rightarrow> bool" where
  "json_strings_ok cd S \<longleftrightarrow>
     (\<forall>xs. set xs \<subseteq> S \<longrightarrow>
        (\<exists>s. json_Marshal cd (VList (map VStr xs)) = Ok s \<and> s \<noteq> [] \<and>
             json_Unmarshal cd s = Ok (VList (map VStr xs))))"

lemma slice_simps [simp]: "slice None = []" "slice (Some xs) = xs"
  by (simp_all add: slice_def)

lemma res_list_as_string [simp]: "res_list as_string (map VStr xs) = Ok xs"
  by (induction xs) auto

lemma FromComparable_MakeComparable:
  assumes "json_strings_ok cd S" and "set (slice (sel_TagFilters s)) \<subseteq> S"
  shows "FromComparable cd (MakeComparable cd s)
    = s\<lparr>sel_TagFilters := (if slice (sel_TagFilters s) = [] then None
          else Some (sort (slice (sel_TagFilters s))))\<rparr>"
proof (cases "slice (sel_TagFilters s) = []")
  case True
  then show ?thesis
    by (simp add: MakeComparable_def FromComparable_def)
next
  case False
  have "set (sort (slice (sel_TagFilters s))) \<subseteq> S" using assms(2) by simp
  with assms(1) obtain t where
    "json_Marshal cd (VList (map VStr (sort (slice (sel_TagFilters s))))) = Ok t" "t \<noteq> []"
    "json_Unmarshal cd t = Ok (VList (map VStr (sort (slice (sel_TagFilters s)))))"
    unfolding json_strings_ok_def by blast
  with False show ?thesis
    by (simp add: MakeComparable_def FromComparable_def Let_def)
qed

end
