(* ===== verification/Loader_Types.thy ===== *)
theory Loader_Types
  imports Api_Types
begin

text \<open>
  The data the loader package passes around: settings of App Configuration, Key Vault
  metadata, Kubernetes secrets, and the raw and target settings of
  \<^verbatim>\<open>configuration_setting_loader.go\<close>; the error classes of \<^verbatim>\<open>errors.go\<close>.
\<close>

section \<open>Settings, secrets and metadata\<close>

type_synonym etag = string

text \<open>The fields of \<^verbatim>\<open>azappconfig.Setting\<close> the code reads; all are pointers in Go.\<close>

record Setting =
  set_Key :: "string option"
  set_Value :: "string option"
  set_Label :: "string option"
  set_ContentType :: "string option"
  set_ETag :: "etag option"
  set_Tags :: "(string, string option) gomap"

record KeyVaultSecretMetadata =
  kvm_HostName :: string
  kvm_SecretName :: string
  kvm_SecretVersion :: string

datatype SecretType = SecretTypeOpaque | SecretTypeTLS | OtherSecretType string

record TargetK8sSecretMetadata =
  tk_Type :: SecretType
  tk_SecretsKeyVaultMetadata :: "(string, KeyVaultSecretMetadata) gomap"
  tk_SecretResourceVersion :: string

text \<open>The loader's view of a \<^verbatim>\<open>corev1.Secret\<close>: its type and its data, which may be nil.\<close>

record SecretContent =
  sc_Type :: SecretType
  sc_Data :: "(string, string) gomap option"

type_synonym page_etags = "(ComparableSelector, etag option list) gomap"
type_synonym sentinel_etags = "(Sentinel, etag option) gomap"
type_synonym k8s_secrets = "(string, TargetK8sSecretMetadata) gomap"
type_synonym secret_settings = "(string, SecretContent) gomap"

record RawSettings =
  rw_KeyValueSettings :: "(string, string option) gomap"
  rw_IsJsonContentTypeMap :: "(string, bool) gomap"
  rw_FeatureFlagSettings :: "object option"
  rw_SecretSettings :: secret_settings
  rw_K8sSecrets :: k8s_secrets
  rw_KeyValueETags :: "page_etags option"
  rw_FeatureFlagETags :: "page_etags option"

record TargetKeyValueSettings =
  tg_ConfigMapSettings :: "(string, string) gomap option"
  tg_SecretSettings :: secret_settings
  tg_K8sSecrets :: k8s_secrets
  tg_KeyValueETags :: "page_etags option"
  tg_FeatureFlagETags :: "page_etags option"
  tg_SentinelETags :: "sentinel_etags option"

text \<open>\<^verbatim>\<open>&TargetKeyValueSettings{}\<close>\<close>

definition empty_target :: TargetKeyValueSettings where
  "empty_target =
     \<lparr> tg_ConfigMapSettings = None, tg_SecretSettings = [], tg_K8sSecrets = [],
       tg_KeyValueETags = None, tg_FeatureFlagETags = None, tg_SentinelETags = None \<rparr>"

section \<open>Errors\<close>

definition NewArgumentError :: "string \<Rightarrow> go_error \<Rightarrow> go_error" where
  "NewArgumentError field err = ArgumentError field err"

text \<open>
  \<^verbatim>\<open>errors.As(err, &respErr)\<close>: the errors of this program do not wrap, so it finds a
  response error only at the top.
\<close>

fun as_response_error :: "go_error \<Rightarrow> (int \<times> string option) option" where
  "as_response_error (ResponseError code retryAfter) = Some (code, retryAfter)"
| "as_response_error _ = None"

fun is_net_error :: "go_error \<Rightarrow> bool" where
  "is_net_error (NetError _) = True"
| "is_net_error (DNSError _) = True"
| "is_net_error _ = False"

definition IsFailoverable :: "go_error \<Rightarrow> bool" where
  "IsFailoverable err =
     (if is_net_error err then True
      else case as_response_error err of
             Some (code, _) \<Rightarrow> code = 429 \<or> code = 408 \<or> 500 \<le> code
           | None \<Rightarrow> False)"

lemma IsFailoverable_iff:
  "IsFailoverable err \<longleftrightarrow>
     is_net_error err \<or> (\<exists>code h. err = ResponseError code h \<and> (code = 429 \<or> code = 408 \<or> 500 \<le> code))"
  by (cases err) (auto simp: IsFailoverable_def)

end
