(* ===== verification/Selectors.thy ===== *)
theory Selectors
  imports Loader_Types
begin

text \<open>
  The selectors of a provider as the loader uses them
  (\<^verbatim>\<open>internal/loader/configuration_setting_loader.go\<close>): labels and tags normalised,
  duplicates removed so that the last of equal selectors stays, feature flag key filters
  prefixed; the sentinels normalised; key prefixes trimmed.  The contract of a keep-last
  deduplication is a locale, which the selectors and the feature flags interpret.
\<close>

section \<open>Keep-last deduplication\<close>

text \<open>
  The loop from the last element to the first: an element goes to the end of the result
  unless the result has one that counts as the same.
\<close>

fun dedup_loop :: "('a \<Rightarrow> 'a \<Rightarrow> bool) \<Rightarrow> 'a list \<Rightarrow> nat \<Rightarrow> 'a list \<Rightarrow> 'a list" where
  "dedup_loop same xs 0 result = result"
| "dedup_loop same xs (Suc i) result =
     dedup_loop same xs i
       (if list_ex (\<lambda>r. same r (xs ! i)) result then result else result @ [xs ! i])"

text \<open>What it is meant to compute: the elements no later element equals.\<close>

fun keep_last :: "('a \<Rightarrow> 'a \<Rightarrow> bool) \<Rightarrow> 'a list \<Rightarrow> 'a list" where
  "keep_last same [] = []"
| "keep_last same (x # xs) =
     (if list_ex (\<lambda>y. same x y) xs then keep_last same xs else x # keep_last same xs)"

definition pairwise_different :: "('a \<Rightarrow> 'a \<Rightarrow> bool) \<Rightarrow> 'a list \<Rightarrow> bool" where
  "pairwise_different same xs \<longleftrightarrow> (\<forall>i j. i < j \<and> j < length xs \<longrightarrow> \<not> same (xs ! i) (xs ! j))"

lemma pairwise_different_Cons:
  "pairwise_different same (x # xs) \<longleftrightarrow>
     \<not> list_ex (same x) xs \<and> pairwise_different same xs"
proof
  assume d: "pairwise_different same (x # xs)"
  have "\<not> same x y" if "y \<in> set xs" for y
  proof -
    from that obtain j where "j < length xs" "xs ! j = y" by (auto simp: in_set_conv_nth)
    then show ?thesis
      using d [unfolded pairwise_different_def, rule_format, of 0 "Suc j"] by simp
  qed
  moreover have "\<not> same (xs ! i) (xs ! j)" if "i < j" "j < length xs" for i j
    using that d [unfolded pairwise_different_def, rule_format, of "Suc i" "Suc j"] by simp
  ultimately show "\<not> list_ex (same x) xs \<and> pairwise_different same xs"
    by (auto simp: list_ex_iff pairwise_different_def)
next
  assume r: "\<not> list_ex (same x) xs \<and> pairwise_different same xs"
  show "pairwise_different same (x # xs)"
    unfolding pairwise_different_def
  proof (intro allI impI)
    fix i j assume ij: "i < j \<and> j < length (x # xs)"
    then obtain j' where j: "j = Suc j'" by (cases j) auto
    show "\<not> same ((x # xs) ! i) ((x # xs) ! j)"
    proof (cases i)
      case 0
      then show ?thesis using r ij j by (auto simp: list_ex_iff)
    next
      case (Suc i')
      then show ?thesis using r ij j by (auto simp: pairwise_different_def)
    qed
  qed
qed

locale last_wins =
  fixes same :: "'a \<Rightarrow> 'a \<Rightarrow> bool"
  assumes same_refl: "same x x"
    and same_sym: "same x y \<Longrightarrow> same y x"
    and same_trans: "same x y \<Longrightarrow> same y z \<Longrightarrow> same x z"
begin

lemma set_keep_last: "set (keep_last same xs) \<subseteq> set xs"
  by (induction xs) auto

lemma keep_last_covers: "x \<in> set xs \<Longrightarrow> \<exists>y \<in> set (keep_last same xs). same x y"
proof (induction xs)
  case (Cons a xs)
  show ?case
  proof (cases "x = a")
    case True
    show ?thesis
    proof (cases "list_ex (same a) xs")
      case dup: True
      then obtain b where "b \<in> set xs" "same a b" by (auto simp: list_ex_iff)
      have "list_ex (same a) (keep_last same xs)"
        using \<open>b \<in> set xs\<close> \<open>same a b\<close>
      proof (induction xs arbitrary: b)
        case (Cons c xs)
        then show ?case
          by (cases "b = c") (auto simp: list_ex_iff intro: same_trans)
      qed simp
      then show ?thesis using True dup by (auto simp: list_ex_iff)
    next
      case False
      then show ?thesis using True same_refl by auto
    qed
  next
    case False
    then show ?thesis using Cons by auto
  qed
qed simp

lemma keep_last_list_ex: "list_ex (same x) (keep_last same xs) \<longleftrightarrow> list_ex (same x) xs"
proof
  assume "list_ex (same x) xs"
  then obtain y where "y \<in> set xs" "same x y" by (auto simp: list_ex_iff)
  moreover from keep_last_covers [OF this(1)] obtain z where
    "z \<in> set (keep_last same xs)" "same y z" by blast
  ultimately show "list_ex (same x) (keep_last same xs)"
    using same_trans by (auto simp: list_ex_iff)
qed (use set_keep_last in \<open>auto simp: list_ex_iff\<close>)

lemma keep_last_different: "pairwise_different same (keep_last same xs)"
  by (induction xs) (auto simp: pairwise_different_Cons keep_last_list_ex, simp add: pairwise_different_def)

lemma keep_last_id: "pairwise_different same xs \<Longrightarrow> keep_last same xs = xs"
  by (induction xs) (auto simp: pairwise_different_Cons)

lemma dedup_loop_prefix:
  "i \<le> length xs \<Longrightarrow>
   dedup_loop same xs i result =
     result @ rev (filter (\<lambda>x. \<not> list_ex (\<lambda>r. same r x) result) (keep_last same (take i xs)))"
proof (induction i arbitrary: result)
  case (Suc i)
  have snoc: "keep_last same (ys @ [a]) = filter (\<lambda>x. \<not> same a x) (keep_last same ys) @ [a]" for ys a
    by (induction ys) (auto simp: list_ex_iff intro: same_sym)
  have take: "take (Suc i) xs = take i xs @ [xs ! i]"
    using Suc.prems by (simp add: take_Suc_conv_app_nth)
  show ?case
  proof (cases "list_ex (\<lambda>r. same r (xs ! i)) result")
    case True
    then obtain r where r: "r \<in> set result" "same r (xs ! i)" by (auto simp: list_ex_iff)
    then have "list_ex (\<lambda>r. same r x) result" if "same (xs ! i) x" for x
      using that same_trans by (auto simp: list_ex_iff)
    then have "filter (\<lambda>x. \<not> same (xs ! i) x \<and> \<not> list_ex (\<lambda>r. same r x) result) zs
        = filter (\<lambda>x. \<not> list_ex (\<lambda>r. same r x) result) zs" for zs
      by (intro filter_cong) auto
    then show ?thesis
      using True Suc by (simp add: take snoc)
  next
    case False
    then show ?thesis
      using Suc by (simp add: take snoc conj_commute)
  qed
qed simp

text \<open>The loop followed by a reversal keeps the last of every class, in the original order.\<close>

lemma dedup_loop_keep_last: "rev (dedup_loop same xs (length xs) []) = keep_last same xs"
  by (simp add: dedup_loop_prefix)

text \<open>
  Removing the earlier duplicates changes nothing in a map that is filled from the
  elements in order, when elements that count as the same carry the same entries.
\<close>

lemma keep_last_same_map:
  assumes load: "\<And>x y. same x y \<Longrightarrow> load x = load y"
  shows "map_of (rev (concat (map load (keep_last same xs)))) = map_of (rev (concat (map load xs)))"
proof (induction xs)
  case (Cons x xs)
  show ?case
  proof (cases "list_ex (same x) xs")
    case True
    then obtain y where "y \<in> set xs" "load x = load y"
      using load by (auto simp: list_ex_iff)
    then have "fst ` set (load x) \<subseteq> fst ` set (rev (concat (map load xs)))" by force
    then have "dom (map_of (rev (load x))) \<subseteq> dom (map_of (rev (concat (map load xs))))"
      by (simp add: dom_map_of_conv_image_fst)
    then have "map_of (rev (load x)) ++ map_of (rev (concat (map load xs)))
        = map_of (rev (concat (map load xs)))"
      by (auto simp: map_add_def fun_eq_iff split: option.splits)
    then show ?thesis using True Cons.IH by (simp add: map_of_append)
  next
    case False
    then show ?thesis using Cons.IH by simp
  qed
qed simp

end

section \<open>Selectors\<close>

definition nullString :: string where
  "nullString = [CHR 0x00]"

definition normalize_label :: "string option \<Rightarrow> string option" where
  "normalize_label label =
     (case label of None \<Rightarrow> Some nullString | Some l \<Rightarrow> if length l = 0 then Some nullString else Some l)"

fun push_unique :: "string list \<Rightarrow> string list \<Rightarrow> string list" where
  "push_unique tagFilters [] = tagFilters"
| "push_unique tagFilters (tag # tags) =
     push_unique (if tag \<in> set tagFilters then tagFilters else tagFilters @ [tag]) tags"

definition normalizeFilter :: "Selector list \<Rightarrow> Selector list" where
  "normalizeFilter filters =
     map (\<lambda>f. \<lparr> sel_KeyFilter = sel_KeyFilter f,
                sel_LabelFilter = normalize_label (sel_LabelFilter f),
                sel_TagFilters = Some (push_unique [] (slice (sel_TagFilters f))),
                sel_SnapshotName = sel_SnapshotName f \<rparr>) filters"

text \<open>\<^verbatim>\<open>compare\<close>: same pointer, or both not nil and the same text.\<close>

definition compare :: "string option \<Rightarrow> string option \<Rightarrow> bool" where
  "compare a b =
     (case (a, b) of (None, None) \<Rightarrow> True | (Some s, Some t) \<Rightarrow> s = t | _ \<Rightarrow> False)"

definition compareTagFilters :: "string list \<Rightarrow> string list \<Rightarrow> bool" where
  "compareTagFilters a b =
     (if length a = 0 \<and> length b = 0 then True
      else if length a \<noteq> length b then False
      else list_all (\<lambda>(x, y). x = y) (zip (sort a) (sort b)))"

definition same_selector :: "Selector \<Rightarrow> Selector \<Rightarrow> bool" where
  "same_selector r f \<longleftrightarrow>
     compare (sel_KeyFilter r) (sel_KeyFilter f) \<and>
     compare (sel_LabelFilter r) (sel_LabelFilter f) \<and>
     compare (sel_SnapshotName r) (sel_SnapshotName f) \<and>
     compareTagFilters (slice (sel_TagFilters r)) (slice (sel_TagFilters f))"

definition reverse :: "'a list \<Rightarrow> 'a list" where
  "reverse arr = swap_loop arr 0 (length arr - 1)"

definition wildcard_selector :: Selector where
  "wildcard_selector =
     \<lparr> sel_KeyFilter = Some ''*'', sel_LabelFilter = None, sel_TagFilters = None, sel_SnapshotName = None \<rparr>"

definition deduplicateFilters :: "Selector list \<Rightarrow> Selector list" where
  "deduplicateFilters filters =
     (if length filters > 0
      then reverse (dedup_loop same_selector filters (length filters) [])
      else [wildcard_selector])"

definition GetKeyValueFilters :: "ProviderSpec \<Rightarrow> Selector list" where
  "GetKeyValueFilters spec =
     deduplicateFilters (normalizeFilter (kvo_Selectors (spec_Configuration spec)))"

definition FeatureFlagKeyPrefix :: string where
  "FeatureFlagKeyPrefix = ''.appconfig.featureflag/''"

definition prefix_key_filter :: "Selector \<Rightarrow> Selector" where
  "prefix_key_filter f =
     (case sel_KeyFilter f of
        None \<Rightarrow> f
      | Some k \<Rightarrow> f\<lparr>sel_KeyFilter := Some (FeatureFlagKeyPrefix @ k)\<rparr>)"

definition GetFeatureFlagFilters :: "ProviderSpec \<Rightarrow> Selector list" where
  "GetFeatureFlagFilters spec =
     (case spec_FeatureFlag spec of
        None \<Rightarrow> []
      | Some ff \<Rightarrow> map prefix_key_filter (deduplicateFilters (normalizeFilter (ff_Selectors ff))))"

section \<open>Sentinels and key prefixes\<close>

text \<open>
  \<open>addr\<close> is the address of the local variable \<^verbatim>\<open>nullString\<close>, which all sentinels without
  a label share.
\<close>

definition normalizeSentinels :: "nat \<Rightarrow> Sentinel list \<Rightarrow> Sentinel list" where
  "normalizeSentinels addr sentinels =
     map (\<lambda>s. \<lparr> sen_Key = sen_Key s,
                sen_Label = (case sen_Label s of
                               None \<Rightarrow> Some (addr, nullString)
                             | Some (a, l) \<Rightarrow> if length l = 0 then Some (addr, nullString) else Some (a, l)) \<rparr>)
       sentinels"

fun trimPrefix :: "string \<Rightarrow> string list \<Rightarrow> string" where
  "trimPrefix key [] = key"
| "trimPrefix key (v # vs) = (if HasPrefix key v then TrimPrefix key v else trimPrefix key vs)"

section \<open>Lemmas\<close>

lemma compare_iff [simp]: "compare a b \<longleftrightarrow> a = b"
  by (cases a; cases b) (auto simp: compare_def)

lemma reverse_rev [simp]: "reverse xs = rev xs"
  using swap_loop_rev [of xs] by (simp add: reverse_def)

lemma zip_eq_list: "length xs = length ys \<Longrightarrow> list_all (\<lambda>(x, y). x = y) (zip xs ys) \<longleftrightarrow> xs = ys"
  by (induction xs ys rule: list_induct2) auto

lemma compareTagFilters_iff: "compareTagFilters a b \<longleftrightarrow> mset a = mset b"
proof
  assume "compareTagFilters a b"
  then have "sort a = sort b"
    by (auto simp: compareTagFilters_def zip_eq_list split: if_splits)
  then show "mset a = mset b" by (metis mset_sort)
next
  assume e: "mset a = mset b"
  then have "length a = length b" by (metis size_mset)
  moreover have "sort a = sort b"
    using e by (metis mset_sort properties_for_sort sorted_sort)
  ultimately show "compareTagFilters a b"
    by (auto simp: compareTagFilters_def zip_eq_list)
qed

lemma same_selector_iff:
  "same_selector r f \<longleftrightarrow>
     sel_KeyFilter r = sel_KeyFilter f \<and> sel_LabelFilter r = sel_LabelFilter f \<and>
     sel_SnapshotName r = sel_SnapshotName f \<and>
     mset (slice (sel_TagFilters r)) = mset (slice (sel_TagFilters f))"
  by (simp add: same_selector_def compareTagFilters_iff)

interpretation selectors: last_wins same_selector
  by unfold_locales (auto simp: same_selector_iff)

lemma deduplicateFilters_keep_last:
  "filters \<noteq> [] \<Longrightarrow> deduplicateFilters filters = keep_last same_selector filters"
  by (simp add: deduplicateFilters_def selectors.dedup_loop_keep_last)

lemma push_unique_props:
  "distinct acc \<Longrightarrow> distinct (push_unique acc xs) \<and> set (push_unique acc xs) = set acc \<union> set xs"
  by (induction acc xs rule: push_unique.induct) auto

lemma normalizeFilter_facts:
  assumes "f \<in> set (normalizeFilter filters)"
  shows "sel_LabelFilter f \<noteq> None" and "sel_LabelFilter f \<noteq> Some []"
    and "distinct (slice (sel_TagFilters f))"
  using assms push_unique_props [of "[]"]
  by (auto simp: normalizeFilter_def normalize_label_def nullString_def split: option.splits if_splits)

lemma mset_eq_distinct_iff: "distinct xs \<Longrightarrow> distinct ys \<Longrightarrow> mset xs = mset ys \<longleftrightarrow> set xs = set ys"
  by (simp add: set_eq_iff_mset_eq_distinct)

lemma trimPrefix_first:
  "trimPrefix key vs =
     (case find (HasPrefix key) vs of None \<Rightarrow> key | Some v \<Rightarrow> drop (length v) key)"
  by (induction key vs rule: trimPrefix.induct) (auto simp: TrimPrefix_def)

section \<open>Properties\<close>

text \<open>
  C22. Removing duplicate selectors keeps the precedence the user asked for.  The selectors
  the loader queries are pairwise different, every normalised selector has one that counts
  as the same among them, and for every loading function that does not tell such selectors
  apart (tags are compared as sets), filling a map in order from the remaining selectors
  gives the same map as filling it from all of them.
\<close>

theorem deduplication_keeps_precedence:
  fixes load :: "Selector \<Rightarrow> (string \<times> 'v) list"
  assumes "kvo_Selectors (spec_Configuration spec) \<noteq> []"
    and "\<And>r f. same_selector r f \<Longrightarrow> load r = load f"
  shows "pairwise_different same_selector (GetKeyValueFilters spec)
    \<and> (\<forall>f \<in> set (normalizeFilter (kvo_Selectors (spec_Configuration spec))).
          \<exists>g \<in> set (GetKeyValueFilters spec). same_selector f g)
    \<and> gomap_eq (gostore_all (concat (map load (GetKeyValueFilters spec))) [])
        (gostore_all (concat (map load (normalizeFilter (kvo_Selectors (spec_Configuration spec))))) [])"
proof -
  let ?fs = "normalizeFilter (kvo_Selectors (spec_Configuration spec))"
  have fs: "?fs \<noteq> []" using assms(1) by (simp add: normalizeFilter_def)
  have g: "GetKeyValueFilters spec = keep_last same_selector ?fs"
    by (simp add: GetKeyValueFilters_def deduplicateFilters_keep_last [OF fs])
  show ?thesis
    unfolding g gomap_eq_def
    using selectors.keep_last_different selectors.keep_last_covers
      selectors.keep_last_same_map [where xs = ?fs and load = load, OF assms(2)]
    by (simp add: fun_eq_iff golookup_gostore_all)
qed

text \<open>
  The feature flag selectors are the deduplicated selectors with every key filter moved
  under the reserved prefix: no query that selects keys reaches outside it, and no two of
  them are the same.
\<close>

theorem feature_flag_filters_prefixed:
  assumes "spec_FeatureFlag spec = Some ff" and "ff_Selectors ff \<noteq> []"
  shows "pairwise_different same_selector (GetFeatureFlagFilters spec)
    \<and> (\<forall>f \<in> set (GetFeatureFlagFilters spec). \<forall>k. sel_KeyFilter f = Some k \<longrightarrow>
          HasPrefix k FeatureFlagKeyPrefix)
    \<and> length (GetFeatureFlagFilters spec)
        = length (keep_last same_selector (normalizeFilter (ff_Selectors ff)))"
proof -
  let ?fs = "normalizeFilter (ff_Selectors ff)"
  have fs: "?fs \<noteq> []" using assms(2) by (simp add: normalizeFilter_def)
  have g: "GetFeatureFlagFilters spec = map prefix_key_filter (keep_last same_selector ?fs)"
    by (simp add: GetFeatureFlagFilters_def deduplicateFilters_keep_last [OF fs] assms(1))
  have inj: "same_selector (prefix_key_filter a) (prefix_key_filter b) \<longleftrightarrow> same_selector a b" for a b
    by (auto simp: same_selector_iff prefix_key_filter_def split: option.splits)
  have "pairwise_different same_selector (map prefix_key_filter (keep_last same_selector ?fs))"
    using selectors.keep_last_different [of ?fs] by (simp add: pairwise_different_def inj)
  moreover have "HasPrefix k FeatureFlagKeyPrefix"
    if "sel_KeyFilter (prefix_key_filter f) = Some k" for f k
    using that by (auto simp: prefix_key_filter_def HasPrefix_iff split: option.splits)
  ultimately show ?thesis unfolding g by auto
qed

definition sample_selectors :: "Selector list" where
  "sample_selectors =
     [ \<lparr> sel_KeyFilter = Some ''one*'', sel_LabelFilter = Some ''prod'', sel_TagFilters = Some [''a'', ''b''], sel_SnapshotName = None \<rparr>,
       \<lparr> sel_KeyFilter = Some ''two*'', sel_LabelFilter = None, sel_TagFilters = None, sel_SnapshotName = None \<rparr>,
       \<lparr> sel_KeyFilter = Some ''one*'', sel_LabelFilter = Some ''prod'', sel_TagFilters = Some [''b'', ''a''], sel_SnapshotName = None \<rparr> ]"

definition sample_spec :: ProviderSpec where
  "sample_spec =
     \<lparr> spec_Endpoint = Some ''https://store.azconfig.io'', spec_ReplicaDiscoveryEnabled = False,
       spec_LoadBalancingEnabled = False, spec_ConnectionStringReference = None,
       spec_Target = \<lparr> ct_ConfigMapName = ''settings'', ct_ConfigMapData = None \<rparr>,
       spec_Auth = None,
       spec_Configuration = \<lparr> kvo_Selectors = sample_selectors, kvo_TrimKeyPrefixes = [], kvo_Refresh = None \<rparr>,
       spec_Secret = None,
       spec_FeatureFlag = Some \<lparr> ff_Selectors = sample_selectors, ff_Refresh = None \<rparr> \<rparr>"

theorem deduplication_keeps_precedence_witness:
  "map sel_KeyFilter (GetKeyValueFilters sample_spec) = [Some ''two*'', Some ''one*'']
   \<and> gomap_eq (gostore_all (concat (map (\<lambda>f. [(''k'', sel_KeyFilter f)]) (GetKeyValueFilters sample_spec))) [])
       (gostore_all (concat (map (\<lambda>f. [(''k'', sel_KeyFilter f)]) (normalizeFilter sample_selectors))) [])"
proof
  show "map sel_KeyFilter (GetKeyValueFilters sample_spec) = [Some ''two*'', Some ''one*'']"
    by (code_simp)
  show "gomap_eq (gostore_all (concat (map (\<lambda>f. [(''k'', sel_KeyFilter f)]) (GetKeyValueFilters sample_spec))) [])
       (gostore_all (concat (map (\<lambda>f. [(''k'', sel_KeyFilter f)]) (normalizeFilter sample_selectors))) [])"
    using deduplication_keeps_precedence [of sample_spec "\<lambda>f. [(''k'', sel_KeyFilter f)]"]
    by (simp add: sample_spec_def sample_selectors_def same_selector_iff)
qed

theorem feature_flag_filters_prefixed_witness:
  "map sel_KeyFilter (GetFeatureFlagFilters sample_spec)
     = [Some ''.appconfig.featureflag/two*'', Some ''.appconfig.featureflag/one*'']
   \<and> pairwise_different same_selector (GetFeatureFlagFilters sample_spec)"
proof
  show "map sel_KeyFilter (GetFeatureFlagFilters sample_spec)
     = [Some ''.appconfig.featureflag/two*'', Some ''.appconfig.featureflag/one*'']"
    by (code_simp)
  show "pairwise_different same_selector (GetFeatureFlagFilters sample_spec)"
    using feature_flag_filters_prefixed [of sample_spec]
    by (simp add: sample_spec_def sample_selectors_def)
qed

end
