(* ===== verification/Go_Json.thy ===== *)
theory Go_Json
  imports Api_Types
begin

text \<open>
  \<^verbatim>\<open>encoding/json\<close> on dynamic values, as the sources use it: \<^verbatim>\<open>Marshal\<close> with sorted keys and
  HTML escaping, \<^verbatim>\<open>Unmarshal\<close> as a recursive descent parser.  Bytes above 127 are passed
  through (the texts are valid UTF-8 without the line separators U+2028 and U+2029).  The
  conversion of a number literal to the text Go prints for its \<^verbatim>\<open>float64\<close> is a parameter
  \<open>canon\<close>, \<open>None\<close> for a literal out of range.
\<close>

section \<open>Encoding\<close>

definition hex_digit :: "nat \<Rightarrow> char" where
  "hex_digit n = ''0123456789abcdef'' ! n"

definition escape_u :: "char \<Rightarrow> string" where
  "escape_u c = [BS, CHR ''u'', CHR ''0'', CHR ''0'', hex_digit (of_char c div 16), hex_digit (of_char c mod 16)]"

definition escape_char :: "char \<Rightarrow> string" where
  "escape_char c =
     (if c = DQ \<or> c = BS then [BS, c]
      else if c = CHR 0x08 then [BS, CHR ''b'']
      else if c = CHR 0x0C then [BS, CHR ''f'']
      else if c = CHR 0x0A then [BS, CHR ''n'']
      else if c = CHR 0x0D then [BS, CHR ''r'']
      else if c = CHR 0x09 then [BS, CHR ''t'']
      else if (of_char c :: nat) < 32 \<or> c = CHR ''<'' \<or> c = CHR ''>'' \<or> c = CHR ''&'' then escape_u c
      else [c])"

definition quote :: "string \<Rightarrow> string" where
  "quote s = DQ # concat (map escape_char s) @ [DQ]"

fun json_encode :: "go_value \<Rightarrow> string" where
  "json_encode VNil = ''null''"
| "json_encode (VBool b) = (if b then ''true'' else ''false'')"
| "json_encode (VNum t) = t"
| "json_encode (VStr s) = quote s"
| "json_encode (VList vs) = CHR ''['' # Join (map json_encode vs) '','' @ '']''"
| "json_encode (VMap m) =
     CHR ''{'' # Join (map (\<lambda>(k, e). quote k @ '':'' @ e)
       (sort_key fst (map (\<lambda>(k, v). (k, json_encode v)) m))) '','' @ ''}''"

section \<open>Decoding\<close>

definition is_ws :: "char \<Rightarrow> bool" where
  "is_ws c \<longleftrightarrow> c = CHR '' '' \<or> c = CHR 0x09 \<or> c = CHR 0x0A \<or> c = CHR 0x0D"

definition skip_ws :: "string \<Rightarrow> string" where
  "skip_ws s = dropWhile is_ws s"

definition hex_value :: "char \<Rightarrow> nat option" where
  "hex_value c =
     (let n = of_char c :: nat
      in if 48 \<le> n \<and> n \<le> 57 then Some (n - 48)
         else if 97 \<le> n \<and> n \<le> 102 then Some (n - 87)
         else if 65 \<le> n \<and> n \<le> 70 then Some (n - 55)
         else None)"

fun hex4 :: "string \<Rightarrow> (nat \<times> string) option" where
  "hex4 (a # b # c # d # r) =
     (case (hex_value a, hex_value b, hex_value c, hex_value d) of
        (Some w, Some x, Some y, Some z) \<Rightarrow> Some (4096 * w + 256 * x + 16 * y + z, r)
      | _ \<Rightarrow> None)"
| "hex4 _ = None"

text \<open>The UTF-8 bytes of a code point.\<close>

definition utf8 :: "nat \<Rightarrow> string" where
  "utf8 n =
     (if n < 128 then [char_of n]
      else if n < 2048 then [char_of (192 + n div 64), char_of (128 + n mod 64)]
      else if n < 65536 then
        [char_of (224 + n div 4096), char_of (128 + n div 64 mod 64), char_of (128 + n mod 64)]
      else
        [char_of (240 + n div 262144), char_of (128 + n div 4096 mod 64),
         char_of (128 + n div 64 mod 64), char_of (128 + n mod 64)])"

definition replacement :: nat where "replacement = 65533"

text \<open>A \<^verbatim>\<open>\u\<close> escape: a surrogate pair is one code point, a lone surrogate the replacement.\<close>

definition unicode_escape :: "string \<Rightarrow> (string \<times> string) option" where
  "unicode_escape s =
     (case hex4 s of
        None \<Rightarrow> None
      | Some (u, r) \<Rightarrow>
          if u < 55296 \<or> 57343 < u then Some (utf8 u, r)
          else if u < 56320 \<and> take 2 r = [BS, CHR ''u''] then
            (case hex4 (drop 2 r) of
               None \<Rightarrow> Some (utf8 replacement, r)
             | Some (v, r') \<Rightarrow>
                 if 56320 \<le> v \<and> v \<le> 57343
                 then Some (utf8 (65536 + (u - 55296) * 1024 + (v - 56320)), r')
                 else Some (utf8 replacement, r))
          else Some (utf8 replacement, r))"

definition simple_escape :: "char \<Rightarrow> char option" where
  "simple_escape e =
     (if e = DQ \<or> e = BS \<or> e = CHR ''/'' then Some e
      else if e = CHR ''b'' then Some (CHR 0x08)
      else if e = CHR ''f'' then Some (CHR 0x0C)
      else if e = CHR ''n'' then Some (CHR 0x0A)
      else if e = CHR ''r'' then Some (CHR 0x0D)
      else if e = CHR ''t'' then Some (CHR 0x09)
      else None)"

text \<open>One step inside a string literal: the decoded bytes and what follows.\<close>

fun str_step :: "string \<Rightarrow> (string \<times> string) option" where
  "str_step [] = None"
| "str_step (c # s) =
     (if c = BS then
        (case s of
           [] \<Rightarrow> None
         | e # r \<Rightarrow>
             if e = CHR ''u'' then unicode_escape r
             else map_option (\<lambda>x. ([x], r)) (simple_escape e))
      else if (of_char c :: nat) < 32 then None
      else Some ([c], s))"

fun parse_str :: "nat \<Rightarrow> string \<Rightarrow> (string \<times> string) option" where
  "parse_str 0 s = None"
| "parse_str (Suc n) s =
     (case s of
        [] \<Rightarrow> None
      | c # r \<Rightarrow>
          if c = DQ then Some ([], r)
          else (case str_step s of
                  None \<Rightarrow> None
                | Some (x, r') \<Rightarrow> map_option (\<lambda>(t, q). (x @ t, q)) (parse_str n r')))"

text \<open>The rest of a string literal after its opening quote.\<close>

definition parse_literal :: "string \<Rightarrow> (string \<times> string) option" where
  "parse_literal s = parse_str (Suc (length s)) s"

definition is_digit :: "char \<Rightarrow> bool" where
  "is_digit c \<longleftrightarrow> 48 \<le> (of_char c :: nat) \<and> (of_char c :: nat) \<le> 57"

definition num_char :: "char \<Rightarrow> bool" where
  "num_char c \<longleftrightarrow> is_digit c \<or> c \<in> set ''+-.eE''"

text \<open>Dropping the optional fraction and exponent; the rest is empty for a number.\<close>

definition drop_digits :: "string \<Rightarrow> string option" where
  "drop_digits s = (case s of [] \<Rightarrow> None | c # r \<Rightarrow> if is_digit c then Some (dropWhile is_digit r) else None)"

definition drop_int :: "string \<Rightarrow> string option" where
  "drop_int s =
     (let t = (if HasPrefix s ''-'' then tl s else s)
      in case t of
           [] \<Rightarrow> None
         | c # r \<Rightarrow> if c = CHR ''0'' then Some r else drop_digits t)"

definition drop_frac :: "string \<Rightarrow> string option" where
  "drop_frac s = (if HasPrefix s ''.'' then drop_digits (tl s) else Some s)"

definition drop_exp :: "string \<Rightarrow> string option" where
  "drop_exp s =
     (if HasPrefix s ''e'' \<or> HasPrefix s ''E'' then
        (let t = tl s in drop_digits (if HasPrefix t ''+'' \<or> HasPrefix t ''-'' then tl t else t))
      else Some s)"

definition valid_number :: "string \<Rightarrow> bool" where
  "valid_number s \<longleftrightarrow>
     list_all num_char s \<and>
     Option.bind (drop_int s) (\<lambda>a. Option.bind (drop_frac a) drop_exp) = Some []"

definition parse_number :: "(string \<Rightarrow> string option) \<Rightarrow> string \<Rightarrow> (go_value \<times> string) option" where
  "parse_number canon s =
     (let t = takeWhile num_char s
      in if valid_number t
         then map_option (\<lambda>c. (VNum c, drop (length t) s)) (canon t) else None)"

text \<open>
  The parser.  Each call takes one unit of fuel; a text of \<open>n\<close> bytes never needs more than
  \<open>2 * n + 2\<close>.
\<close>

fun parse_value :: "(string \<Rightarrow> string option) \<Rightarrow> nat \<Rightarrow> string \<Rightarrow> (go_value \<times> string) option"
and parse_elems :: "(string \<Rightarrow> string option) \<Rightarrow> nat \<Rightarrow> string \<Rightarrow> (go_value list \<times> string) option"
and parse_members :: "(string \<Rightarrow> string option) \<Rightarrow> nat \<Rightarrow> string \<Rightarrow> ((string \<times> go_value) list \<times> string) option"
where
  "parse_value canon 0 s = None"
| "parse_value canon (Suc n) s =
     (case skip_ws s of
        [] \<Rightarrow> None
      | c # r \<Rightarrow>
          if c = DQ then map_option (\<lambda>(t, q). (VStr t, q)) (parse_literal r)
          else if c = CHR ''{'' then
            (case skip_ws r of
               [] \<Rightarrow> None
             | d # r' \<Rightarrow>
                 if d = CHR ''}'' then Some (VMap [], r')
                 else map_option (\<lambda>(m, q). (VMap (gostore_all m []), q)) (parse_members canon n (d # r')))
          else if c = CHR ''['' then
            (case skip_ws r of
               [] \<Rightarrow> None
             | d # r' \<Rightarrow>
                 if d = CHR '']'' then Some (VList [], r')
                 else map_option (\<lambda>(vs, q). (VList vs, q)) (parse_elems canon n (d # r')))
          else if HasPrefix (c # r) ''null'' then Some (VNil, drop 4 (c # r))
          else if HasPrefix (c # r) ''true'' then Some (VBool True, drop 4 (c # r))
          else if HasPrefix (c # r) ''false'' then Some (VBool False, drop 5 (c # r))
          else parse_number canon (c # r))"
| "parse_elems canon 0 s = None"
| "parse_elems canon (Suc n) s =
     (case parse_value canon n s of
        None \<Rightarrow> None
      | Some (v, q) \<Rightarrow>
          (case skip_ws q of
             [] \<Rightarrow> None
           | d # r \<Rightarrow>
               if d = CHR '']'' then Some ([v], r)
               else if d = CHR '','' then map_option (\<lambda>(vs, q'). (v # vs, q')) (parse_elems canon n r)
               else None))"
| "parse_members canon 0 s = None"
| "parse_members canon (Suc n) s =
     (case skip_ws s of
        [] \<Rightarrow> None
      | c # r \<Rightarrow>
          if c \<noteq> DQ then None
          else
            (case parse_literal r of
               None \<Rightarrow> None
             | Some (k, q) \<Rightarrow>
                 (case skip_ws q of
                    [] \<Rightarrow> None
                  | e # r' \<Rightarrow>
                      if e \<noteq> CHR '':'' then None
                      else
                        (case parse_value canon n r' of
                           None \<Rightarrow> None
                         | Some (v, q') \<Rightarrow>
                             (case skip_ws q' of
                                [] \<Rightarrow> None
                              | d # r'' \<Rightarrow>
                                  if d = CHR ''}'' then Some ([(k, v)], r'')
                                  else if d = CHR '','' then
                                    map_option (\<lambda>(m, p). ((k, v) # m, p)) (parse_members canon n r'')
                                  else None)))))"

definition json_decode :: "(string \<Rightarrow> string option) \<Rightarrow> string \<Rightarrow> go_value res" where
  "json_decode canon s =
     (case parse_value canon (2 * length s + 2) s of
        Some (v, q) \<Rightarrow> if skip_ws q = [] then Ok v else Err (LibError ''invalid character after top-level value'')
      | None \<Rightarrow> Err (LibError ''invalid JSON''))"


section \<open>String literals\<close>

lemma hex_value_hex_digit: "n < 16 \<Longrightarrow> hex_value (hex_digit n) = Some n"
proof -
  have "\<forall>n \<in> {..<16}. hex_value (hex_digit n) = Some n" by code_simp
  then show "n < 16 \<Longrightarrow> hex_value (hex_digit n) = Some n" by blast
qed

lemma unicode_escape_ascii:
  assumes "(of_char c :: nat) < 128"
  shows "unicode_escape (CHR ''0'' # CHR ''0'' # hex_digit (of_char c div 16) # hex_digit (of_char c mod 16) # r)
    = Some ([c], r)"
proof -
  have z: "hex_value (CHR ''0'') = Some 0" by (simp add: hex_value_def)
  have "hex4 (CHR ''0'' # CHR ''0'' # hex_digit (of_char c div 16) # hex_digit (of_char c mod 16) # r)
      = Some (of_char c, r)"
    using assms by (simp add: z hex_value_hex_digit)
  then show ?thesis
    using assms by (simp add: unicode_escape_def utf8_def)
qed

lemma str_step_escape: "str_step (escape_char c @ r) = Some ([c], r)"
proof (cases "c \<in> {DQ, BS, CHR 0x08, CHR 0x0C, LF, CR, CHR 0x09}")
  case True
  then show ?thesis
    unfolding insert_iff empty_iff
    by (elim disjE FalseE) (simp_all add: escape_char_def simple_escape_def)
next
  case plain: False
  show ?thesis
  proof (cases "(of_char c :: nat) < 32 \<or> c = CHR ''<'' \<or> c = CHR ''>'' \<or> c = CHR ''&''")
    case True
    then have "escape_char c = escape_u c"
      using plain by (simp add: escape_char_def)
    moreover have "(of_char c :: nat) < 128"
      using True by (elim disjE) simp_all
    ultimately show ?thesis by (simp add: escape_u_def unicode_escape_ascii)
  next
    case False
    then show ?thesis using plain by (simp add: escape_char_def)
  qed
qed

lemma escape_char_head: "\<exists>d s. escape_char c = d # s \<and> d \<noteq> DQ"
  by (simp add: escape_char_def escape_u_def)

lemma parse_str_escaped:
  "length s < n \<Longrightarrow> parse_str n (concat (map escape_char s) @ DQ # r) = Some (s, r)"
proof (induction s arbitrary: n)
  case Nil
  then show ?case by (cases n) auto
next
  case (Cons c s)
  then obtain m where n: "n = Suc m" "length s < m" by (cases n) auto
  obtain d t where d: "escape_char c = d # t" "d \<noteq> DQ" using escape_char_head by blast
  have step: "str_step (d # t @ concat (map escape_char s) @ DQ # r)
      = Some ([c], concat (map escape_char s) @ DQ # r)"
    using str_step_escape [of c "concat (map escape_char s) @ DQ # r"] d(1) by simp
  show ?case
    using Cons.IH [OF n(2)] d(2) by (simp add: n(1) d(1) step del: str_step.simps)
qed

lemma length_escapes: "length s \<le> length (concat (map escape_char s))"
proof (induction s)
  case (Cons c s)
  moreover obtain d t where "escape_char c = d # t" using escape_char_head by blast
  ultimately show ?case by simp
qed simp

lemma parse_quoted [simp]: "parse_literal (concat (map escape_char s) @ DQ # r) = Some (s, r)"
  using length_escapes [of s] unfolding parse_literal_def by (intro parse_str_escaped) simp

section \<open>Round trip\<close>

text \<open>Values whose numbers are printed the way Go prints them.\<close>

fun json_plain :: "(string \<Rightarrow> string option) \<Rightarrow> go_value \<Rightarrow> bool" where
  "json_plain canon (VNum t) \<longleftrightarrow> valid_number t \<and> canon t = Some t"
| "json_plain canon (VList vs) \<longleftrightarrow> list_all (json_plain canon) vs"
| "json_plain canon (VMap m) \<longleftrightarrow> gomap_ok m \<and> list_all (\<lambda>(k, v). json_plain canon v) m"
| "json_plain canon _ \<longleftrightarrow> True"

text \<open>The value with every map in key order, which is what decoding gives back.\<close>

fun key_ordered :: "go_value \<Rightarrow> go_value" where
  "key_ordered (VList vs) = VList (map key_ordered vs)"
| "key_ordered (VMap m) = VMap (sort_key fst (map (\<lambda>(k, v). (k, key_ordered v)) m))"
| "key_ordered v = v"

fun json_fuel :: "go_value \<Rightarrow> nat" where
  "json_fuel (VList vs) = Suc (sum_list (map (\<lambda>v. Suc (json_fuel v)) vs))"
| "json_fuel (VMap m) = Suc (sum_list (map (\<lambda>(k, v). Suc (json_fuel v)) m))"
| "json_fuel v = 1"

lemma insort_key_map_snd:
  "insort_key fst (k, h v) (map (\<lambda>(k, v). (k, h v)) m) = map (\<lambda>(k, v). (k, h v)) (insort_key fst (k, v) m)"
  by (induction m) auto

lemma sort_key_map_snd:
  "sort_key fst (map (\<lambda>(k, v). (k, h v)) m) = map (\<lambda>(k, v). (k, h v)) (sort_key fst m)"
proof (induction m)
  case (Cons e m)
  then show ?case by (cases e) (simp add: insort_key_map_snd)
qed simp

lemma gostore_all_fresh:
  "distinct (map fst kvs) \<Longrightarrow> fst ` set kvs \<inter> fst ` set m = {} \<Longrightarrow> gostore_all kvs m = m @ kvs"
proof (induction kvs arbitrary: m)
  case (Cons e kvs)
  obtain k v where e: "e = (k, v)" by fastforce
  have "k \<notin> fst ` set m" using Cons.prems e by auto
  then have "gostore k v m = m @ [(k, v)]"
    by (induction m) auto
  moreover have "gostore_all kvs (m @ [(k, v)]) = (m @ [(k, v)]) @ kvs"
    using Cons.prems e by (intro Cons.IH) auto
  ultimately show ?case by (simp add: e gostore_all_def)
qed (simp add: gostore_all_def)

definition starts_value :: "string \<Rightarrow> bool" where
  "starts_value s \<longleftrightarrow> (\<exists>c r. s = c # r \<and> \<not> is_ws c \<and> c \<noteq> CHR '']'' \<and> c \<noteq> CHR ''}'')"

definition ends_number :: "string \<Rightarrow> bool" where
  "ends_number s \<longleftrightarrow> (case s of [] \<Rightarrow> True | c # r \<Rightarrow> \<not> num_char c)"

lemma valid_number_head:
  assumes "valid_number t"
  shows "\<exists>c r. t = c # r \<and> (c = CHR ''-'' \<or> is_digit c)"
proof (cases t)
  case Nil
  then show ?thesis
    using assms by (simp add: valid_number_def drop_int_def HasPrefix_def)
next
  case (Cons c r)
  then have "c = CHR ''-'' \<or> is_digit c"
    using assms
    by (auto simp: valid_number_def drop_int_def HasPrefix_def drop_digits_def Let_def is_digit_def
        bind_eq_Some_conv split: if_splits option.splits)
  with Cons show ?thesis by blast
qed

lemma number_head_facts:
  assumes "c = CHR ''-'' \<or> is_digit c"
  shows "\<not> is_ws c" "c \<noteq> CHR '']''" "c \<noteq> CHR ''}''" "c \<noteq> DQ" "c \<noteq> CHR ''{''" "c \<noteq> CHR ''[''"
    "c \<noteq> CHR ''n''" "c \<noteq> CHR ''t''" "c \<noteq> CHR ''f''"
  using assms by (auto simp: is_digit_def is_ws_def)

lemma starts_value_encode: "json_plain canon v \<Longrightarrow> starts_value (json_encode v)"
proof (cases v)
  case (VNum t)
  moreover assume "json_plain canon v"
  ultimately have "valid_number t" by simp
  then obtain c r where "t = c # r" "c = CHR ''-'' \<or> is_digit c"
    using valid_number_head by blast
  then show ?thesis using VNum number_head_facts [of c] by (simp add: starts_value_def)
qed (auto simp: starts_value_def is_ws_def quote_def)

lemma skip_ws_nonblank [simp]: "\<not> is_ws c \<Longrightarrow> skip_ws (c # r) = c # r"
  by (simp add: skip_ws_def)

lemma ws_facts [simp]:
  "\<not> is_ws (CHR '','')" "\<not> is_ws (CHR '']'')" "\<not> is_ws (CHR ''}'')" "\<not> is_ws (CHR '':'')" "\<not> is_ws DQ"
  "\<not> is_ws (CHR ''['')" "\<not> is_ws (CHR ''{'')" "\<not> is_ws (CHR ''n'')" "\<not> is_ws (CHR ''t'')" "\<not> is_ws (CHR ''f'')"
  by (simp_all add: is_ws_def)

lemma ends_number_facts [simp]:
  "ends_number []" "ends_number (CHR '','' # r)" "ends_number (CHR '']'' # r)" "ends_number (CHR ''}'' # r)"
  by (simp_all add: ends_number_def num_char_def is_digit_def)

lemma parse_number_plain:
  assumes "valid_number t" and "canon t = Some t" and "ends_number rest" and "0 < n"
  shows "parse_value canon n (t @ rest) = Some (VNum t, rest)"
proof -
  obtain c r where t: "t = c # r" "c = CHR ''-'' \<or> is_digit c"
    using valid_number_head [OF assms(1)] by blast
  have "takeWhile num_char (t @ rest) = t"
    using assms(1,3)
    by (cases rest) (auto simp: valid_number_def ends_number_def list_all_iff takeWhile_eq_all_conv)
  then have "parse_number canon (t @ rest) = Some (VNum t, rest)"
    using assms(1,2) by (simp add: parse_number_def)
  moreover obtain m where "n = Suc m" using assms(4) by (cases n) auto
  ultimately show ?thesis
    using t(1) number_head_facts [OF t(2)] by (simp add: HasPrefix_def)
qed


lemma Join_append_head:
  "xs \<noteq> [] \<Longrightarrow> Join (x # xs) p @ r = x @ p @ Join xs p @ r"
  by (simp add: Join_Cons)

text \<open>The elements of an array, when each of them is parsed back.\<close>

lemma parse_elems_encoded:
  assumes "\<And>v n rest. v \<in> set vs \<Longrightarrow> json_fuel v \<le> n \<Longrightarrow> ends_number rest \<Longrightarrow>
      parse_value canon n (json_encode v @ rest) = Some (key_ordered v, rest)"
    and "vs \<noteq> []" and "sum_list (map (\<lambda>v. Suc (json_fuel v)) vs) \<le> n"
  shows "parse_elems canon n (Join (map json_encode vs) '','' @ CHR '']'' # rest)
    = Some (map key_ordered vs, rest)"
  using assms
proof (induction vs arbitrary: n)
  case (Cons v vs)
  then obtain m where n: "n = Suc m" "json_fuel v \<le> m" "sum_list (map (\<lambda>v. Suc (json_fuel v)) vs) \<le> m"
    by (cases n) auto
  show ?case
  proof (cases "vs = []")
    case True
    have "parse_value canon m (json_encode v @ CHR '']'' # rest) = Some (key_ordered v, CHR '']'' # rest)"
      using n(2) by (intro Cons.prems(1)) auto
    then show ?thesis by (simp add: True n(1))
  next
    case False
    let ?tl = "Join (map json_encode vs) '','' @ CHR '']'' # rest"
    have "parse_value canon m (json_encode v @ CHR '','' # ?tl) = Some (key_ordered v, CHR '','' # ?tl)"
      using n(2) by (intro Cons.prems(1)) auto
    moreover have "parse_elems canon m ?tl = Some (map key_ordered vs, rest)"
      using Cons.prems(1) False n(3) by (intro Cons.IH) auto
    ultimately show ?thesis
      using False by (simp add: n(1) Join_Cons)
  qed
qed simp

lemma parse_members_encoded:
  assumes "\<And>k v n rest. (k, v) \<in> set m \<Longrightarrow> json_fuel v \<le> n \<Longrightarrow> ends_number rest \<Longrightarrow>
      parse_value canon n (json_encode v @ rest) = Some (key_ordered v, rest)"
    and "m \<noteq> []" and "sum_list (map (\<lambda>(k, v). Suc (json_fuel v)) m) \<le> n"
  shows "parse_members canon n
      (Join (map (\<lambda>(k, v). quote k @ CHR '':'' # json_encode v) m) '','' @ CHR ''}'' # rest)
    = Some (map (\<lambda>(k, v). (k, key_ordered v)) m, rest)"
  using assms
proof (induction m arbitrary: n)
  case (Cons e m)
  obtain k v where e: "e = (k, v)" by fastforce
  from Cons.prems e obtain i where n: "n = Suc i" "json_fuel v \<le> i"
      "sum_list (map (\<lambda>(k, v). Suc (json_fuel v)) m) \<le> i"
    by (cases n) auto
  show ?case
  proof (cases "m = []")
    case True
    have "parse_value canon i (json_encode v @ CHR ''}'' # rest) = Some (key_ordered v, CHR ''}'' # rest)"
      using n(2) e by (intro Cons.prems(1)) auto
    then show ?thesis
      by (simp add: True n(1) e quote_def)
  next
    case False
    let ?tl = "Join (map (\<lambda>(k, v). quote k @ CHR '':'' # json_encode v) m) '','' @ CHR ''}'' # rest"
    have "parse_value canon i (json_encode v @ CHR '','' # ?tl) = Some (key_ordered v, CHR '','' # ?tl)"
      using n(2) e by (intro Cons.prems(1)) auto
    moreover have "parse_members canon i ?tl = Some (map (\<lambda>(k, v). (k, key_ordered v)) m, rest)"
      using Cons.prems(1) False n(3) by (intro Cons.IH) auto
    ultimately show ?thesis
      using False
      by (simp add: n(1) e Join_Cons quote_def)
  qed
qed simp

lemma key_ordered_VMap:
  "key_ordered (VMap m) = VMap (map (\<lambda>(k, v). (k, key_ordered v)) (sort_key fst m))"
  by (simp add: sort_key_map_snd)

lemma json_encode_VMap:
  "json_encode (VMap m) =
     CHR ''{'' # Join (map (\<lambda>(k, v). quote k @ CHR '':'' # json_encode v) (sort_key fst m)) '','' @ ''}''"
  by (simp add: sort_key_map_snd comp_def) (simp add: case_prod_unfold)

lemma sum_list_sort_key: "sum_list (map f (sort_key g m)) = (sum_list (map f m) :: nat)"
  by (metis mset_map mset_sort sum_mset_sum_list)

lemma starts_value_append: "starts_value s \<Longrightarrow> \<exists>c r. s @ t = c # r \<and> \<not> is_ws c \<and> c \<noteq> CHR '']'' \<and> c \<noteq> CHR ''}''"
  by (auto simp: starts_value_def)

lemma parse_value_encoded:
  "json_plain canon v \<Longrightarrow> json_fuel v \<le> n \<Longrightarrow> ends_number rest \<Longrightarrow>
   parse_value canon n (json_encode v @ rest) = Some (key_ordered v, rest)"
proof (induction v arbitrary: n rest)
  case (VList vs)
  then obtain i where n: "n = Suc i" "sum_list (map (\<lambda>v. Suc (json_fuel v)) vs) \<le> i" by (cases n) auto
  show ?case
  proof (cases "vs = []")
    case True
    then show ?thesis by (simp add: n(1))
  next
    case False
    then have "starts_value (Join (map json_encode vs) '','')"
      using VList.prems(1) starts_value_encode [of canon "hd vs"]
      by (cases vs; cases "tl vs") (auto simp: starts_value_def)
    from starts_value_append [OF this, of "CHR '']'' # rest"] obtain c r where
      c: "Join (map json_encode vs) '','' @ CHR '']'' # rest = c # r" "\<not> is_ws c" "c \<noteq> CHR '']''" by blast
    have "parse_elems canon i (c # r) = Some (map key_ordered vs, rest)"
      unfolding c(1) [symmetric] using VList False n(2)
      by (intro parse_elems_encoded) (auto simp: list_all_iff)
    then show ?thesis using c by (simp add: n(1))
  qed
next
  case (VMap m)
  then obtain i where n: "n = Suc i" "sum_list (map (\<lambda>(k, v). Suc (json_fuel v)) m) \<le> i" by (cases n) auto
  let ?s = "sort_key fst m"
  have d: "distinct (map fst ?s)" using VMap.prems(1)
    by (metis gokeys_def gomap_ok_def json_plain.simps(3) mset_eq_imp_distinct_iff mset_map mset_sort)
  show ?case
  proof (cases "m = []")
    case True
    then show ?thesis by (simp add: n(1))
  next
    case False
    let ?t = "Join (map (\<lambda>(k, v). quote k @ CHR '':'' # json_encode v) ?s) '','' @ CHR ''}'' # rest"
    from False have "?s \<noteq> []" by (metis length_0_conv length_sort)
    then obtain r where c: "?t = DQ # r"
      by (cases ?s; cases "tl ?s") (auto simp: quote_def)
    have "parse_members canon i (DQ # r) = Some (map (\<lambda>(k, v). (k, key_ordered v)) ?s, rest)"
      unfolding c [symmetric]
    proof (rule parse_members_encoded)
      show "parse_value canon n (json_encode v @ rest) = Some (key_ordered v, rest)"
        if "(k, v) \<in> set ?s" "json_fuel v \<le> n" "ends_number rest" for k v n rest
        using VMap.IH [of "(k, v)" v n rest] VMap.prems(1) that by (auto simp: list_all_iff)
      show "sum_list (map (\<lambda>(k, v). Suc (json_fuel v)) ?s) \<le> i"
        using n(2) by (simp add: sum_list_sort_key)
    qed fact
    moreover have "gostore_all (map (\<lambda>(k, v). (k, key_ordered v)) ?s) [] = map (\<lambda>(k, v). (k, key_ordered v)) ?s"
      using d gostore_all_fresh [of "map (\<lambda>(k, v). (k, key_ordered v)) ?s" "[]"]
      by (simp add: comp_def case_prod_unfold)
    ultimately show ?thesis
      unfolding json_encode_VMap key_ordered_VMap using c by (simp add: n(1))
  qed
next
  case (VStr s)
  then obtain i where "n = Suc i" by (cases n) auto
  then show ?case by (simp add: quote_def)
next
  case (VNum t)
  then show ?case by (auto intro: parse_number_plain)
next
  case VNil
  then obtain i where "n = Suc i" by (cases n) auto
  then show ?case by (simp add: HasPrefix_def)
next
  case (VBool b)
  then obtain i where "n = Suc i" by (cases n) auto
  then show ?case by (simp add: HasPrefix_def)
qed


text \<open>The fuel of the decoder covers every encoded value.\<close>

lemma length_Join:
  "length (Join xs [c]) + 1 = (if xs = [] then 1 else sum_list (map (\<lambda>x. Suc (length x)) xs))"
  by (induction xs "[c]" rule: Join.induct) auto

lemma json_fuel_bound: "json_plain canon v \<Longrightarrow> json_fuel v \<le> 2 * length (json_encode v)"
proof (induction v)
  case (VList vs)
  have "sum_list (map (\<lambda>v. Suc (json_fuel v)) vs) \<le> sum_list (map (\<lambda>v. 2 * Suc (length (json_encode v))) vs)"
    using VList by (intro sum_list_mono) (auto simp: list_all_iff le_SucI)
  also have "\<dots> = 2 * sum_list (map (\<lambda>x. Suc (length x)) (map json_encode vs))"
    by (induction vs) auto
  also have "\<dots> \<le> 2 * (length (Join (map json_encode vs) '','') + 1)"
    by (simp add: length_Join del: add_Suc_right One_nat_def)
  finally show ?case by simp
next
  case (VMap m)
  let ?f = "\<lambda>(k, v). quote k @ CHR '':'' # json_encode v"
  have "sum_list (map (\<lambda>(k, v). Suc (json_fuel v)) (sort_key fst m))
      \<le> sum_list (map (\<lambda>e. 2 * Suc (length (?f e))) (sort_key fst m))"
    using VMap by (intro sum_list_mono) (fastforce simp: list_all_iff le_SucI)
  also have "\<dots> = 2 * sum_list (map (\<lambda>x. Suc (length x)) (map ?f (sort_key fst m)))"
    by (simp only: sum_list_const_mult map_map comp_def)
  also have "\<dots> \<le> 2 * (length (Join (map ?f (sort_key fst m)) '','') + 1)"
    by (simp add: length_Join del: add_Suc_right One_nat_def)
  finally show ?case
    unfolding json_encode_VMap by (simp add: sum_list_sort_key)
next
  case (VNum t)
  then show ?case using valid_number_head [of t] by auto
qed (auto simp: quote_def)

lemma json_decode_encode: "json_plain canon v \<Longrightarrow> json_decode canon (json_encode v) = Ok (key_ordered v)"
  using parse_value_encoded [of canon v "2 * length (json_encode v) + 2" "[]"] json_fuel_bound [of canon v]
  by (simp add: json_decode_def skip_ws_def)

lemma value_ok_key_ordered: "json_plain canon v \<Longrightarrow> value_ok (key_ordered v)"
proof (induction v)
  case (VMap m)
  have "distinct (map fst (sort_key fst m))" using VMap.prems
    by (metis gokeys_def gomap_ok_def json_plain.simps(3) mset_eq_imp_distinct_iff mset_map mset_sort)
  moreover have "value_ok (key_ordered v)" if "(k, v) \<in> set m" for k v
    using VMap.IH [OF that, of v] VMap.prems that by (auto simp: list_all_iff)
  ultimately show ?case
    unfolding key_ordered_VMap
    by (auto simp: gomap_ok_def gokeys_def list_all_iff comp_def case_prod_unfold)
qed (auto simp: list_all_iff)

lemma deep_eq_key_ordered: "json_plain canon v \<Longrightarrow> deep_eq v (key_ordered v)"
proof (induction v)
  case (VMap m)
  let ?n = "map (\<lambda>(k, v). (k, key_ordered v)) (sort_key fst m)"
  have "value_ok (VMap ?n)"
    using value_ok_key_ordered [OF VMap.prems] unfolding key_ordered_VMap .
  then have ok: "gomap_ok ?n" by simp
  have "golookup ?n k = Some (key_ordered v) \<and> deep_eq v (key_ordered v)" if "(k, v) \<in> set m" for k v
    using VMap.IH [OF that, of v] VMap.prems that
    by (force simp: list_all_iff golookup_in_set [OF ok])
  then show ?case
    unfolding key_ordered_VMap by (fastforce simp: list_all_iff)
next
  case (VList vs)
  then show ?case by (auto simp: list_all_iff set_zip)
qed auto

section \<open>The fuel is enough\<close>

lemma skip_ws_length: "length (skip_ws s) \<le> length s"
  by (simp add: skip_ws_def length_dropWhile_le)

lemma skip_ws_Cons: "skip_ws s = c # r \<Longrightarrow> Suc (length r) \<le> length s"
  by (metis length_Cons skip_ws_length)

lemma hex4_length: "hex4 s = Some (u, r) \<Longrightarrow> length r < length s"
  by (induction s rule: hex4.induct) (auto split: option.splits)

lemma unicode_escape_length: "unicode_escape s = Some (x, r) \<Longrightarrow> length r < length s"
  by (fastforce simp: unicode_escape_def dest: hex4_length split: option.splits if_splits)

lemma str_step_length: "str_step s = Some (x, r) \<Longrightarrow> length r < length s"
  by (cases s rule: str_step.cases)
    (auto dest: unicode_escape_length split: if_splits list.splits)

lemma parse_str_length: "parse_str n s = Some (t, r) \<Longrightarrow> length r < length s"
proof (induction n s arbitrary: t rule: parse_str.induct)
  case (2 n s)
  show ?case
  proof (cases s)
    case (Cons c q)
    show ?thesis
    proof (cases "c = DQ")
      case True
      with 2 Cons show ?thesis by simp
    next
      case False
      with "2.prems" Cons obtain x r' t' where
        st: "str_step s = Some (x, r')" "parse_str n r' = Some (t', r)"
        by (auto simp del: str_step.simps split: option.splits)
      then have "length r < length r'" using "2.IH" [OF Cons False st(1)] by simp
      with str_step_length [OF st(1)] show ?thesis by simp
    qed
  qed (use 2 in simp)
qed simp

lemma parse_literal_length: "parse_literal s = Some (t, r) \<Longrightarrow> length r < length s"
  unfolding parse_literal_def by (rule parse_str_length)

lemma parse_number_length: "parse_number canon s = Some (v, r) \<Longrightarrow> length r < length s"
proof -
  assume a: "parse_number canon s = Some (v, r)"
  then have "valid_number (takeWhile num_char s)" and r: "r = drop (length (takeWhile num_char s)) s"
    by (auto simp: parse_number_def Let_def split: if_splits)
  then have "0 < length (takeWhile num_char s)" using valid_number_head by fastforce
  then show "length r < length s"
    unfolding r length_drop using length_takeWhile_le [of num_char s] by linarith
qed

lemma parse_shorter:
  shows "parse_value canon n s = Some (v, r) \<Longrightarrow> length r < length s"
    and "parse_elems canon n s = Some (vs, r) \<Longrightarrow> length r < length s"
    and "parse_members canon n s = Some (m, r) \<Longrightarrow> length r < length s"
proof (induction canon n s and canon n s and canon n s arbitrary: v r and vs r and m r
    rule: parse_value_parse_elems_parse_members.induct)
  case (2 canon n s)
  then show ?case
    by (fastforce dest: parse_literal_length parse_number_length skip_ws_Cons
        split: list.splits if_splits)
next
  case (4 canon n s)
  then show ?case
    by (fastforce dest: skip_ws_Cons split: list.splits if_splits option.splits)
next
  case (6 canon n s)
  then show ?case
    by (fastforce dest: skip_ws_Cons parse_literal_length split: list.splits if_splits option.splits)
qed simp_all

lemma parse_value_unfold:
  assumes "\<And>r. Suc (length r) \<le> length s \<Longrightarrow> parse_elems canon n r = parse_elems canon m r"
    and "\<And>r. Suc (length r) \<le> length s \<Longrightarrow> parse_members canon n r = parse_members canon m r"
  shows "parse_value canon (Suc n) s = parse_value canon (Suc m) s"
proof (cases "skip_ws s")
  case (Cons c r)
  then have r: "Suc (length r) \<le> length s" by (rule skip_ws_Cons)
  have "Suc (length (d # r')) \<le> length s" if "skip_ws r = d # r'" for d r'
    using skip_ws_Cons [OF that] r by simp
  then show ?thesis
    using Cons assms by (simp split: list.split)
qed simp

lemma parse_elems_unfold:
  assumes "parse_value canon n s = parse_value canon m s"
    and "\<And>r. Suc (length r) \<le> length s \<Longrightarrow> parse_elems canon n r = parse_elems canon m r"
  shows "parse_elems canon (Suc n) s = parse_elems canon (Suc m) s"
proof (cases "parse_value canon m s")
  case (Some p)
  obtain v q where p: "p = (v, q)" by fastforce
  have "length q < length s" using Some p parse_shorter(1) by simp
  then have "Suc (length r) \<le> length s" if "skip_ws q = d # r" for d r
    using skip_ws_Cons [OF that] by simp
  then show ?thesis
    using Some p assms by (simp split: list.split)
qed (use assms(1) in simp)

lemma parse_members_unfold:
  assumes "\<And>r. Suc (length r) \<le> length s \<Longrightarrow> parse_value canon n r = parse_value canon m r"
    and "\<And>r. Suc (length r) \<le> length s \<Longrightarrow> parse_members canon n r = parse_members canon m r"
  shows "parse_members canon (Suc n) s = parse_members canon (Suc m) s"
proof (cases "skip_ws s")
  case (Cons c r)
  then have r: "Suc (length r) \<le> length s" by (rule skip_ws_Cons)
  show ?thesis
  proof (cases "parse_literal r")
    case (Some p)
    obtain k q where p: "p = (k, q)" by fastforce
    have q: "length q < length s" using Some p parse_literal_length r by fastforce
    show ?thesis
    proof (cases "skip_ws q")
      case q': (Cons e r')
      have r': "Suc (length r') \<le> length s" using skip_ws_Cons [OF q'] q by simp
      show ?thesis
      proof (cases "parse_value canon m r'")
        case None
        then show ?thesis using Cons Some p q' assms(1) [OF r'] by simp
      next
        case v: (Some w)
        obtain x y where w: "w = (x, y)" by fastforce
        have "length y < length s" using parse_shorter(1) v w r' by fastforce
        then have "Suc (length z) \<le> length s" if "skip_ws y = d # z" for d z
          using skip_ws_Cons [OF that] by simp
        then show ?thesis
          using Cons Some p q' v w assms(1) [OF r'] assms(2) by (simp split: list.split)
      qed
    qed (use Cons Some p in simp)
  qed (use Cons in simp)
qed simp

lemma parse_fuel_enough:
  "(2 * length s + 1 \<le> n \<and> 2 * length s + 1 \<le> m \<longrightarrow> parse_value canon n s = parse_value canon m s) \<and>
   (2 * length s + 2 \<le> n \<and> 2 * length s + 2 \<le> m \<longrightarrow> parse_elems canon n s = parse_elems canon m s) \<and>
   (2 * length s + 2 \<le> n \<and> 2 * length s + 2 \<le> m \<longrightarrow> parse_members canon n s = parse_members canon m s)"
proof (induction n arbitrary: m s)
  case (Suc n)
  show ?case
  proof (cases m)
    case m: (Suc m')
    have V: "parse_value canon n r = parse_value canon m' r"
      if "2 * length r + 1 \<le> n" "2 * length r + 1 \<le> m'" for r
      using Suc.IH [of r m'] that by blast
    have E: "parse_elems canon n r = parse_elems canon m' r"
      if "2 * length r + 2 \<le> n" "2 * length r + 2 \<le> m'" for r
      using Suc.IH [of r m'] that by blast
    have M: "parse_members canon n r = parse_members canon m' r"
      if "2 * length r + 2 \<le> n" "2 * length r + 2 \<le> m'" for r
      using Suc.IH [of r m'] that by blast
    have "parse_value canon (Suc n) s = parse_value canon (Suc m') s"
      if "2 * length s \<le> n" "2 * length s \<le> m'"
      using that by (intro parse_value_unfold E M) simp_all
    moreover have "parse_elems canon (Suc n) s = parse_elems canon (Suc m') s"
      if "2 * length s + 1 \<le> n" "2 * length s + 1 \<le> m'"
      using that by (intro parse_elems_unfold V E) simp_all
    moreover have "parse_members canon (Suc n) s = parse_members canon (Suc m') s"
      if "2 * length s + 1 \<le> n" "2 * length s + 1 \<le> m'"
      using that by (intro parse_members_unfold V M) simp_all
    ultimately show ?thesis unfolding m by (simp del: parse_value.simps parse_elems.simps parse_members.simps)
  qed simp
qed simp

text \<open>No amount of fuel changes what the decoder accepts.\<close>

lemma json_decode_fuel:
  assumes "2 * length s + 2 \<le> n"
  shows "json_decode canon s =
     (case parse_value canon n s of
        Some (v, q) \<Rightarrow> if skip_ws q = [] then Ok v else Err (LibError ''invalid character after top-level value'')
      | None \<Rightarrow> Err (LibError ''invalid JSON''))"
proof -
  have "2 * length s + 1 \<le> 2 * length s + 2" "2 * length s + 1 \<le> n" using assms by auto
  then have "parse_value canon (2 * length s + 2) s = parse_value canon n s"
    using parse_fuel_enough [of s "2 * length s + 2" n canon] by blast
  then show ?thesis by (simp only: json_decode_def)
qed

section \<open>The interface of a document format\<close>

text \<open>
  What the code relies on in an encoder and decoder pair: on the values of a set the decoder
  gives back a deeply equal value.
\<close>

locale document_format =
  fixes enc :: "go_value \<Rightarrow> string res" and dec :: "string \<Rightarrow> go_value res"
    and fits :: "go_value \<Rightarrow> bool"
  assumes enc_dec: "fits v \<Longrightarrow> round_trips enc dec v"
begin

lemma object_read_back:
  assumes "fits (VMap m)"
  shows "\<exists>s n. enc (VMap m) = Ok s \<and> dec s = Ok (VMap n) \<and> gomap_ok n \<and> deep_eq (VMap m) (VMap n)"
proof -
  obtain s w where "enc (VMap m) = Ok s" "dec s = Ok w" "value_ok w" "deep_eq (VMap m) w"
    using enc_dec [OF assms] unfolding round_trips_def by blast
  moreover then obtain n where "w = VMap n" using deep_eq_VMap_left by blast
  ultimately show ?thesis by auto
qed

lemma strings_read_back:
  assumes "fits (VList (map VStr xs))"
  shows "\<exists>s. enc (VList (map VStr xs)) = Ok s \<and> dec s = Ok (VList (map VStr xs))"
proof -
  obtain s w where sw: "enc (VList (map VStr xs)) = Ok s" "dec s = Ok w" "deep_eq (VList (map VStr xs)) w"
    using enc_dec [OF assms] unfolding round_trips_def by blast
  then obtain ws where ws: "w = VList ws" "length ws = length xs"
      "list_all (\<lambda>(v, w). deep_eq v w) (zip (map VStr xs) ws)"
    by (cases w) auto
  have "ws = map VStr xs"
    using ws(2,3)
  proof (induction ws xs rule: list_induct2)
    case (Cons w ws x xs)
    then show ?case by (cases w) auto
  qed simp
  with sw ws show ?thesis by simp
qed

end

interpretation go_json: document_format "\<lambda>v. Ok (json_encode v)" "json_decode canon" "json_plain canon"
  for canon
  by unfold_locales
    (auto simp: round_trips_def json_decode_encode value_ok_key_ordered deep_eq_key_ordered)

text \<open>The codec of the program, with the YAML library's functions as parameters.\<close>

definition go_codec ::
    "(string \<Rightarrow> string option) \<Rightarrow> (go_value \<Rightarrow> string res) \<Rightarrow> (string \<Rightarrow> go_value res) \<Rightarrow>
     (string \<Rightarrow> object option) \<Rightarrow> codec" where
  "go_codec canon yamlMarshal yamlUnmarshal yamlUnmarshal2 =
     \<lparr> json_Marshal = (\<lambda>v. Ok (json_encode v)), json_Unmarshal = json_decode canon,
       yaml_Marshal = yamlMarshal, yaml_Unmarshal = yamlUnmarshal,
       yaml_v2_Unmarshal = yamlUnmarshal2 \<rparr>"

lemma go_codec_strings: "json_strings_ok (go_codec canon ym yu yu2) UNIV"
  unfolding json_strings_ok_def
proof (intro allI impI)
  fix xs
  have "json_plain canon (VList (map VStr xs))" by (simp add: list_all_iff)
  from go_json.strings_read_back [OF this]
  show "\<exists>s. json_Marshal (go_codec canon ym yu yu2) (VList (map VStr xs)) = Ok s \<and> s \<noteq> [] \<and>
         json_Unmarshal (go_codec canon ym yu yu2) s = Ok (VList (map VStr xs))"
    by (simp add: go_codec_def)
qed

end
