(* ===== verification/Settings_Clients.thy ===== *)
theory Settings_Clients
  imports Selectors Go_Json
begin

text \<open>
  \<^verbatim>\<open>internal/loader/settings_client.go\<close>: the three requests the loader sends to one store
  (settings by selector, one sentinel, a check of page ETags) and the loading of a snapshot.
  The SDK's client is a parameter; what the ETag protocol documents of it is the hypothesis
  \<open>serves\<close>.
\<close>

section \<open>The SDK client\<close>

record SettingSelector =
  ss_KeyFilter :: "string option"
  ss_LabelFilter :: "string option"
  ss_TagsFilter :: "string list"

record ListPage =
  pg_Settings :: "Setting list option"
  pg_ETag :: "etag option"

text \<open>
  \<open>ListSettings q conds\<close> are the results of the successive \<^verbatim>\<open>NextPage\<close> calls of the pager for
  query \<open>q\<close> with the match conditions \<open>conds\<close>, one per page; \<^verbatim>\<open>More\<close> is false at the end of
  the list.  \<open>GetSetting\<close> gives the response value and the error, as the SDK does.
\<close>

record az_client =
  ListSettings :: "SettingSelector \<Rightarrow> etag option list \<Rightarrow> ListPage res list"
  GetSetting :: "string \<Rightarrow> string option \<Rightarrow> etag option \<Rightarrow> Setting \<times> go_error option"
  GetSnapshot :: "string \<Rightarrow> string option res"
  ListSnapshotSettings :: "string \<Rightarrow> ListPage res list"

record SettingsResponse =
  rsp_Settings :: "Setting list option"
  rsp_Etags :: "page_etags option"

datatype SettingsClient =
    EtagSettingsClient page_etags
  | SentinelSettingsClient Sentinel "etag option" string
  | SelectorSettingsClient "Selector list"

section \<open>Settings by selector\<close>

text \<open>Reading a pager to its end: the settings and ETags of the pages that have settings.\<close>

fun read_pages :: "ListPage res list \<Rightarrow> (Setting list \<times> etag option list) res" where
  "read_pages [] = Ok ([], [])"
| "read_pages (p # ps) =
     res_bind p (\<lambda>page.
       res_bind (read_pages ps) (\<lambda>(settings, etags).
         case pg_Settings page of
           None \<Rightarrow> Ok (settings, etags)
         | Some ss \<Rightarrow> Ok (ss @ settings, pg_ETag page # etags)))"

definition loadSnapshotSettings :: "az_client \<Rightarrow> string \<Rightarrow> Setting list res" where
  "loadSnapshotSettings client snapshotName =
     (case GetSnapshot client snapshotName of
        Err err \<Rightarrow>
          (case as_response_error err of
             Some (code, _) \<Rightarrow> if code = 404 then Ok [] else Err err
           | None \<Rightarrow> Err err)
      | Panic p \<Rightarrow> Panic p
      | Ok compositionType \<Rightarrow>
          if compositionType \<noteq> Some ''key''
          then Err (Errorf ''compositionType for the selected snapshot '%s' must be 'key' '' [snapshotName] [])
          else res_map fst (read_pages (ListSnapshotSettings client snapshotName)))"

definition selector_query :: "Selector \<Rightarrow> SettingSelector" where
  "selector_query f =
     \<lparr> ss_KeyFilter = sel_KeyFilter f, ss_LabelFilter = sel_LabelFilter f,
       ss_TagsFilter = slice (sel_TagFilters f) \<rparr>"

text \<open>
  The loop over the selectors.  The key of \<^verbatim>\<open>pageEtags\<close> is a struct of pointers that belong
  to the selector, so that every store adds an entry.
\<close>

fun load_selectors :: "codec \<Rightarrow> az_client \<Rightarrow> Selector list \<Rightarrow> Setting list \<times> page_etags
    \<Rightarrow> (Setting list \<times> page_etags) res" where
  "load_selectors cd client [] acc = Ok acc"
| "load_selectors cd client (f # fs) (settings, pageEtags) =
     (if sel_KeyFilter f \<noteq> None then
        res_bind (read_pages (ListSettings client (selector_query f) []))
          (\<lambda>(ss, latestEtags).
             load_selectors cd client fs (settings @ ss, pageEtags @ [(MakeComparable cd f, latestEtags)]))
      else
        (case sel_SnapshotName f of
           None \<Rightarrow> Panic ''nil pointer dereference''
         | Some name \<Rightarrow>
             res_bind (loadSnapshotSettings client name)
               (\<lambda>ss. load_selectors cd client fs (settings @ ss, pageEtags))))"

definition selector_GetSettings :: "codec \<Rightarrow> az_client \<Rightarrow> Selector list \<Rightarrow> SettingsResponse option res" where
  "selector_GetSettings cd client selectors =
     res_map (\<lambda>(settings, pageEtags). Some \<lparr> rsp_Settings = Some settings, rsp_Etags = Some pageEtags \<rparr>)
       (load_selectors cd client selectors ([], []))"

section \<open>One sentinel\<close>

definition sentinel_GetSettings ::
    "az_client \<Rightarrow> Sentinel \<Rightarrow> etag option \<Rightarrow> SettingsResponse option res" where
  "sentinel_GetSettings client sentinel currentETag =
     (case GetSetting client (sen_Key sentinel) (map_option snd (sen_Label sentinel)) currentETag of
        (setting, None) \<Rightarrow> Ok (Some \<lparr> rsp_Settings = Some [setting], rsp_Etags = None \<rparr>)
      | (setting, Some err) \<Rightarrow>
          (case as_response_error err of
             Some (code, _) \<Rightarrow>
               if code = 404 then Ok None
               else if code = 304 then Ok (Some \<lparr> rsp_Settings = Some [setting], rsp_Etags = None \<rparr>)
               else Err err
           | None \<Rightarrow> Err err))"

section \<open>Checking the page ETags\<close>

text \<open>Whether any page has an ETag (it changed), or else how many pages there were.\<close>

fun check_pages :: "ListPage res list \<Rightarrow> nat \<Rightarrow> nat option res" where
  "check_pages [] pageCount = Ok (Some pageCount)"
| "check_pages (p # ps) pageCount =
     res_bind p (\<lambda>page.
       if pg_ETag page \<noteq> None then Ok None else check_pages ps (Suc pageCount))"

definition etag_query :: "Selector \<Rightarrow> SettingSelector" where
  "etag_query f =
     \<lparr> ss_KeyFilter = sel_KeyFilter f,
       ss_LabelFilter = (case sel_LabelFilter f of None \<Rightarrow> Some nullString | Some l \<Rightarrow> Some l),
       ss_TagsFilter = slice (sel_TagFilters f) \<rparr>"

text \<open>The loop over the monitored selectors: true when something changed.\<close>

fun etags_changed :: "codec \<Rightarrow> az_client \<Rightarrow> page_etags \<Rightarrow> bool res" where
  "etags_changed cd client [] = Ok False"
| "etags_changed cd client ((comparableFilter, pageEtags) # m) =
     (let f = FromComparable cd comparableFilter
      in if sel_KeyFilter f \<noteq> None then
           res_bind (check_pages (ListSettings client (etag_query f) pageEtags) 0)
             (\<lambda>unchanged. case unchanged of
                None \<Rightarrow> Ok True
              | Some pageCount \<Rightarrow>
                  if pageCount \<noteq> length pageEtags then Ok True else etags_changed cd client m)
         else etags_changed cd client m)"

definition etag_GetSettings :: "codec \<Rightarrow> az_client \<Rightarrow> page_etags \<Rightarrow> SettingsResponse option res" where
  "etag_GetSettings cd client etags =
     res_map (\<lambda>changed. Some \<lparr> rsp_Settings = None, rsp_Etags = (if changed then Some [] else None) \<rparr>)
       (etags_changed cd client etags)"

definition GetSettings :: "codec \<Rightarrow> SettingsClient \<Rightarrow> az_client \<Rightarrow> SettingsResponse option res" where
  "GetSettings cd settingsClient client =
     (case settingsClient of
        EtagSettingsClient etags \<Rightarrow> etag_GetSettings cd client etags
      | SentinelSettingsClient sentinel currentETag refreshInterval \<Rightarrow>
          sentinel_GetSettings client sentinel currentETag
      | SelectorSettingsClient selectors \<Rightarrow> selector_GetSettings cd client selectors)"

section \<open>What the service promises\<close>

text \<open>
  The content of a store: for each query its pages, each with its ETag.  With match
  conditions the service answers a page whose ETag equals its condition without settings
  and without ETag (not modified).
\<close>

type_synonym store_pages = "SettingSelector \<Rightarrow> (Setting list \<times> etag) list"

definition condition :: "etag option list \<Rightarrow> nat \<Rightarrow> etag option" where
  "condition conds i = (if i < length conds then conds ! i else None)"

definition served_page :: "etag option \<Rightarrow> Setting list \<times> etag \<Rightarrow> ListPage" where
  "served_page cond p =
     (if cond = Some (snd p) then \<lparr> pg_Settings = None, pg_ETag = None \<rparr>
      else \<lparr> pg_Settings = Some (fst p), pg_ETag = Some (snd p) \<rparr>)"

definition serves :: "az_client \<Rightarrow> store_pages \<Rightarrow> bool" where
  "serves client st \<longleftrightarrow>
     (\<forall>q conds. ListSettings client q conds =
        map (\<lambda>i. Ok (served_page (condition conds i) (st q ! i))) [0..<length (st q)])"

text \<open>A query's tags are a set: their order does not matter to the service.\<close>

definition tags_unordered :: "store_pages \<Rightarrow> bool" where
  "tags_unordered st \<longleftrightarrow> (\<forall>q. st (q\<lparr>ss_TagsFilter := sort (ss_TagsFilter q)\<rparr>) = st q)"

section \<open>Lemmas\<close>

lemma read_pages_Ok:
  "read_pages (map (\<lambda>p. Ok \<lparr> pg_Settings = Some (fst p), pg_ETag = Some (snd p) \<rparr>) ps)
     = Ok (concat (map fst ps), map (Some \<circ> snd) ps)"
  by (induction ps) auto

lemma serves_unconditional:
  assumes "serves client st"
  shows "read_pages (ListSettings client q []) = Ok (concat (map fst (st q)), map (Some \<circ> snd) (st q))"
proof -
  have "ListSettings client q [] =
      map (\<lambda>i. Ok \<lparr> pg_Settings = Some (fst (st q ! i)), pg_ETag = Some (snd (st q ! i)) \<rparr>) [0..<length (st q)]"
    using assms by (simp add: serves_def condition_def served_page_def)
  also have "\<dots> = map (\<lambda>p. Ok \<lparr> pg_Settings = Some (fst p), pg_ETag = Some (snd p) \<rparr>) (st q)"
    by (intro nth_equalityI) auto
  finally show ?thesis by (simp add: read_pages_Ok)
qed

text \<open>Loading: every selector contributes its pages in order, and its ETags are recorded.\<close>

lemma load_selectors_Ok:
  assumes "serves client st" and "\<forall>f \<in> set fs. sel_KeyFilter f \<noteq> None"
  shows "load_selectors cd client fs (settings, etags) =
    Ok (settings @ concat (map (\<lambda>f. concat (map fst (st (selector_query f)))) fs),
        etags @ map (\<lambda>f. (MakeComparable cd f, map (Some \<circ> snd) (st (selector_query f)))) fs)"
  using assms(2)
proof (induction fs arbitrary: settings etags)
  case (Cons f fs)
  then show ?case by (simp add: serves_unconditional [OF assms(1)])
qed simp

lemma check_pages_Ok:
  "check_pages (map Ok ps) n =
     (if list_ex (\<lambda>p. pg_ETag p \<noteq> None) ps then Ok None else Ok (Some (n + length ps)))"
  by (induction ps arbitrary: n) auto

lemma check_pages_served:
  assumes "serves client st"
  shows "res_bind (check_pages (ListSettings client q (map Some es)) 0)
      (\<lambda>u. case u of None \<Rightarrow> Ok True | Some n \<Rightarrow> if n \<noteq> length es then Ok True else rest)
    = (if map snd (st q) = es then rest else Ok True)"
proof -
  let ?ps = "map (\<lambda>i. served_page (condition (map Some es) i) (st q ! i)) [0..<length (st q)]"
  have l: "ListSettings client q (map Some es) = map Ok ?ps"
    using assms by (simp add: serves_def)
  have ex: "list_ex (\<lambda>p. pg_ETag p \<noteq> None) ?ps \<longleftrightarrow>
      (\<exists>i < length (st q). \<not> (i < length es \<and> es ! i = snd (st q ! i)))"
    by (force simp: list_ex_iff condition_def served_page_def)
  have eq: "map snd (st q) = es \<longleftrightarrow>
      length (st q) = length es \<and> (\<forall>i < length (st q). i < length es \<and> es ! i = snd (st q ! i))"
    by (auto simp: list_eq_iff_nth_eq)
  show ?thesis
  proof (cases "list_ex (\<lambda>p. pg_ETag p \<noteq> None) ?ps")
    case True
    then have "map snd (st q) \<noteq> es" unfolding ex eq by blast
    with True show ?thesis by (simp only: l check_pages_Ok if_True) simp
  next
    case False
    then have all: "\<forall>i < length (st q). i < length es \<and> es ! i = snd (st q ! i)"
      unfolding ex by blast
    then have "map snd (st q) = es \<longleftrightarrow> length (st q) = length es" unfolding eq by blast
    with False show ?thesis by (simp only: l check_pages_Ok if_False) simp
  qed
qed

lemma etags_changed_served:
  assumes "serves client st"
    and "\<forall>(c, es) \<in> set m. sel_KeyFilter (FromComparable cd c) \<noteq> None"
  shows "etags_changed cd client (map (\<lambda>(c, es). (c, map Some es)) m) =
    Ok (\<not> (\<forall>(c, es) \<in> set m. map snd (st (etag_query (FromComparable cd c))) = es))"
  using assms(2)
proof (induction m)
  case (Cons e m)
  obtain c es where e: "e = (c, es)" by fastforce
  have "sel_KeyFilter (FromComparable cd c) \<noteq> None" using Cons.prems e by simp
  then have "etags_changed cd client (map (\<lambda>(c, es). (c, map Some es)) (e # m)) =
      (if map snd (st (etag_query (FromComparable cd c))) = es
       then etags_changed cd client (map (\<lambda>(c, es). (c, map Some es)) m) else Ok True)"
    using check_pages_served [OF assms(1)] by (simp add: e Let_def del: res_bind_eq_Ok)
  also have "\<dots> = Ok (\<not> (\<forall>(c, es) \<in> set (e # m). map snd (st (etag_query (FromComparable cd c))) = es))"
    using Cons.IH Cons.prems by (simp add: e)
  finally show ?case .
qed simp

text \<open>
  The query that monitors a selector, up to the order of its tags.  For a selector with a label
  it is the query the selector is loaded with.
\<close>

lemma etag_query_MakeComparable:
  assumes "json_strings_ok cd S" and "set (slice (sel_TagFilters f)) \<subseteq> S"
  shows "etag_query (FromComparable cd (MakeComparable cd f))
    = (etag_query f)\<lparr>ss_TagsFilter := sort (ss_TagsFilter (etag_query f))\<rparr>"
  by (auto simp: FromComparable_MakeComparable [OF assms] etag_query_def split: option.split)

lemma etag_query_labelled: "sel_LabelFilter f \<noteq> None \<Longrightarrow> etag_query f = selector_query f"
  by (auto simp: etag_query_def selector_query_def)

lemma sel_KeyFilter_comparable [simp]:
  "sel_KeyFilter (FromComparable cd (MakeComparable cd f)) = sel_KeyFilter f"
  by (simp add: FromComparable_def MakeComparable_def)


lemma load_then_check:
  assumes "serves client A" and "serves client' B" and "\<forall>f \<in> set fs. sel_KeyFilter f \<noteq> None"
  shows "\<exists>settings etags.
      selector_GetSettings cd client fs = Ok (Some \<lparr> rsp_Settings = Some settings, rsp_Etags = Some etags \<rparr>)
    \<and> etag_GetSettings cd client' etags = Ok (Some \<lparr> rsp_Settings = None, rsp_Etags =
        (if \<forall>f \<in> set fs. map snd (B (etag_query (FromComparable cd (MakeComparable cd f))))
              = map snd (A (selector_query f)) then None else Some []) \<rparr>)"
proof -
  let ?m = "map (\<lambda>f. (MakeComparable cd f, map snd (A (selector_query f)))) fs"
  let ?etags = "map (\<lambda>(c, es). (c, map Some es)) ?m"
  have et: "?etags = map (\<lambda>f. (MakeComparable cd f, map (Some \<circ> snd) (A (selector_query f)))) fs"
    by simp
  have "etags_changed cd client' ?etags =
      Ok (\<not> (\<forall>(c, es) \<in> set ?m. map snd (B (etag_query (FromComparable cd c))) = es))"
    using assms(3) by (intro etags_changed_served [OF assms(2)]) auto
  then show ?thesis
    unfolding et
    by (simp add: selector_GetSettings_def etag_GetSettings_def load_selectors_Ok [OF assms(1,3)] ball_Un)
qed

section \<open>Properties\<close>

text \<open>
  C20. The page ETag check is exact for the queries it makes.  After the settings of some key
  selectors were loaded from a store, checking the recorded ETags against a later state of the
  store reports no change exactly when, for every selector, the query that monitors it lists
  pages with the ETags that were loaded, in the same order.  For a selector with a label that is
  the query it was loaded with: no change of its pages is missed and none is invented.
\<close>

theorem etag_check_exact:
  assumes "serves client A" and "serves client' B" and "tags_unordered B"
    and "json_strings_ok cd S"
    and "\<forall>f \<in> set fs. sel_KeyFilter f \<noteq> None \<and> set (slice (sel_TagFilters f)) \<subseteq> S"
  shows "\<exists>loaded etags changed.
      GetSettings cd (SelectorSettingsClient fs) client = Ok (Some loaded)
    \<and> rsp_Etags loaded = Some etags
    \<and> GetSettings cd (EtagSettingsClient etags) client' = Ok (Some changed)
    \<and> (rsp_Etags changed = None \<longleftrightarrow>
        (\<forall>f \<in> set fs. map snd (B (etag_query f)) = map snd (A (selector_query f))))
    \<and> (\<forall>f \<in> set fs. sel_LabelFilter f \<noteq> None \<longrightarrow> etag_query f = selector_query f)"
proof -
  have q: "B (etag_query (FromComparable cd (MakeComparable cd f))) = B (etag_query f)"
    if "f \<in> set fs" for f
    using etag_query_MakeComparable [OF assms(4), of f] assms(3,5) that
    by (simp add: tags_unordered_def)
  have k: "\<forall>f \<in> set fs. sel_KeyFilter f \<noteq> None" using assms(5) by blast
  obtain settings etags where
    "selector_GetSettings cd client fs = Ok (Some \<lparr> rsp_Settings = Some settings, rsp_Etags = Some etags \<rparr>)"
    "etag_GetSettings cd client' etags = Ok (Some \<lparr> rsp_Settings = None, rsp_Etags =
        (if \<forall>f \<in> set fs. map snd (B (etag_query (FromComparable cd (MakeComparable cd f))))
              = map snd (A (selector_query f)) then None else Some []) \<rparr>)"
    using load_then_check [OF assms(1,2) k] by blast
  then show ?thesis
    by (simp add: GetSettings_def q etag_query_labelled cong: ball_cong)
qed

text \<open>
  C31. The default selector is monitored with another query than it is loaded with.  A
  provider without selectors loads all keys under every label, but the check asks for the
  keys without a label.  On a store that does not change at all the check reports a change
  exactly when the two listings differ in their ETags.
\<close>

theorem default_selector_spurious_change:
  assumes "kvo_Selectors (spec_Configuration spec) = []" and "serves client A"
  shows "\<exists>loaded etags changed.
      GetSettings cd (SelectorSettingsClient (GetKeyValueFilters spec)) client = Ok (Some loaded)
    \<and> rsp_Etags loaded = Some etags
    \<and> GetSettings cd (EtagSettingsClient etags) client = Ok (Some changed)
    \<and> (rsp_Etags changed \<noteq> None \<longleftrightarrow>
          map snd (A \<lparr> ss_KeyFilter = Some ''*'', ss_LabelFilter = Some nullString, ss_TagsFilter = [] \<rparr>)
            \<noteq> map snd (A \<lparr> ss_KeyFilter = Some ''*'', ss_LabelFilter = None, ss_TagsFilter = [] \<rparr>))"
proof -
  have fs: "GetKeyValueFilters spec = [wildcard_selector]"
    using assms(1) by (simp add: GetKeyValueFilters_def normalizeFilter_def deduplicateFilters_def)
  have "\<forall>f \<in> set (GetKeyValueFilters spec). sel_KeyFilter f \<noteq> None"
    by (simp add: fs wildcard_selector_def)
  from load_then_check [OF assms(2,2) this, of cd] show ?thesis
    by (auto simp: fs GetSettings_def wildcard_selector_def selector_query_def etag_query_def
        MakeComparable_def FromComparable_def)
qed

text \<open>A store with one page per query and a client for it, for concrete instances.\<close>

definition one_page_store :: "etag \<Rightarrow> etag \<Rightarrow> store_pages" where
  "one_page_store all unlabelled q = [([], if ss_LabelFilter q = None then all else unlabelled)]"

definition client_of :: "store_pages \<Rightarrow> az_client" where
  "client_of st =
     \<lparr> ListSettings = (\<lambda>q conds. map (\<lambda>i. Ok (served_page (condition conds i) (st q ! i))) [0..<length (st q)]),
       GetSetting = (\<lambda>k l e. (\<lparr> set_Key = None, set_Value = None, set_Label = None, set_ContentType = None,
                                 set_ETag = None, set_Tags = [] \<rparr>, Some (ResponseError 404 None))),
       GetSnapshot = (\<lambda>n. Err (ResponseError 404 None)),
       ListSnapshotSettings = (\<lambda>n. []) \<rparr>"

lemma serves_client_of: "serves (client_of st) st"
  by (simp add: serves_def client_of_def)

theorem etag_check_exact_witness:
  "\<exists>loaded etags changed.
      GetSettings (go_codec Some (\<lambda>v. Ok []) (\<lambda>s. Ok VNil) (\<lambda>s. None)) (SelectorSettingsClient [hd sample_selectors])
        (client_of (one_page_store ''a'' ''b'')) = Ok (Some loaded)
    \<and> rsp_Etags loaded = Some etags
    \<and> GetSettings (go_codec Some (\<lambda>v. Ok []) (\<lambda>s. Ok VNil) (\<lambda>s. None)) (EtagSettingsClient etags)
        (client_of (one_page_store ''a'' ''c'')) = Ok (Some changed)
    \<and> rsp_Etags changed \<noteq> None"
  using etag_check_exact [OF serves_client_of [of "one_page_store ''a'' ''b''"]
      serves_client_of [of "one_page_store ''a'' ''c''"] _ go_codec_strings, of "[hd sample_selectors]"]
  by (simp add: one_page_store_def sample_selectors_def tags_unordered_def selector_query_def etag_query_def)

theorem default_selector_spurious_change_witness:
  "\<exists>loaded etags changed cd.
      GetSettings cd (SelectorSettingsClient (GetKeyValueFilters
        (sample_spec\<lparr>spec_Configuration := \<lparr> kvo_Selectors = [], kvo_TrimKeyPrefixes = [], kvo_Refresh = None \<rparr>\<rparr>)))
        (client_of (one_page_store ''a'' ''b'')) = Ok (Some loaded)
    \<and> rsp_Etags loaded = Some etags
    \<and> GetSettings cd (EtagSettingsClient etags) (client_of (one_page_store ''a'' ''b'')) = Ok (Some changed)
    \<and> rsp_Etags changed \<noteq> None"
  using default_selector_spurious_change [OF _ serves_client_of [of "one_page_store ''a'' ''b''"],
      of "sample_spec\<lparr>spec_Configuration := \<lparr> kvo_Selectors = [], kvo_TrimKeyPrefixes = [], kvo_Refresh = None \<rparr>\<rparr>"]
  by (simp add: one_page_store_def) blast

end
