(* ===== verification/Go_Url.thy ===== *)
theory Go_Url
  imports Go_Strings
begin

text \<open>
  \<^verbatim>\<open>url.Parse\<close> of \<^verbatim>\<open>net/url\<close> as far as the sources read its result: scheme, host, path and
  whether it fails.  User information is cut off and query and fragment are dropped (their
  escapes are checked in the path and the fragment only, as in Go).  A host in brackets
  must close them; the zone syntax inside is not modelled.
\<close>

record go_url =
  u_Scheme :: string
  u_Host :: string
  u_Path :: string

definition is_letter :: "char \<Rightarrow> bool" where
  "is_letter c \<longleftrightarrow> (let n = of_char c :: nat in 65 \<le> n \<and> n \<le> 90 \<or> 97 \<le> n \<and> n \<le> 122)"

definition is_dec :: "char \<Rightarrow> bool" where
  "is_dec c \<longleftrightarrow> 48 \<le> (of_char c :: nat) \<and> (of_char c :: nat) \<le> 57"

definition has_ctl :: "string \<Rightarrow> bool" where
  "has_ctl s \<longleftrightarrow> list_ex (\<lambda>c. (of_char c :: nat) < 32 \<or> (of_char c :: nat) = 127) s"

text \<open>\<^verbatim>\<open>strings.Cut\<close>: before and after the first separator.\<close>

definition str_Cut :: "string \<Rightarrow> string \<Rightarrow> string \<times> string" where
  "str_Cut s sep =
     (case Index s sep of
        None \<Rightarrow> (s, [])
      | Some i \<Rightarrow> (take i s, drop (i + length sep) s))"

text \<open>
  \<^verbatim>\<open>getScheme\<close>: \<open>i\<close> characters of a possible scheme were read.  \<open>None\<close> is the error for a
  missing scheme.
\<close>

fun scheme_length :: "nat \<Rightarrow> string \<Rightarrow> nat option option" where
  "scheme_length i [] = Some None"
| "scheme_length i (c # s) =
     (if is_letter c then scheme_length (Suc i) s
      else if is_dec c \<or> c \<in> set ''+-.'' then (if i = 0 then Some None else scheme_length (Suc i) s)
      else if c = CHR '':'' then (if i = 0 then None else Some (Some i))
      else Some None)"

definition getScheme :: "string \<Rightarrow> (string \<times> string) option" where
  "getScheme s =
     (case scheme_length 0 s of
        None \<Rightarrow> None
      | Some None \<Rightarrow> Some ([], s)
      | Some (Some i) \<Rightarrow> Some (take i s, drop (Suc i) s))"

definition url_hex :: "char \<Rightarrow> nat option" where
  "url_hex c =
     (let n = of_char c :: nat
      in if 48 \<le> n \<and> n \<le> 57 then Some (n - 48)
         else if 97 \<le> n \<and> n \<le> 102 then Some (n - 87)
         else if 65 \<le> n \<and> n \<le> 70 then Some (n - 55)
         else None)"

text \<open>\<^verbatim>\<open>unescape\<close> of a path.\<close>

fun unescape :: "string \<Rightarrow> string option" where
  "unescape [] = Some []"
| "unescape (c # s) =
     (if c = CHR ''%'' then
        (case s of
           a # b # r \<Rightarrow>
             (case (url_hex a, url_hex b) of
                (Some x, Some y) \<Rightarrow> map_option (\<lambda>t. char_of (16 * x + y) # t) (unescape r)
              | _ \<Rightarrow> None)
         | _ \<Rightarrow> None)
      else map_option (\<lambda>t. c # t) (unescape s))"

text \<open>Characters of a host: the others below 128, and escapes of such bytes, are errors.\<close>

definition host_char :: "char \<Rightarrow> bool" where
  "host_char c \<longleftrightarrow>
     is_letter c \<or> is_dec c \<or> 128 \<le> (of_char c :: nat) \<or> c \<in> set ''!$&()*+,;=:[]<>-_.~'' \<or> c = DQ \<or> c = CHR 0x27"

fun unescape_host :: "string \<Rightarrow> string option" where
  "unescape_host [] = Some []"
| "unescape_host (c # s) =
     (if c = CHR ''%'' then
        (case s of
           a # b # r \<Rightarrow>
             (case (url_hex a, url_hex b) of
                (Some x, Some y) \<Rightarrow>
                  if x < 8 then None else map_option (\<lambda>t. char_of (16 * x + y) # t) (unescape_host r)
              | _ \<Rightarrow> None)
         | _ \<Rightarrow> None)
      else if host_char c then map_option (\<lambda>t. c # t) (unescape_host s)
      else None)"

definition validOptionalPort :: "string \<Rightarrow> bool" where
  "validOptionalPort port \<longleftrightarrow>
     (case port of [] \<Rightarrow> True | c # r \<Rightarrow> c = CHR '':'' \<and> list_all is_dec r)"

definition parseHost :: "string \<Rightarrow> string option" where
  "parseHost host =
     (case LastIndex host ''['' of
        Some i \<Rightarrow>
          (case LastIndex host '']'' of
             None \<Rightarrow> None
           | Some j \<Rightarrow> if validOptionalPort (drop (Suc j) host) then unescape_host host else None)
      | None \<Rightarrow>
          (case LastIndex host '':'' of
             Some i \<Rightarrow> if validOptionalPort (drop i host) then unescape_host host else None
           | None \<Rightarrow> unescape_host host))"

definition userinfo_char :: "char \<Rightarrow> bool" where
  "userinfo_char c \<longleftrightarrow> is_letter c \<or> is_dec c \<or> c \<in> set ''-._:~!$&()*+,;=%@'' \<or> c = CHR 0x27"

definition parseAuthority :: "string \<Rightarrow> string option" where
  "parseAuthority authority =
     (case LastIndex authority ''@'' of
        None \<Rightarrow> parseHost authority
      | Some i \<Rightarrow>
          (case parseHost (drop (Suc i) authority) of
             None \<Rightarrow> None
           | Some host \<Rightarrow>
               if list_all userinfo_char (take i authority) \<and> unescape (take i authority) \<noteq> None
               then Some host else None))"

definition cut_query :: "string \<Rightarrow> string" where
  "cut_query rest = fst (str_Cut rest ''?'')"

definition with_path :: "string \<Rightarrow> string \<Rightarrow> string \<Rightarrow> go_url option" where
  "with_path scheme host rest =
     map_option (\<lambda>path. \<lparr> u_Scheme = scheme, u_Host = host, u_Path = path \<rparr>) (unescape rest)"

definition parse_url :: "string \<Rightarrow> go_url option" where
  "parse_url rawURL =
     (if has_ctl rawURL then None
      else if rawURL = ''*'' then Some \<lparr> u_Scheme = [], u_Host = [], u_Path = ''*'' \<rparr>
      else
        (case getScheme rawURL of
           None \<Rightarrow> None
         | Some (sch, rest0) \<Rightarrow>
             let scheme = ToLower sch; rest = cut_query rest0
             in if \<not> HasPrefix rest ''/'' \<and> scheme \<noteq> [] then
                  Some \<lparr> u_Scheme = scheme, u_Host = [], u_Path = [] \<rparr>
                else if \<not> HasPrefix rest ''/'' \<and> CHR '':'' \<in> set (fst (str_Cut rest ''/'')) then None
                else if (scheme \<noteq> [] \<or> \<not> HasPrefix rest ''///'') \<and> HasPrefix rest ''//'' then
                  (let authority = takeWhile (\<lambda>c. c \<noteq> CHR ''/'') (drop 2 rest);
                       path = dropWhile (\<lambda>c. c \<noteq> CHR ''/'') (drop 2 rest)
                   in case parseAuthority authority of
                        None \<Rightarrow> None
                      | Some host \<Rightarrow> with_path scheme host path)
                else with_path scheme [] rest))"

definition url_Parse :: "string \<Rightarrow> go_url option" where
  "url_Parse rawURL =
     (let (u, frag) = str_Cut rawURL ''#''
      in case parse_url u of
           None \<Rightarrow> None
         | Some url \<Rightarrow> if unescape frag = None then None else Some url)"

section \<open>Plain https URLs\<close>

definition plain_host_char :: "char \<Rightarrow> bool" where
  "plain_host_char c \<longleftrightarrow> is_letter c \<or> is_dec c \<or> c \<in> set ''-.''"

definition plain_path_char :: "char \<Rightarrow> bool" where
  "plain_path_char c \<longleftrightarrow> is_letter c \<or> is_dec c \<or> c \<in> set ''-./_''"

lemma plain_host_char_not [simp]:
  "\<not> plain_host_char (CHR ''%'')" "\<not> plain_host_char (CHR ''#'')" "\<not> plain_host_char (CHR ''?'')"
  "\<not> plain_host_char (CHR '':'')" "\<not> plain_host_char (CHR ''@'')" "\<not> plain_host_char (CHR ''['')"
  "\<not> plain_host_char (CHR ''/'')"
  by (simp_all add: plain_host_char_def is_letter_def is_dec_def)

lemma plain_path_char_not [simp]:
  "\<not> plain_path_char (CHR ''%'')" "\<not> plain_path_char (CHR ''#'')" "\<not> plain_path_char (CHR ''?'')"
  "\<not> plain_path_char (CHR '':'')"
  by (simp_all add: plain_path_char_def is_letter_def is_dec_def)

lemma plain_not_ctl:
  "plain_host_char c \<or> plain_path_char c \<Longrightarrow> \<not> ((of_char c :: nat) < 32 \<or> (of_char c :: nat) = 127)"
  by (elim disjE) (auto simp: plain_host_char_def plain_path_char_def is_letter_def is_dec_def)

lemma plain_host_char_host: "plain_host_char c \<Longrightarrow> host_char c"
  by (auto simp: host_char_def plain_host_char_def)

lemma list_all_notin: "list_all P s \<Longrightarrow> \<not> P c \<Longrightarrow> c \<notin> set s"
  by (auto simp: list_all_iff)

lemma unescape_plain: "list_all plain_path_char s \<Longrightarrow> unescape s = Some s"
proof (induction s)
  case (Cons c s)
  then have "c \<noteq> CHR ''%''" by (intro notI) simp
  with Cons show ?case by simp
qed simp

lemma unescape_host_plain: "list_all plain_host_char s \<Longrightarrow> unescape_host s = Some s"
proof (induction s)
  case (Cons c s)
  then have "c \<noteq> CHR ''%''" by (intro notI) simp
  with Cons plain_host_char_host [of c] show ?case by simp
qed simp

lemma parseAuthority_plain: "list_all plain_host_char h \<Longrightarrow> parseAuthority h = Some h"
  by (simp add: parseAuthority_def parseHost_def LastIndex_absent list_all_notin unescape_host_plain)

lemma span_to_char:
  assumes "c \<notin> set h" and "p = [] \<or> (\<exists>q. p = c # q)"
  shows "takeWhile (\<lambda>x. x \<noteq> c) (h @ p) = h" and "dropWhile (\<lambda>x. x \<noteq> c) (h @ p) = p"
proof -
  show "takeWhile (\<lambda>x. x \<noteq> c) (h @ p) = h"
    using assms by (induction h) auto
  show "dropWhile (\<lambda>x. x \<noteq> c) (h @ p) = p"
    using assms by (induction h) auto
qed

text \<open>An https URL with a plain host and path is taken apart as written.\<close>

lemma url_Parse_https:
  assumes "list_all plain_host_char h" and "list_all plain_path_char p" and "p = [] \<or> HasPrefix p ''/''"
  shows "url_Parse (''https://'' @ h @ p) = Some \<lparr> u_Scheme = ''https'', u_Host = h, u_Path = p \<rparr>"
proof -
  let ?r = "''//'' @ h @ p"
  have no: "CHR ''#'' \<notin> set (h @ p)" "CHR ''?'' \<notin> set (h @ p)" "CHR '':'' \<notin> set (h @ p)"
    using assms(1,2) by (simp_all add: list_all_notin)
  have ctl: "\<not> has_ctl (h @ p)"
    using assms(1,2) plain_not_ctl unfolding has_ctl_def list_ex_iff list_all_iff set_append by blast
  have cut1: "str_Cut (''https:'' @ ?r) ''#'' = (''https:'' @ ?r, [])"
    using no(1) by (subst str_Cut_def, subst Index_absent) auto
  have q: "cut_query ?r = ?r"
    using no(2) by (subst cut_query_def, subst str_Cut_def, subst Index_absent) auto
  have sch: "getScheme (''https:'' @ ?r) = Some (''https'', ?r)"
    by (simp add: getScheme_def is_letter_def is_dec_def)
  have "CHR ''/'' \<notin> set h"
    using assms(1) by (simp add: list_all_notin)
  moreover have "p = [] \<or> (\<exists>q. p = CHR ''/'' # q)"
    using assms(3) by (auto simp: HasPrefix_iff)
  ultimately have au: "takeWhile (\<lambda>c. c \<noteq> CHR ''/'') (h @ p) = h" "dropWhile (\<lambda>c. c \<noteq> CHR ''/'') (h @ p) = p"
    using span_to_char [of "CHR ''/''" h p] by blast+
  have "parse_url (''https:'' @ ?r) = Some \<lparr> u_Scheme = ''https'', u_Host = h, u_Path = p \<rparr>"
    using ctl sch q au
    by (simp add: parse_url_def has_ctl_def ToLower_def lower_char_def HasPrefix_def Let_def
        parseAuthority_plain [OF assms(1)] with_path_def unescape_plain [OF assms(2)])
  then show ?thesis
    using cut1 by (simp add: url_Parse_def)
qed

end
