(* ===== verification/Client_Manager.thy ===== *)
theory Client_Manager
  imports Settings_Clients Go_Url "HOL-Library.Log_Nat"
begin

text \<open>
  \<^verbatim>\<open>internal/loader/configuration_client_manager.go\<close>: the clients of a store and its
  replicas, their discovery through DNS, back-off after failures, connection strings and
  credentials.  Azure's and Kubernetes' client libraries, the DNS resolver and the process
  environment are the fields of \<open>loader_env\<close>; the clock and the random numbers are
  arguments.
\<close>

section \<open>Data\<close>

text \<open>A credential is what \<^verbatim>\<open>azidentity\<close> was asked to create.\<close>

datatype TokenCredential =
    WorkloadIdentityCredential string
  | ClientSecretCredential string string string
  | ManagedIdentityCredential "string option"
  | ClientAssertionCredential string string string string

record ClientOptions =
  co_ApplicationID :: string
  co_Audience :: "string option"

record loader_env =
  env_GetConfigMap :: "string \<Rightarrow> string \<Rightarrow> (string, string) gomap res"
  env_GetSecret :: "string \<Rightarrow> string \<Rightarrow> (string, string) gomap res"
  env_GetServiceAccount :: "string \<Rightarrow> string \<Rightarrow> (string, string) gomap res"
  env_LookupEnv :: "string \<Rightarrow> string option"
  env_uuid_Parse :: "string \<Rightarrow> bool"
  env_NewCredential :: "TokenCredential \<Rightarrow> go_error option"
  env_NewClient :: "string \<Rightarrow> TokenCredential option \<Rightarrow> ClientOptions \<Rightarrow> az_client res"
  env_NewClientFromConnectionString :: "string \<Rightarrow> ClientOptions \<Rightarrow> az_client res"
  env_LookupSRV :: "string \<Rightarrow> string \<Rightarrow> string list res"

record ConfigurationClientWrapper =
  cw_Endpoint :: string
  cw_Client :: az_client
  cw_BackOffEndTime :: go_time
  cw_FailedAttempts :: int

record ConfigurationClientManager =
  cm_ReplicaDiscoveryEnabled :: bool
  cm_LoadBalancingEnabled :: bool
  cm_StaticClientWrappers :: "ConfigurationClientWrapper list"
  cm_DynamicClientWrappers :: "ConfigurationClientWrapper list option"
  cm_validDomain :: string
  cm_endpoint :: string
  cm_credential :: "TokenCredential option"
  cm_secret :: string
  cm_id :: string
  cm_lastFallbackClientAttempt :: go_time
  cm_lastFallbackClientRefresh :: go_time
  cm_lastSuccessfulEndpoint :: string

text \<open>
  The code passes pointers to the wrappers around and changes them through these: a pointer
  is the position of the wrapper in the manager.
\<close>

datatype wrapper_ref = StaticRef nat | DynamicRef nat

definition wrapper_at :: "ConfigurationClientManager \<Rightarrow> wrapper_ref \<Rightarrow> ConfigurationClientWrapper" where
  "wrapper_at m r =
     (case r of StaticRef i \<Rightarrow> cm_StaticClientWrappers m ! i
              | DynamicRef i \<Rightarrow> slice (cm_DynamicClientWrappers m) ! i)"

definition update_wrapper ::
    "wrapper_ref \<Rightarrow> (ConfigurationClientWrapper \<Rightarrow> ConfigurationClientWrapper) \<Rightarrow>
     ConfigurationClientManager \<Rightarrow> ConfigurationClientManager" where
  "update_wrapper r f m =
     (case r of
        StaticRef i \<Rightarrow>
          m\<lparr>cm_StaticClientWrappers := (cm_StaticClientWrappers m)[i := f (cm_StaticClientWrappers m ! i)]\<rparr>
      | DynamicRef i \<Rightarrow>
          m\<lparr>cm_DynamicClientWrappers :=
             map_option (\<lambda>ws. ws[i := f (ws ! i)]) (cm_DynamicClientWrappers m)\<rparr>)"

definition MinimalClientRefreshInterval :: duration where
  "MinimalClientRefreshInterval = 30 * second"

definition FallbackClientRefreshExpireInterval :: duration where
  "FallbackClientRefreshExpireInterval = hour"

definition MaxBackoffDuration :: duration where
  "MaxBackoffDuration = 10 * minute"

definition MinBackoffDuration :: duration where
  "MinBackoffDuration = 30 * second"

definition SafeShiftLimit :: int where
  "SafeShiftLimit = 63"

section \<open>Connection strings\<close>

definition EndpointSection :: string where "EndpointSection = ''Endpoint''"
definition SecretSection :: string where "SecretSection = ''Secret''"
definition IdSection :: string where "IdSection = ''Id''"

definition buildConnectionString :: "string \<Rightarrow> string \<Rightarrow> string \<Rightarrow> string" where
  "buildConnectionString endpoint secret ident =
     (if secret = [] \<or> ident = [] then []
      else EndpointSection @ ''='' @ endpoint @ '';'' @ IdSection @ ''='' @ ident @ '';''
             @ SecretSection @ ''='' @ secret)"

definition parseConnectionString :: "string \<Rightarrow> string \<Rightarrow> string res" where
  "parseConnectionString connectionString token =
     (if connectionString = [] then Err (Errorf ''connectionString is empty'' [] [])
      else
        let parseToken = token @ ''=''
        in case Index connectionString parseToken of
             None \<Rightarrow> Err (Errorf ''invalid connectionString %s'' [connectionString] [])
           | Some startIndex \<Rightarrow>
               let endIndex = (case Index (drop startIndex connectionString) '';'' of
                                 None \<Rightarrow> length connectionString
                               | Some e \<Rightarrow> e + startIndex)
               in Ok (drop (startIndex + length parseToken) (take endIndex connectionString)))"

definition verifyEndpointFromConnectionString :: "string \<Rightarrow> unit res" where
  "verifyEndpointFromConnectionString endpoint =
     (case url_Parse (ToLower endpoint) of
        None \<Rightarrow> Err (Errorf ''invalid endpoint %q from connectionString'' [endpoint] [])
      | Some url \<Rightarrow>
          if u_Host url = [] then
            Err (Errorf ''invalid endpoint %q from connectionString, host must be specified'' [endpoint] [])
          else if u_Scheme url \<noteq> ''https'' then
            Err (Errorf ''invalid endpoint %q from connectionString, only https scheme is allowed'' [endpoint] [])
          else if Trim (u_Path url) ''/'' \<noteq> [] then
            Err (Errorf ''invalid endpoint %q from connectionString, only host name is allowed'' [endpoint] [])
          else Ok ())"

section \<open>Domains of replicas\<close>

definition isValidEndpoint :: "string \<Rightarrow> string \<Rightarrow> bool" where
  "isValidEndpoint host validDomain =
     (if validDomain = [] then False else HasSuffix (ToLower host) (ToLower validDomain))"

definition TrustedDomainLabels :: "string list" where
  "TrustedDomainLabels = [''.azconfig.'', ''.appconfig.'']"

fun valid_domain_loop :: "string \<Rightarrow> string list \<Rightarrow> string" where
  "valid_domain_loop host [] = []"
| "valid_domain_loop host (label # labels) =
     (case LastIndex (ToLower host) (ToLower label) of
        Some index \<Rightarrow> drop index host
      | None \<Rightarrow> valid_domain_loop host labels)"

text \<open>The result of a failed \<^verbatim>\<open>url.Parse\<close> is nil, and the code reads its host.\<close>

definition host_of :: "string \<Rightarrow> string res" where
  "host_of endpoint =
     (case url_Parse endpoint of None \<Rightarrow> Panic ''nil pointer dereference'' | Some url \<Rightarrow> Ok (u_Host url))"

definition getValidDomain :: "string \<Rightarrow> string res" where
  "getValidDomain endpoint =
     res_bind (host_of endpoint) (\<lambda>host. Ok (valid_domain_loop host TrustedDomainLabels))"

section \<open>Credentials\<close>

definition AzureClientId :: string where "AzureClientId = ''azure_client_id''"
definition AzureClientSecret :: string where "AzureClientSecret = ''azure_client_secret''"
definition AzureTenantId :: string where "AzureTenantId = ''azure_tenant_id''"
definition AnnotationClientID :: string where "AnnotationClientID = ''azure.workload.identity/client-id''"
definition AnnotationTenantID :: string where "AnnotationTenantID = ''azure.workload.identity/tenant-id''"
definition AzureAppConfigurationConnectionString :: string where
  "AzureAppConfigurationConnectionString = ''azure_app_configuration_connection_string''"

text \<open>\<^verbatim>\<open>m[k]\<close> of a map of strings: the zero value for an absent key.\<close>

definition goindex :: "(string, string) gomap \<Rightarrow> string \<Rightarrow> string" where
  "goindex m k = (case golookup m k of None \<Rightarrow> [] | Some v \<Rightarrow> v)"

definition new_credential :: "loader_env \<Rightarrow> TokenCredential \<Rightarrow> TokenCredential option res" where
  "new_credential env c = (case env_NewCredential env c of None \<Rightarrow> Ok (Some c) | Some e \<Rightarrow> Err e)"

definition newClientAssertionCredential ::
    "loader_env \<Rightarrow> string \<Rightarrow> string \<Rightarrow> TokenCredential option res" where
  "newClientAssertionCredential env serviceAccountName serviceAccountNamespace =
     res_bind (env_GetServiceAccount env serviceAccountNamespace serviceAccountName) (\<lambda>annotations.
       case golookup annotations AnnotationClientID of
         None \<Rightarrow> Err (Errorf ''annotation '%s' of service account %s/%s is required''
                       [AnnotationClientID, serviceAccountNamespace, serviceAccountName] [])
       | Some clientId \<Rightarrow>
           res_bind
             (case golookup annotations AnnotationTenantID of
                Some t \<Rightarrow> Ok t
              | None \<Rightarrow>
                  (case env_LookupEnv env ''AZURE_TENANT_ID'' of
                     Some t \<Rightarrow> Ok t
                   | None \<Rightarrow>
                       Err (Errorf ''annotation '%s' of service account %s/%s is required since using global service account for workload identity is disabled''
                              [AnnotationTenantID, serviceAccountNamespace, serviceAccountName] [])))
             (\<lambda>tenantId. new_credential env
                (ClientAssertionCredential tenantId clientId serviceAccountNamespace serviceAccountName)))"

definition getWorkloadIdentityClientId ::
    "loader_env \<Rightarrow> WorkloadIdentityParameters \<Rightarrow> string \<Rightarrow> string res" where
  "getWorkloadIdentityClientId env wi namespace =
     (case wi_ManagedIdentityClientIdReference wi of
        None \<Rightarrow>
          (case wi_ManagedIdentityClientId wi of
             None \<Rightarrow> Panic ''nil pointer dereference''
           | Some i \<Rightarrow> Ok i)
      | Some ref \<Rightarrow>
          res_bind (env_GetConfigMap env namespace (mir_ConfigMap ref)) (\<lambda>configMap.
            case golookup configMap (mir_Key ref) of
              None \<Rightarrow> Err (Errorf ''key '%s' does not exist'' [mir_Key ref] [])
            | Some managedIdentityClientId \<Rightarrow>
                if env_uuid_Parse env managedIdentityClientId then Ok managedIdentityClientId
                else Err (Errorf ''managedIdentityClientId %q is not a valid uuid'' [managedIdentityClientId] [])))"

record ServicePrincipleAuthenticationParameters =
  sp_ClientId :: string
  sp_ClientSecret :: string
  sp_TenantId :: string

definition getServicePrincipleAuthenticationParameters ::
    "loader_env \<Rightarrow> string \<Rightarrow> string \<Rightarrow> ServicePrincipleAuthenticationParameters res" where
  "getServicePrincipleAuthenticationParameters env namespace name =
     res_bind (env_GetSecret env namespace name) (\<lambda>data.
       Ok \<lparr> sp_ClientId = goindex data AzureClientId, sp_ClientSecret = goindex data AzureClientSecret,
            sp_TenantId = goindex data AzureTenantId \<rparr>)"

definition getConnectionStringParameter :: "loader_env \<Rightarrow> string \<Rightarrow> string \<Rightarrow> string res" where
  "getConnectionStringParameter env namespace name =
     res_bind (env_GetSecret env namespace name) (\<lambda>data.
       case golookup data AzureAppConfigurationConnectionString of
         None \<Rightarrow> Err (Errorf ''key '%s' does not exist'' [AzureAppConfigurationConnectionString] [])
       | Some s \<Rightarrow> Ok s)"

definition wrap_error :: "string \<Rightarrow> string list \<Rightarrow> 'a res \<Rightarrow> 'a res" where
  "wrap_error fmt args r = (case r of Err e \<Rightarrow> Err (Errorf fmt args [e]) | _ \<Rightarrow> r)"

definition CreateTokenCredential ::
    "loader_env \<Rightarrow> AzureAppConfigurationProviderAuth option \<Rightarrow> string \<Rightarrow> TokenCredential option res" where
  "CreateTokenCredential env acpAuth namespace =
     (case acpAuth of
        None \<Rightarrow> new_credential env (ManagedIdentityCredential None)
      | Some au \<Rightarrow>
          (case auth_WorkloadIdentity au of
             Some wi \<Rightarrow>
               (case wi_ServiceAccountName wi of
                  Some sa \<Rightarrow> newClientAssertionCredential env sa namespace
                | None \<Rightarrow>
                    res_bind
                      (wrap_error ''fail to retrieve workload identity client ID from configMap '%s' : %s''
                         (case wi_ManagedIdentityClientIdReference wi of None \<Rightarrow> [] | Some ref \<Rightarrow> [mir_ConfigMap ref])
                         (getWorkloadIdentityClientId env wi namespace))
                      (\<lambda>i. new_credential env (WorkloadIdentityCredential i)))
           | None \<Rightarrow>
               (case auth_ServicePrincipalReference au of
                  Some ref \<Rightarrow>
                    res_bind
                      (wrap_error ''fail to retrieve service principal secret from '%s': %s'' [ref]
                         (getServicePrincipleAuthenticationParameters env namespace ref))
                      (\<lambda>p. new_credential env
                         (ClientSecretCredential (sp_TenantId p) (sp_ClientId p) (sp_ClientSecret p)))
                | None \<Rightarrow>
                    (case auth_ManagedIdentityClientId au of
                       Some i \<Rightarrow> new_credential env (ManagedIdentityCredential (Some i))
                     | None \<Rightarrow> Ok None))))"

section \<open>Clients\<close>

text \<open>The build sets the version through a linker flag; the source's default is here.\<close>

definition ModuleVersion :: string where "ModuleVersion = ''develop''"
definition ModuleName :: string where "ModuleName = ''azcfg-k8s''"

definition newClientOptions :: "loader_env \<Rightarrow> ClientOptions" where
  "newClientOptions env =
     \<lparr> co_ApplicationID = ModuleName @ ''/'' @ ModuleVersion,
       co_Audience =
         (case env_LookupEnv env ''AZURE_APPCONFIGURATION_AUDIENCE'' of
            None \<Rightarrow> None
          | Some audience \<Rightarrow> if audience \<noteq> [] then Some audience else None) \<rparr>"

definition newConfigurationClient ::
    "loader_env \<Rightarrow> ConfigurationClientManager \<Rightarrow> string \<Rightarrow> az_client res" where
  "newConfigurationClient env manager endpoint =
     (case cm_credential manager of
        Some c \<Rightarrow> env_NewClient env endpoint (Some c) (newClientOptions env)
      | None \<Rightarrow>
          let connectionStr = buildConnectionString endpoint (cm_secret manager) (cm_id manager)
          in if connectionStr = [] then
               Err (Errorf ''failed to build connection string for fallback client'' [] [])
             else env_NewClientFromConnectionString env connectionStr (newClientOptions env))"

definition fresh_wrapper :: "string \<Rightarrow> az_client \<Rightarrow> ConfigurationClientWrapper" where
  "fresh_wrapper endpoint client =
     \<lparr> cw_Endpoint = endpoint, cw_Client = client, cw_BackOffEndTime = 0, cw_FailedAttempts = 0 \<rparr>"

definition NewConfigurationClientManager ::
    "loader_env \<Rightarrow> Provider \<Rightarrow> ConfigurationClientManager res" where
  "NewConfigurationClientManager env provider =
     (let spec = pv_Spec provider;
          manager = \<lparr> cm_ReplicaDiscoveryEnabled = spec_ReplicaDiscoveryEnabled spec,
            cm_LoadBalancingEnabled = spec_LoadBalancingEnabled spec, cm_StaticClientWrappers = [],
            cm_DynamicClientWrappers = None, cm_validDomain = [], cm_endpoint = [], cm_credential = None,
            cm_secret = [], cm_id = [], cm_lastFallbackClientAttempt = 0, cm_lastFallbackClientRefresh = 0,
            cm_lastSuccessfulEndpoint = [] \<rparr>
      in res_bind
           (case spec_ConnectionStringReference spec of
              Some ref \<Rightarrow>
                res_bind
                  (wrap_error ''fail to retrieve connection string from secret '%s': %s'' [ref]
                     (getConnectionStringParameter env (pv_Namespace provider) ref))
                  (\<lambda>connectionString.
                     res_bind (parseConnectionString connectionString EndpointSection) (\<lambda>endpoint.
                       res_bind (verifyEndpointFromConnectionString endpoint) (\<lambda>_.
                         res_bind (parseConnectionString connectionString SecretSection) (\<lambda>secret.
                           res_bind (parseConnectionString connectionString IdSection) (\<lambda>ident.
                             res_bind (env_NewClientFromConnectionString env connectionString (newClientOptions env))
                               (\<lambda>client. Ok (manager\<lparr> cm_endpoint := endpoint, cm_secret := secret, cm_id := ident \<rparr>, client)))))))
            | None \<Rightarrow>
                res_bind (CreateTokenCredential env (spec_Auth spec) (pv_Namespace provider)) (\<lambda>credential.
                  case spec_Endpoint spec of
                    None \<Rightarrow> Panic ''nil pointer dereference''
                  | Some endpoint \<Rightarrow>
                      res_bind (env_NewClient env endpoint credential (newClientOptions env))
                        (\<lambda>client. Ok (manager\<lparr> cm_credential := credential, cm_endpoint := endpoint \<rparr>, client))))
           (\<lambda>(m, client).
              res_bind (getValidDomain (cm_endpoint m)) (\<lambda>validDomain.
                Ok (m\<lparr> cm_validDomain := validDomain,
                       cm_StaticClientWrappers := [fresh_wrapper (cm_endpoint m) client] \<rparr>))))"

section \<open>Discovery of replicas\<close>

text \<open>
  The loop over the alternates \<^verbatim>\<open>alt0\<close>, \<^verbatim>\<open>alt1\<close>, ... ends at the first name that is not found;
  when there is none it does not return.
\<close>

definition alt_targets :: "string list \<Rightarrow> string list" where
  "alt_targets records = filter (\<lambda>h. h \<noteq> []) (map (\<lambda>target. TrimSuffix target ''.'') records)"

partial_function (option) alt_loop ::
    "loader_env \<Rightarrow> string \<Rightarrow> nat \<Rightarrow> string list \<Rightarrow> string list res option" where
  "alt_loop env originHost index results =
     (case env_LookupSRV env (''alt'' @ Itoa index) originHost of
        Ok records \<Rightarrow> alt_loop env originHost (Suc index) (results @ alt_targets records)
      | Err e \<Rightarrow> Some (if e = DNSError True then Ok results else Err e)
      | Panic p \<Rightarrow> Some (Panic p))"

definition QuerySrvTargetHost :: "loader_env \<Rightarrow> string \<Rightarrow> string list res option" where
  "QuerySrvTargetHost env host =
     (case env_LookupSRV env ''origin'' host of
        Err e \<Rightarrow> Some (if e = DNSError True then Ok [] else Err e)
      | Panic p \<Rightarrow> Some (Panic p)
      | Ok originRecords \<Rightarrow>
          (case originRecords of
             [] \<Rightarrow> Some (Ok [])
           | target # _ \<Rightarrow>
               let originHost = TrimSuffix target ''.''
               in alt_loop env originHost 0 [originHost]))"

text \<open>
  The outcome of the race between the query and its ten-second timeout, the random numbers
  of the shuffle, and the time when it is over.
\<close>

record discovery =
  ds_timed_out :: bool
  ds_Intn :: "nat \<Rightarrow> nat"
  ds_now :: go_time

text \<open>\<^verbatim>\<open>rand.Intn(i + 1)\<close> is at most \<open>i\<close>.\<close>

fun shuffle_loop :: "(nat \<Rightarrow> nat) \<Rightarrow> nat \<Rightarrow> nat \<Rightarrow> 'a list \<Rightarrow> 'a list" where
  "shuffle_loop intn i 0 xs = xs"
| "shuffle_loop intn i (Suc n) xs =
     (let j = intn i mod Suc i
      in shuffle_loop intn (Suc i) n (xs[i := xs ! j, j := xs ! i]))"

definition shuffle :: "(nat \<Rightarrow> nat) \<Rightarrow> 'a list \<Rightarrow> 'a list" where
  "shuffle intn xs = shuffle_loop intn 0 (length xs) xs"

fun fallback_clients ::
    "loader_env \<Rightarrow> ConfigurationClientManager \<Rightarrow> string list \<Rightarrow> ConfigurationClientWrapper list res" where
  "fallback_clients env manager [] = Ok []"
| "fallback_clients env manager (host # hosts) =
     (if isValidEndpoint host (cm_validDomain manager) then
        (let targetEndpoint = ''https://'' @ host
         in if EqualFold targetEndpoint (cm_endpoint manager) then fallback_clients env manager hosts
            else
              res_bind (newConfigurationClient env manager targetEndpoint) (\<lambda>client.
                res_bind (fallback_clients env manager hosts) (\<lambda>ws.
                  Ok (fresh_wrapper targetEndpoint client # ws))))
      else fallback_clients env manager hosts)"

text \<open>
  Neither an error nor the timeout leaves this function.  The SRV records are queried in a
  goroutine, where a panic of the resolver would end the process; like a panic of the SDK when
  it makes a client it is outside the model, which keeps the clients there are.
\<close>

definition DiscoverFallbackClients ::
    "loader_env \<Rightarrow> discovery \<Rightarrow> string \<Rightarrow> ConfigurationClientManager \<Rightarrow> ConfigurationClientManager" where
  "DiscoverFallbackClients env ds host manager =
     (if ds_timed_out ds then manager
      else
        (case QuerySrvTargetHost env host of
           Some (Ok srvTargetHosts) \<Rightarrow>
             (case fallback_clients env manager (shuffle (ds_Intn ds) srvTargetHosts) of
                Ok newDynamicClients \<Rightarrow>
                  manager\<lparr> cm_DynamicClientWrappers := Some newDynamicClients,
                           cm_lastFallbackClientRefresh := ds_now ds \<rparr>
              | _ \<Rightarrow> manager)
         | _ \<Rightarrow> manager))"

definition discover ::
    "loader_env \<Rightarrow> discovery \<Rightarrow> go_time \<Rightarrow> ConfigurationClientManager \<Rightarrow> ConfigurationClientManager res" where
  "discover env ds currentTime manager =
     res_bind (host_of (cm_endpoint manager)) (\<lambda>host.
       Ok (DiscoverFallbackClients env ds host (manager\<lparr> cm_lastFallbackClientAttempt := currentTime \<rparr>)))"

definition ready :: "go_time \<Rightarrow> (nat \<Rightarrow> wrapper_ref) \<Rightarrow> ConfigurationClientWrapper list \<Rightarrow> wrapper_ref list" where
  "ready currentTime mk ws =
     map mk (filter (\<lambda>i. cw_BackOffEndTime (ws ! i) < currentTime) [0..<length ws])"

definition GetClients ::
    "loader_env \<Rightarrow> discovery \<Rightarrow> go_time \<Rightarrow> ConfigurationClientManager \<Rightarrow>
     (ConfigurationClientManager \<times> wrapper_ref list) res" where
  "GetClients env ds currentTime manager =
     (let clients = ready currentTime StaticRef (cm_StaticClientWrappers manager)
      in if \<not> cm_ReplicaDiscoveryEnabled manager then Ok (manager, clients)
         else
           res_bind
             (if cm_lastFallbackClientAttempt manager + MinimalClientRefreshInterval < currentTime \<and>
                 (cm_DynamicClientWrappers manager = None \<or>
                  cm_lastFallbackClientRefresh manager + FallbackClientRefreshExpireInterval < currentTime)
              then discover env ds currentTime manager else Ok manager)
             (\<lambda>m. Ok (m, clients @ ready currentTime DynamicRef (slice (cm_DynamicClientWrappers m)))))"

definition RefreshClients ::
    "loader_env \<Rightarrow> discovery \<Rightarrow> go_time \<Rightarrow> ConfigurationClientManager \<Rightarrow> ConfigurationClientManager res" where
  "RefreshClients env ds currentTime manager =
     (if cm_ReplicaDiscoveryEnabled manager \<and>
         cm_lastFallbackClientAttempt manager + MinimalClientRefreshInterval < currentTime
      then discover env ds currentTime manager else Ok manager)"


section \<open>Back-off\<close>

text \<open>
  Rounding to the 53 significant bits of a \<^verbatim>\<open>float64\<close>, half to even, for an integer multiple
  of a fixed power of two.
\<close>

definition round53_nat :: "nat \<Rightarrow> nat" where
  "round53_nat x =
     (let s = nat (bitlen (int x)) - 53; q = x div 2 ^ s; r = x mod 2 ^ s
      in (if 2 ^ s < 2 * r \<or> 2 ^ s = 2 * r \<and> odd q then q + 1 else q) * 2 ^ s)"

definition round53 :: "int \<Rightarrow> int" where
  "round53 x = (if x < 0 then - int (round53_nat (nat (- x))) else int (round53_nat (nat x)))"

text \<open>
  \<^verbatim>\<open>Jitter\<close>, with \<open>k / 2 ^ 53\<close> as the value of \<^verbatim>\<open>rand.Float64()\<close>, in units of \<open>2 ^ (- 55)\<close>
  nanoseconds: a quarter of the duration is \<open>d * 2 ^ 53\<close> units and the product with twice
  that is \<open>2 * k * d\<close>; the multiplications by powers of two are exact, the other results
  are rounded, and the conversion back to an integer cuts towards zero.
\<close>

definition quot_zero :: "int \<Rightarrow> int \<Rightarrow> int" where
  "quot_zero a b = (if a < 0 then - ((- a) div b) else a div b)"

definition Jitter :: "nat \<Rightarrow> duration \<Rightarrow> duration" where
  "Jitter k dur =
     (let d = round53 dur;
          randomJitter = round53 (round53 (2 * (int k mod 2 ^ 53) * d) - d * 2 ^ 53)
      in wrap64 (dur + quot_zero randomJitter (2 ^ 55)))"

text \<open>
  The milliseconds are computed in \<^verbatim>\<open>float64\<close>: 30000 times a power of two up to \<open>2 ^ 63\<close>,
  which is exact.
\<close>

definition calculateBackoffDuration :: "nat \<Rightarrow> int \<Rightarrow> duration" where
  "calculateBackoffDuration k failedAttempts =
     (if failedAttempts \<le> 1 then MinBackoffDuration
      else
        let calculatedMilliseconds =
              max 1 (MinBackoffDuration div millisecond) * 2 ^ nat (min (failedAttempts - 1) SafeShiftLimit);
            capped = (if calculatedMilliseconds > MaxBackoffDuration div millisecond \<or> calculatedMilliseconds \<le> 0
                      then MaxBackoffDuration div millisecond else calculatedMilliseconds)
        in Jitter k (wrap64 (capped * millisecond)))"

definition updateClientBackoffStatus ::
    "go_time \<Rightarrow> nat \<Rightarrow> bool \<Rightarrow> ConfigurationClientWrapper \<Rightarrow> ConfigurationClientWrapper" where
  "updateClientBackoffStatus now k successful w =
     (if successful then
        w\<lparr> cw_BackOffEndTime := 0,
           cw_FailedAttempts := wrap64 ((if cw_FailedAttempts w > 0 then 0 else cw_FailedAttempts w) - 1) \<rparr>
      else
        let attempts = wrap64 ((if cw_FailedAttempts w < 0 then 0 else cw_FailedAttempts w) + 1)
        in w\<lparr> cw_FailedAttempts := attempts,
              cw_BackOffEndTime := now + calculateBackoffDuration k attempts \<rparr>)"

subsection \<open>Rounding\<close>

lemma div_less_pow: "x < a * 2 ^ s \<Longrightarrow> x div 2 ^ s < (a :: nat)"
  by (simp add: less_mult_imp_div_less)

text \<open>Rounding does not pass a bound that is itself a \<^verbatim>\<open>float64\<close>.\<close>

lemma round53_nat_le:
  assumes "x \<le> m * 2 ^ t" and "m < 2 ^ 53"
  shows "round53_nat x \<le> m * 2 ^ t"
proof -
  define s where "s = nat (bitlen (int x)) - 53"
  have st: "s \<le> t"
  proof (rule ccontr)
    assume "\<not> s \<le> t"
    then have "53 + t < nat (bitlen (int x))" by (simp add: s_def)
    then have x: "x > 0" and b: "int t + 53 \<le> bitlen (int x) - 1"
      by (auto simp: bitlen_alt_def split: if_splits)
    have "(2 :: int) ^ (t + 53) \<le> 2 ^ nat (bitlen (int x) - 1)"
      using b by (intro power_increasing) auto
    also have "\<dots> \<le> int x" using x bitlen_bounds [of "int x"] by simp
    finally have "2 ^ (t + 53) \<le> x" by (metis of_nat_le_iff of_nat_numeral of_nat_power)
    moreover have "m * 2 ^ t < 2 ^ 53 * 2 ^ t" using assms(2) by simp
    moreover have "(2 :: nat) ^ (t + 53) = 2 ^ 53 * 2 ^ t" by (simp only: power_add mult.commute)
    ultimately show False using assms(1) by linarith
  qed
  then obtain u where t: "t = s + u" using le_Suc_ex by blast
  define q where "q = x div 2 ^ s"
  define r where "r = x mod 2 ^ s"
  have x: "x = q * 2 ^ s + r" unfolding q_def r_def by (rule div_mult_mod_eq [symmetric])
  have "x \<le> (m * 2 ^ u) * 2 ^ s" using assms(1) by (simp add: t power_add mult_ac)
  then have qle: "q \<le> m * 2 ^ u"
    unfolding q_def by (metis div_le_mono nonzero_mult_div_cancel_right power_not_zero zero_neq_numeral)
  have up: "q + 1 \<le> m * 2 ^ u" if "0 < r"
  proof -
    have "q * 2 ^ s < (m * 2 ^ u) * 2 ^ s"
      using that x \<open>x \<le> (m * 2 ^ u) * 2 ^ s\<close> by linarith
    then show ?thesis by simp
  qed
  have "(if 2 ^ s < 2 * r \<or> 2 ^ s = 2 * r \<and> odd q then q + 1 else q) \<le> m * 2 ^ u"
    using qle up by (cases "0 < r") auto
  then have "(if 2 ^ s < 2 * r \<or> 2 ^ s = 2 * r \<and> odd q then q + 1 else q) * 2 ^ s \<le> m * 2 ^ u * 2 ^ s"
    by (rule mult_le_mono1)
  moreover have "round53_nat x = (if 2 ^ s < 2 * r \<or> 2 ^ s = 2 * r \<and> odd q then q + 1 else q) * 2 ^ s"
    by (simp only: round53_nat_def Let_def s_def q_def r_def)
  moreover have "m * 2 ^ t = m * 2 ^ u * 2 ^ s" by (simp add: t power_add mult_ac)
  ultimately show ?thesis by (simp only:)
qed

lemma round53_abs_le:
  assumes "\<bar>x\<bar> \<le> int m * 2 ^ t" and "m < 2 ^ 53"
  shows "\<bar>round53 x\<bar> \<le> int m * 2 ^ t"
proof -
  have "nat \<bar>x\<bar> \<le> m * 2 ^ t"
    using assms(1) by (metis nat_le_iff of_nat_mult of_nat_numeral of_nat_power)
  from round53_nat_le [OF this assms(2)] have "int (round53_nat (nat \<bar>x\<bar>)) \<le> int m * 2 ^ t"
    by (metis of_nat_le_iff of_nat_mult of_nat_numeral of_nat_power)
  then show ?thesis by (auto simp: round53_def)
qed

lemma round53_nonneg: "0 \<le> x \<Longrightarrow> 0 \<le> round53 x"
  by (simp add: round53_def)

lemma round53_small: "0 \<le> x \<Longrightarrow> x < 2 ^ 53 \<Longrightarrow> round53 x = x"
proof -
  assume x: "0 \<le> x" "x < 2 ^ 53"
  then have "bitlen x \<le> 53" by (simp add: bitlen_le_iff_power)
  then show ?thesis using x by (simp add: round53_def round53_nat_def Let_def)
qed


lemma quot_zero_bound:
  assumes "\<bar>a\<bar> \<le> c * b" and "0 < b" and "0 \<le> c"
  shows "\<bar>quot_zero a b\<bar> \<le> c"
proof -
  have "\<bar>a\<bar> div b \<le> c"
    using assms by (metis mult.commute nonzero_mult_div_cancel_left order_less_irrefl zdiv_mono1)
  moreover have "0 \<le> \<bar>a\<bar> div b" using assms(2) by (simp add: pos_imp_zdiv_nonneg_iff)
  ultimately show ?thesis by (auto simp: quot_zero_def)
qed

text \<open>The jitter stays within a quarter of the duration, in spite of the roundings.\<close>

lemma Jitter_bounds:
  assumes "0 \<le> d" and "4 * d < 2 ^ 53"
  shows "\<bar>Jitter k (4 * d) - 4 * d\<bar> \<le> d"
proof -
  define D where "D = nat (4 * d)"
  have D: "int D = 4 * d" "D < 2 ^ 53" using assms by (auto simp: D_def)
  define p where "p = round53 (2 * (int k mod 2 ^ 53) * int D)"
  have k: "0 \<le> int k mod 2 ^ 53" "int k mod 2 ^ 53 \<le> 2 ^ 53" by auto
  have "2 * (int k mod 2 ^ 53) * int D \<le> 2 * 2 ^ 53 * int D"
    using k(2) by (intro mult_right_mono mult_left_mono) auto
  then have "\<bar>2 * (int k mod 2 ^ 53) * int D\<bar> \<le> int D * 2 ^ 54"
    using k(1) by (simp add: abs_mult)
  from round53_abs_le [OF this D(2)] have p1: "\<bar>p\<bar> \<le> int D * 2 ^ 54" by (simp add: p_def)
  have "0 \<le> p" unfolding p_def using k(1) by (intro round53_nonneg) simp
  with p1 have "0 \<le> p" "p \<le> 2 * (int D * 2 ^ 53)" by auto
  then have "\<bar>p - int D * 2 ^ 53\<bar> \<le> int D * 2 ^ 53" by (intro abs_leI) linarith+
  from round53_abs_le [OF this D(2)] have "\<bar>round53 (p - int D * 2 ^ 53)\<bar> \<le> d * 2 ^ 55"
    by (simp add: D(1))
  then have q: "\<bar>quot_zero (round53 (p - int D * 2 ^ 53)) (2 ^ 55)\<bar> \<le> d"
    using assms(1) by (intro quot_zero_bound) auto
  have "round53 (4 * d) = int D" using D by (simp add: round53_small)
  then have J: "Jitter k (4 * d) = wrap64 (4 * d + quot_zero (round53 (p - int D * 2 ^ 53)) (2 ^ 55))"
    by (simp only: Jitter_def Let_def p_def)
  have "wrap64 (4 * d + quot_zero (round53 (p - int D * 2 ^ 53)) (2 ^ 55))
      = 4 * d + quot_zero (round53 (p - int D * 2 ^ 53)) (2 ^ 55)"
    using q assms by (intro wrap64_id) auto
  with J q show ?thesis by linarith
qed

lemma backoff_base:
  assumes "1 < n"
  shows "calculateBackoffDuration k n
    = Jitter k (4 * (min (30000 * 2 ^ nat (min (n - 1) 63)) 600000 * 250000))"
proof -
  define M :: int where "M = min (30000 * 2 ^ nat (min (n - 1) 63)) 600000"
  have "0 \<le> M" "M \<le> 600000" by (auto simp: M_def)
  then have "wrap64 (M * 1000000) = M * 1000000" by (intro wrap64_id) auto
  then have "wrap64 (min (30000 * 2 ^ nat (min (n - 1) 63)) 600000 * 1000000)
      = min (30000 * 2 ^ nat (min (n - 1) 63)) 600000 * 1000000"
    unfolding M_def .
  then show ?thesis
    using assms
    by (auto simp: calculateBackoffDuration_def Let_def MinBackoffDuration_def MaxBackoffDuration_def
        SafeShiftLimit_def duration_defs min_def not_less)
qed


section \<open>Discovery lemmas\<close>

lemma mset_swap: "i < length xs \<Longrightarrow> j < length xs \<Longrightarrow> mset (xs[i := xs ! j, j := xs ! i]) = mset xs"
  by (simp add: mset_swap)

lemma mset_shuffle_loop: "i + n \<le> length xs \<Longrightarrow> mset (shuffle_loop intn i n xs) = mset xs"
proof (induction intn i n xs rule: shuffle_loop.induct)
  case (2 intn i n xs)
  have "intn i mod Suc i < length xs"
    using "2.prems" mod_less_divisor [of "Suc i" "intn i"] by linarith
  then show ?case
    using "2.IH" [OF refl] "2.prems" by (simp add: Let_def mset_swap)
qed simp

lemma mset_shuffle: "mset (shuffle intn xs) = mset xs"
  by (simp add: shuffle_def mset_shuffle_loop)

text \<open>The alternates are collected up to the first that does not exist.\<close>

lemma alt_loop_returns:
  assumes "\<forall>i < n. env_LookupSRV env (''alt'' @ Itoa (k + i)) origin = Ok (recs (k + i))"
    and "env_LookupSRV env (''alt'' @ Itoa (k + n)) origin = Err (DNSError True)"
  shows "alt_loop env origin k results
    = Some (Ok (results @ concat (map (\<lambda>i. alt_targets (recs (k + i))) [0..<n])))"
  using assms
proof (induction n arbitrary: k results)
  case 0
  then show ?case by (simp add: alt_loop.simps)
next
  case (Suc n)
  have "env_LookupSRV env (''alt'' @ Itoa k) origin = Ok (recs k)"
    using Suc.prems(1) by (metis add.right_neutral zero_less_Suc)
  then have "alt_loop env origin k results = alt_loop env origin (Suc k) (results @ alt_targets (recs k))"
    by (subst alt_loop.simps) simp
  also have "\<dots> = Some (Ok ((results @ alt_targets (recs k)) @
      concat (map (\<lambda>i. alt_targets (recs (Suc k + i))) [0..<n])))"
    using Suc.prems by (intro Suc.IH) auto
  also have "[0..<Suc n] = 0 # map Suc [0..<n]" by (simp add: map_Suc_upt upt_conv_Cons)
  then have "concat (map (\<lambda>i. alt_targets (recs (Suc k + i))) [0..<n]) =
      concat (map (\<lambda>i. alt_targets (recs (k + i))) (tl [0..<Suc n]))"
    by (simp add: comp_def)
  finally show ?case
    by (simp add: \<open>[0..<Suc n] = 0 # map Suc [0..<n]\<close> del: upt_Suc)
qed

definition trusted_replica :: "ConfigurationClientManager \<Rightarrow> ConfigurationClientWrapper \<Rightarrow> bool" where
  "trusted_replica m w \<longleftrightarrow>
     (\<exists>host. cw_Endpoint w = ''https://'' @ host \<and> cm_validDomain m \<noteq> [] \<and>
        HasSuffix (ToLower host) (ToLower (cm_validDomain m)) \<and>
        \<not> EqualFold (cw_Endpoint w) (cm_endpoint m))"

lemma fallback_clients_trusted:
  "fallback_clients env m hosts = Ok ws \<Longrightarrow> w \<in> set ws \<Longrightarrow>
     trusted_replica m w \<and> cw_BackOffEndTime w = 0 \<and> (\<exists>host \<in> set hosts. cw_Endpoint w = ''https://'' @ host)"
proof (induction hosts arbitrary: ws)
  case (Cons host hosts)
  then show ?case
    by (auto simp: Let_def isValidEndpoint_def trusted_replica_def fresh_wrapper_def split: if_splits)
qed simp

definition manager_ok :: "ConfigurationClientManager \<Rightarrow> bool" where
  "manager_ok m \<longleftrightarrow>
     getValidDomain (cm_endpoint m) = Ok (cm_validDomain m) \<and>
     map cw_Endpoint (cm_StaticClientWrappers m) = [cm_endpoint m] \<and>
     list_all (trusted_replica m) (slice (cm_DynamicClientWrappers m))"

lemma trusted_replica_update [simp]:
  "trusted_replica (m\<lparr> cm_DynamicClientWrappers := dyn \<rparr>) = trusted_replica m"
  "trusted_replica (m\<lparr> cm_StaticClientWrappers := st \<rparr>) = trusted_replica m"
  "trusted_replica (m\<lparr> cm_lastFallbackClientAttempt := ts \<rparr>) = trusted_replica m"
  "trusted_replica (m\<lparr> cm_lastFallbackClientRefresh := ts \<rparr>) = trusted_replica m"
  "trusted_replica (m\<lparr> cm_lastSuccessfulEndpoint := e \<rparr>) = trusted_replica m"
  by (auto simp: trusted_replica_def fun_eq_iff)

lemma DiscoverFallbackClients_cases:
  "DiscoverFallbackClients env ds host m = m \<or>
   (\<exists>hosts ws. QuerySrvTargetHost env host = Some (Ok hosts) \<and>
      fallback_clients env m (shuffle (ds_Intn ds) hosts) = Ok ws \<and>
      DiscoverFallbackClients env ds host m =
        m\<lparr> cm_DynamicClientWrappers := Some ws, cm_lastFallbackClientRefresh := ds_now ds \<rparr>)"
  by (auto simp: DiscoverFallbackClients_def split: option.splits res.splits)

lemma manager_ok_Discover: "manager_ok m \<Longrightarrow> manager_ok (DiscoverFallbackClients env ds host m)"
  using DiscoverFallbackClients_cases [of env ds host m]
proof (elim disjE exE conjE)
  fix hosts ws
  assume ok: "manager_ok m"
    and ws: "fallback_clients env m (shuffle (ds_Intn ds) hosts) = Ok ws"
    and eq: "DiscoverFallbackClients env ds host m =
      m\<lparr> cm_DynamicClientWrappers := Some ws, cm_lastFallbackClientRefresh := ds_now ds \<rparr>"
  have "\<forall>w \<in> set ws. trusted_replica m w" using fallback_clients_trusted [OF ws] by blast
  then show ?thesis
    using ok by (auto simp: eq manager_ok_def list_all_iff trusted_replica_def)
qed simp

lemma manager_ok_attempt: "manager_ok m \<Longrightarrow> manager_ok (m\<lparr> cm_lastFallbackClientAttempt := t \<rparr>)"
  by (auto simp: manager_ok_def list_all_iff trusted_replica_def)

lemma manager_ok_discover: "discover env ds t m = Ok m' \<Longrightarrow> manager_ok m \<Longrightarrow> manager_ok m'"
  by (auto simp: discover_def intro: manager_ok_Discover manager_ok_attempt)

lemma manager_ok_GetClients: "GetClients env ds t m = Ok (m', cs) \<Longrightarrow> manager_ok m \<Longrightarrow> manager_ok m'"
  by (auto simp: GetClients_def Let_def split: if_splits dest: manager_ok_discover)

lemma manager_ok_RefreshClients: "RefreshClients env ds t m = Ok m' \<Longrightarrow> manager_ok m \<Longrightarrow> manager_ok m'"
  by (auto simp: RefreshClients_def split: if_splits dest: manager_ok_discover)

lemma cw_Endpoint_update_status [simp]:
  "cw_Endpoint (updateClientBackoffStatus now k b w) = cw_Endpoint w"
  by (simp add: updateClientBackoffStatus_def Let_def)

lemma map_update_same: "(\<And>w. g (f w) = g w) \<Longrightarrow> map g (ws[i := f (ws ! i)]) = map g ws"
  by (cases "i < length ws") (simp_all add: map_update list_update_same_conv list_update_beyond)

lemma manager_ok_update_status:
  assumes "manager_ok m"
  shows "manager_ok (update_wrapper r (updateClientBackoffStatus now k b) m)"
proof (cases r)
  case (StaticRef i)
  then show ?thesis
    using assms by (auto simp: manager_ok_def update_wrapper_def map_update_same list_all_iff trusted_replica_def)
next
  case (DynamicRef i)
  have "list_all (trusted_replica m) (ws[i := updateClientBackoffStatus now k b (ws ! i)])"
    if "list_all (trusted_replica m) ws" for ws
  proof -
    have "trusted_replica m w" if w: "w \<in> set (ws[i := updateClientBackoffStatus now k b (ws ! i)])" for w
    proof -
      have "cw_Endpoint w \<in> set (map cw_Endpoint (ws[i := updateClientBackoffStatus now k b (ws ! i)]))"
        using w by simp
      then have "cw_Endpoint w \<in> cw_Endpoint ` set ws"
        by (simp add: map_update_same del: set_map) simp
      then obtain w' where "w' \<in> set ws" "cw_Endpoint w = cw_Endpoint w'" by auto
      with \<open>list_all (trusted_replica m) ws\<close> show ?thesis
        by (auto simp: list_all_iff trusted_replica_def)
    qed
    then show ?thesis by (simp add: list_all_iff)
  qed
  then show ?thesis
    using assms DynamicRef
    by (cases "cm_DynamicClientWrappers m") (auto simp: manager_ok_def update_wrapper_def)
qed


lemma NewConfigurationClientManager_ok:
  "NewConfigurationClientManager env provider = Ok m \<Longrightarrow> manager_ok m"
  by (auto simp: NewConfigurationClientManager_def Let_def manager_ok_def fresh_wrapper_def
      split: option.splits)

text \<open>The life of a manager: creation, and then any sequence of operations on it.\<close>

inductive manager_reach :: "loader_env \<Rightarrow> Provider \<Rightarrow> ConfigurationClientManager \<Rightarrow> bool"
  for env :: loader_env and provider :: Provider where
  created: "NewConfigurationClientManager env provider = Ok m \<Longrightarrow> manager_reach env provider m"
| got: "manager_reach env provider m \<Longrightarrow> GetClients env ds t m = Ok (m', cs) \<Longrightarrow> manager_reach env provider m'"
| refreshed: "manager_reach env provider m \<Longrightarrow> RefreshClients env ds t m = Ok m' \<Longrightarrow> manager_reach env provider m'"
| attempted: "manager_reach env provider m \<Longrightarrow>
    manager_reach env provider (update_wrapper r (updateClientBackoffStatus t k b) m)"
| succeeded: "manager_reach env provider m \<Longrightarrow> manager_reach env provider (m\<lparr> cm_lastSuccessfulEndpoint := e \<rparr>)"

lemma manager_reach_ok: "manager_reach env provider m \<Longrightarrow> manager_ok m"
proof (induction rule: manager_reach.induct)
  case (succeeded m e)
  then show ?case by (simp add: manager_ok_def)
qed (auto intro: NewConfigurationClientManager_ok manager_ok_update_status
    dest: manager_ok_GetClients manager_ok_RefreshClients)

lemma valid_domain_loop_suffix:
  "valid_domain_loop host labels = d \<Longrightarrow> d \<noteq> [] \<Longrightarrow>
     (\<exists>pre. host = pre @ d) \<and> (\<exists>label \<in> set labels. HasPrefix (ToLower d) (ToLower label))"
proof (induction labels)
  case (Cons label labels)
  show ?case
  proof (cases "LastIndex (ToLower host) (ToLower label)")
    case None
    with Cons show ?thesis by auto
  next
    case (Some i)
    then have d: "d = drop i host" using Cons.prems by simp
    have "HasPrefix (drop i (ToLower host)) (ToLower label)"
      using Some by (rule LastIndex_prefix)
    then have "HasPrefix (ToLower d) (ToLower label)"
      by (simp add: d ToLower_def drop_map)
    moreover have "host = take i host @ d" by (simp add: d)
    ultimately show ?thesis by auto
  qed
qed simp

lemma HasSuffix_iff: "HasSuffix s p \<longleftrightarrow> (\<exists>r. s = r @ p)"
  unfolding HasSuffix_def by (auto intro: exI [of _ "take (length s - length p) s"]) (metis append_take_drop_id)

section \<open>Connection string lemmas\<close>

lemma first_char_unique:
  "c \<notin> set x \<Longrightarrow> c \<notin> set y \<Longrightarrow> x @ c # r = y @ c # q \<Longrightarrow> x = y"
proof (induction x arbitrary: y)
  case Nil
  then show ?case by (cases y) auto
next
  case (Cons a x)
  then show ?case by (cases y) auto
qed

text \<open>A token ends in an equals sign, so it is found only right before one.\<close>

lemma HasPrefix_token:
  assumes "CHR ''='' \<notin> set w" and "CHR ''='' \<notin> set pre"
  shows "HasPrefix (pre @ CHR ''='' # rest) (w @ ''='') \<longleftrightarrow> pre = w"
proof
  assume "HasPrefix (pre @ CHR ''='' # rest) (w @ ''='')"
  then obtain q where "pre @ CHR ''='' # rest = w @ CHR ''='' # q" by (auto simp: HasPrefix_iff)
  with assms show "pre = w" by (metis first_char_unique)
next
  assume "pre = w"
  then show "HasPrefix (pre @ CHR ''='' # rest) (w @ ''='')"
    using HasPrefix_append [of "w @ ''=''" rest] by simp
qed

lemma Index_token_skip:
  assumes "CHR ''='' \<notin> set w" and "CHR ''='' \<notin> set pre" and "\<nexists>a. pre = a @ w"
  shows "Index (pre @ CHR ''='' # rest) (w @ ''='') = map_option (\<lambda>i. Suc (length pre) + i) (Index rest (w @ ''=''))"
  using assms(2,3)
proof (induction pre)
  case Nil
  then have "\<not> HasPrefix (CHR ''='' # rest) (w @ ''='')"
    using HasPrefix_token [OF assms(1), of "[]" rest] by auto
  then show ?case by simp
next
  case (Cons c pre)
  have "\<not> HasPrefix ((c # pre) @ CHR ''='' # rest) (w @ ''='')"
    using HasPrefix_token [OF assms(1) Cons.prems(1), of rest] Cons.prems(2) by auto
  moreover have "\<nexists>a. pre = a @ w" using Cons.prems(2) by (metis append_Cons)
  ultimately show ?case
    using Cons by (simp add: option.map_comp comp_def)
qed

lemma Index_token_hit:
  assumes "CHR ''='' \<notin> set w" and "CHR ''='' \<notin> set a"
  shows "Index (a @ w @ CHR ''='' # rest) (w @ ''='') = Some (length a)"
  using assms(2)
proof (induction a)
  case Nil
  have "HasPrefix (w @ CHR ''='' # rest) (w @ ''='')"
    using HasPrefix_token [OF assms(1,1)] by simp
  then show ?case by (cases "w @ CHR ''='' # rest") auto
next
  case (Cons c a)
  have "\<not> HasPrefix ((c # a @ w) @ CHR ''='' # rest) (w @ ''='')"
    using Cons.prems assms(1) by (subst HasPrefix_token [OF assms(1)]) auto
  with Cons show ?case by simp
qed

text \<open>One section of a connection string: where it starts and that it ends at a semicolon.\<close>

lemma parseConnectionString_section:
  assumes "Index (a @ (token @ ''='') @ v @ rest) (token @ ''='') = Some (length a)"
    and "CHR '';'' \<notin> set token" and "CHR '';'' \<notin> set v" and "rest = [] \<or> (\<exists>r. rest = CHR '';'' # r)"
  shows "parseConnectionString (a @ (token @ ''='') @ v @ rest) token = Ok v"
proof -
  let ?s = "a @ (token @ ''='') @ v @ rest"
  let ?p = "token @ ''='' @ v"
  have d: "drop (length a) ?s = ?p @ rest" by simp
  have no: "CHR '';'' \<notin> set ?p" using assms(2,3) by simp
  have e: "(case Index (drop (length a) ?s) '';'' of None \<Rightarrow> length ?s | Some e \<Rightarrow> e + length a)
      = length a + length ?p"
    using assms(4)
  proof
    assume "rest = []"
    then show ?thesis unfolding d using Index_absent [OF no] by simp
  next
    assume "\<exists>r. rest = CHR '';'' # r"
    then obtain r where "rest = CHR '';'' # r" by blast
    then show ?thesis unfolding d using Index_char_append [OF no, of r] by simp
  qed
  have "?s \<noteq> []" by simp
  then show ?thesis
    unfolding parseConnectionString_def Let_def assms(1) by (simp only: if_False option.case e) simp
qed


lemma Index_sections:
  assumes "CHR ''='' \<notin> set e" and "CHR ''='' \<notin> set i"
  shows "Index (''Endpoint'' @ CHR ''='' # (e @ '';Id'') @ CHR ''='' # (i @ '';Secret'') @ CHR ''='' # s) (''Endpoint'' @ ''='') = Some 0"
    and "Index (''Endpoint'' @ CHR ''='' # (e @ '';Id'') @ CHR ''='' # (i @ '';Secret'') @ CHR ''='' # s) (''Id'' @ ''='') = Some (10 + length e)"
    and "Index (''Endpoint'' @ CHR ''='' # (e @ '';Id'') @ CHR ''='' # (i @ '';Secret'') @ CHR ''='' # s) (''Secret'' @ ''='')
      = Some (14 + length e + length i)"
proof -
  let ?t = "(i @ '';Secret'') @ CHR ''='' # s"
  let ?r = "(e @ '';Id'') @ CHR ''='' # ?t"
  show "Index (''Endpoint'' @ CHR ''='' # ?r) (''Endpoint'' @ ''='') = Some 0"
    using Index_token_hit [of "''Endpoint''" "[]" ?r] by simp
  have id: "Index ?r (''Id'' @ ''='') = Some (length (e @ '';''))"
    using Index_token_hit [of "''Id''" "e @ '';''" ?t] assms(1) by simp
  have s1: "\<nexists>a. ''Endpoint'' = a @ ''Id''"
    by (auto dest: arg_cong [where f = last])
  show "Index (''Endpoint'' @ CHR ''='' # ?r) (''Id'' @ ''='') = Some (10 + length e)"
    by (subst Index_token_skip [OF _ _ s1]) (simp_all only: id, simp_all)
  have s2: "\<nexists>a. ''Endpoint'' = a @ ''Secret''"
  proof
    assume "\<exists>a. ''Endpoint'' = a @ ''Secret''"
    then obtain a where a: "''Endpoint'' = a @ ''Secret''" by blast
    then have "drop 6 (rev ''Endpoint'') = rev a" "take 6 (rev ''Endpoint'') = rev ''Secret''" by simp_all
    then show False by simp
  qed
  have s3: "\<nexists>a. e @ '';Id'' = a @ ''Secret''"
    by (auto dest: arg_cong [where f = last])
  have "Index ?t (''Secret'' @ ''='') = Some (length (i @ '';''))"
    using Index_token_hit [of "''Secret''" "i @ '';''" s] assms(2) by simp
  then have "Index ?r (''Secret'' @ ''='') = Some (Suc (length (e @ '';Id'')) + length (i @ '';''))"
    using assms(1) by (subst Index_token_skip [OF _ _ s3]) auto
  then show "Index (''Endpoint'' @ CHR ''='' # ?r) (''Secret'' @ ''='') = Some (14 + length e + length i)"
    by (subst Index_token_skip [OF _ _ s2]) auto
qed


section \<open>Properties\<close>

text \<open>
  C18. Replicas are contacted only inside the trusted domain of the configured store.  In every
  state a manager can reach, each replica client talks https to a host whose name ends,
  whatever the case, in the domain of the configured endpoint, that domain starts with one
  of the trusted labels, and the replica is not the configured endpoint itself.
\<close>

theorem replicas_stay_trusted:
  assumes "manager_reach env provider m" and "w \<in> set (slice (cm_DynamicClientWrappers m))"
  shows "\<exists>host pre. cw_Endpoint w = ''https://'' @ host
    \<and> host_of (cm_endpoint m) = Ok (pre @ cm_validDomain m)
    \<and> (\<exists>label \<in> set TrustedDomainLabels. HasPrefix (ToLower (cm_validDomain m)) label)
    \<and> HasSuffix (ToLower host) (ToLower (cm_validDomain m))
    \<and> \<not> EqualFold (cw_Endpoint w) (cm_endpoint m)"
proof -
  have ok: "manager_ok m" using manager_reach_ok [OF assms(1)] .
  then have tr: "trusted_replica m w" using assms(2) by (auto simp: manager_ok_def list_all_iff)
  then have ne: "cm_validDomain m \<noteq> []" by (auto simp: trusted_replica_def)
  from ok obtain h where h: "host_of (cm_endpoint m) = Ok h"
      "valid_domain_loop h TrustedDomainLabels = cm_validDomain m"
    by (auto simp: manager_ok_def getValidDomain_def)
  have low: "ToLower label = label" if "label \<in> set TrustedDomainLabels" for label
    using that by (auto simp: TrustedDomainLabels_def ToLower_def lower_char_def)
  from valid_domain_loop_suffix [OF h(2) ne] low show ?thesis
    using tr h(1) unfolding trusted_replica_def by metis
qed

text \<open>
  C33. Replica discovery returns once an alternate name does not exist: the hosts are the
  origin and then the targets of the alternates before it, in order, without empty names.
\<close>

theorem replica_query_returns:
  assumes "env_LookupSRV env ''origin'' host = Ok (target # targets)"
    and "\<forall>i < n. env_LookupSRV env (''alt'' @ Itoa i) (TrimSuffix target ''.'') = Ok (recs i)"
    and "env_LookupSRV env (''alt'' @ Itoa n) (TrimSuffix target ''.'') = Err (DNSError True)"
  shows "QuerySrvTargetHost env host
    = Some (Ok (TrimSuffix target ''.'' # concat (map (\<lambda>i. alt_targets (recs i)) [0..<n])))"
  using assms alt_loop_returns [of n env 0 "TrimSuffix target ''.''" recs "[TrimSuffix target ''.'']"]
  by (simp add: QuerySrvTargetHost_def Let_def)

text \<open>
  C34. A client that failed rests for a bounded time.  Its failure count grows by one from zero
  or above; after the first failure it rests 30 seconds, after the \<open>n\<close>-th between three and
  five quarters of \<open>30 * 2 ^ (n - 1)\<close> seconds capped at ten minutes, for every random draw.
\<close>

theorem failed_client_backs_off:
  assumes "cw_FailedAttempts w < 2 ^ 63 - 1"
    and "w' = updateClientBackoffStatus now k False w"
    and "base = min (30 * second * 2 ^ nat (max 0 (cw_FailedAttempts w))) (10 * minute)"
  shows "cw_FailedAttempts w' = max 0 (cw_FailedAttempts w) + 1
    \<and> (cw_FailedAttempts w \<le> 0 \<longrightarrow> cw_BackOffEndTime w' = now + 30 * second)
    \<and> 3 * base \<le> 4 * (cw_BackOffEndTime w' - now) \<and> 4 * (cw_BackOffEndTime w' - now) \<le> 5 * base"
proof -
  define n where "n = max 0 (cw_FailedAttempts w) + 1"
  have "wrap64 ((if cw_FailedAttempts w < 0 then 0 else cw_FailedAttempts w) + 1) = n"
    using assms(1) by (subst wrap64_id) (auto simp: n_def max_def)
  then have w': "cw_FailedAttempts w' = n" "cw_BackOffEndTime w' - now = calculateBackoffDuration k n"
    by (simp_all add: assms(2) updateClientBackoffStatus_def Let_def)
  have "3 * base \<le> 4 * calculateBackoffDuration k n \<and> 4 * calculateBackoffDuration k n \<le> 5 * base"
  proof (cases "n \<le> 1")
    case True
    then have "max 0 (cw_FailedAttempts w) = 0" by (simp add: n_def)
    then have "base = 30 * second" by (simp add: assms(3) duration_defs)
    then show ?thesis
      using True by (simp add: calculateBackoffDuration_def MinBackoffDuration_def duration_defs)
  next
    case False
    define M :: int where "M = min (30000 * 2 ^ nat (min (n - 1) 63)) 600000"
    have M: "0 \<le> M" "M \<le> 600000" by (auto simp: M_def)
    have "base = M * 1000000"
    proof (cases "n - 1 \<le> 63")
      case True
      then show ?thesis by (simp add: assms(3) M_def n_def duration_defs min_def)
    next
      case big: False
      have "(2 :: int) ^ 5 \<le> 2 ^ nat (n - 1)" using big by (intro power_increasing) auto
      then have "base = 600000 * 1000000"
        by (simp add: assms(3) n_def duration_defs min_def)
      moreover have "M = 600000" using big by (simp add: M_def min_def)
      ultimately show ?thesis by simp
    qed
    moreover have "calculateBackoffDuration k n = Jitter k (4 * (M * 250000))"
      using False unfolding M_def by (intro backoff_base) simp
    moreover have "\<bar>Jitter k (4 * (M * 250000)) - 4 * (M * 250000)\<bar> \<le> M * 250000"
      using M by (intro Jitter_bounds) auto
    ultimately show ?thesis by (simp add: abs_le_iff)
  qed
  moreover have "calculateBackoffDuration k n = 30 * second" if "cw_FailedAttempts w \<le> 0"
    using that by (simp add: n_def calculateBackoffDuration_def MinBackoffDuration_def)
  ultimately show ?thesis using w' n_def by auto
qed

text \<open>
  C35. The connection string built for a replica is read back section by section: endpoint,
  identifier and secret, when none has a semicolon and only the secret may have an equals
  sign.
\<close>

theorem connection_string_round_trip:
  assumes "secret \<noteq> []" and "ident \<noteq> []"
    and "CHR '';'' \<notin> set (endpoint @ ident @ secret)" and "CHR ''='' \<notin> set (endpoint @ ident)"
  shows "parseConnectionString (buildConnectionString endpoint secret ident) EndpointSection = Ok endpoint
    \<and> parseConnectionString (buildConnectionString endpoint secret ident) IdSection = Ok ident
    \<and> parseConnectionString (buildConnectionString endpoint secret ident) SecretSection = Ok secret"
proof -
  let ?r3 = "'';Secret='' @ secret"
  let ?r2 = "'';Id='' @ ident @ ?r3"
  have c: "buildConnectionString endpoint secret ident
      = ''Endpoint'' @ CHR ''='' # (endpoint @ '';Id'') @ CHR ''='' # (ident @ '';Secret'') @ CHR ''='' # secret"
    using assms(1,2) by (simp add: buildConnectionString_def EndpointSection_def IdSection_def SecretSection_def)
  have x: "Index (''Endpoint'' @ CHR ''='' # (endpoint @ '';Id'') @ CHR ''='' # (ident @ '';Secret'') @ CHR ''='' # secret) (tok @ ''='')
      = Some n \<Longrightarrow> a @ (tok @ ''='') @ v @ rest
        = ''Endpoint'' @ CHR ''='' # (endpoint @ '';Id'') @ CHR ''='' # (ident @ '';Secret'') @ CHR ''='' # secret \<Longrightarrow>
      n = length a \<Longrightarrow> CHR '';'' \<notin> set tok \<Longrightarrow> CHR '';'' \<notin> set v \<Longrightarrow> rest = [] \<or> (\<exists>r. rest = CHR '';'' # r) \<Longrightarrow>
      parseConnectionString (buildConnectionString endpoint secret ident) tok = Ok v" for tok n a v rest
    unfolding c using parseConnectionString_section [of a tok v rest] by metis
  have eq: "CHR ''='' \<notin> set endpoint" "CHR ''='' \<notin> set ident" using assms(4) by auto
  note ix = Index_sections [OF eq, of secret]
  have "parseConnectionString (buildConnectionString endpoint secret ident) ''Endpoint'' = Ok endpoint"
    using assms(3) by (intro x [OF ix(1), where a = "[]" and rest = ?r2]) auto
  moreover have "parseConnectionString (buildConnectionString endpoint secret ident) ''Id'' = Ok ident"
    using assms(3) by (intro x [OF ix(2), where a = "''Endpoint='' @ endpoint @ '';''" and rest = ?r3]) auto
  moreover have "parseConnectionString (buildConnectionString endpoint secret ident) ''Secret'' = Ok secret"
    using assms(3) by (intro x [OF ix(3), where a = "''Endpoint='' @ endpoint @ '';Id='' @ ident @ '';''" and rest = "[]"]) auto
  ultimately show ?thesis
    by (simp add: EndpointSection_def IdSection_def SecretSection_def)
qed

theorem connection_string_round_trip_witness:
  "parseConnectionString (buildConnectionString ''https://s'' ''k=='' ''id'') SecretSection = Ok ''k==''"
  using connection_string_round_trip [of "''k==''" "''id''" "''https://s''"] by simp

theorem failed_client_backs_off_witness:
  "\<exists>w'. w' = updateClientBackoffStatus 0 7 False (fresh_wrapper ''e'' (client_of (\<lambda>q. []))\<lparr> cw_FailedAttempts := 3 \<rparr>)
     \<and> cw_FailedAttempts w' = 4 \<and> 3 * (240 * second) \<le> 4 * cw_BackOffEndTime w'"
  using failed_client_backs_off [of "fresh_wrapper ''e'' (client_of (\<lambda>q. []))\<lparr> cw_FailedAttempts := 3 \<rparr>",
      OF _ refl refl, of 0 7]
  by (simp add: duration_defs)


definition sample_env :: "(string \<Rightarrow> string \<Rightarrow> string list res) \<Rightarrow> loader_env" where
  "sample_env srv =
     \<lparr> env_GetConfigMap = (\<lambda>ns n. Err KubeNotFound), env_GetSecret = (\<lambda>ns n. Err KubeNotFound),
       env_GetServiceAccount = (\<lambda>ns n. Err KubeNotFound), env_LookupEnv = (\<lambda>v. None),
       env_uuid_Parse = (\<lambda>s. False), env_NewCredential = (\<lambda>c. None),
       env_NewClient = (\<lambda>e c opts. Ok (client_of (one_page_store e e))),
       env_NewClientFromConnectionString = (\<lambda>c opts. Ok (client_of (\<lambda>q. []))),
       env_LookupSRV = srv \<rparr>"

definition sample_srv :: "string \<Rightarrow> string \<Rightarrow> string list res" where
  "sample_srv service name =
     (if service = ''origin'' then Ok [''store.azconfig.io.'']
      else if service = ''alt0'' then Ok [''replica.azconfig.io.'', ''other.example.org.'']
      else Err (DNSError True))"

definition sample_provider :: Provider where
  "sample_provider =
     \<lparr> pv_Name = ''provider'', pv_Namespace = ''default'', pv_UID = ''u'', pv_Generation = 1,
       pv_Annotations = [], pv_Labels = [],
       pv_Spec = sample_spec\<lparr> spec_ReplicaDiscoveryEnabled := True \<rparr>,
       pv_Status = \<lparr> st_LastReconcileTime = 0, st_LastSyncTime = 0, st_Phase = PhaseUnset, st_Message = NoMessage,
         st_RefreshStatus = \<lparr> rst_LastKeyVaultReferenceRefreshTime = 0, rst_LastKeyValueRefreshTime = 0,
           rst_LastFeatureFlagRefreshTime = 0 \<rparr> \<rparr> \<rparr>"

lemma Itoa_0_1: "Itoa 0 = ''0''" "Itoa (Suc 0) = ''1''"
  by code_simp+

lemma sample_alts:
  "\<forall>i < 1. env_LookupSRV (sample_env sample_srv) (''alt'' @ Itoa i) origin
     = Ok [''replica.azconfig.io.'', ''other.example.org.'']"
  "env_LookupSRV (sample_env sample_srv) (''alt'' @ Itoa 1) origin = Err (DNSError True)"
  by (simp_all add: sample_env_def sample_srv_def Itoa_0_1)

lemma sample_origin: "env_LookupSRV (sample_env sample_srv) ''origin'' h = Ok [''store.azconfig.io.'']"
  by (simp add: sample_env_def sample_srv_def)

lemma sample_query:
  "QuerySrvTargetHost (sample_env sample_srv) ''store.azconfig.io''
     = Some (Ok [''store.azconfig.io'', ''replica.azconfig.io'', ''other.example.org''])"
  using alt_loop_returns [of 1 "sample_env sample_srv" 0 "''store.azconfig.io''"
      "\<lambda>i. [''replica.azconfig.io.'', ''other.example.org.'']" "[''store.azconfig.io'']"]
    sample_alts [of "''store.azconfig.io''"]
  by (simp add: QuerySrvTargetHost_def Let_def sample_origin TrimSuffix_def HasSuffix_def alt_targets_def)

theorem replica_query_returns_witness:
  "QuerySrvTargetHost (sample_env sample_srv) ''h''
     = Some (Ok (TrimSuffix ''store.azconfig.io.'' ''.'' #
         concat (map (\<lambda>i. alt_targets [''replica.azconfig.io.'', ''other.example.org.'']) [0..<1])))"
  by (rule replica_query_returns [OF sample_origin sample_alts])

theorem replicas_stay_trusted_witness:
  "\<exists>m w. manager_reach (sample_env sample_srv) sample_provider m
    \<and> cm_DynamicClientWrappers m = Some [w] \<and> cw_Endpoint w = ''https://replica.azconfig.io''
    \<and> HasSuffix (ToLower (drop 8 (cw_Endpoint w))) (ToLower (cm_validDomain m))"
proof -
  let ?env = "sample_env sample_srv"
  let ?e = "''https://store.azconfig.io''"
  have url: "url_Parse ?e = Some \<lparr> u_Scheme = ''https'', u_Host = ''store.azconfig.io'', u_Path = [] \<rparr>"
    by code_simp
  have dom: "getValidDomain ?e = Ok ''.azconfig.io''" by code_simp
  have ne: "newClientOptions ?env = \<lparr> co_ApplicationID = ''azcfg-k8s/develop'', co_Audience = None \<rparr>"
    by (simp add: newClientOptions_def sample_env_def ModuleName_def ModuleVersion_def)
  obtain m0 where m0: "NewConfigurationClientManager ?env sample_provider = Ok m0"
      "cm_endpoint m0 = ?e" "cm_validDomain m0 = ''.azconfig.io''" "cm_ReplicaDiscoveryEnabled m0"
      "cm_DynamicClientWrappers m0 = None" "cm_lastFallbackClientAttempt m0 = 0"
      "cm_credential m0 = Some (ManagedIdentityCredential None)"
    by (simp add: NewConfigurationClientManager_def sample_provider_def sample_spec_def Let_def dom ne
        CreateTokenCredential_def new_credential_def) (simp add: sample_env_def dom)
  let ?ds = "\<lparr> ds_timed_out = False, ds_Intn = (\<lambda>i. i), ds_now = 0 \<rparr>"
  let ?t = "31 * second"
  have "shuffle (\<lambda>i. i) [''store.azconfig.io'', ''replica.azconfig.io'', ''other.example.org'']
      = [''store.azconfig.io'', ''replica.azconfig.io'', ''other.example.org'']" by code_simp
  moreover have "EqualFold ''https://store.azconfig.io'' ?e" by simp
  moreover have "\<not> EqualFold ''https://replica.azconfig.io'' ?e" by code_simp
  moreover have "isValidEndpoint ''store.azconfig.io'' ''.azconfig.io''" by code_simp
  moreover have "isValidEndpoint ''replica.azconfig.io'' ''.azconfig.io''" by code_simp
  moreover have "\<not> isValidEndpoint ''other.example.org'' ''.azconfig.io''" by code_simp
  ultimately obtain m1 cs where m1: "GetClients ?env ?ds ?t m0 = Ok (m1, cs)"
    "cm_DynamicClientWrappers m1 =
       Some [fresh_wrapper ''https://replica.azconfig.io'' (client_of (one_page_store ''https://replica.azconfig.io'' ''https://replica.azconfig.io''))]"
    using m0 sample_query
    by (simp add: GetClients_def Let_def MinimalClientRefreshInterval_def duration_defs discover_def host_of_def url
        DiscoverFallbackClients_def newConfigurationClient_def) (simp add: sample_env_def)
  have "manager_reach ?env sample_provider m1"
    by (rule manager_reach.got [OF manager_reach.created [OF m0(1)] m1(1)])
  with replicas_stay_trusted [OF this] m1(2) show ?thesis
    by (auto simp: fresh_wrapper_def)
qed

end
