(* ===== verification/Setting_Tree.thy ===== *)
theory Setting_Tree
  imports Api_Types "HOL-Library.Sublist"
begin

text \<open>
  \<^verbatim>\<open>internal/loader/tree.go\<close>: the tree that turns separator-delimited keys into nested
  objects and arrays.  \<^verbatim>\<open>insert\<close> walks the parts of a key and spreads objects and arrays
  over child nodes, \<^verbatim>\<open>unflatten\<close> reads a node back as an array when its children are
  numbered, \<^verbatim>\<open>build\<close> does so for the root.
\<close>

section \<open>The tree and its operations\<close>

datatype tree = Tree (children: "(string \<times> tree) list") (node_value: go_value)

definition empty_tree :: tree where
  "empty_tree = Tree [] VNil"

definition child_of :: "(string \<times> tree) list \<Rightarrow> string \<Rightarrow> tree" where
  "child_of cs part = (case golookup cs part of None \<Rightarrow> empty_tree | Some c \<Rightarrow> c)"

text \<open>
  \<open>tree_insert\<close> is the loop over the parts; \<open>tree_put\<close> is the switch on the value at the
  last part, which recurses into objects and arrays.
\<close>

function (sequential) tree_insert :: "string list \<Rightarrow> go_value \<Rightarrow> tree \<Rightarrow> tree"
  and tree_put :: "go_value \<Rightarrow> tree \<Rightarrow> tree" where
  "tree_insert [] v t = t"
| "tree_insert (part # parts) v (Tree cs tv) =
     (let childTree = child_of cs part
      in Tree (gostore part
                 (if parts = [] then tree_put v childTree else tree_insert parts v childTree) cs) tv)"
| "tree_put (VMap obj) t = fold (\<lambda>(k, v). tree_insert [k] v) obj t"
| "tree_put (VList obj) t = fold (\<lambda>(k, v). tree_insert [Itoa k] v) (enumerate 0 obj) t"
| "tree_put v (Tree cs tv) = Tree cs v"
  by pat_completeness auto
termination
proof (relation "measures [\<lambda>x. case x of Inl (parts, v, t) \<Rightarrow> size v | Inr (v, t) \<Rightarrow> size v,
    \<lambda>x. case x of Inl (parts, v, t) \<Rightarrow> length parts | Inr (v, t) \<Rightarrow> 0]", goal_cases)
  case (4 obj t x k v)
  then have "v \<in> snd ` set obj" by force
  then have "size v < size (VMap obj)"
    by (induction obj) force+
  then show ?case by simp
next
  case (5 obj t x k v)
  then have "v \<in> set obj" by (auto simp: in_set_enumerate_eq)
  then have "size v < size (VList obj)"
    by (simp add: size_list_estimation' less_Suc_eq_le)
  then show ?case by simp
qed auto

text \<open>
  The array loop of \<^verbatim>\<open>unflatten\<close>: \<open>None\<close> when a key is no index below the number of
  children, otherwise the slots, of which one that no child fills stays nil.
\<close>

fun fill_array :: "nat \<Rightarrow> (string \<times> 'a) list \<Rightarrow> 'a option list \<Rightarrow> 'a option list option" where
  "fill_array n [] arr = Some arr"
| "fill_array n ((k, v) # cs) arr =
     (case Atoi k of
        None \<Rightarrow> None
      | Some idx \<Rightarrow>
          if int n \<le> idx \<or> idx < 0 then None else fill_array n cs (arr[nat idx := Some v]))"

text \<open>\<^verbatim>\<open>child.unflatten()\<close> on a nil child dereferences a nil pointer.\<close>

fun slot_result :: "'a res option \<Rightarrow> 'a res" where
  "slot_result None = Panic ''nil pointer dereference''"
| "slot_result (Some r) = r"

fun pair_result :: "string \<times> 'a res \<Rightarrow> (string \<times> 'a) res" where
  "pair_result (k, r) = res_map (Pair k) r"

definition assemble :: "(string \<times> go_value res) list \<Rightarrow> go_value res" where
  "assemble rs =
     (case fill_array (length rs) rs (replicate (length rs) None) of
        Some arr \<Rightarrow> res_map VList (res_list slot_result arr)
      | None \<Rightarrow> res_map VMap (res_list pair_result rs))"

fun unflatten :: "tree \<Rightarrow> go_value res" where
  "unflatten (Tree cs tv) =
     (if cs = [] then Ok tv else assemble (map (\<lambda>(k, c). (k, unflatten c)) cs))"

definition build :: "tree \<Rightarrow> object res" where
  "build t = res_list pair_result (map (\<lambda>(k, c). (k, unflatten c)) (children t))"

section \<open>Looking up paths\<close>

fun tree_at :: "tree \<Rightarrow> string list \<Rightarrow> tree option" where
  "tree_at t [] = Some t"
| "tree_at (Tree cs tv) (p # ps) = (case golookup cs p of None \<Rightarrow> None | Some c \<Rightarrow> tree_at c ps)"

definition leaf_at :: "tree \<Rightarrow> string list \<Rightarrow> go_value option" where
  "leaf_at t ps = (case tree_at t ps of Some (Tree [] v) \<Rightarrow> Some v | _ \<Rightarrow> None)"

text \<open>The same path in the assembled value; an array is indexed by a number.\<close>

fun value_at :: "go_value \<Rightarrow> string list \<Rightarrow> go_value option" where
  "value_at v [] = Some v"
| "value_at (VMap m) (p # ps) = (case golookup m p of None \<Rightarrow> None | Some v \<Rightarrow> value_at v ps)"
| "value_at (VList vs) (p # ps) =
     (case Atoi p of
        None \<Rightarrow> None
      | Some i \<Rightarrow> if 0 \<le> i \<and> i < int (length vs) then value_at (vs ! nat i) ps else None)"
| "value_at _ (p # ps) = None"

fun scalar :: "go_value \<Rightarrow> bool" where
  "scalar (VMap m) = False"
| "scalar (VList vs) = False"
| "scalar _ = True"

text \<open>Keys of which none is a prefix of another, each with at least one part.\<close>

definition independent :: "(string list \<times> go_value) list \<Rightarrow> bool" where
  "independent kvs \<longleftrightarrow>
     distinct (map fst kvs) \<and> [] \<notin> set (map fst kvs) \<and> list_all (scalar \<circ> snd) kvs \<and>
     list_all (\<lambda>ps. list_all (\<lambda>qs. prefix ps qs \<longrightarrow> ps = qs) (map fst kvs)) (map fst kvs)"

text \<open>A key part that reads as a number is written the way \<^verbatim>\<open>strconv.Itoa\<close> writes it.\<close>

definition canonical_part :: "string \<Rightarrow> bool" where
  "canonical_part p \<longleftrightarrow>
     (case Atoi p of None \<Rightarrow> True | Some i \<Rightarrow> i < 0 \<or> p = Itoa (nat i))"

definition insert_all :: "(string list \<times> go_value) list \<Rightarrow> tree \<Rightarrow> tree" where
  "insert_all kvs t = fold (\<lambda>(ps, v). tree_insert ps v) kvs t"

fun tree_ok :: "tree \<Rightarrow> bool" where
  "tree_ok (Tree cs tv) \<longleftrightarrow> gomap_ok cs \<and> list_all (\<lambda>(k, c). tree_ok c) cs"

section \<open>Inserting scalars\<close>

lemma tree_put_scalar [simp]: "scalar v \<Longrightarrow> tree_put v t = Tree (children t) v"
  by (cases v; cases t) auto

definition val_at :: "tree \<Rightarrow> string list \<Rightarrow> go_value option" where
  "val_at t ps = map_option node_value (tree_at t ps)"

lemma val_at_Cons:
  "val_at (Tree cs tv) (p # ps) = (case golookup cs p of None \<Rightarrow> None | Some c \<Rightarrow> val_at c ps)"
  by (simp add: val_at_def split: option.split)

lemma val_at_Nil [simp]: "val_at t [] = Some (node_value t)"
  by (simp add: val_at_def)

lemma empty_tree_sel [simp]: "children empty_tree = []" "node_value empty_tree = VNil"
  by (simp_all add: empty_tree_def)

lemma val_at_empty_tree: "val_at empty_tree ps = (if ps = [] then Some VNil else None)"
  by (cases ps) (auto simp: empty_tree_def val_at_Cons)

lemma val_at_tree_insert:
  assumes "scalar v" and "ps \<noteq> []"
  shows "val_at (tree_insert ps v t) qs =
    (if qs = ps then Some v
     else case val_at t qs of
            Some x \<Rightarrow> Some x
          | None \<Rightarrow> if prefix qs ps then Some VNil else None)"
  using assms(2)
proof (induction ps arbitrary: t qs)
  case (Cons p ps)
  obtain cs tv where t: "t = Tree cs tv" by (cases t)
  let ?c = "child_of cs p"
  let ?c' = "if ps = [] then tree_put v ?c else tree_insert ps v ?c"
  show ?case
  proof (cases qs)
    case Nil
    then show ?thesis by (simp add: t Let_def)
  next
    case (Cons q qs')
    show ?thesis
    proof (cases "q = p")
      case False
      with Cons t show ?thesis
        by (simp add: val_at_Cons Let_def split: option.split)
    next
      case True
      have child: "val_at ?c' qs' =
          (if qs' = ps then Some v
           else case val_at ?c qs' of
              Some x \<Rightarrow> Some x | None \<Rightarrow> if prefix qs' ps then Some VNil else None)"
      proof (cases "ps = []")
        case True
        have "val_at (Tree (children ?c) v) qs' = (if qs' = [] then Some v else val_at ?c qs')"
          by (cases qs'; cases ?c) (auto simp: val_at_Cons)
        with True assms(1) show ?thesis
          by (auto split: option.split)
      next
        case False
        then show ?thesis using Cons.IH [of ?c qs'] by simp
      qed
      have "val_at ?c qs' = (case val_at t qs of Some x \<Rightarrow> Some x
          | None \<Rightarrow> if golookup cs p = None \<and> qs' = [] then Some VNil else None)"
        using True \<open>qs = q # qs'\<close> t
        by (auto simp: val_at_Cons child_of_def val_at_empty_tree split: option.splits)
      with child True \<open>qs = q # qs'\<close> t show ?thesis
        by (auto simp: val_at_Cons Let_def split: option.splits)
    qed
  qed
qed simp

text \<open>With distinct keys the tree is described by its entries, whatever their order.\<close>

lemma val_at_insert_all:
  assumes "distinct (map fst kvs)" and "[] \<notin> set (map fst kvs)" and "list_all (scalar \<circ> snd) kvs"
  shows "val_at (insert_all kvs empty_tree) qs =
    (case map_of kvs qs of
       Some v \<Rightarrow> Some v
     | None \<Rightarrow> if qs = [] \<or> (\<exists>ps \<in> set (map fst kvs). prefix qs ps) then Some VNil else None)"
  using assms
proof (induction kvs rule: rev_induct)
  case Nil
  then show ?case by (simp add: insert_all_def val_at_empty_tree)
next
  case (snoc kv kvs)
  obtain ps v where kv: "kv = (ps, v)" by (cases kv)
  have new: "ps \<notin> set (map fst kvs)" "ps \<noteq> []" "scalar v"
    using snoc.prems kv by auto
  then have "map_of kvs ps = None" by (simp add: map_of_eq_None_iff)
  moreover have "insert_all (kvs @ [kv]) empty_tree = tree_insert ps v (insert_all kvs empty_tree)"
    by (simp add: insert_all_def kv)
  ultimately show ?case
    using snoc kv new
    by (auto simp: val_at_tree_insert map_add_def split: option.splits)
qed

lemma leaf_at_Cons:
  "leaf_at (Tree cs tv) (p # ps) = (case golookup cs p of None \<Rightarrow> None | Some c \<Rightarrow> leaf_at c ps)"
  by (simp add: leaf_at_def split: option.split)

lemma leaf_at_val_at:
  "leaf_at t qs = Some v \<longleftrightarrow> val_at t qs = Some v \<and> (\<forall>p. val_at t (qs @ [p]) = None)"
proof (induction qs arbitrary: t)
  case Nil
  have "cs = [] \<longleftrightarrow> (\<forall>p. map_of cs p = None)" for cs :: "(string \<times> tree) list"
    by (metis list.exhaust map_of.simps(1) map_of_Cons_code(2) option.distinct(1) prod.exhaust)
  then show ?case
    by (cases t) (auto simp: leaf_at_def val_at_Cons split: tree.splits list.splits option.splits)
next
  case (Cons q qs)
  then show ?case
    by (cases t) (auto simp: leaf_at_Cons val_at_Cons split: option.splits)
qed

lemma leaf_at_insert_all:
  assumes "independent kvs" and "kvs \<noteq> []"
  shows "leaf_at (insert_all kvs empty_tree) qs = Some v \<longleftrightarrow> (qs, v) \<in> set kvs"
proof -
  have d: "distinct (map fst kvs)" "[] \<notin> set (map fst kvs)" "list_all (scalar \<circ> snd) kvs"
    and pf: "\<And>ps qs. ps \<in> set (map fst kvs) \<Longrightarrow> qs \<in> set (map fst kvs) \<Longrightarrow> prefix ps qs \<Longrightarrow> ps = qs"
    using assms(1) by (auto simp: independent_def list_all_iff)
  note v = val_at_insert_all [OF d]
  show ?thesis
  proof
    assume "leaf_at (insert_all kvs empty_tree) qs = Some v"
    then have l: "val_at (insert_all kvs empty_tree) qs = Some v"
      "\<And>p. val_at (insert_all kvs empty_tree) (qs @ [p]) = None"
      by (auto simp: leaf_at_val_at)
    have "map_of kvs qs \<noteq> None"
    proof
      assume none: "map_of kvs qs = None"
      then have nk: "qs \<notin> set (map fst kvs)" by (simp add: map_of_eq_None_iff)
      from l(1) none have "qs = [] \<or> (\<exists>ps \<in> set (map fst kvs). prefix qs ps)"
        by (auto simp: v split: if_splits)
      moreover have "\<exists>ps \<in> set (map fst kvs). prefix qs ps" if "qs = []"
        using that assms(2) by (cases kvs) auto
      ultimately obtain ps where ps: "ps \<in> set (map fst kvs)" "prefix qs ps" by blast
      with nk obtain p rs where "ps = (qs @ [p]) @ rs"
        by (metis append.right_neutral append_Cons append_Nil append_assoc list.exhaust prefixE)
      with ps(1) have "val_at (insert_all kvs empty_tree) (qs @ [p]) \<noteq> None"
        by (auto simp: v prefix_def split: option.splits) force
      with l(2) [of p] show False by simp
    qed
    with l(1) show "(qs, v) \<in> set kvs"
      by (auto simp: v dest: map_of_SomeD split: option.splits)
  next
    assume qv: "(qs, v) \<in> set kvs"
    then have q: "map_of kvs qs = Some v" "qs \<in> set (map fst kvs)"
      using d(1) by force+
    have "val_at (insert_all kvs empty_tree) (qs @ [p]) = None" for p
    proof -
      have "\<not> prefix (qs @ [p]) ps" if "ps \<in> set (map fst kvs)" for ps
        using pf [OF q(2) that] that by (auto simp: prefix_def)
      moreover have "map_of kvs (qs @ [p]) = None"
        using pf [OF q(2), of "qs @ [p]"] by (auto simp: map_of_eq_None_iff)
      ultimately show ?thesis by (auto simp: v)
    qed
    with q(1) show "leaf_at (insert_all kvs empty_tree) qs = Some v"
      by (simp add: leaf_at_val_at v)
  qed
qed

section \<open>The array test\<close>

definition index_of :: "string \<Rightarrow> nat" where
  "index_of k = nat (the (Atoi k))"

lemma fill_array_spec:
  assumes "fill_array n cs arr = Some arr'"
  shows "length arr' = length arr"
    and "\<forall>(k, v) \<in> set cs. Atoi k \<noteq> None \<and> 0 \<le> the (Atoi k) \<and> index_of k < n"
    and "n \<le> length arr \<Longrightarrow> i < n \<Longrightarrow> arr' ! i =
      (case map_of (rev (map (\<lambda>(k, v). (index_of k, v)) cs)) i of
         Some v \<Rightarrow> Some v | None \<Rightarrow> arr ! i)"
  using assms
proof (induction n cs arr arbitrary: arr' rule: fill_array.induct)
  case (2 n k v cs arr)
  {
    case 1
    then show ?case using "2.IH"(1) by (auto split: option.splits if_splits)
  next
    case 2
    then show ?case using "2.IH"(2) by (auto simp: index_of_def split: option.splits if_splits)
  next
    case 3
    then show ?case
      using "2.IH"(3)
      by (auto simp: index_of_def map_add_def nth_list_update split: option.splits if_splits)
  }
qed auto

text \<open>If every slot is filled, no two children share an index, and each is in its slot.\<close>

lemma fill_array_full:
  assumes f: "fill_array n cs (replicate n None) = Some arr"
    and n: "length cs = n" and full: "None \<notin> set arr"
  shows "distinct (map (index_of \<circ> fst) cs)"
    and "(k, v) \<in> set cs \<Longrightarrow> index_of k < n \<and> arr ! index_of k = Some v"
proof -
  let ?ics = "map (\<lambda>(k, v). (index_of k, v)) cs"
  have len: "length arr = n" using fill_array_spec(1) [OF f] by simp
  have nth: "arr ! i = map_of (rev ?ics) i" if "i < n" for i
    using fill_array_spec(3) [OF f _ that] that by (simp split: option.split)
  have "{0..<n} \<subseteq> set (map fst ?ics)"
  proof
    fix i assume "i \<in> {0..<n}"
    then have "i < n" by simp
    with full len have "arr ! i \<noteq> None" by (metis nth_mem)
    with nth [OF \<open>i < n\<close>] have "i \<in> fst ` set (rev ?ics)"
      by (simp only: map_of_eq_None_iff not_not)
    then show "i \<in> set (map fst ?ics)" by (simp add: image_image)
  qed
  then have "card {0..<n} \<le> card (set (map fst ?ics))" by (rule card_mono [rotated]) simp
  then have "card (set (map fst ?ics)) = length (map fst ?ics)"
    using n card_length [of "map fst ?ics"] by simp
  then have d: "distinct (map fst ?ics)" by (rule card_distinct)
  then show "distinct (map (index_of \<circ> fst) cs)"
    by (simp add: comp_def case_prod_unfold)
  show "index_of k < n \<and> arr ! index_of k = Some v" if kv: "(k, v) \<in> set cs"
  proof -
    have lt: "index_of k < n" using fill_array_spec(2) [OF f] kv by auto
    have "(index_of k, v) \<in> set (rev ?ics)" using kv by force
    moreover have "distinct (map fst (rev ?ics))" using d by (simp add: rev_map [symmetric])
    ultimately have "map_of (rev ?ics) (index_of k) = Some v" by simp
    with nth [OF lt] lt show ?thesis by simp
  qed
qed

text \<open>Distinct indices fill every slot.\<close>

lemma fill_array_distinct:
  assumes f: "fill_array n cs (replicate n None) = Some arr"
    and n: "length cs = n" and d: "distinct (map (index_of \<circ> fst) cs)"
  shows "None \<notin> set arr"
proof
  let ?ics = "map (\<lambda>(k, v). (index_of k, v)) cs"
  assume "None \<in> set arr"
  then obtain i where i: "i < n" "arr ! i = None"
    using fill_array_spec(1) [OF f] by (auto simp: in_set_conv_nth)
  then have "map_of (rev ?ics) i = None"
    using fill_array_spec(3) [OF f _ i(1)] by (auto split: option.splits)
  then have "i \<notin> fst ` set ?ics" by (simp add: map_of_eq_None_iff)
  then have "i \<notin> set (map (index_of \<circ> fst) cs)"
    by (simp add: image_image case_prod_unfold)
  moreover have "set (map (index_of \<circ> fst) cs) \<subseteq> {0..<n}"
    using fill_array_spec(2) [OF f] by auto
  moreover have "card (set (map (index_of \<circ> fst) cs)) = n"
    using d n distinct_card by force
  ultimately show False
    using i(1) card_subset_eq [of "{0..<n}" "set (map (index_of \<circ> fst) cs)"] by auto
qed

section \<open>Reading the tree back\<close>

lemma golookup_map_values:
  "golookup (map (\<lambda>(k, c). (k, f c)) cs) p = map_option f (golookup cs p)"
  by (induction cs) auto

lemma pair_results_lookup:
  assumes "res_list pair_result rs = Ok m"
  shows "golookup rs p = map_option Ok (golookup m p)"
proof -
  have "list_all2 (\<lambda>x y. pair_result x = Ok y) rs m"
    using assms by (simp add: res_list_eq_Ok)
  then show ?thesis
  proof (induction rs m rule: list_all2_induct)
    case (Cons x xs y ys)
    then show ?case by (cases x; cases "snd x") auto
  qed simp
qed

lemma slot_results_Ok:
  assumes "res_list slot_result arr = Ok vs"
  shows "arr = map (Some \<circ> Ok) vs"
proof -
  have "list_all2 (\<lambda>x y. slot_result x = Ok y) arr vs"
    using assms by (simp add: res_list_eq_Ok)
  then show ?thesis
  proof (induction arr vs rule: list_all2_induct)
    case (Cons x xs y ys)
    then show ?case by (cases x) auto
  qed simp
qed

text \<open>A successful assembly holds every child's value under the child's key.\<close>

lemma assemble_value_at:
  assumes "assemble rs = Ok v" and "golookup rs p = Some r"
  shows "\<exists>x. r = Ok x \<and> value_at v (p # ps) = value_at x ps"
proof (cases "fill_array (length rs) rs (replicate (length rs) None)")
  case None
  with assms(1) obtain m where "res_list pair_result rs = Ok m" "v = VMap m"
    by (auto simp: assemble_def res_map_def)
  with pair_results_lookup [of rs m p] assms(2) show ?thesis
    by (cases "golookup m p") auto
next
  case (Some arr)
  with assms(1) obtain vs where vs: "res_list slot_result arr = Ok vs" "v = VList vs"
    by (auto simp: assemble_def res_map_def)
  have arr: "arr = map (Some \<circ> Ok) vs" by (rule slot_results_Ok [OF vs(1)])
  have pr: "(p, r) \<in> set rs" using assms(2) by (rule map_of_SomeD)
  have full: "None \<notin> set arr" by (auto simp: arr)
  have ix: "index_of p < length rs" "arr ! index_of p = Some r"
    using fill_array_full(2) [OF Some refl full pr] by auto
  moreover have "length vs = length rs"
    using fill_array_spec(1) [OF Some] by (simp add: arr)
  ultimately have r: "r = Ok (vs ! index_of p)" by (simp add: arr)
  have "Atoi p \<noteq> None" "0 \<le> the (Atoi p)"
    using fill_array_spec(2) [OF Some] pr by auto
  with ix(1) \<open>length vs = length rs\<close> have "value_at v (p # ps) = value_at (vs ! index_of p) ps"
    by (auto simp: vs(2) index_of_def split: option.splits)
  with r show ?thesis by blast
qed

lemma unflatten_value_at:
  assumes "unflatten t = Ok v" and "leaf_at t ps = Some x"
  shows "value_at v ps = Some x"
  using assms
proof (induction ps arbitrary: t v)
  case Nil
  then show ?case
    by (cases t) (auto simp: leaf_at_def split: list.splits)
next
  case (Cons p ps)
  obtain cs tv where t: "t = Tree cs tv" by (cases t)
  from Cons.prems(2) t obtain c where c: "golookup cs p = Some c" "leaf_at c ps = Some x"
    by (auto simp: leaf_at_Cons split: option.splits)
  then have "cs \<noteq> []" by auto
  with Cons.prems(1) t have "assemble (map (\<lambda>(k, c). (k, unflatten c)) cs) = Ok v"
    by simp
  then obtain y where "unflatten c = Ok y" "value_at v (p # ps) = value_at y ps"
    using assemble_value_at [of _ v p "unflatten c" ps] c(1) by (fastforce simp: golookup_map_values)
  with Cons.IH [of c y] c(2) show ?case by simp
qed

section \<open>Absence of panics\<close>

text \<open>
  A child array with a hole makes \<^verbatim>\<open>unflatten\<close> call a method on a nil child.  With every
  number written canonically, distinct keys have distinct indices and there is no hole.
\<close>

fun canonical_tree :: "tree \<Rightarrow> bool" where
  "canonical_tree (Tree cs tv) \<longleftrightarrow>
     list_all (\<lambda>(k, c). canonical_part k \<and> canonical_tree c) cs"

lemma index_of_inj:
  assumes "canonical_part k" "canonical_part k'" "index_of k = index_of k'"
    and "Atoi k \<noteq> None" "Atoi k' \<noteq> None" "0 \<le> the (Atoi k)" "0 \<le> the (Atoi k')"
  shows "k = k'"
  using assms by (auto simp: canonical_part_def index_of_def)

lemma assemble_Ok:
  assumes "gomap_ok rs" and "\<forall>(k, r) \<in> set rs. canonical_part k \<and> is_Ok r"
  shows "is_Ok (assemble rs)"
proof (cases "fill_array (length rs) rs (replicate (length rs) None)")
  case None
  have "\<exists>y. pair_result x = Ok y" if "x \<in> set rs" for x
    using assms(2) that by (cases x) (auto simp: is_Ok_iff)
  then have "\<exists>m. res_list pair_result rs = Ok m" by (rule res_list_succeeds)
  with None show ?thesis by (auto simp: assemble_def)
next
  case (Some arr)
  have "inj_on index_of (set (gokeys rs))"
  proof (rule inj_onI)
    fix k k' assume k: "k \<in> set (gokeys rs)" "k' \<in> set (gokeys rs)" "index_of k = index_of k'"
    then have "canonical_part k \<and> Atoi k \<noteq> None \<and> 0 \<le> the (Atoi k)"
      and "canonical_part k' \<and> Atoi k' \<noteq> None \<and> 0 \<le> the (Atoi k')"
      using assms(2) fill_array_spec(2) [OF Some] by (auto simp: gokeys_def)
    with k(3) show "k = k'" using index_of_inj by blast
  qed
  then have "distinct (map (index_of \<circ> fst) rs)"
    using assms(1) by (simp add: gomap_ok_def gokeys_def distinct_map comp_inj_on)
  then have full: "None \<notin> set arr" by (rule fill_array_distinct [OF Some refl])
  have "\<exists>y. slot_result s = Ok y" if s: "s \<in> set arr" for s
  proof -
    obtain i where i: "i < length rs" "arr ! i = s"
      using s fill_array_spec(1) [OF Some] by (auto simp: in_set_conv_nth)
    from full s obtain r where r: "s = Some r" by (cases s) auto
    with i have "map_of (rev (map (\<lambda>(k, v). (index_of k, v)) rs)) i = Some r"
      using fill_array_spec(3) [OF Some _ i(1)] by (auto split: option.splits)
    then have "\<exists>k. (k, r) \<in> set rs" by (auto dest!: map_of_SomeD)
    with assms(2) r show ?thesis by (auto simp: is_Ok_iff)
  qed
  then have "\<exists>vs. res_list slot_result arr = Ok vs" by (rule res_list_succeeds)
  with Some show ?thesis by (auto simp: assemble_def)
qed

lemma gomap_ok_map_values [simp]: "gomap_ok (map (\<lambda>(k, c). (k, f c)) cs) = gomap_ok cs"
  by (simp add: gomap_ok_def gokeys_def comp_def case_prod_unfold)

lemma unflatten_Ok: "tree_ok t \<Longrightarrow> canonical_tree t \<Longrightarrow> is_Ok (unflatten t)"
proof (induction t rule: unflatten.induct)
  case (1 cs tv)
  show ?case
  proof (cases "cs = []")
    case False
    have "is_Ok (unflatten c)" if "(k, c) \<in> set cs" for k c
      using "1.IH" [OF False that refl] "1.prems" that by (auto simp: list_all_iff)
    with "1.prems" have "is_Ok (assemble (map (\<lambda>(k, c). (k, unflatten c)) cs))"
      by (intro assemble_Ok) (auto simp: list_all_iff)
    with False show ?thesis by simp
  qed simp
qed

text \<open>Insertion keeps the keys of every node distinct.\<close>

lemma tree_ok_Tree: "tree_ok t \<longleftrightarrow> gomap_ok (children t) \<and> (\<forall>(k, c) \<in> set (children t). tree_ok c)"
  by (cases t) (simp add: list_all_iff)

lemma set_gostore: "x \<in> set (gostore k v m) \<Longrightarrow> x = (k, v) \<or> x \<in> set m"
  by (induction m) (auto split: if_splits)

lemma tree_ok_empty_tree [simp]: "tree_ok empty_tree"
  by (simp add: empty_tree_def)

lemma tree_ok_child_of:
  assumes "list_all (\<lambda>(k, c). tree_ok c) cs"
  shows "tree_ok (child_of cs p)"
  using assms
  by (auto simp: child_of_def empty_tree_def list_all_iff dest!: map_of_SomeD split: option.splits)

lemma tree_ok_insert_put:
  "tree_ok t \<Longrightarrow> tree_ok (tree_insert ps v t)"
  "tree_ok t \<Longrightarrow> tree_ok (tree_put v t)"
proof (induction ps v t and v t rule: tree_insert_tree_put.induct)
  case (2 p ps v cs tv)
  have c: "tree_ok (child_of cs p)"
    using "2.prems" by (intro tree_ok_child_of) simp
  then have "tree_ok (if ps = [] then tree_put v (child_of cs p) else tree_insert ps v (child_of cs p))"
    using "2.IH" by auto
  with "2.prems" show ?case
    by (auto simp: Let_def list_all_iff dest!: set_gostore)
next
  case (3 obj t)
  have "tree_ok (fold (\<lambda>(k, v). tree_insert [k] v) xs t)"
    if "set xs \<subseteq> set obj" "tree_ok t" for xs t
    using that
  proof (induction xs arbitrary: t)
    case (Cons x xs)
    then show ?case using "3.IH" by (cases x) auto
  qed simp
  with "3.prems" show ?case by simp
next
  case (4 obj t)
  have "tree_ok (fold (\<lambda>(k, v). tree_insert [Itoa k] v) xs t)"
    if "set xs \<subseteq> set (enumerate 0 obj)" "tree_ok t" for xs t
    using that
  proof (induction xs arbitrary: t)
    case (Cons x xs)
    then show ?case using "4.IH" by (cases x) auto
  qed simp
  with "4.prems" show ?case by simp
qed auto

lemma tree_ok_insert_all: "tree_ok t \<Longrightarrow> tree_ok (insert_all kvs t)"
  unfolding insert_all_def
  by (induction kvs arbitrary: t) (auto simp: tree_ok_insert_put)

lemma pair_results_keys: "res_list pair_result rs = Ok m \<Longrightarrow> gokeys m = gokeys rs"
proof -
  assume "res_list pair_result rs = Ok m"
  then have "list_all2 (\<lambda>x y. pair_result x = Ok y) rs m" by (simp add: res_list_eq_Ok)
  then show ?thesis
  proof (induction rs m rule: list_all2_induct)
    case (Cons x xs y ys)
    then show ?case by (cases x; cases "snd x") (auto simp: gokeys_def)
  qed (simp add: gokeys_def)
qed

lemma gomap_ok_build:
  assumes "build t = Ok m" and "tree_ok t"
  shows "gomap_ok m"
proof -
  have "gokeys m = gokeys (children t)"
    using pair_results_keys [OF assms(1) [unfolded build_def]] by (simp add: gokeys_def case_prod_unfold)
  with assms(2) show ?thesis by (cases t) (simp add: gomap_ok_def)
qed

lemma canonical_tree_val_at:
  assumes "tree_ok t"
    and "\<And>qs p. val_at t (qs @ [p]) \<noteq> None \<Longrightarrow> canonical_part p"
  shows "canonical_tree t"
  using assms
proof (induction t rule: canonical_tree.induct)
  case (1 cs tv)
  have "canonical_part k \<and> canonical_tree c" if kc: "(k, c) \<in> set cs" for k c
  proof
    have l: "golookup cs k = Some c"
      using kc "1.prems"(1) by (simp add: gomap_ok_def gokeys_def)
    show "canonical_part k"
      using "1.prems"(2) [of "[]" k] l by (simp add: val_at_Cons)
    show "canonical_tree c"
    proof (rule "1.IH" [OF kc refl])
      show "tree_ok c" using "1.prems"(1) kc by (auto simp: list_all_iff)
      show "canonical_part p" if "val_at c (qs @ [p]) \<noteq> None" for qs p
        using "1.prems"(2) [of "k # qs" p] that l by (simp add: val_at_Cons)
    qed
  qed
  then show ?case by (auto simp: list_all_iff)
qed

lemma canonical_insert_all:
  assumes "independent kvs" and "\<forall>(ps, v) \<in> set kvs. \<forall>p \<in> set ps. canonical_part p"
  shows "canonical_tree (insert_all kvs empty_tree)"
proof (rule canonical_tree_val_at)
  have d: "distinct (map fst kvs)" "[] \<notin> set (map fst kvs)" "list_all (scalar \<circ> snd) kvs"
    using assms(1) by (auto simp: independent_def)
  show "tree_ok (insert_all kvs empty_tree)"
    by (rule tree_ok_insert_all) simp
  show "canonical_part p" if "val_at (insert_all kvs empty_tree) (qs @ [p]) \<noteq> None" for qs p
  proof -
    have "\<exists>ps \<in> set (map fst kvs). prefix (qs @ [p]) ps"
      using that by (auto simp: val_at_insert_all [OF d] split: option.splits if_splits
          dest!: map_of_SomeD intro!: bexI)
    then show ?thesis using assms(2) by (auto simp: prefix_def)
  qed
qed

section \<open>Holes in the child array\<close>

lemma fill_array_total:
  assumes "\<forall>(k, c) \<in> set cs. Atoi k \<noteq> None \<and> 0 \<le> the (Atoi k) \<and> the (Atoi k) < int n"
  shows "\<exists>arr'. fill_array n cs arr = Some arr'"
  using assms by (induction n cs arr rule: fill_array.induct) auto

lemma res_list_hole:
  assumes "None \<in> set arr" and "\<forall>r. Some r \<in> set arr \<longrightarrow> is_Ok r"
  shows "res_list slot_result arr = Panic ''nil pointer dereference''"
  using assms
proof (induction arr)
  case (Cons s arr)
  then show ?case by (cases s) (auto simp: is_Ok_iff)
qed simp

lemma fill_array_members:
  assumes "fill_array n cs (replicate n None) = Some arr" and "Some v \<in> set arr"
  shows "v \<in> snd ` set cs"
proof -
  have "fill_array n cs arr0 = Some arr \<Longrightarrow> Some v \<in> set arr \<Longrightarrow>
      v \<in> snd ` set cs \<or> Some v \<in> set arr0" for arr0
    by (induction n cs arr0 rule: fill_array.induct)
      (auto split: option.splits if_splits dest: set_update_subset_insert [THEN subsetD])
  with assms show ?thesis by (metis in_set_replicate option.distinct(1))
qed

lemma assemble_hole:
  assumes range: "\<forall>(k, r) \<in> set rs. Atoi k \<noteq> None \<and> 0 \<le> the (Atoi k) \<and> the (Atoi k) < int (length rs)"
    and "\<not> distinct (map (index_of \<circ> fst) rs)" and ok: "\<forall>(k, r) \<in> set rs. is_Ok r"
  shows "assemble rs = Panic ''nil pointer dereference''"
proof -
  obtain arr where arr: "fill_array (length rs) rs (replicate (length rs) None) = Some arr"
    using fill_array_total [OF range] by blast
  have "None \<in> set arr"
    using fill_array_full(1) [OF arr refl] assms(2) by blast
  moreover have "\<forall>r. Some r \<in> set arr \<longrightarrow> is_Ok r"
    using fill_array_members [OF arr] ok by fastforce
  ultimately show ?thesis by (simp add: assemble_def arr res_list_hole)
qed

section \<open>Properties\<close>



text \<open>
  C30. Two children whose keys read as the same index, all keys below the number of
  children, leave a hole in the child array, and \<^verbatim>\<open>unflatten\<close> panics on it: keys such as
  \<^verbatim>\<open>list.1\<close> and \<^verbatim>\<open>list.01\<close> crash the reconciliation.
\<close>

theorem unflatten_same_index_panics:
  assumes "list_all (\<lambda>(k, c). Atoi k \<noteq> None \<and> 0 \<le> the (Atoi k) \<and> the (Atoi k) < int (length cs)
      \<and> is_Ok (unflatten c)) cs"
    and "\<not> distinct (map (\<lambda>(k, c). the (Atoi k)) cs)"
  shows "unflatten (Tree cs tv) = Panic ''nil pointer dereference''"
proof -
  let ?rs = "map (\<lambda>(k, c). (k, unflatten c)) cs"
  have "map (\<lambda>(k, c). the (Atoi k)) cs = map (int \<circ> (index_of \<circ> fst)) cs"
    using assms(1) by (auto simp: list_all_iff index_of_def)
  moreover have "map (index_of \<circ> fst) ?rs = map (index_of \<circ> fst) cs"
    by (simp add: case_prod_unfold)
  ultimately have "\<not> distinct (map (index_of \<circ> fst) ?rs)"
    using assms(2) by (simp add: distinct_map comp_inj_on_iff flip: map_map)
  moreover have "cs \<noteq> []" using assms(2) by auto
  ultimately show ?thesis
    using assms(1) assemble_hole [of ?rs] by (simp add: list_all_iff case_prod_unfold)
qed

theorem unflatten_same_index_panics_witness:
  "unflatten (Tree [(''1'', Tree [] (VStr ''x'')), (''01'', Tree [] (VStr ''y''))] VNil)
     = Panic ''nil pointer dereference''"
proof (rule unflatten_same_index_panics)
  show "list_all (\<lambda>(k, c). Atoi k \<noteq> None \<and> 0 \<le> the (Atoi k) \<and>
      the (Atoi k) < int (length [(''1'', Tree [] (VStr ''x'')), (''01'', Tree [] (VStr ''y''))])
      \<and> is_Ok (unflatten c)) [(''1'', Tree [] (VStr ''x'')), (''01'', Tree [] (VStr ''y''))]"
    by code_simp
  show "\<not> distinct (map (\<lambda>(k, c). the (Atoi k))
      [(''1'', Tree [] (VStr ''x'')), (''01'', Tree [] (VStr ''y''))])"
    by code_simp
qed

end
