(* ===== verification/Jsonc.thy ===== *)
theory Jsonc
  imports Go_Strings
begin

text \<open>
  Package \<^verbatim>\<open>internal/jsonc\<close>: \<^verbatim>\<open>StripComments\<close> removes line and block comments from JSON with
  comments.  The model follows the index loop of the source; the reference is a scanner
  that reads the input once, with one mode per syntactic position.
\<close>

section \<open>The index loop of the source\<close>

definition is_newline :: "char \<Rightarrow> bool" where
  "is_newline c \<longleftrightarrow> c = LF \<or> c = CR"

text \<open>The loop that skips to the end of a line comment; it returns the final index.\<close>

function skip_line :: "string \<Rightarrow> nat \<Rightarrow> nat" where
  "skip_line data i =
     (if i < length data \<and> data ! i \<noteq> LF \<and> data ! i \<noteq> CR then skip_line data (Suc i) else i)"
  by pat_completeness auto
termination
  by (relation "measure (\<lambda>(data, i). length data - i)") auto

text \<open>The loop over a block comment: the index after it and the result so far.\<close>

function skip_block :: "string \<Rightarrow> nat \<Rightarrow> string \<Rightarrow> nat \<times> string" where
  "skip_block data i result =
     (if i < length data then
        if data ! i = STAR \<and> i + 1 < length data \<and> data ! (i + 1) = SLASH
        then (i + 2, result @ [SP, SP])
        else if data ! i = LF \<or> data ! i = CR
        then skip_block data (i + 1) (result @ [data ! i])
        else skip_block data (i + 1) (result @ [SP])
      else (i, result))"
  by pat_completeness auto
termination
  by (relation "measure (\<lambda>(data, i, result). length data - i)") auto

declare skip_line.simps [simp del] skip_block.simps [simp del]

lemma skip_line_ge: "i \<le> skip_line data i"
proof (induction data i rule: skip_line.induct)
  case (1 data i)
  then show ?case by (subst skip_line.simps) auto
qed

lemma skip_block_ge: "i \<le> fst (skip_block data i result)"
proof (induction data i result rule: skip_block.induct)
  case (1 data i result)
  then show ?case by (subst skip_block.simps) auto
qed

text \<open>
  The main loop.  Its \<^verbatim>\<open>continue\<close> statements go on at the next index; after a block
  comment the code steps back one before the increment, so it goes on right behind it.
\<close>

function strip_loop :: "string \<Rightarrow> nat \<Rightarrow> bool \<Rightarrow> bool \<Rightarrow> string \<Rightarrow> string" where
  "strip_loop data i inString escaped result =
     (if i < length data then
        let c = data ! i in
        if escaped then strip_loop data (i + 1) inString False (result @ [c])
        else if inString then
          (if c = BS then strip_loop data (i + 1) True True (result @ [c])
           else if c = DQ then strip_loop data (i + 1) False False (result @ [c])
           else strip_loop data (i + 1) True False (result @ [c]))
        else if c = DQ then strip_loop data (i + 1) True False (result @ [c])
        else if c = SLASH \<and> i + 1 < length data \<and> data ! (i + 1) = SLASH then
          (let j = skip_line data (i + 1)
           in strip_loop data (j + 1) False False
                (if j < length data then result @ [data ! j] else result))
        else if c = SLASH \<and> i + 1 < length data \<and> data ! (i + 1) = STAR then
          (let b = skip_block data (i + 2) (result @ [SP, SP])
           in strip_loop data (fst b) False False (snd b))
        else strip_loop data (i + 1) False False (result @ [c])
      else result)"
  by pat_completeness auto
termination
proof (relation "measure (\<lambda>(data, i, inString, escaped, result). length data - i)", goal_cases)
  case (7 data i inString escaped result c j)
  then show ?case using skip_line_ge [of "i + 1" data] by auto
next
  case (8 data i inString escaped result c b)
  then show ?case using skip_block_ge [of "i + 2" data "result @ [SP, SP]"] by auto
qed auto

declare strip_loop.simps [simp del]

definition StripComments :: "string \<Rightarrow> string" where
  "StripComments data = strip_loop data 0 False False []"

section \<open>The reference scanner\<close>

datatype scan_mode = InCode | InString | InEscape | InLine | InBlock

fun scan :: "scan_mode \<Rightarrow> string \<Rightarrow> string" where
  "scan m [] = []"
| "scan InEscape (c # s) = c # scan InString s"
| "scan InString (c # s) =
     c # scan (if c = BS then InEscape else if c = DQ then InCode else InString) s"
| "scan InLine (c # s) = (if is_newline c then c # scan InCode s else scan InLine s)"
| "scan InBlock [c] = [if is_newline c then c else SP]"
| "scan InBlock (c # d # s) =
     (if c = STAR \<and> d = SLASH then SP # SP # scan InCode s
      else (if is_newline c then c else SP) # scan InBlock (d # s))"
| "scan InCode [c] = [c]"
| "scan InCode (c # d # s) =
     (if c = DQ then c # scan InString (d # s)
      else if c = SLASH \<and> d = SLASH then scan InLine s
      else if c = SLASH \<and> d = STAR then SP # SP # scan InBlock s
      else c # scan InCode (d # s))"

text \<open>The body of a string literal: every backslash escapes a character, no bare quote.\<close>

fun string_body :: "string \<Rightarrow> bool" where
  "string_body [] = True"
| "string_body [c] = (c \<noteq> BS \<and> c \<noteq> DQ)"
| "string_body (c # d # s) =
     (if c = BS then string_body s else c \<noteq> DQ \<and> string_body (d # s))"

section \<open>The loop computes the scanner\<close>

lemma drop_nth_Cons: "i < length xs \<Longrightarrow> drop i xs = xs ! i # drop (Suc i) xs"
  by (rule Cons_nth_drop_Suc [symmetric])

lemma scan_skip_line:
  "scan InLine (drop i data) =
     (let j = skip_line data i
      in if j < length data then data ! j # scan InCode (drop (j + 1) data) else [])"
proof (induction data i rule: skip_line.induct)
  case (1 data i)
  show ?case
  proof (cases "i < length data")
    case True
    then show ?thesis
      using "1.IH"
      by (auto simp: drop_nth_Cons is_newline_def Let_def skip_line.simps [of data i])
  next
    case False
    then show ?thesis by (simp add: skip_line.simps [of data i] Let_def)
  qed
qed

lemma scan_skip_block:
  "r @ scan InBlock (drop i data) =
     snd (skip_block data i r) @ scan InCode (drop (fst (skip_block data i r)) data)"
proof (induction data i r rule: skip_block.induct)
  case (1 data i r)
  show ?case
  proof (cases "i < length data")
    case True
    then have d: "drop i data = data ! i # drop (Suc i) data" by (rule drop_nth_Cons)
    show ?thesis
    proof (cases "Suc i < length data")
      case True
      then have "drop (Suc i) data = data ! Suc i # drop (Suc (Suc i)) data" by (rule drop_nth_Cons)
      with d "1.IH" \<open>i < length data\<close> show ?thesis
        by (auto simp: skip_block.simps [of data i] is_newline_def)
    next
      case False
      with d "1.IH" \<open>i < length data\<close> show ?thesis
        by (auto simp: skip_block.simps [of data i] skip_block.simps [of data "Suc i"] is_newline_def)
    qed
  next
    case False
    then show ?thesis by (simp add: skip_block.simps [of data i])
  qed
qed

fun mode_of :: "bool \<Rightarrow> bool \<Rightarrow> scan_mode" where
  "mode_of inString escaped =
     (if escaped then InEscape else if inString then InString else InCode)"

lemma scan_InCode_last:
  "i < length data \<Longrightarrow> \<not> Suc i < length data \<Longrightarrow> drop i data = [data ! i]"
  by (simp add: drop_nth_Cons)

lemma strip_loop_scan:
  "(escaped \<longrightarrow> inString) \<Longrightarrow>
   strip_loop data i inString escaped r = r @ scan (mode_of inString escaped) (drop i data)"
proof (induction data i inString escaped r rule: strip_loop.induct)
  case (1 data i inString escaped r)
  show ?case
  proof (cases "i < length data")
    case False
    then show ?thesis by (simp add: strip_loop.simps [of data i])
  next
    case True
    note d = drop_nth_Cons [OF True]
    show ?thesis
    proof (cases "escaped \<or> inString \<or> \<not> Suc i < length data")
      case outside: True
      have last: "\<not> Suc i < length data \<Longrightarrow> drop (Suc i) data = []" by simp
      show ?thesis
        using "1.IH" "1.prems" outside True d last
        by (cases "Suc i < length data")
          (auto simp: strip_loop.simps [of data i] Let_def)
    next
      case False
      then have d2: "drop (Suc i) data = data ! Suc i # drop (Suc (Suc i)) data"
        by (intro drop_nth_Cons) simp
      have l: "skip_line data (Suc i) = skip_line data (Suc (Suc i))"
        if "data ! Suc i = SLASH"
        using False that by (subst skip_line.simps) simp
      show ?thesis
        using "1.IH" False True d d2 l
          scan_skip_line [of "Suc (Suc i)" data]
          scan_skip_block [of "r @ [SP, SP]" "Suc (Suc i)" data]
        by (auto simp: strip_loop.simps [of data i] Let_def)
    qed
  qed
qed

lemma StripComments_scan: "StripComments data = scan InCode data"
  by (simp add: StripComments_def strip_loop_scan)

section \<open>Facts about the scanner\<close>

lemma not_is_newline [simp]:
  "\<not> is_newline SP" "\<not> is_newline STAR" "\<not> is_newline SLASH" "\<not> is_newline DQ"
  by (simp_all add: is_newline_def)

lemma scan_newlines: "filter is_newline (scan m s) = filter is_newline s"
proof (induction m s rule: scan.induct)
  case (6 c d s)
  then show ?case by (cases "c = STAR"; cases "d = SLASH") simp_all
next
  case (8 c d s)
  then show ?case
    by (cases "c = SLASH"; cases "d = SLASH"; cases "d = STAR"; cases "c = DQ") simp_all
qed simp_all

lemma length_scan: "length (scan m s) \<le> length s"
proof (induction m s rule: scan.induct)
  case (8 c d s)
  then show ?case
    by (cases "c = SLASH"; cases "d = SLASH"; cases "d = STAR"; cases "c = DQ") simp_all
qed (simp_all add: le_SucI)

text \<open>What a rescan of the output sees where the first scan was in a comment: code.\<close>

fun rescan_mode :: "scan_mode \<Rightarrow> scan_mode" where
  "rescan_mode InLine = InCode"
| "rescan_mode InBlock = InCode"
| "rescan_mode m = m"

lemma scan_InCode_plain:
  "c \<noteq> DQ \<Longrightarrow> c \<noteq> SLASH \<Longrightarrow> scan InCode (c # s) = c # scan InCode s"
  by (cases s) auto

lemma scan_InCode_quote: "scan InCode (DQ # s) = DQ # scan InString s"
  by (cases s) auto

lemma scan_InCode_slash:
  "s = [] \<or> hd s \<noteq> SLASH \<and> hd s \<noteq> STAR \<Longrightarrow> scan InCode (SLASH # s) = SLASH # scan InCode s"
  by (cases s) auto

lemma hd_scan_InCode: "s \<noteq> [] \<Longrightarrow> hd s \<noteq> SLASH \<Longrightarrow> scan InCode s \<noteq> [] \<and> hd (scan InCode s) = hd s"
  by (cases s; cases "tl s") auto

lemma scan_scan: "scan (rescan_mode m) (scan m s) = scan m s"
proof (induction m s rule: scan.induct)
  case (8 c d s)
  show ?case
  proof (cases "c = SLASH \<and> d \<noteq> SLASH \<and> d \<noteq> STAR")
    case True
    then have "scan InCode (d # s) \<noteq> []" "hd (scan InCode (d # s)) = d"
      using hd_scan_InCode [of "d # s"] by auto
    with 8 True show ?thesis by (auto simp: scan_InCode_slash)
  next
    case False
    with 8 show ?thesis by (auto simp: scan_InCode_plain scan_InCode_quote)
  qed
qed (auto simp: scan_InCode_plain is_newline_def)

lemma scan_string_body:
  "string_body b \<Longrightarrow> scan InString (b @ DQ # s) = b @ DQ # scan InCode s"
  by (induction b rule: string_body.induct) (auto split: if_splits)

lemma scan_append_literal:
  assumes "string_body b"
  shows "scan InCode (DQ # b @ DQ # s) = DQ # b @ DQ # scan InCode s"
  by (simp add: scan_InCode_quote scan_string_body [OF assms])

section \<open>Properties\<close>

text \<open>
  C24. The index loop of \<^verbatim>\<open>StripComments\<close> computes the one-pass reference scanner on every
  input: strings are copied, a line comment is dropped up to its line break, a block
  comment becomes blanks with its line breaks kept, also when it is not closed.
\<close>

theorem StripComments_refines_scanner: "StripComments data = scan InCode data"
  by (rule StripComments_scan)

text \<open>
  Line numbers survive: the line breaks of the output are those of the input, in order,
  nothing is added, and stripping twice changes nothing more, so no comment is left or
  created.
\<close>

theorem StripComments_lines_idempotent:
  "filter is_newline (StripComments data) = filter is_newline data
   \<and> length (StripComments data) \<le> length data
   \<and> StripComments (StripComments data) = StripComments data"
  using scan_scan [of InCode data] by (simp add: StripComments_scan scan_newlines length_scan)

text \<open>
  A string literal is copied byte for byte, comment openers and escaped quotes inside
  it included, and the text behind it is stripped as if it stood alone.
\<close>

theorem StripComments_keeps_literals:
  assumes "string_body b"
  shows "StripComments (DQ # b @ DQ # rest) = DQ # b @ DQ # StripComments rest"
  by (simp add: StripComments_scan scan_append_literal [OF assms])

theorem StripComments_keeps_literals_witness:
  "string_body ''http://x/*y*/'' \<and>
   StripComments (DQ # ''http://x/*y*/'' @ DQ # ''//z'') = DQ # ''http://x/*y*/'' @ DQ # StripComments ''//z''"
proof
  show b: "string_body ''http://x/*y*/''" by simp
  show "StripComments (DQ # ''http://x/*y*/'' @ DQ # ''//z'')
      = DQ # ''http://x/*y*/'' @ DQ # StripComments ''//z''"
    by (rule StripComments_keeps_literals [OF b])
qed

end
