(* ===== verification/Typed_Settings.thy ===== *)
theory Typed_Settings
  imports Loader_Types Setting_Tree Jsonc Go_Json
begin

text \<open>
  \<^verbatim>\<open>internal/loader/typed_setting.go\<close>: rendering the raw settings and the resolved secrets
  as the data of a ConfigMap or Secret (plain entries, a properties file, a JSON or YAML
  document), reading a rendered document back, and the content type tests.
\<close>

section \<open>Content types\<close>

definition FeatureManagementSectionName :: string where
  "FeatureManagementSectionName = ''feature_management''"

definition FeatureFlagSectionName :: string where
  "FeatureFlagSectionName = ''feature_flags''"

text \<open>
  The regular expression \<^verbatim>\<open>^application\/(?:[^\/]+\+)?json(;.*)?$\<close>, in which the dot
  matches anything but a line feed.
\<close>

definition json_suffix :: "string \<Rightarrow> bool" where
  "json_suffix s \<longleftrightarrow>
     s = ''json'' \<or> HasPrefix s ''json;'' \<and> CHR 0x0A \<notin> set (drop 5 s)"

fun structured_suffix :: "bool \<Rightarrow> string \<Rightarrow> bool" where
  "structured_suffix nonempty [] = False"
| "structured_suffix nonempty (c # s) \<longleftrightarrow>
     (nonempty \<and> c = CHR ''+'' \<and> json_suffix s) \<or> (c \<noteq> CHR ''/'' \<and> structured_suffix True s)"

definition isJsonContentType :: "string option \<Rightarrow> bool" where
  "isJsonContentType contentType =
     (case contentType of
        None \<Rightarrow> False
      | Some ct \<Rightarrow>
          let s = ToLower (Trim ct '' '');
              rest = drop (length ''application/'') s
          in HasPrefix s ''application/'' \<and> (json_suffix rest \<or> structured_suffix False rest))"

text \<open>\<^verbatim>\<open>hasProfile\<close>: the parts after the first semicolon, each trimmed.\<close>

definition part_has_profile :: "string \<Rightarrow> string \<Rightarrow> bool" where
  "part_has_profile profileValue part =
     (let p = TrimSpace part
      in HasPrefix p ''profile='' \<and>
         Trim (drop (length ''profile='') p) [CHR 0x22, CHR 0x27] = profileValue)"

definition hasProfile :: "string \<Rightarrow> string \<Rightarrow> bool" where
  "hasProfile contentType profileValue =
     list_ex (part_has_profile profileValue) (tl (Split contentType '';''))"

definition AIMimeProfileKey :: string where
  "AIMimeProfileKey = ''https://azconfig.io/mime-profiles/ai''"

definition AIChatCompletionMimeProfileKey :: string where
  "AIChatCompletionMimeProfileKey = ''https://azconfig.io/mime-profiles/ai/chat-completion''"

definition isAIConfigurationContentType :: "string \<Rightarrow> bool" where
  "isAIConfigurationContentType ct = hasProfile ct AIMimeProfileKey"

definition isAIChatCompletionContentType :: "string \<Rightarrow> bool" where
  "isAIChatCompletionContentType ct = hasProfile ct AIChatCompletionMimeProfileKey"

section \<open>Rendering\<close>

text \<open>The loop of \<^verbatim>\<open>marshalProperties\<close>: \<open>n\<close> entries in all, \<open>i\<close> written so far.\<close>

fun properties_loop :: "nat \<Rightarrow> nat \<Rightarrow> (string \<times> string) list \<Rightarrow> string" where
  "properties_loop n i [] = []"
| "properties_loop n i ((k, v) # m) =
     k @ ''='' @ v @ (if i < n - 1 then [CHR 0x0A] else []) @ properties_loop n (Suc i) m"

definition marshalProperties :: "(string, string) gomap \<Rightarrow> string" where
  "marshalProperties settings = properties_loop (length settings) 0 settings"

definition marshalJsonYaml :: "codec \<Rightarrow> object \<Rightarrow> DataOptions \<Rightarrow> string res" where
  "marshalJsonYaml cd settings opts =
     (case do_Type opts of
        Yaml \<Rightarrow>
          (case yaml_Marshal cd (VMap settings) of
             Err e \<Rightarrow> Err (Errorf ''failed to marshal key-values to yaml: %s'' [] [e])
           | r \<Rightarrow> r)
      | Json \<Rightarrow>
          (case json_Marshal cd (VMap settings) of
             Err e \<Rightarrow> Err (Errorf ''failed to marshal key-values to json: %s'' [] [e])
           | r \<Rightarrow> r)
      | _ \<Rightarrow> Ok [])"

text \<open>
  The value of one setting: null, the string, or for a JSON content type the parsed value.
  When the text is not JSON but is once its comments are stripped, the code parses the
  stripped text and drops the outcome: the value stays the string.
\<close>

definition setting_value :: "codec \<Rightarrow> bool \<Rightarrow> string option \<Rightarrow> go_value" where
  "setting_value cd isJson v =
     (case v of
        None \<Rightarrow> VNil
      | Some s \<Rightarrow>
          if isJson then
            (case json_Unmarshal cd s of
               Ok out \<Rightarrow> out
             | _ \<Rightarrow>
                 (case json_Unmarshal cd (StripComments s) of
                    Ok out \<Rightarrow> VStr s
                  | _ \<Rightarrow> VStr s))
          else VStr s)"

definition is_json_key :: "RawSettings \<Rightarrow> string \<Rightarrow> bool" where
  "is_json_key raw k = (golookup (rw_IsJsonContentTypeMap raw) k = Some True)"

text \<open>The settings as a tree (with a separator) or as a flat object.\<close>

definition parsed_settings :: "(string \<times> go_value) list \<Rightarrow> string option \<Rightarrow> object res" where
  "parsed_settings kvs separator =
     (case separator of
        Some sep \<Rightarrow> build (insert_all (map (\<lambda>(k, v). (Split k sep, v)) kvs) empty_tree)
      | None \<Rightarrow> Ok (gostore_all kvs []))"

text \<open>The settings with a value, \<^verbatim>\<open>tmpSettings\<close> of the source.\<close>

fun non_null :: "(string, string option) gomap \<Rightarrow> (string, string) gomap" where
  "non_null [] = []"
| "non_null ((k, None) # m) = non_null m"
| "non_null ((k, Some s) # m) = (k, s) # non_null m"

definition createTypedSettings ::
    "codec \<Rightarrow> RawSettings \<Rightarrow> DataOptions option \<Rightarrow> (string, string) gomap res" where
  "createTypedSettings cd raw dataOptions =
     (if rw_KeyValueSettings raw = [] \<and> rw_FeatureFlagSettings raw = None then Ok []
      else
        let tmpSettings = non_null (rw_KeyValueSettings raw)
        in case dataOptions of
             None \<Rightarrow> Ok tmpSettings
           | Some opts \<Rightarrow>
               if do_Type opts = Default then Ok tmpSettings
               else if do_Type opts = Properties
               then Ok [(do_Key opts, marshalProperties tmpSettings)]
               else
                 res_bind
                   (parsed_settings
                      (map (\<lambda>(k, v). (k, setting_value cd (is_json_key raw k) v)) (rw_KeyValueSettings raw))
                      (do_Separator opts))
                   (\<lambda>parsed.
                      res_bind
                        (marshalJsonYaml cd
                           (case rw_FeatureFlagSettings raw of
                              None \<Rightarrow> parsed
                            | Some ff \<Rightarrow> gostore FeatureManagementSectionName (VMap ff) parsed)
                           opts)
                        (\<lambda>typedStr. Ok [(do_Key opts, typedStr)])))"

definition createTypedSecrets ::
    "codec \<Rightarrow> (string, string) gomap \<Rightarrow> DataOptions option \<Rightarrow> (string, string) gomap res" where
  "createTypedSecrets cd secretsMap dataOptions =
     (if secretsMap = [] then Ok []
      else case dataOptions of
             None \<Rightarrow> Ok secretsMap
           | Some opts \<Rightarrow>
               if do_Type opts = Default then Ok secretsMap
               else if do_Type opts = Properties
               then Ok [(do_Key opts, marshalProperties secretsMap)]
               else
                 res_bind
                   (parsed_settings (map (\<lambda>(k, v). (k, VStr v)) secretsMap) (do_Separator opts))
                   (\<lambda>parsed.
                      res_bind (marshalJsonYaml cd parsed opts)
                        (\<lambda>typedStr. Ok [(do_Key opts, typedStr)])))"

section \<open>Reading back\<close>

text \<open>
  \<^verbatim>\<open>unmarshalConfigMap\<close> gives the feature flag section and the other settings of a rendered
  document.  The data options are a pointer the code dereferences.
\<close>

definition unmarshalConfigMap ::
    "codec \<Rightarrow> (string, string) gomap \<Rightarrow> DataOptions option \<Rightarrow> (object \<times> object) res" where
  "unmarshalConfigMap cd existing dataOptions =
     (case dataOptions of
        None \<Rightarrow> Panic ''nil pointer dereference''
      | Some opts \<Rightarrow>
          (case golookup existing (do_Key opts) of
             None \<Rightarrow> Err (Errorf ''failed to get data for key '%s' from configMap'' [do_Key opts] [])
           | Some existingConfigMapData \<Rightarrow>
               res_bind
                 (case do_Type opts of
                    Yaml \<Rightarrow> res_bind (yaml_Unmarshal cd existingConfigMapData) as_object
                  | Json \<Rightarrow> res_bind (json_Unmarshal cd existingConfigMapData) as_object
                  | _ \<Rightarrow> Err (Errorf ''unsupported data type '%s', only supports json/yaml for now'' [] []))
                 (\<lambda>kvs.
                    let keyValueSettings = (case kvs of None \<Rightarrow> [] | Some m \<Rightarrow> m)
                    in case golookup keyValueSettings FeatureManagementSectionName of
                         Some (VMap featureFlagSection) \<Rightarrow>
                           Ok (featureFlagSection, godelete FeatureManagementSectionName keyValueSettings)
                       | _ \<Rightarrow>
                           Err (Errorf ''failed to get feature flags from configMap data '%s''
                                  [existingConfigMapData] []))))"

section \<open>Content types: the regular expression\<close>

text \<open>What the pattern says: an optional structured-syntax prefix and optional parameters.\<close>

definition json_media_type :: "string \<Rightarrow> bool" where
  "json_media_type s \<longleftrightarrow>
     (\<exists>pre params. s = ''application/'' @ pre @ ''json'' @ params \<and>
        (pre = [] \<or> (\<exists>a. a \<noteq> [] \<and> CHR ''/'' \<notin> set a \<and> pre = a @ ''+'')) \<and>
        (params = [] \<or> (\<exists>r. CHR 0x0A \<notin> set r \<and> params = CHR '';'' # r)))"

lemma json_suffix_iff:
  "json_suffix s \<longleftrightarrow>
     (\<exists>params. s = ''json'' @ params \<and>
        (params = [] \<or> (\<exists>r. CHR 0x0A \<notin> set r \<and> params = CHR '';'' # r)))"
  by (auto simp: json_suffix_def HasPrefix_iff)

lemma structured_suffix_iff:
  "structured_suffix nonempty s \<longleftrightarrow>
     (\<exists>a b. (nonempty \<or> a \<noteq> []) \<and> CHR ''/'' \<notin> set a \<and> s = a @ ''+'' @ b \<and> json_suffix b)"
proof (induction nonempty s rule: structured_suffix.induct)
  case (2 nonempty c s)
  show ?case
  proof
    assume "structured_suffix nonempty (c # s)"
    then consider "nonempty \<and> c = CHR ''+'' \<and> json_suffix s"
      | "c \<noteq> CHR ''/''" "structured_suffix True s" by auto
    then show "\<exists>a b. (nonempty \<or> a \<noteq> []) \<and> CHR ''/'' \<notin> set a \<and> c # s = a @ ''+'' @ b \<and> json_suffix b"
    proof cases
      case 1
      then show ?thesis by (intro exI [of _ "[]"] exI [of _ s]) simp
    next
      case 2
      with "2.IH" obtain a b where "CHR ''/'' \<notin> set a" "s = a @ ''+'' @ b" "json_suffix b" by auto
      with 2(1) show ?thesis by (intro exI [of _ "c # a"] exI [of _ b]) simp
    qed
  next
    assume "\<exists>a b. (nonempty \<or> a \<noteq> []) \<and> CHR ''/'' \<notin> set a \<and> c # s = a @ ''+'' @ b \<and> json_suffix b"
    then obtain a b where "nonempty \<or> a \<noteq> []" "CHR ''/'' \<notin> set a" "c # s = a @ ''+'' @ b" "json_suffix b"
      by blast
    then show "structured_suffix nonempty (c # s)"
      using "2.IH" by (cases a) auto
  qed
qed simp

lemma isJsonContentType_iff:
  "isJsonContentType (Some ct) \<longleftrightarrow> json_media_type (ToLower (Trim ct '' ''))"
proof -
  have "HasPrefix s ''application/'' \<and>
      (json_suffix (drop (length ''application/'') s) \<or>
       structured_suffix False (drop (length ''application/'') s)) \<longleftrightarrow> json_media_type s" for s
  proof
    assume "HasPrefix s ''application/'' \<and>
      (json_suffix (drop (length ''application/'') s) \<or>
       structured_suffix False (drop (length ''application/'') s))"
    then obtain r where r: "s = ''application/'' @ r" "json_suffix r \<or> structured_suffix False r"
      by (auto simp: HasPrefix_iff)
    obtain pre b where pre: "r = pre @ b" "json_suffix b"
        "pre = [] \<or> (\<exists>a. a \<noteq> [] \<and> CHR ''/'' \<notin> set a \<and> pre = a @ ''+'')"
      using r(2)
    proof
      assume "json_suffix r"
      then show ?thesis using that [of "[]" r] by simp
    next
      assume "structured_suffix False r"
      then obtain a b where "a \<noteq> []" "CHR ''/'' \<notin> set a" "r = a @ ''+'' @ b" "json_suffix b"
        by (auto simp: structured_suffix_iff)
      then show ?thesis using that [of "a @ ''+''" b] by simp
    qed
    from pre(2) obtain params where "b = ''json'' @ params"
      "params = [] \<or> (\<exists>r. CHR 0x0A \<notin> set r \<and> params = CHR '';'' # r)"
      unfolding json_suffix_iff by blast
    with pre r(1) show "json_media_type s"
      unfolding json_media_type_def by (intro exI [of _ pre] exI [of _ params]) simp
  next
    assume "json_media_type s"
    then show "HasPrefix s ''application/'' \<and>
      (json_suffix (drop (length ''application/'') s) \<or>
       structured_suffix False (drop (length ''application/'') s))"
      unfolding json_media_type_def structured_suffix_iff json_suffix_iff
      by (auto simp: HasPrefix_iff)
  qed
  then show ?thesis by (simp add: isJsonContentType_def Let_def)
qed

section \<open>Properties files\<close>

lemma properties_loop_Join:
  "i + length m = n \<Longrightarrow>
   properties_loop n i m = Join (map (\<lambda>(k, v). k @ ''='' @ v) m) [CHR 0x0A]"
proof (induction n i m rule: properties_loop.induct)
  case (2 n i k v m)
  then show ?case by (cases m) auto
qed simp

lemma marshalProperties_Join:
  "marshalProperties m = Join (map (\<lambda>(k, v). k @ ''='' @ v) m) [CHR 0x0A]"
  by (simp add: marshalProperties_def properties_loop_Join)

text \<open>A reader of the format: one entry per line, cut at the first equals sign.\<close>

definition parse_line :: "string \<Rightarrow> string \<times> string" where
  "parse_line l = (takeWhile (\<lambda>c. c \<noteq> CHR ''='') l, tl (dropWhile (\<lambda>c. c \<noteq> CHR ''='') l))"

definition parse_properties :: "string \<Rightarrow> (string \<times> string) list" where
  "parse_properties s = map parse_line (Split s [CHR 0x0A])"

lemma parse_line_entry: "CHR ''='' \<notin> set k \<Longrightarrow> parse_line (k @ ''='' @ v) = (k, v)"
  by (induction k) (auto simp: parse_line_def)

section \<open>The rendered document\<close>

lemma set_non_null: "(k, v) \<in> set (non_null m) \<longleftrightarrow> (k, Some v) \<in> set m"
  by (induction m rule: non_null.induct) auto

lemma gomap_ok_non_null: "gomap_ok m \<Longrightarrow> gomap_ok (non_null m)"
proof (induction m rule: non_null.induct)
  case (3 k s m)
  have "k \<notin> fst ` set (non_null m)"
    using "3.prems" set_non_null [of k _ m] by (force simp: gomap_ok_def gokeys_def)
  with 3 show ?case by (simp add: gomap_ok_def gokeys_def)
qed (simp_all add: gomap_ok_def gokeys_def)

lemma gomap_ok_parsed_settings:
  assumes "parsed_settings kvs sep = Ok parsed"
  shows "gomap_ok parsed"
proof (cases sep)
  case None
  with assms show ?thesis by (auto simp: parsed_settings_def)
next
  case (Some p)
  with assms have "build (insert_all (map (\<lambda>(k, v). (Split k p, v)) kvs) empty_tree) = Ok parsed"
    by (simp add: parsed_settings_def)
  then show ?thesis
    by (rule gomap_ok_build) (simp add: tree_ok_insert_all)
qed

text \<open>The encoder and decoder \<^verbatim>\<open>marshalJsonYaml\<close> and \<^verbatim>\<open>unmarshalConfigMap\<close> choose.\<close>

definition doc_round_trips :: "codec \<Rightarrow> DataType \<Rightarrow> go_value \<Rightarrow> bool" where
  "doc_round_trips cd ty v \<longleftrightarrow>
     ty = Json \<and> round_trips (json_Marshal cd) (json_Unmarshal cd) v \<or>
     ty = Yaml \<and> round_trips (yaml_Marshal cd) (yaml_Unmarshal cd) v"

lemma unmarshal_marshalled:
  assumes "doc_round_trips cd (do_Type opts) (VMap doc)" and "gomap_ok doc"
    and "golookup doc FeatureManagementSectionName = Some (VMap ff)"
  shows "\<exists>s ff' rest. marshalJsonYaml cd doc opts = Ok s
    \<and> unmarshalConfigMap cd [(do_Key opts, s)] (Some opts) = Ok (ff', rest)
    \<and> deep_eq (VMap ff) (VMap ff')
    \<and> deep_eq (VMap (godelete FeatureManagementSectionName doc)) (VMap rest)"
proof -
  from assms(1) obtain s w where sw: "value_ok w" "deep_eq (VMap doc) w"
    and ty: "do_Type opts = Json \<and> json_Marshal cd (VMap doc) = Ok s \<and> json_Unmarshal cd s = Ok w
      \<or> do_Type opts = Yaml \<and> yaml_Marshal cd (VMap doc) = Ok s \<and> yaml_Unmarshal cd s = Ok w"
    unfolding doc_round_trips_def round_trips_def by blast
  from sw(2) obtain n where n: "w = VMap n" "deep_eq (VMap doc) (VMap n)"
    using deep_eq_VMap_left by blast
  have nok: "gomap_ok n" using sw(1) n(1) by simp
  obtain f where f: "golookup n FeatureManagementSectionName = Some f" "deep_eq (VMap ff) f"
    using deep_eq_lookup [OF n(2) assms(2,3)] by blast
  then obtain ff' where ff': "f = VMap ff'" using deep_eq_VMap_left by blast
  have "marshalJsonYaml cd doc opts = Ok s"
    using ty by (auto simp: marshalJsonYaml_def)
  moreover have "unmarshalConfigMap cd [(do_Key opts, s)] (Some opts)
      = Ok (ff', godelete FeatureManagementSectionName n)"
    using ty n(1) f(1) ff' by (auto simp: unmarshalConfigMap_def Let_def)
  ultimately show ?thesis
    using f(2) ff' deep_eq_godelete [OF n(2) assms(2) nok] by blast
qed

lemma createTypedSettings_doc:
  assumes "do_Type opts = Json \<or> do_Type opts = Yaml" and "rw_FeatureFlagSettings raw = Some ff"
    and "parsed_settings (map (\<lambda>(k, v). (k, setting_value cd (is_json_key raw k) v)) (rw_KeyValueSettings raw))
           (do_Separator opts) = Ok parsed"
  shows "createTypedSettings cd raw (Some opts) =
    res_map (\<lambda>s. [(do_Key opts, s)])
      (marshalJsonYaml cd (gostore FeatureManagementSectionName (VMap ff) parsed) opts)"
  using assms by (auto simp: createTypedSettings_def Let_def res_map_def)

section \<open>Properties\<close>

text \<open>
  C23. A JSON or YAML ConfigMap can be refreshed in parts.  What \<^verbatim>\<open>createTypedSettings\<close> renders
  with feature flags, \<^verbatim>\<open>unmarshalConfigMap\<close> reads back as the same feature flag section and
  the same remaining settings (deep equality), given that the codec decodes what it
  encoded for this document; a key-value setting that has the section's own name is the
  only one that is not kept.
\<close>

theorem typed_settings_read_back:
  assumes "cd = go_codec canon yamlMarshal yamlUnmarshal yamlUnmarshal2"
    and "rw_FeatureFlagSettings raw = Some ff"
    and "parsed_settings (map (\<lambda>(k, v). (k, setting_value cd (is_json_key raw k) v)) (rw_KeyValueSettings raw))
           (do_Separator opts) = Ok parsed"
    and "do_Type opts = Json
           \<and> json_plain canon (VMap (gostore FeatureManagementSectionName (VMap ff) parsed))
         \<or> do_Type opts = Yaml
           \<and> round_trips yamlMarshal yamlUnmarshal (VMap (gostore FeatureManagementSectionName (VMap ff) parsed))"
  shows "\<exists>out ff' rest. createTypedSettings cd raw (Some opts) = Ok out
    \<and> unmarshalConfigMap cd out (Some opts) = Ok (ff', rest)
    \<and> deep_eq (VMap ff) (VMap ff')
    \<and> deep_eq (VMap (godelete FeatureManagementSectionName parsed)) (VMap rest)"
proof -
  let ?doc = "gostore FeatureManagementSectionName (VMap ff) parsed"
  have doc: "doc_round_trips cd (do_Type opts) (VMap ?doc)"
    using assms(4) go_json.enc_dec by (auto simp: assms(1) doc_round_trips_def go_codec_def)
  have "gomap_ok ?doc" using gomap_ok_parsed_settings [OF assms(3)] by simp
  moreover have "golookup ?doc FeatureManagementSectionName = Some (VMap ff)" by simp
  ultimately obtain s ff' rest where
    "marshalJsonYaml cd ?doc opts = Ok s"
    "unmarshalConfigMap cd [(do_Key opts, s)] (Some opts) = Ok (ff', rest)"
    "deep_eq (VMap ff) (VMap ff')"
    "deep_eq (VMap (godelete FeatureManagementSectionName ?doc)) (VMap rest)"
    using unmarshal_marshalled [OF doc] by blast
  moreover have "godelete FeatureManagementSectionName ?doc = godelete FeatureManagementSectionName parsed"
    by (induction parsed) auto
  moreover have "do_Type opts = Json \<or> do_Type opts = Yaml"
    using assms(4) by auto
  ultimately show ?thesis
    using createTypedSettings_doc [OF _ assms(2,3)] by auto
qed

definition sample_raw :: RawSettings where
  "sample_raw =
     \<lparr> rw_KeyValueSettings = [(''b:x'', Some ''1''), (''a'', Some ''true'')],
       rw_IsJsonContentTypeMap = [(''b:x'', True), (''a'', False)],
       rw_FeatureFlagSettings = Some [(FeatureFlagSectionName, VList [])],
       rw_SecretSettings = [], rw_K8sSecrets = [], rw_KeyValueETags = None, rw_FeatureFlagETags = None \<rparr>"

definition sample_codec :: codec where
  "sample_codec = go_codec Some (\<lambda>v. Ok []) (\<lambda>s. Ok VNil) (\<lambda>s. None)"

definition sample_options :: DataOptions where
  "sample_options = \<lparr> do_Type = Json, do_Key = ''settings.json'', do_Separator = Some '':'' \<rparr>"

theorem typed_settings_read_back_witness:
  "\<exists>out ff' rest. createTypedSettings sample_codec sample_raw (Some sample_options) = Ok out
    \<and> unmarshalConfigMap sample_codec out (Some sample_options) = Ok (ff', rest)
    \<and> deep_eq (VMap [(FeatureFlagSectionName, VList [])]) (VMap ff')
    \<and> deep_eq (VMap [(''b'', VMap [(''x'', VNum ''1'')]), (''a'', VStr ''true'')]) (VMap rest)"
proof -
  let ?parsed = "[(''b'', VMap [(''x'', VNum ''1'')]), (''a'', VStr ''true'')]"
  have "parsed_settings (map (\<lambda>(k, v). (k, setting_value sample_codec (is_json_key sample_raw k) v))
      (rw_KeyValueSettings sample_raw)) (do_Separator sample_options) = Ok ?parsed"
    by code_simp
  moreover have "json_plain Some (VMap (gostore FeatureManagementSectionName
      (VMap [(FeatureFlagSectionName, VList [])]) ?parsed))"
    by code_simp
  moreover have "godelete FeatureManagementSectionName ?parsed = ?parsed" by code_simp
  ultimately show ?thesis
    using typed_settings_read_back [OF sample_codec_def, of sample_raw "[(FeatureFlagSectionName, VList [])]"
        sample_options ?parsed]
    by (simp add: sample_raw_def sample_options_def del: json_plain.simps deep_eq.simps)
qed

text \<open>
  Without data options, or with type default, the ConfigMap data are exactly the
  settings whose value is not null.
\<close>

theorem default_settings_exact:
  assumes "gomap_ok (rw_KeyValueSettings raw)"
    and "dataOptions = None \<or> (\<exists>opts. dataOptions = Some opts \<and> do_Type opts = Default)"
  shows "\<exists>out. createTypedSettings cd raw dataOptions = Ok out \<and> gomap_ok out
    \<and> (\<forall>k v. golookup out k = Some v \<longleftrightarrow> golookup (rw_KeyValueSettings raw) k = Some (Some v))"
proof -
  let ?out = "non_null (rw_KeyValueSettings raw)"
  have ok: "gomap_ok ?out" using assms(1) by (rule gomap_ok_non_null)
  then have "\<forall>k v. golookup ?out k = Some v \<longleftrightarrow> golookup (rw_KeyValueSettings raw) k = Some (Some v)"
    by (simp add: golookup_in_set assms(1) set_non_null)
  moreover have "createTypedSettings cd raw dataOptions = Ok ?out"
    using assms(2) by (auto simp: createTypedSettings_def Let_def)
  ultimately show ?thesis using ok by blast
qed

theorem default_settings_exact_witness:
  "\<exists>out. createTypedSettings sample_codec sample_raw None = Ok out \<and> gomap_ok out
    \<and> (\<forall>k v. golookup out k = Some v \<longleftrightarrow> golookup (rw_KeyValueSettings sample_raw) k = Some (Some v))"
  by (rule default_settings_exact) (simp_all add: sample_raw_def gomap_ok_def gokeys_def)

text \<open>
  A JSON setting with comments is rendered as its raw text.  When the text of a setting
  of JSON content type does not parse but does parse once its comments are stripped,
  \<^verbatim>\<open>createTypedSettings\<close> still puts the text itself, comments and all, into the document.
\<close>

theorem commented_json_stays_text:
  assumes "cd = go_codec canon yamlMarshal yamlUnmarshal yamlUnmarshal2"
    and "json_decode canon s = Err e" and "json_decode canon (StripComments s) = Ok v"
    and "do_Type opts = Json" and "do_Separator opts = None"
    and "rw_KeyValueSettings raw = [(k, Some s)]" and "rw_IsJsonContentTypeMap raw = [(k, True)]"
    and "rw_FeatureFlagSettings raw = None"
  shows "createTypedSettings cd raw (Some opts) = Ok [(do_Key opts, json_encode (VMap [(k, VStr s)]))]"
  using assms
  by (simp add: createTypedSettings_def Let_def parsed_settings_def setting_value_def is_json_key_def
      gostore_all_def marshalJsonYaml_def go_codec_def)

theorem commented_json_stays_text_witness:
  "json_decode Some (StripComments ''[1]//x'') = Ok (VList [VNum ''1''])
   \<and> createTypedSettings sample_codec
       (sample_raw\<lparr> rw_KeyValueSettings := [(''k'', Some ''[1]//x'')],
          rw_IsJsonContentTypeMap := [(''k'', True)], rw_FeatureFlagSettings := None \<rparr>)
       (Some (sample_options\<lparr> do_Separator := None \<rparr>))
     = Ok [(''settings.json'', json_encode (VMap [(''k'', VStr ''[1]//x'')]))]"
proof -
  have "json_decode Some ''[1]//x'' = Err (LibError ''invalid character after top-level value'')"
    by code_simp
  moreover have "json_decode Some (StripComments ''[1]//x'') = Ok (VList [VNum ''1''])"
    by code_simp
  ultimately show ?thesis
    using commented_json_stays_text [OF sample_codec_def, of "''[1]//x''" _ "VList [VNum ''1'']"
      "sample_options\<lparr> do_Separator := None \<rparr>"
      "sample_raw\<lparr> rw_KeyValueSettings := [(''k'', Some ''[1]//x'')],
          rw_IsJsonContentTypeMap := [(''k'', True)], rw_FeatureFlagSettings := None \<rparr>" "''k''"]
    by (simp add: sample_options_def)
qed

text \<open>
  A properties file can be read back: when no key contains an equals sign or a line
  break and no value a line break, splitting the output of \<^verbatim>\<open>marshalProperties\<close> into lines and
  each line at its first equals sign gives the entries, in the order they were written.
\<close>

theorem properties_read_back:
  assumes "m \<noteq> []"
    and "\<forall>(k, v) \<in> set m. CHR ''='' \<notin> set k \<and> CHR 0x0A \<notin> set k \<and> CHR 0x0A \<notin> set v"
  shows "parse_properties (marshalProperties m) = m"
proof -
  let ?ls = "map (\<lambda>(k, v). k @ ''='' @ v) m"
  have "Split (Join ?ls [CHR 0x0A]) [CHR 0x0A] = ?ls"
    using assms by (intro Split_Join_char) auto
  moreover have "map parse_line ?ls = m"
    using assms(2) by (induction m) (auto simp: parse_line_entry simp del: append_Cons)
  ultimately show ?thesis
    by (simp only: parse_properties_def marshalProperties_Join)
qed

theorem properties_read_back_witness:
  "parse_properties (marshalProperties [(''a'', ''1=2''), (''b'', ''x'')]) = [(''a'', ''1=2''), (''b'', ''x'')]"
  by (rule properties_read_back) simp_all

text \<open>
  The content type test is the media type pattern: after trimming blanks and lowering
  the case, \<^verbatim>\<open>application/\<close>, an optional non-empty structured-syntax prefix without a slash
  that ends in a plus sign, \<^verbatim>\<open>json\<close>, and either nothing or parameters after a semicolon.
\<close>

theorem isJsonContentType_pattern:
  "isJsonContentType ct \<longleftrightarrow>
     (case ct of None \<Rightarrow> False | Some s \<Rightarrow> json_media_type (ToLower (Trim s '' '')))"
  by (cases ct) (simp_all add: isJsonContentType_iff, simp add: isJsonContentType_def)

end
