(* ===== verification/Key_Vault.thy ===== *)
theory Key_Vault
  imports Client_Manager Typed_Settings
begin

text \<open>
  Key Vault references: parsing them and resolving them with one client per vault
  (\<^verbatim>\<open>internal/loader/keyvault_reference_resolver.go\<close>), and the parts of
  \<^verbatim>\<open>configuration_setting_loader.go\<close> that turn resolved secrets into Kubernetes secrets: the
  per-type rendering, certificates, merging.  The vault service, \<^verbatim>\<open>encoding/pem\<close>,
  \<^verbatim>\<open>encoding/base64\<close>, PKCS 12 and X.509 are parameters.
\<close>

section \<open>References\<close>

text \<open>
  Unmarshalling into a struct with one string field.  Go matches the key whatever its case,
  keeps the field for null, and reports a value of another type as an error.
\<close>

fun struct_members :: "string \<Rightarrow> object \<Rightarrow> string \<Rightarrow> string res" where
  "struct_members field [] acc = Ok acc"
| "struct_members field ((k, v) # m) acc =
     (if EqualFold k field then
        (case v of
           VStr s \<Rightarrow> struct_members field m s
         | VNil \<Rightarrow> struct_members field m acc
         | _ \<Rightarrow> Err (LibError ''cannot unmarshal into Go struct field of type string''))
      else struct_members field m acc)"

fun struct_string :: "string \<Rightarrow> go_value \<Rightarrow> string res" where
  "struct_string field (VMap m) = struct_members field m []"
| "struct_string field VNil = Ok []"
| "struct_string field _ = Err (LibError ''cannot unmarshal into Go value of type struct'')"

definition parse :: "codec \<Rightarrow> string \<Rightarrow> KeyVaultSecretMetadata res" where
  "parse cd settingValue =
     res_bind (res_bind (json_Unmarshal cd settingValue) (struct_string ''uri'')) (\<lambda>uri.
       case url_Parse uri of
         None \<Rightarrow> Err (LibError ''url.Parse'')
       | Some secretUrl \<Rightarrow>
           let trimmedPath = TrimPrefix (u_Path secretUrl) ''/'';
               segments = Split trimmedPath ''/''
           in if length segments < 2 \<or> ToLower (segments ! 0) \<noteq> ''secrets'' \<or> segments ! 1 = [] then
                Err (Errorf ''not a valid url in Key Vault reference type setting '%s', not a valid item'' [settingValue] [])
              else
                Ok \<lparr> kvm_HostName = ToLower (u_Host secretUrl),
                     kvm_SecretName = segments ! 1,
                     kvm_SecretVersion = (if length segments = 2 then [] else segments ! 2) \<rparr>)"

section \<open>The resolver\<close>

record secret_client =
  skc_Url :: string
  skc_Credential :: "TokenCredential option"

record SecretResponse =
  sec_Value :: "string option"
  sec_ContentType :: "string option"

record vault_env =
  vault_NewClient :: "string \<Rightarrow> TokenCredential option \<Rightarrow> go_error option"
  vault_GetSecret :: "secret_client \<Rightarrow> string \<Rightarrow> string \<Rightarrow> SecretResponse res"

record KeyVaultConnector =
  kvc_DefaultTokenCredential :: "TokenCredential option"
  kvc_Clients :: "(string, secret_client) gomap"

definition new_secret_client :: "vault_env \<Rightarrow> string \<Rightarrow> TokenCredential option \<Rightarrow> secret_client res" where
  "new_secret_client ve url cred =
     (case vault_NewClient ve url cred of
        Some e \<Rightarrow> Err e
      | None \<Rightarrow> Ok \<lparr> skc_Url = url, skc_Credential = cred \<rparr>)"

text \<open>The client cache is shared state: \<^verbatim>\<open>Resolve\<close> also gives the connector afterwards.\<close>

definition Resolve ::
    "vault_env \<Rightarrow> KeyVaultConnector \<Rightarrow> KeyVaultSecretMetadata \<Rightarrow> KeyVaultConnector \<times> SecretResponse res" where
  "Resolve ve kvc md =
     (case golookup (kvc_Clients kvc) (kvm_HostName md) of
        Some client \<Rightarrow> (kvc, vault_GetSecret ve client (kvm_SecretName md) (kvm_SecretVersion md))
      | None \<Rightarrow>
          (case new_secret_client ve (''https://'' @ kvm_HostName md) (kvc_DefaultTokenCredential kvc) of
             Ok client \<Rightarrow>
               (kvc\<lparr> kvc_Clients := gostore (kvm_HostName md) client (kvc_Clients kvc) \<rparr>,
                vault_GetSecret ve client (kvm_SecretName md) (kvm_SecretVersion md))
           | Err e \<Rightarrow> (kvc, Err e)
           | Panic p \<Rightarrow> (kvc, Panic p)))"

fun secret_clients_loop ::
    "loader_env \<Rightarrow> vault_env \<Rightarrow> string \<Rightarrow> AzureKeyVaultPerVaultAuth list \<Rightarrow> (string, secret_client) gomap
     \<Rightarrow> (string, secret_client) gomap res" where
  "secret_clients_loop env ve namespace [] clients = Ok clients"
| "secret_clients_loop env ve namespace (kv # kvs) clients =
     res_bind (CreateTokenCredential env (kv_Auth kv) namespace) (\<lambda>tokenCredential.
       res_bind (host_of (kv_Uri kv)) (\<lambda>host.
         res_bind (new_secret_client ve (''https://'' @ ToLower host) tokenCredential) (\<lambda>client.
           secret_clients_loop env ve namespace kvs (gostore (ToLower host) client clients))))"

definition createSecretClients ::
    "loader_env \<Rightarrow> vault_env \<Rightarrow> Provider \<Rightarrow> (string, secret_client) gomap res" where
  "createSecretClients env ve acp =
     (case spec_Secret (pv_Spec acp) of
        None \<Rightarrow> Ok []
      | Some sr \<Rightarrow>
          (case sr_Auth sr of
             None \<Rightarrow> Ok []
           | Some au \<Rightarrow> secret_clients_loop env ve (pv_Namespace acp) (kva_KeyVaults au) []))"

definition createSecretReferenceResolver ::
    "loader_env \<Rightarrow> vault_env \<Rightarrow> Provider \<Rightarrow> KeyVaultConnector res" where
  "createSecretReferenceResolver env ve acp =
     (let defaultAuth = (case spec_Secret (pv_Spec acp) of
                           None \<Rightarrow> None
                         | Some sr \<Rightarrow> (case sr_Auth sr of None \<Rightarrow> None | Some au \<Rightarrow> kva_Auth au))
      in res_bind (CreateTokenCredential env defaultAuth (pv_Namespace acp)) (\<lambda>defaultCred.
           res_bind (createSecretClients env ve acp) (\<lambda>secretClients.
             Ok \<lparr> kvc_DefaultTokenCredential = defaultCred, kvc_Clients = secretClients \<rparr>)))"

section \<open>Certificates\<close>

record pem_block =
  pb_Type :: string
  pb_Headers :: "(string, string) gomap"
  pb_Bytes :: string

text \<open>The cryptographic libraries; \<open>'k\<close> is the type of parsed private keys.\<close>

record 'k crypto =
  base64_Decode :: "string \<Rightarrow> string res"
  pkcs12_ToPEM :: "string \<Rightarrow> string \<Rightarrow> pem_block list res"
  pem_Decode :: "string \<Rightarrow> (pem_block \<times> string) option"
  pem_EncodeToMemory :: "pem_block \<Rightarrow> string"
  x509_ParsePKCS1 :: "string \<Rightarrow> 'k res"
  x509_ParsePKCS8 :: "string \<Rightarrow> 'k res"
  x509_ParseEC :: "string \<Rightarrow> 'k res"
  x509_MarshalPKCS8 :: "'k \<Rightarrow> string res"

definition parsePrivateKey :: "'k crypto \<Rightarrow> string \<Rightarrow> 'k res" where
  "parsePrivateKey cr block =
     (case x509_ParsePKCS1 cr block of
        Ok key \<Rightarrow> Ok key
      | _ \<Rightarrow>
          (case x509_ParsePKCS8 cr block of
             Ok key \<Rightarrow> Ok key
           | _ \<Rightarrow>
               (case x509_ParseEC cr block of
                  Ok key \<Rightarrow> Ok key
                | _ \<Rightarrow> Err (Errorf ''failed to parse key for type pkcs1, pkcs8 or ec'' [] []))))"

fun parsePemBlock :: "'k crypto \<Rightarrow> pem_block list \<Rightarrow> string \<times> string \<Rightarrow> (string \<times> string) res" where
  "parsePemBlock cr [] acc = Ok acc"
| "parsePemBlock cr (b # bs) (pemKeyData, pemCertData) =
     (let block = b\<lparr> pb_Headers := [] \<rparr>
      in if pb_Type block = ''CERTIFICATE'' then
           parsePemBlock cr bs (pemKeyData, pemCertData @ pem_EncodeToMemory cr block)
         else
           res_bind (parsePrivateKey cr (pb_Bytes block)) (\<lambda>key.
             res_bind (x509_MarshalPKCS8 cr key) (\<lambda>bytes.
               parsePemBlock cr bs
                 (pemKeyData @ pem_EncodeToMemory cr (block\<lparr> pb_Bytes := bytes \<rparr>), pemCertData))))"

definition decodePkcs12 :: "'k crypto \<Rightarrow> string \<Rightarrow> (string \<times> string) res" where
  "decodePkcs12 cr v =
     res_bind (base64_Decode cr v) (\<lambda>pfxRaw.
       res_bind (pkcs12_ToPEM cr pfxRaw []) (\<lambda>blocks. parsePemBlock cr blocks ([], [])))"

text \<open>
  The loop over \<^verbatim>\<open>pem.Decode\<close>.  A decoded block takes bytes from the input, so that the
  length of the text is enough fuel.
\<close>

fun pem_blocks :: "'k crypto \<Rightarrow> nat \<Rightarrow> string \<Rightarrow> pem_block list" where
  "pem_blocks cr 0 rest = []"
| "pem_blocks cr (Suc n) rest =
     (case pem_Decode cr rest of None \<Rightarrow> [] | Some (block, rest') \<Rightarrow> block # pem_blocks cr n rest')"

definition decodePem :: "'k crypto \<Rightarrow> string \<Rightarrow> (string \<times> string) res" where
  "decodePem cr v =
     (let blocks = pem_blocks cr (Suc (length v)) v
      in if length blocks = 0 then Err (Errorf ''failed to decode pem block'' [] [])
         else parsePemBlock cr blocks ([], []))"

section \<open>Kubernetes secrets\<close>

definition CertTypePem :: string where "CertTypePem = ''application/x-pem-file''"
definition CertTypePfx :: string where "CertTypePfx = ''application/x-pkcs12''"
definition TlsKey :: string where "TlsKey = ''tls.key''"
definition TlsCrt :: string where "TlsCrt = ''tls.crt''"

definition parseSecretType :: "string \<Rightarrow> SecretType res" where
  "parseSecretType secretType =
     (case golookup [(''opaque'', SecretTypeOpaque), (''kubernetes.io/tls'', SecretTypeTLS)] secretType of
        Some parsedType \<Rightarrow>
          if parsedType \<noteq> SecretTypeTLS
          then Err (Errorf ''secret type %q is not supported'' [secretType] []) else Ok parsedType
      | None \<Rightarrow> Err (Errorf ''secret type %q is not supported'' [secretType] []))"

text \<open>
  The goroutines of one Kubernetes secret: every reference is resolved, in any order, and
  the values that are not nil are collected.  Of several failures the code reports one.
\<close>

type_synonym resolver = "KeyVaultSecretMetadata \<Rightarrow> SecretResponse res"

fun resolve_opaque :: "resolver \<Rightarrow> (string, KeyVaultSecretMetadata) gomap \<Rightarrow> (string, string) gomap res" where
  "resolve_opaque resolve [] = Ok []"
| "resolve_opaque resolve ((key, md) # m) =
     res_bind (wrap_error ''fail to resolve the Key Vault reference type setting '%s': %s'' [key] (resolve md)) (\<lambda>r.
       res_bind (resolve_opaque resolve m) (\<lambda>secretsMap.
         Ok (case sec_Value r of None \<Rightarrow> secretsMap | Some v \<Rightarrow> (key, v) # secretsMap)))"

definition zero_metadata :: KeyVaultSecretMetadata where
  "zero_metadata = \<lparr> kvm_HostName = [], kvm_SecretName = [], kvm_SecretVersion = [] \<rparr>"

definition deref :: "'a option \<Rightarrow> 'a res" where
  "deref p = (case p of None \<Rightarrow> Panic ''nil pointer dereference'' | Some x \<Rightarrow> Ok x)"

definition resolve_tls ::
    "'k crypto \<Rightarrow> resolver \<Rightarrow> string \<Rightarrow> (string, KeyVaultSecretMetadata) gomap \<Rightarrow> (string, string) gomap res" where
  "resolve_tls cr resolve name mds =
     res_bind (wrap_error ''fail to resolve the Key Vault reference type setting '%s': %s'' [name]
         (resolve (case golookup mds name of None \<Rightarrow> zero_metadata | Some md \<Rightarrow> md))) (\<lambda>r.
       case sec_ContentType r of
         None \<Rightarrow> Err (Errorf ''unspecified content type'' [] [])
       | Some contentType \<Rightarrow>
           res_bind
             (wrap_error ''fail to decode the cert '%s': %s'' [name]
                (if contentType = CertTypePfx then res_bind (deref (sec_Value r)) (decodePkcs12 cr)
                 else if contentType = CertTypePem then res_bind (deref (sec_Value r)) (decodePem cr)
                 else Err (Errorf ''unknown content type '%s' '' [contentType] [])))
             (\<lambda>(key, crt). Ok [(TlsKey, key), (TlsCrt, crt)]))"

definition resolve_secret ::
    "codec \<Rightarrow> 'k crypto \<Rightarrow> ProviderSpec \<Rightarrow> resolver \<Rightarrow> string \<Rightarrow> TargetK8sSecretMetadata \<Rightarrow> SecretContent res" where
  "resolve_secret cd cr spec resolve name ref =
     res_bind
       (if tk_Type ref = SecretTypeOpaque then
          (if length (tk_SecretsKeyVaultMetadata ref) > 0 then
             res_bind (resolve_opaque resolve (tk_SecretsKeyVaultMetadata ref)) (\<lambda>secretsMap.
               res_bind (deref (spec_Secret spec)) (\<lambda>sr.
                 res_bind (createTypedSecrets cd secretsMap (sg_SecretData (sr_Target sr))) (\<lambda>typed.
                   Ok (gostore_all typed []))))
           else Ok [])
        else if tk_Type ref = SecretTypeTLS
        then resolve_tls cr resolve name (tk_SecretsKeyVaultMetadata ref)
        else Ok [])
       (\<lambda>data. Ok \<lparr> sc_Type = tk_Type ref, sc_Data = Some data \<rparr>)"

fun resolve_all ::
    "codec \<Rightarrow> 'k crypto \<Rightarrow> ProviderSpec \<Rightarrow> resolver \<Rightarrow> k8s_secrets \<Rightarrow> secret_settings res" where
  "resolve_all cd cr spec resolve [] = Ok []"
| "resolve_all cd cr spec resolve ((name, ref) # m) =
     res_bind (resolve_secret cd cr spec resolve name ref) (\<lambda>content.
       res_bind (resolve_all cd cr spec resolve m) (\<lambda>rest. Ok ((name, content) # rest)))"

text \<open>
  \<^verbatim>\<open>ResolveSecretReferences\<close> with the resolver it is given; \<open>create\<close> makes one when that is nil.
\<close>

definition ResolveSecretReferences ::
    "codec \<Rightarrow> 'k crypto \<Rightarrow> ProviderSpec \<Rightarrow> resolver res \<Rightarrow> k8s_secrets \<Rightarrow> resolver option
     \<Rightarrow> TargetKeyValueSettings res" where
  "ResolveSecretReferences cd cr spec create refs resolver =
     res_bind (case resolver of None \<Rightarrow> create | Some r \<Rightarrow> Ok r) (\<lambda>resolve.
       res_bind (resolve_all cd cr spec resolve refs) (\<lambda>resolvedSecrets.
         Ok (empty_target\<lparr> tg_SecretSettings := resolvedSecrets, tg_K8sSecrets := refs \<rparr>)))"

text \<open>
  Assigning into a nil map panics; an empty range does not assign.
\<close>

definition merge_data ::
    "(string, string) gomap option \<Rightarrow> (string, string) gomap option \<Rightarrow> (string, string) gomap option res" where
  "merge_data existing new =
     (case existing of
        Some d \<Rightarrow> Ok (Some (gostore_all (slice new) d))
      | None \<Rightarrow> if slice new = [] then Ok None else Panic ''assignment to entry in nil map'')"

fun MergeSecret :: "secret_settings \<Rightarrow> secret_settings \<Rightarrow> secret_settings res" where
  "MergeSecret secret [] = Ok secret"
| "MergeSecret secret ((k, v) # newSecret) =
     (case golookup secret k of
        None \<Rightarrow> MergeSecret (gostore k v secret) newSecret
      | Some existing \<Rightarrow>
          if sc_Type existing \<noteq> sc_Type v then Err (Errorf ''secret type mismatch for key %q'' [k] [])
          else
            res_bind (merge_data (sc_Data existing) (sc_Data v)) (\<lambda>data.
              MergeSecret (gostore k (existing\<lparr> sc_Data := data \<rparr>) secret) newSecret))"


section \<open>The client cache\<close>

text \<open>
  The contract of a stateful resolver: an answer does not depend on what was resolved
  before.  The loader's view of a resolver as a function rests on it.
\<close>

locale stable_resolver =
  fixes step :: "'s \<Rightarrow> 'q \<Rightarrow> 's \<times> 'r"
  assumes stable: "snd (step (fst (step s a)) b) = snd (step s b)"
begin

lemma stable_run: "snd (step (fold (\<lambda>a s. fst (step s a)) as s) b) = snd (step s b)"
  by (induction as arbitrary: s) (simp_all add: stable)

end

lemma Resolve_stable: "snd (Resolve ve (fst (Resolve ve kvc a)) b) = snd (Resolve ve kvc b)"
proof (cases "golookup (kvc_Clients kvc) (kvm_HostName a)")
  case (Some client)
  then show ?thesis by (simp add: Resolve_def)
next
  case None
  show ?thesis
  proof (cases "new_secret_client ve (''https://'' @ kvm_HostName a) (kvc_DefaultTokenCredential kvc)")
    case (Ok client)
    show ?thesis
    proof (cases "kvm_HostName b = kvm_HostName a")
      case True
      then show ?thesis using None Ok by (simp add: Resolve_def)
    next
      case False
      then show ?thesis using None Ok
        by (auto simp: Resolve_def split: option.splits res.splits)
    qed
  qed (use None in \<open>simp_all add: Resolve_def\<close>)
qed

interpretation connector: stable_resolver "Resolve ve" for ve
  by unfold_locales (rule Resolve_stable)

text \<open>The client of a host: that of the last vault configured for it, with its own credential.\<close>

definition vault_for :: "string \<Rightarrow> AzureKeyVaultPerVaultAuth list \<Rightarrow> AzureKeyVaultPerVaultAuth option" where
  "vault_for host kvs = find (\<lambda>kv. res_map ToLower (host_of (kv_Uri kv)) = Ok host) (rev kvs)"

lemma find_append: "find P (xs @ ys) = (case find P xs of None \<Rightarrow> find P ys | Some x \<Rightarrow> Some x)"
  by (induction xs) auto

lemma secret_clients_loop_lookup:
  assumes "secret_clients_loop env ve ns kvs clients = Ok clients'"
  shows "case vault_for host kvs of
      None \<Rightarrow> golookup clients' host = golookup clients host
    | Some kv \<Rightarrow> \<exists>cred. CreateTokenCredential env (kv_Auth kv) ns = Ok cred \<and>
        golookup clients' host = Some \<lparr> skc_Url = ''https://'' @ host, skc_Credential = cred \<rparr>"
  using assms
proof (induction kvs arbitrary: clients)
  case Nil
  then show ?case by (simp add: vault_for_def)
next
  case (Cons kv kvs)
  from Cons.prems obtain cred h client where
    c: "CreateTokenCredential env (kv_Auth kv) ns = Ok cred" "host_of (kv_Uri kv) = Ok h"
      "new_secret_client ve (''https://'' @ ToLower h) cred = Ok client"
      "secret_clients_loop env ve ns kvs (gostore (ToLower h) client clients) = Ok clients'"
    by auto
  have cl: "client = \<lparr> skc_Url = ''https://'' @ ToLower h, skc_Credential = cred \<rparr>"
    using c(3) by (auto simp: new_secret_client_def split: option.splits)
  have v: "vault_for host (kv # kvs) =
      (case vault_for host kvs of Some x \<Rightarrow> Some x | None \<Rightarrow> if ToLower h = host then Some kv else None)"
    using c(2) by (simp add: vault_for_def find_append split: option.split)
  show ?case
    using Cons.IH [OF c(4)] c(1) cl unfolding v by (auto split: option.splits)
qed

section \<open>Resolved secrets\<close>

lemma resolve_opaque_lookup:
  assumes "resolve_opaque resolve m = Ok s" and "gomap_ok m"
  shows "gomap_ok s \<and> set (gokeys s) \<subseteq> set (gokeys m) \<and>
    (\<forall>k v. golookup s k = Some v \<longleftrightarrow>
       (\<exists>md r. golookup m k = Some md \<and> resolve md = Ok r \<and> sec_Value r = Some v))"
  using assms
proof (induction m arbitrary: s)
  case (Cons e m)
  obtain key md where e: "e = (key, md)" by fastforce
  from Cons.prems(1) e obtain r s' where r: "resolve md = Ok r" "resolve_opaque resolve m = Ok s'"
      "s = (case sec_Value r of None \<Rightarrow> s' | Some v \<Rightarrow> (key, v) # s')"
    by (auto simp: wrap_error_def split: res.splits)
  have m: "gomap_ok m" "key \<notin> set (gokeys m)"
    using Cons.prems(2) e by (auto simp: gomap_ok_def gokeys_def)
  note ih = Cons.IH [OF r(2) m(1)]
  have k: "key \<notin> set (gokeys s')" using ih m(2) by auto
  then have none: "golookup s' key = None" by (simp add: gokeys_def map_of_eq_None_iff)
  have mn: "golookup m key = None" using m(2) by (simp add: gokeys_def map_of_eq_None_iff)
  show ?case
  proof (cases "sec_Value r")
    case None
    then show ?thesis
      using ih r e m none mn by (auto simp: gokeys_def)
  next
    case (Some v)
    then show ?thesis
      using ih r e m k mn by (auto simp: gokeys_def gomap_ok_def)
  qed
qed simp

lemma resolve_all_entries:
  "resolve_all cd cr spec resolve refs = Ok out \<Longrightarrow>
   list_all2 (\<lambda>(n, ref) (n', content). n' = n \<and> resolve_secret cd cr spec resolve n ref = Ok content) refs out"
  by (induction refs arbitrary: out) auto

lemma list_all2_lookup:
  "list_all2 (\<lambda>(n, x) (n', y). n' = n \<and> P n x y) xs ys \<Longrightarrow> golookup xs k = Some x \<Longrightarrow>
   \<exists>y. golookup ys k = Some y \<and> P k x y"
  by (induction xs ys rule: list_all2_induct) (auto split: if_splits)

lemma list_all2_keys: "list_all2 (\<lambda>(n, x) (n', y). n' = n \<and> P n x y) xs ys \<Longrightarrow> gokeys ys = gokeys xs"
  by (induction xs ys rule: list_all2_induct) (auto simp: gokeys_def)

lemma resolve_secret_tls_keys:
  "resolve_secret cd cr spec resolve name ref = Ok content \<Longrightarrow> tk_Type ref = SecretTypeTLS \<Longrightarrow>
   \<exists>key crt. sc_Data content = Some [(TlsKey, key), (TlsCrt, crt)] \<and> sc_Type content = SecretTypeTLS"
  by (auto simp: resolve_secret_def resolve_tls_def split: option.splits prod.splits)

text \<open>The values of the references that have one, under their keys.\<close>

definition reference_values ::
    "resolver \<Rightarrow> (string, KeyVaultSecretMetadata) gomap \<Rightarrow> (string, string) gomap \<Rightarrow> bool" where
  "reference_values resolve mds vals \<longleftrightarrow>
     gomap_ok vals \<and>
     (\<forall>k v. golookup vals k = Some v \<longleftrightarrow> (\<exists>md r. golookup mds k = Some md \<and> resolve md = Ok r \<and> sec_Value r = Some v))"

text \<open>The data of an opaque secret are these values, rendered as the data options ask.\<close>

lemma resolve_secret_rendered:
  assumes "resolve_secret cd cr spec resolve name ref = Ok content" and "tk_Type ref = SecretTypeOpaque"
    and "gomap_ok (tk_SecretsKeyVaultMetadata ref)" and "spec_Secret spec = Some sr"
  shows "\<exists>vals typed. reference_values resolve (tk_SecretsKeyVaultMetadata ref) vals
    \<and> createTypedSecrets cd vals (sg_SecretData (sr_Target sr)) = Ok typed
    \<and> sc_Data content = Some (gostore_all typed []) \<and> sc_Type content = SecretTypeOpaque"
proof (cases "tk_SecretsKeyVaultMetadata ref = []")
  case True
  then have "content = \<lparr> sc_Type = SecretTypeOpaque, sc_Data = Some [] \<rparr>"
    using assms(1,2) by (simp add: resolve_secret_def)
  with True show ?thesis
    by (intro exI [of _ "[]"]) (simp add: reference_values_def createTypedSecrets_def gostore_all_def gomap_ok_def gokeys_def)
next
  case False
  with assms(1,2,4) obtain vals typed where s: "resolve_opaque resolve (tk_SecretsKeyVaultMetadata ref) = Ok vals"
    and t: "createTypedSecrets cd vals (sg_SecretData (sr_Target sr)) = Ok typed"
    and c: "content = \<lparr> sc_Type = SecretTypeOpaque, sc_Data = Some (gostore_all typed []) \<rparr>"
    by (simp add: resolve_secret_def deref_def) blast
  have "reference_values resolve (tk_SecretsKeyVaultMetadata ref) vals"
    using resolve_opaque_lookup [OF s assms(3)] by (simp add: reference_values_def)
  with t c show ?thesis by auto
qed

lemma gostore_all_same: "gomap_ok s \<Longrightarrow> golookup (gostore_all s []) k = golookup s k"
  using gomap.lookup_fold_store_distinct [of s "[]" k]
  by (simp add: gostore_all_def gomap_ok_def gokeys_def split: option.splits)

lemma resolve_secret_opaque:
  assumes "resolve_secret cd cr spec resolve name ref = Ok content" and "tk_Type ref = SecretTypeOpaque"
    and "gomap_ok (tk_SecretsKeyVaultMetadata ref)"
    and "spec_Secret spec = Some sr" and "sg_SecretData (sr_Target sr) = None"
  shows "\<exists>data. sc_Data content = Some data \<and> sc_Type content = SecretTypeOpaque \<and>
    (\<forall>k v. golookup data k = Some v \<longleftrightarrow>
       (\<exists>md r. golookup (tk_SecretsKeyVaultMetadata ref) k = Some md \<and> resolve md = Ok r \<and> sec_Value r = Some v))"
  using resolve_secret_rendered [OF assms(1-4)] assms(5)
  by (auto simp: createTypedSecrets_def reference_values_def gostore_all_same split: if_splits)

section \<open>Merging\<close>

lemma merge_data_Ok:
  "merge_data a b = Ok d \<Longrightarrow> golookup (slice d) k =
     (case map_of (rev (slice b)) k of Some v \<Rightarrow> Some v | None \<Rightarrow> golookup (slice a) k)"
  by (auto simp: merge_data_def golookup_gostore_all split: option.splits if_splits)


section \<open>Properties\<close>

text \<open>
  C19. Every vault is asked with the credential configured for it.  However many references the
  connector of a provider has resolved before, a reference is answered by a client of the
  reference's own host over https whose credential was created from the last vault entry
  of that host, or from the default authentication when the host has no entry.
\<close>

theorem vault_credentials_routed:
  assumes "createSecretReferenceResolver env ve acp = Ok kvc"
    and "spec_Secret (pv_Spec acp) = Some sr" and "sr_Auth sr = Some au"
    and "kvc' = fold (\<lambda>md c. fst (Resolve ve c md)) before kvc"
    and "snd (Resolve ve kvc' md) = Ok r"
  shows "\<exists>cred. CreateTokenCredential env
        (case vault_for (kvm_HostName md) (kva_KeyVaults au) of None \<Rightarrow> kva_Auth au | Some kv \<Rightarrow> kv_Auth kv)
        (pv_Namespace acp) = Ok cred
    \<and> vault_GetSecret ve \<lparr> skc_Url = ''https://'' @ kvm_HostName md, skc_Credential = cred \<rparr>
        (kvm_SecretName md) (kvm_SecretVersion md) = Ok r"
proof -
  have r: "snd (Resolve ve kvc md) = Ok r"
    using assms(5) unfolding assms(4) connector.stable_run .
  from assms(1-3) obtain d clients where
    d: "CreateTokenCredential env (kva_Auth au) (pv_Namespace acp) = Ok d"
    and cl: "secret_clients_loop env ve (pv_Namespace acp) (kva_KeyVaults au) [] = Ok clients"
    and kvc: "kvc = \<lparr> kvc_DefaultTokenCredential = d, kvc_Clients = clients \<rparr>"
    by (auto simp: createSecretReferenceResolver_def createSecretClients_def Let_def)
  show ?thesis
  proof (cases "vault_for (kvm_HostName md) (kva_KeyVaults au)")
    case None
    then have "golookup clients (kvm_HostName md) = None"
      using secret_clients_loop_lookup [OF cl, of "kvm_HostName md"] by simp
    then show ?thesis
      using r d None by (auto simp: kvc Resolve_def new_secret_client_def split: option.splits res.splits)
  next
    case (Some kv)
    then show ?thesis
      using secret_clients_loop_lookup [OF cl, of "kvm_HostName md"] r
      by (auto simp: kvc Resolve_def)
  qed
qed

text \<open>
  C29. Resolving secret references gives one Kubernetes secret per requested name, of the
  requested type.  The data of an opaque secret are rendered, as the data options ask, from
  exactly the references that have a value, each under its key; without data options they are
  these values themselves.  A TLS secret holds exactly its key and certificate.
\<close>

theorem resolved_secrets_complete:
  assumes "ResolveSecretReferences cd cr spec create refs resolver = Ok target"
    and "(case resolver of None \<Rightarrow> create | Some r \<Rightarrow> Ok r) = Ok resolve"
    and "spec_Secret spec = Some sr"
    and "golookup refs name = Some ref" and "gomap_ok (tk_SecretsKeyVaultMetadata ref)"
  shows "gokeys (tg_SecretSettings target) = gokeys refs
    \<and> (\<exists>content. golookup (tg_SecretSettings target) name = Some content \<and> sc_Type content = tk_Type ref
        \<and> (tk_Type ref = SecretTypeOpaque \<longrightarrow> (\<exists>vals typed.
             reference_values resolve (tk_SecretsKeyVaultMetadata ref) vals
             \<and> createTypedSecrets cd vals (sg_SecretData (sr_Target sr)) = Ok typed
             \<and> sc_Data content = Some (gostore_all typed [])
             \<and> (sg_SecretData (sr_Target sr) = None \<longrightarrow> (\<forall>k. golookup (slice (sc_Data content)) k = golookup vals k))))
        \<and> (tk_Type ref = SecretTypeTLS \<longrightarrow> set (gokeys (slice (sc_Data content))) = {TlsKey, TlsCrt}))"
proof -
  from assms(1,2) obtain out where out: "resolve_all cd cr spec resolve refs = Ok out"
    and t: "tg_SecretSettings target = out"
    by (auto simp: ResolveSecretReferences_def)
  note entries = resolve_all_entries [OF out]
  have keys: "gokeys out = gokeys refs" using list_all2_keys [OF entries] .
  obtain content where c: "golookup out name = Some content"
      "resolve_secret cd cr spec resolve name ref = Ok content"
    using list_all2_lookup [OF entries assms(4)] by blast
  have ty: "sc_Type content = tk_Type ref" using c(2) by (auto simp: resolve_secret_def)
  have "\<exists>vals typed. reference_values resolve (tk_SecretsKeyVaultMetadata ref) vals
      \<and> createTypedSecrets cd vals (sg_SecretData (sr_Target sr)) = Ok typed \<and> sc_Data content = Some (gostore_all typed [])
      \<and> (sg_SecretData (sr_Target sr) = None \<longrightarrow> (\<forall>k. golookup (slice (sc_Data content)) k = golookup vals k))"
    if opaque: "tk_Type ref = SecretTypeOpaque"
  proof -
    obtain vals typed where v: "reference_values resolve (tk_SecretsKeyVaultMetadata ref) vals"
      "createTypedSecrets cd vals (sg_SecretData (sr_Target sr)) = Ok typed" "sc_Data content = Some (gostore_all typed [])"
      using resolve_secret_rendered [OF c(2) opaque assms(5,3)] by blast
    moreover have "golookup (slice (sc_Data content)) k = golookup vals k" if "sg_SecretData (sr_Target sr) = None" for k
      using v that by (auto simp: createTypedSecrets_def reference_values_def gostore_all_same split: if_splits)
    ultimately show ?thesis by blast
  qed
  moreover have "set (gokeys (slice (sc_Data content))) = {TlsKey, TlsCrt}" if "tk_Type ref = SecretTypeTLS"
    using resolve_secret_tls_keys [OF c(2) that] by (auto simp: gokeys_def)
  ultimately show ?thesis using keys c(1) ty t by auto
qed

text \<open>
  C36. A Key Vault reference written for a host, a secret name and a version is parsed back to
  the lower-cased host, the name and the version.
\<close>

theorem reference_parsed_back:
  assumes "list_all plain_host_char host" and "list_all plain_path_char (name @ version)"
    and "CHR ''/'' \<notin> set (name @ version)" and "name \<noteq> []"
  shows "parse (go_codec canon ym yu yu2)
      (json_encode (VMap [(''uri'', VStr (''https://'' @ host @ ''/secrets/'' @ name @ ''/'' @ version))]))
    = Ok \<lparr> kvm_HostName = ToLower host, kvm_SecretName = name, kvm_SecretVersion = version \<rparr>"
proof -
  let ?path = "''/secrets/'' @ name @ ''/'' @ version"
  let ?uri = "''https://'' @ host @ ?path"
  let ?doc = "VMap [(''uri'', VStr ?uri)]"
  have "json_decode canon (json_encode ?doc) = Ok ?doc"
    using json_decode_encode [of canon ?doc] by (simp add: gomap_ok_def gokeys_def)
  moreover have "url_Parse ?uri = Some \<lparr> u_Scheme = ''https'', u_Host = host, u_Path = ?path \<rparr>"
    using assms(1,2) by (intro url_Parse_https) (auto simp: plain_path_char_def is_letter_def HasPrefix_def)
  moreover have "Split (''secrets/'' @ name @ ''/'' @ version) ''/'' = [''secrets'', name, version]"
    using Split_Join_char [of "[''secrets'', name, version]" "CHR ''/''"] assms(3) by simp
  moreover have "TrimPrefix ?path ''/'' = ''secrets/'' @ name @ ''/'' @ version"
    by (simp add: TrimPrefix_def HasPrefix_def)
  moreover have "ToLower ''secrets'' = ''secrets''" by code_simp
  ultimately show ?thesis
    using assms(4)
    by (simp add: parse_def go_codec_def Let_def)
qed

text \<open>The content after a merge: the type of the new one, its data over the old ones.\<close>

definition merged_into :: "SecretContent option \<Rightarrow> SecretContent \<Rightarrow> SecretContent \<Rightarrow> bool" where
  "merged_into old v content \<longleftrightarrow>
     sc_Type content = sc_Type v \<and>
     (\<forall>dk. golookup (slice (sc_Data content)) dk =
        (case old of
           None \<Rightarrow> golookup (slice (sc_Data v)) dk
         | Some o' \<Rightarrow>
             (case map_of (rev (slice (sc_Data v))) dk of
                Some x \<Rightarrow> Some x
              | None \<Rightarrow> golookup (slice (sc_Data o')) dk)))"

lemma MergeSecret_step:
  assumes "MergeSecret secret ((k, v) # new) = Ok out"
  shows "\<exists>content. MergeSecret (gostore k content secret) new = Ok out \<and> merged_into (golookup secret k) v content"
proof (cases "golookup secret k")
  case None
  then show ?thesis using assms by (auto simp: merged_into_def)
next
  case (Some old)
  then obtain d where d: "merge_data (sc_Data old) (sc_Data v) = Ok d" "sc_Type old = sc_Type v"
      "MergeSecret (gostore k (old\<lparr> sc_Data := d \<rparr>) secret) new = Ok out"
    using assms by (auto split: if_splits)
  then show ?thesis
    using Some merge_data_Ok [OF d(1)] by (auto simp: merged_into_def)
qed

text \<open>
  Merging keeps what was there and adds the rest: when merging succeeds every new secret is
  in the result with its type, its data override the entries that were there, and names
  that are not new are untouched.
\<close>

theorem merged_secrets:
  assumes "MergeSecret secret new = Ok out" and "gomap_ok new"
  shows "case golookup new k of
      None \<Rightarrow> golookup out k = golookup secret k
    | Some v \<Rightarrow> \<exists>content. golookup out k = Some content \<and> merged_into (golookup secret k) v content"
  using assms
proof (induction new arbitrary: secret)
  case (Cons e new)
  obtain j v where e: "e = (j, v)" by fastforce
  have new: "gomap_ok new" "golookup new j = None"
    using Cons.prems(2) e by (auto simp: gomap_ok_def gokeys_def map_of_eq_None_iff)
  obtain content where m: "MergeSecret (gostore j content secret) new = Ok out"
      "merged_into (golookup secret j) v content"
    using MergeSecret_step Cons.prems(1) e by blast
  note ih = Cons.IH [OF m(1) new(1)]
  show ?case
  proof (cases "k = j")
    case True
    then show ?thesis using e m(2) ih new(2) by simp
  next
    case False
    then have l: "golookup (gostore j content secret) k = golookup secret k" by simp
    show ?thesis using ih False e unfolding l by simp
  qed
qed simp

section \<open>Instances\<close>

definition sample_vault_env :: vault_env where
  "sample_vault_env =
     \<lparr> vault_NewClient = (\<lambda>u c. None),
       vault_GetSecret = (\<lambda>c n v. Ok \<lparr> sec_Value = Some n, sec_ContentType = None \<rparr>) \<rparr>"

definition sample_secret_options :: SecretReferenceOptions where
  "sample_secret_options =
     \<lparr> sr_Target = \<lparr> sg_SecretName = ''secrets'', sg_SecretData = None \<rparr>,
       sr_Auth = Some \<lparr> kva_Auth = None,
         kva_KeyVaults = [\<lparr> kv_Uri = ''https://Vault.azure.net'',
           kv_Auth = Some \<lparr> auth_ManagedIdentityClientId = Some ''id'', auth_ServicePrincipalReference = None,
             auth_WorkloadIdentity = None \<rparr> \<rparr>] \<rparr>,
       sr_Refresh = None \<rparr>"

definition secret_provider :: Provider where
  "secret_provider = sample_provider\<lparr> pv_Spec := sample_spec\<lparr> spec_Secret := Some sample_secret_options \<rparr> \<rparr>"

definition sample_metadata :: KeyVaultSecretMetadata where
  "sample_metadata = \<lparr> kvm_HostName = ''vault.azure.net'', kvm_SecretName = ''s'', kvm_SecretVersion = [] \<rparr>"

theorem vault_credentials_routed_witness:
  "\<exists>kvc cred. createSecretReferenceResolver (sample_env sample_srv) sample_vault_env secret_provider = Ok kvc
    \<and> vault_GetSecret sample_vault_env \<lparr> skc_Url = ''https://vault.azure.net'', skc_Credential = cred \<rparr> ''s'' []
      = Ok \<lparr> sec_Value = Some ''s'', sec_ContentType = None \<rparr>"
proof -
  have h: "host_of ''https://Vault.azure.net'' = Ok ''Vault.azure.net''" by code_simp
  have sec: "spec_Secret (pv_Spec secret_provider) = Some sample_secret_options"
    by (simp add: secret_provider_def)
  obtain au where au: "sr_Auth sample_secret_options = Some au" by (simp add: sample_secret_options_def)
  obtain kvc where kvc: "createSecretReferenceResolver (sample_env sample_srv) sample_vault_env secret_provider = Ok kvc"
    by (simp add: createSecretReferenceResolver_def createSecretClients_def secret_provider_def sample_secret_options_def
        h CreateTokenCredential_def new_credential_def new_secret_client_def Let_def)
      (simp add: sample_env_def sample_vault_env_def)
  have "snd (Resolve sample_vault_env kvc sample_metadata) = Ok \<lparr> sec_Value = Some ''s'', sec_ContentType = None \<rparr>"
    by (auto simp: Resolve_def new_secret_client_def sample_vault_env_def sample_metadata_def split: option.splits)
  with vault_credentials_routed [OF kvc sec au, of kvc "[]" sample_metadata] kvc show ?thesis
    by (auto simp: sample_metadata_def)
qed

text \<open>A crypto library that accepts everything, for the instances without certificates.\<close>

definition sample_crypto :: "string crypto" where
  "sample_crypto =
     \<lparr> base64_Decode = Ok, pkcs12_ToPEM = (\<lambda>s p. Ok []), pem_Decode = (\<lambda>s. None), pem_EncodeToMemory = pb_Bytes,
       x509_ParsePKCS1 = Ok, x509_ParsePKCS8 = Ok, x509_ParseEC = Ok, x509_MarshalPKCS8 = Ok \<rparr>"

definition sample_refs :: k8s_secrets where
  "sample_refs =
     [(''secrets'', \<lparr> tk_Type = SecretTypeOpaque, tk_SecretsKeyVaultMetadata = [(''key'', sample_metadata)],
         tk_SecretResourceVersion = [] \<rparr>)]"

theorem resolved_secrets_complete_witness:
  "\<exists>target content. ResolveSecretReferences sample_codec sample_crypto (pv_Spec secret_provider) (Err KubeNotFound)
      sample_refs (Some (\<lambda>md. Ok \<lparr> sec_Value = Some ''x'', sec_ContentType = None \<rparr>)) = Ok target
    \<and> golookup (tg_SecretSettings target) ''secrets'' = Some content
    \<and> golookup (slice (sc_Data content)) ''key'' = Some ''x''"
proof -
  let ?resolve = "\<lambda>md :: KeyVaultSecretMetadata. Ok \<lparr> sec_Value = Some ''x'', sec_ContentType = None \<rparr>"
  obtain target where t: "ResolveSecretReferences sample_codec sample_crypto (pv_Spec secret_provider) (Err KubeNotFound)
      sample_refs (Some ?resolve) = Ok target"
    by (simp add: ResolveSecretReferences_def sample_refs_def resolve_secret_def wrap_error_def deref_def
        secret_provider_def sample_secret_options_def createTypedSecrets_def)
  have s: "spec_Secret (pv_Spec secret_provider) = Some sample_secret_options"
    "sg_SecretData (sr_Target sample_secret_options) = None"
    by (simp_all add: secret_provider_def sample_secret_options_def)
  obtain ref where r: "golookup sample_refs ''secrets'' = Some ref" "gomap_ok (tk_SecretsKeyVaultMetadata ref)"
    "tk_Type ref = SecretTypeOpaque" "golookup (tk_SecretsKeyVaultMetadata ref) ''key'' = Some sample_metadata"
    by (simp add: sample_refs_def gomap_ok_def gokeys_def)
  from resolved_secrets_complete [OF t _ s(1) r(1,2), of ?resolve] r(3) s(2) obtain content vals where
    content: "golookup (tg_SecretSettings target) ''secrets'' = Some content"
    "reference_values ?resolve (tk_SecretsKeyVaultMetadata ref) vals"
    "\<forall>k. golookup (slice (sc_Data content)) k = golookup vals k"
    by auto
  then have "golookup (slice (sc_Data content)) ''key'' = Some ''x''" using r(4) by (simp add: reference_values_def)
  with content(1) show ?thesis using t by blast
qed

theorem reference_parsed_back_witness:
  "parse sample_codec (json_encode (VMap [(''uri'', VStr ''https://Vault.azure.net/secrets/db/1'')]))
    = Ok \<lparr> kvm_HostName = ToLower ''Vault.azure.net'', kvm_SecretName = ''db'', kvm_SecretVersion = ''1'' \<rparr>"
  using reference_parsed_back [of "''Vault.azure.net''" "''db''" "''1''"]
  by (simp add: sample_codec_def plain_host_char_def plain_path_char_def is_letter_def is_dec_def)

theorem merged_secrets_witness:
  "\<exists>out content. MergeSecret [(''a'', \<lparr> sc_Type = SecretTypeOpaque, sc_Data = Some [(''x'', ''1'')] \<rparr>)]
      [(''a'', \<lparr> sc_Type = SecretTypeOpaque, sc_Data = Some [(''y'', ''2'')] \<rparr>)] = Ok out
    \<and> golookup out ''a'' = Some content \<and> golookup (slice (sc_Data content)) ''x'' = Some ''1''"
proof -
  let ?old = "\<lparr> sc_Type = SecretTypeOpaque, sc_Data = Some [(''x'', ''1'')] \<rparr>"
  let ?new = "[(''a'', \<lparr> sc_Type = SecretTypeOpaque, sc_Data = Some [(''y'', ''2'')] \<rparr>)]"
  obtain out where out: "MergeSecret [(''a'', ?old)] ?new = Ok out"
    by (simp add: merge_data_def)
  have "gomap_ok ?new" by (simp add: gomap_ok_def gokeys_def)
  from merged_secrets [OF out this, of "''a''"] out show ?thesis
    by (auto simp: merged_into_def simp del: MergeSecret.simps)
qed

end
