(* ===== verification/Request_Tracing.thy ===== *)
theory Request_Tracing
  imports Loader_Types
begin

text \<open>
  \<^verbatim>\<open>internal/loader/request_tracing.go\<close>: the correlation context header of the requests.
\<close>

record TracingFeatures =
  tf_ReplicaCount :: nat
  tf_IsFailoverRequest :: bool
  tf_UseAIConfiguration :: bool
  tf_UseAIChatCompletionConfiguration :: bool
  tf_UseSnapshotReference :: bool

text \<open>
  \<open>startUp\<close> is the \<^verbatim>\<open>RequestTracing\<close> value of the context, \<open>None\<close> when it has none;
  \<open>extension\<close> tells whether the environment has the extension's variable.
\<close>

definition tracing_parts :: "bool option \<Rightarrow> ProviderSpec \<Rightarrow> TracingFeatures \<Rightarrow> bool \<Rightarrow> string list" where
  "tracing_parts startUp spec tf extension =
     (let features =
            (if spec_LoadBalancingEnabled spec then [''LB''] else []) @
            (if tf_UseAIConfiguration tf then [''AI''] else []) @
            (if tf_UseAIChatCompletionConfiguration tf then [''AICC''] else []) @
            (if tf_UseSnapshotReference tf then [''SnapshotRef''] else [])
      in [''Host=Kubernetes''] @
         (case startUp of
            None \<Rightarrow> []
          | Some b \<Rightarrow> if b then [''RequestType=StartUp''] else [''RequestType=Watch'']) @
         (case spec_Secret spec of
            None \<Rightarrow> []
          | Some sr \<Rightarrow>
              [''UsesKeyVault''] @
              (case sr_Refresh sr of
                 None \<Rightarrow> []
               | Some r \<Rightarrow> if rs_Enabled r then [''RefreshesKeyVault''] else [])) @
         (if spec_FeatureFlag spec \<noteq> None then [''UsesFeatureFlag''] else []) @
         (if spec_ReplicaDiscoveryEnabled spec then
            (''ReplicaCount='' @ Itoa (tf_ReplicaCount tf)) #
            (if tf_IsFailoverRequest tf then [''FailoverRequest''] else [])
          else []) @
         (if length features > 0 then [''Features='' @ Join features ''+''] else []) @
         (if extension then [''InstalledBy=Extension''] else [''InstalledBy=Helm'']))"

definition createCorrelationContextHeader ::
    "bool option \<Rightarrow> Provider \<Rightarrow> TracingFeatures \<Rightarrow> bool \<Rightarrow> (string \<times> string) list" where
  "createCorrelationContextHeader startUp provider tf extension =
     [(''Correlation-Context'', Join (tracing_parts startUp (pv_Spec provider) tf extension) '','')]"

lemma comma_not_in_Itoa: "CHR '','' \<notin> set (Itoa n)"
  using Itoa_digits [of "CHR '',''" n] by (auto simp: digit_val_def)

lemma tracing_parts_no_comma: "x \<in> set (tracing_parts startUp spec tf extension) \<Longrightarrow> CHR '','' \<notin> set x"
  by (auto simp: tracing_parts_def Let_def comma_not_in_Itoa split: option.splits if_splits)

text \<open>
  The header says what the provider uses: splitting its value at the commas gives its
  parts back, so the server reads a Key Vault, a feature flag or a failover marker exactly
  when the provider has a secret section, has a feature flag section, or retries on a
  replica with discovery enabled.
\<close>

theorem tracing_header_exact:
  "\<exists>v. createCorrelationContextHeader startUp provider tf extension = [(''Correlation-Context'', v)]
    \<and> Split v '','' = tracing_parts startUp (pv_Spec provider) tf extension
    \<and> (''UsesKeyVault'' \<in> set (Split v '','') \<longleftrightarrow> spec_Secret (pv_Spec provider) \<noteq> None)
    \<and> (''UsesFeatureFlag'' \<in> set (Split v '','') \<longleftrightarrow> spec_FeatureFlag (pv_Spec provider) \<noteq> None)
    \<and> (''FailoverRequest'' \<in> set (Split v '','') \<longleftrightarrow>
         spec_ReplicaDiscoveryEnabled (pv_Spec provider) \<and> tf_IsFailoverRequest tf)"
proof -
  let ?ps = "tracing_parts startUp (pv_Spec provider) tf extension"
  have "Split (Join ?ps '','') '','' = ?ps"
    using tracing_parts_no_comma [of _ startUp "pv_Spec provider" tf extension]
    by (intro Split_Join_char) (simp add: tracing_parts_def, blast)
  moreover have "''UsesKeyVault'' \<in> set ?ps \<longleftrightarrow> spec_Secret (pv_Spec provider) \<noteq> None"
    by (cases "spec_Secret (pv_Spec provider)")
      (auto simp: tracing_parts_def Let_def split: option.splits if_splits)
  moreover have "''UsesFeatureFlag'' \<in> set ?ps \<longleftrightarrow> spec_FeatureFlag (pv_Spec provider) \<noteq> None"
    by (auto simp: tracing_parts_def Let_def split: option.splits if_splits)
  moreover have "''FailoverRequest'' \<in> set ?ps \<longleftrightarrow>
      spec_ReplicaDiscoveryEnabled (pv_Spec provider) \<and> tf_IsFailoverRequest tf"
    by (auto simp: tracing_parts_def Let_def split: option.splits if_splits)
  ultimately show ?thesis by (simp add: createCorrelationContextHeader_def)
qed

end
