(* ===== verification/Go_Actions.thy ===== *)
theory Go_Actions
  imports Go_Prelude
begin

text \<open>
  Fallible code that changes state: an action takes the state and gives the state
  afterwards together with the result.  The state persists when the result is an error.
\<close>

type_synonym ('s, 'a) act = "'s \<Rightarrow> 's \<times> 'a res"

definition act_return :: "'a \<Rightarrow> ('s, 'a) act" where
  "act_return x = (\<lambda>s. (s, Ok x))"

definition act_bind :: "('s, 'a) act \<Rightarrow> ('a \<Rightarrow> ('s, 'b) act) \<Rightarrow> ('s, 'b) act" where
  "act_bind m f = (\<lambda>s. case m s of
       (s', Ok x) \<Rightarrow> f x s'
     | (s', Err e) \<Rightarrow> (s', Err e)
     | (s', Panic p) \<Rightarrow> (s', Panic p))"

definition act_lift :: "'a res \<Rightarrow> ('s, 'a) act" where
  "act_lift r = (\<lambda>s. (s, r))"

definition act_get :: "('s \<Rightarrow> 'a) \<Rightarrow> ('s, 'a) act" where
  "act_get f = (\<lambda>s. (s, Ok (f s)))"

definition act_modify :: "('s \<Rightarrow> 's) \<Rightarrow> ('s, unit) act" where
  "act_modify f = (\<lambda>s. (f s, Ok ()))"

text \<open>A loop over a list, up to the first failure.\<close>

fun act_iter :: "('a \<Rightarrow> ('s, unit) act) \<Rightarrow> 'a list \<Rightarrow> ('s, unit) act" where
  "act_iter f [] = act_return ()"
| "act_iter f (x # xs) = act_bind (f x) (\<lambda>_. act_iter f xs)"

lemma act_return_simp [simp]: "act_return x s = (s, Ok x)"
  by (simp add: act_return_def)

lemma act_lift_simp [simp]: "act_lift r s = (s, r)"
  by (simp add: act_lift_def)

lemma act_get_simp [simp]: "act_get f s = (s, Ok (f s))"
  by (simp add: act_get_def)

lemma act_modify_simp [simp]: "act_modify f s = (f s, Ok ())"
  by (simp add: act_modify_def)

lemma act_bind_Ok: "m s = (s', Ok x) \<Longrightarrow> act_bind m f s = f x s'"
  by (simp add: act_bind_def)

lemma act_bind_eq_Ok:
  "act_bind m f s = (t, Ok y) \<longleftrightarrow> (\<exists>s' x. m s = (s', Ok x) \<and> f x s' = (t, Ok y))"
  by (auto simp: act_bind_def split: prod.splits res.splits)

lemma act_bind_get [simp]: "act_bind (act_get g) f s = f (g s) s"
  by (simp add: act_bind_def)

lemma act_bind_modify [simp]: "act_bind (act_modify g) f s = f () (g s)"
  by (simp add: act_bind_def)

lemma act_bind_lift_Ok [simp]: "act_bind (act_lift (Ok x)) f s = f x s"
  by (simp add: act_bind_def)

lemma act_bind_return [simp]: "act_bind (act_return x) f s = f x s"
  by (simp add: act_bind_def)

lemma act_bind_lift:
  "act_bind (act_lift r) f s =
     (case r of Ok x \<Rightarrow> f x s | Err e \<Rightarrow> (s, Err e) | Panic p \<Rightarrow> (s, Panic p))"
  by (simp add: act_bind_def)

lemma act_bind_fst_cong:
  "fst (act_bind m f s) = (case m s of (s', Ok x) \<Rightarrow> fst (f x s') | (s', _) \<Rightarrow> s')"
  by (auto simp: act_bind_def split: prod.splits res.splits)

text \<open>A relation between the states before and after that every step respects.\<close>

lemma act_bind_preserves:
  assumes "P s" and "\<And>s. P s \<Longrightarrow> P (fst (m s))" and "\<And>x s. P s \<Longrightarrow> P (fst (f x s))"
  shows "P (fst (act_bind m f s))"
  using assms(2) [OF assms(1)] assms(3) by (auto simp: act_bind_def split: prod.splits res.splits)

lemma act_iter_preserves:
  assumes "P s" and "\<And>x s. x \<in> set xs \<Longrightarrow> P s \<Longrightarrow> P (fst (f x s))"
  shows "P (fst (act_iter f xs s))"
  using assms
proof (induction xs arbitrary: s)
  case (Cons x xs)
  show ?case
  proof (cases "f x s")
    case (Pair s' r)
    then have "P s'" using Cons.prems by (metis fst_conv list.set_intros(1))
    then show ?thesis
      using Pair Cons by (cases r) (auto simp: act_bind_def)
  qed
qed simp

lemma act_iter_append: "act_iter f (xs @ ys) s = act_bind (act_iter f xs) (\<lambda>_. act_iter f ys) s"
proof (induction xs arbitrary: s)
  case (Cons x xs)
  show ?case
  proof (cases "f x s")
    case (Pair s' r)
    then show ?thesis using Cons.IH [of s'] by (cases r) (auto simp: act_bind_def)
  qed
qed (simp add: act_bind_def)

end
