(* ===== verification/Failover.thy ===== *)
theory Failover
  imports Key_Vault Request_Tracing Go_Actions
begin

text \<open>
  The failover policy of \<^verbatim>\<open>configuration_setting_loader.go\<close>: which clients a request is sent
  to and in which order, how their back-off and the last successful endpoint are kept, and
  what the caller gets.
\<close>

section \<open>The loader\<close>

text \<open>
  \<open>ldr_SettingsClient\<close> is the client that tests inject; it is nil in production.
  \<open>ldr_Headers\<close> are the tracing headers of the requests so far and \<open>ldr_calls\<close> counts the
  uses of the environment.
\<close>

record loader =
  ldr_Provider :: Provider
  ldr_Manager :: ConfigurationClientManager
  ldr_SettingsClient :: "(az_client \<Rightarrow> SettingsResponse option res) option"
  ldr_Tracing :: TracingFeatures
  ldr_Headers :: "(string \<times> string) list list"
  ldr_calls :: nat

definition NewConfigurationSettingLoader ::
    "Provider \<Rightarrow> ConfigurationClientManager \<Rightarrow> (az_client \<Rightarrow> SettingsResponse option res) option \<Rightarrow> loader res" where
  "NewConfigurationSettingLoader provider manager settingsClient =
     Ok \<lparr> ldr_Provider = provider, ldr_Manager = manager, ldr_SettingsClient = settingsClient,
          ldr_Tracing = \<lparr> tf_ReplicaCount = 0, tf_IsFailoverRequest = False, tf_UseAIConfiguration = False,
            tf_UseAIChatCompletionConfiguration = False, tf_UseSnapshotReference = False \<rparr>,
          ldr_Headers = [], ldr_calls = 0 \<rparr>"

text \<open>
  What one call of the policy finds outside: the clock when it lists the clients, at each
  attempt and when it refreshes, the random draws, the two discoveries, and whether the
  context marks a start-up request.
\<close>

record call_env =
  ce_env :: loader_env
  ce_now :: go_time
  ce_discovery :: discovery
  ce_attempt_now :: "nat \<Rightarrow> go_time"
  ce_attempt_rand :: "nat \<Rightarrow> nat"
  ce_refresh_now :: go_time
  ce_refresh_discovery :: discovery
  ce_startUp :: "bool option"

section \<open>The order of the clients\<close>

definition reverseClients :: "'a list \<Rightarrow> nat \<Rightarrow> nat \<Rightarrow> 'a list" where
  "reverseClients clients start end' = swap_loop clients start end'"

definition rotate_clients :: "'a list \<Rightarrow> nat \<Rightarrow> 'a list" where
  "rotate_clients clients k0 =
     (let n = length clients; k = k0 mod n
      in if k = 0 then clients
         else reverseClients (reverseClients (reverseClients clients 0 (n - 1)) 0 (n - k - 1)) (n - k) (n - 1))"

fun next_client_index :: "string \<Rightarrow> string list \<Rightarrow> nat \<Rightarrow> nat" where
  "next_client_index endpoint [] nextClientIndex = nextClientIndex"
| "next_client_index endpoint (e # es) nextClientIndex =
     (if e = endpoint then Suc nextClientIndex else next_client_index endpoint es (Suc nextClientIndex))"

definition client_order :: "ProviderSpec \<Rightarrow> ConfigurationClientManager \<Rightarrow> wrapper_ref list \<Rightarrow> wrapper_ref list" where
  "client_order spec manager clients =
     (if spec_LoadBalancingEnabled spec \<and> cm_lastSuccessfulEndpoint manager \<noteq> [] \<and> length clients > 1 then
        (let nextClientIndex =
               next_client_index (cm_lastSuccessfulEndpoint manager)
                 (map (\<lambda>r. cw_Endpoint (wrapper_at manager r)) clients) 0
         in if nextClientIndex < length clients then rotate_clients clients nextClientIndex else clients)
      else clients)"

section \<open>Attempts\<close>

definition ParseBool :: "string \<Rightarrow> bool" where
  "ParseBool s \<longleftrightarrow> s \<in> set [''1'', ''t'', ''T'', ''TRUE'', ''true'', ''True'']"

definition tracing_enabled :: "loader_env \<Rightarrow> bool" where
  "tracing_enabled env =
     (case env_LookupEnv env ''REQUEST_TRACING_ENABLED'' of None \<Rightarrow> False | Some v \<Rightarrow> ParseBool v)"

definition trace_attempt :: "call_env \<Rightarrow> bool \<Rightarrow> loader \<Rightarrow> loader" where
  "trace_attempt ce isFailoverRequest l =
     (if tracing_enabled (ce_env ce) then
        (let tf = (ldr_Tracing l)\<lparr> tf_IsFailoverRequest := isFailoverRequest,
                     tf_ReplicaCount := length (slice (cm_DynamicClientWrappers (ldr_Manager l))) \<rparr>
         in l\<lparr> ldr_Tracing := tf,
               ldr_Headers := ldr_Headers l @
                 [createCorrelationContextHeader (ce_startUp ce) (ldr_Provider l) tf
                    (env_LookupEnv (ce_env ce) ''AZURE_EXTENSION_CONTEXT'' \<noteq> None)] \<rparr>)
      else l)"

definition mark_attempt :: "call_env \<Rightarrow> nat \<Rightarrow> bool \<Rightarrow> wrapper_ref \<Rightarrow> loader \<Rightarrow> loader" where
  "mark_attempt ce i successful r l =
     l\<lparr> ldr_Manager :=
         update_wrapper r (updateClientBackoffStatus (ce_attempt_now ce i) (ce_attempt_rand ce i) successful)
           (ldr_Manager l) \<rparr>"

definition mark_success :: "wrapper_ref \<Rightarrow> loader \<Rightarrow> loader" where
  "mark_success r l =
     l\<lparr> ldr_Manager := (ldr_Manager l)\<lparr> cm_lastSuccessfulEndpoint := cw_Endpoint (wrapper_at (ldr_Manager l) r) \<rparr> \<rparr>"

text \<open>
  The loop over the clients; \<open>i\<close> attempts were made and \<open>errors\<close> are their errors.  The
  result is \<open>None\<close> when every client failed.
\<close>

fun failover_loop ::
    "call_env \<Rightarrow> (az_client \<Rightarrow> SettingsResponse option res) \<Rightarrow> nat \<Rightarrow> wrapper_ref list \<Rightarrow> go_error list \<Rightarrow> loader
     \<Rightarrow> loader \<times> SettingsResponse option res option \<times> go_error list" where
  "failover_loop ce request i [] errors l = (l, None, errors)"
| "failover_loop ce request i (r # rs) errors l0 =
     (let l = trace_attempt ce (errors \<noteq> []) l0
      in case request (cw_Client (wrapper_at (ldr_Manager l) r)) of
           Ok settingsResponse \<Rightarrow> (mark_attempt ce i True r (mark_success r l), Some (Ok settingsResponse), errors)
         | Err err \<Rightarrow>
             let l' = mark_attempt ce i False r l
             in if IsFailoverable err then failover_loop ce request (Suc i) rs (errors @ [err]) l'
                else (l', Some (Err err), errors)
         | Panic p \<Rightarrow> (l, Some (Panic p), errors))"

definition refresh_clients :: "call_env \<Rightarrow> loader \<Rightarrow> loader \<times> unit res" where
  "refresh_clients ce l =
     (case RefreshClients (ce_env ce) (ce_refresh_discovery ce) (ce_refresh_now ce) (ldr_Manager l) of
        Ok m \<Rightarrow> (l\<lparr> ldr_Manager := m \<rparr>, Ok ())
      | Err e \<Rightarrow> (l, Err e)
      | Panic p \<Rightarrow> (l, Panic p))"

definition get_clients :: "call_env \<Rightarrow> (loader, wrapper_ref list) act" where
  "get_clients ce l =
     (case GetClients (ce_env ce) (ce_discovery ce) (ce_now ce) (ldr_Manager l) of
        Ok (m, clients) \<Rightarrow> (l\<lparr> ldr_Manager := m \<rparr>, Ok clients)
      | Err e \<Rightarrow> (l, Err e)
      | Panic p \<Rightarrow> (l, Panic p))"

definition try_clients ::
    "call_env \<Rightarrow> (az_client \<Rightarrow> SettingsResponse option res) \<Rightarrow> wrapper_ref list \<Rightarrow> (loader, SettingsResponse option) act" where
  "try_clients ce request clients =
     (if length clients = 0 then
        act_bind (refresh_clients ce) (\<lambda>_. act_lift
          (Err (Errorf ''no client is available to connect to the target App Configuration store'' [] [])))
      else
        (\<lambda>l. let ordered = client_order (pv_Spec (ldr_Provider l)) (ldr_Manager l) clients
             in case failover_loop ce request 0 ordered [] l of
                  (l', Some r, errors) \<Rightarrow> (l', r)
                | (l', None, errors) \<Rightarrow>
                    act_bind (refresh_clients ce) (\<lambda>_. act_lift
                      (Err (Errorf ''all app configuration clients failed to get settings: %v'' [] errors))) l'))"

definition ExecuteFailoverPolicy ::
    "call_env \<Rightarrow> (az_client \<Rightarrow> SettingsResponse option res) \<Rightarrow> (loader, SettingsResponse option) act" where
  "ExecuteFailoverPolicy ce request = act_bind (get_clients ce) (try_clients ce request)"


section \<open>Rotation\<close>

lemma swap_loop_segment:
  assumes "i \<le> j" and "j < length xs"
  shows "swap_loop xs i j = take i xs @ rev (take (j - i + 1) (drop i xs)) @ drop (Suc j) xs"
proof (rule nth_equalityI)
  show "length (swap_loop xs i j) = length (take i xs @ rev (take (j - i + 1) (drop i xs)) @ drop (Suc j) xs)"
    using assms by simp
next
  fix k assume k: "k < length (swap_loop xs i j)"
  show "swap_loop xs i j ! k = (take i xs @ rev (take (j - i + 1) (drop i xs)) @ drop (Suc j) xs) ! k"
    using assms k
    by (auto simp: nth_swap_loop nth_append rev_nth)
qed

text \<open>Three reversals rotate the list to the left.\<close>

lemma rotate_clients_eq:
  assumes "k < length xs"
  shows "rotate_clients xs k = drop k xs @ take k xs"
proof (cases "k = 0")
  case True
  then show ?thesis by (simp add: rotate_clients_def)
next
  case False
  let ?n = "length xs"
  have whole: "reverseClients xs 0 (?n - 1) = rev xs"
    using swap_loop_rev [of xs] by (simp add: reverseClients_def)
  have first: "reverseClients (rev xs) 0 (?n - k - 1) = rev (take (?n - k) (rev xs)) @ drop (?n - k) (rev xs)"
  proof -
    have "Suc (?n - Suc k) = ?n - k" using assms by simp
    then show ?thesis
      using assms swap_loop_segment [of 0 "?n - k - 1" "rev xs"] by (simp add: reverseClients_def)
  qed
  have parts: "rev (take (?n - k) (rev xs)) = drop k xs" "drop (?n - k) (rev xs) = rev (take k xs)"
    using assms by (simp_all add: take_rev drop_rev)
  have last: "reverseClients (drop k xs @ rev (take k xs)) (?n - k) (?n - 1) = drop k xs @ take k xs"
    using assms False swap_loop_segment [of "?n - k" "?n - 1" "drop k xs @ rev (take k xs)"]
    by (simp add: reverseClients_def)
  have "rotate_clients xs k =
      reverseClients (reverseClients (reverseClients xs 0 (?n - 1)) 0 (?n - k - 1)) (?n - k) (?n - 1)"
    using assms False by (simp add: rotate_clients_def Let_def)
  also have "\<dots> = drop k xs @ take k xs" unfolding whole first parts by (rule last)
  finally show ?thesis .
qed

lemma next_client_index_found:
  "endpoint \<in> set es \<Longrightarrow> \<exists>i < length es. es ! i = endpoint \<and> next_client_index endpoint es n = n + Suc i"
proof (induction endpoint es n rule: next_client_index.induct)
  case (2 endpoint e es n)
  show ?case
  proof (cases "e = endpoint")
    case True
    then show ?thesis by (intro exI [of _ 0]) simp
  next
    case False
    with 2 obtain i where "i < length es" "es ! i = endpoint"
        "next_client_index endpoint es (Suc n) = Suc n + Suc i" by auto
    with False show ?thesis by (intro exI [of _ "Suc i"]) simp
  qed
qed simp

lemma next_client_index_absent: "endpoint \<notin> set es \<Longrightarrow> next_client_index endpoint es n = n + length es"
  by (induction endpoint es n rule: next_client_index.induct) auto

lemma mset_client_order: "mset (client_order spec m clients) = mset clients"
proof -
  have "mset (drop k xs @ take k xs) = mset xs" for k and xs :: "wrapper_ref list"
    by (metis append_take_drop_id mset_append union_commute)
  then show ?thesis
    by (simp add: client_order_def Let_def rotate_clients_eq del: mset_append)
qed

section \<open>The loop\<close>

lemma update_status_client [simp]:
  "cw_Client (updateClientBackoffStatus now k b w) = cw_Client w"
  by (simp add: updateClientBackoffStatus_def Let_def)

definition valid_ref :: "ConfigurationClientManager \<Rightarrow> wrapper_ref \<Rightarrow> bool" where
  "valid_ref m r \<longleftrightarrow>
     (case r of StaticRef i \<Rightarrow> i < length (cm_StaticClientWrappers m)
              | DynamicRef i \<Rightarrow> i < length (slice (cm_DynamicClientWrappers m)))"

lemma wrapper_at_update:
  assumes "valid_ref m r"
  shows "wrapper_at (update_wrapper r f m) r' = (if r' = r then f (wrapper_at m r) else wrapper_at m r')"
  using assms
  by (cases "cm_DynamicClientWrappers m"; cases r; cases r')
    (auto simp: valid_ref_def wrapper_at_def update_wrapper_def nth_list_update)

lemma valid_ref_update [simp]: "valid_ref (update_wrapper r f m) r' = valid_ref m r'"
  by (cases "cm_DynamicClientWrappers m"; cases r; cases r') (auto simp: valid_ref_def update_wrapper_def)

lemma valid_ref_last [simp]:
  "valid_ref (m\<lparr> cm_lastSuccessfulEndpoint := e \<rparr>) r = valid_ref m r"
  "wrapper_at (m\<lparr> cm_lastSuccessfulEndpoint := e \<rparr>) r = wrapper_at m r"
  by (cases r; simp add: valid_ref_def wrapper_at_def)+

lemma ldr_Manager_trace [simp]:
  "ldr_Manager (trace_attempt ce b l) = ldr_Manager l" "ldr_Provider (trace_attempt ce b l) = ldr_Provider l"
  by (simp_all add: trace_attempt_def Let_def)

lemma ldr_Manager_mark [simp]:
  "ldr_Manager (mark_attempt ce i b r l) =
     update_wrapper r (updateClientBackoffStatus (ce_attempt_now ce i) (ce_attempt_rand ce i) b) (ldr_Manager l)"
  "ldr_Manager (mark_success r l) =
     (ldr_Manager l)\<lparr> cm_lastSuccessfulEndpoint := cw_Endpoint (wrapper_at (ldr_Manager l) r) \<rparr>"
  by (simp_all add: mark_attempt_def mark_success_def)

text \<open>An outcome after which the next client is tried.\<close>

fun fails_over :: "'a res \<Rightarrow> bool" where
  "fails_over (Err e) = IsFailoverable e"
| "fails_over _ = False"

fun err_of :: "'a res \<Rightarrow> go_error" where
  "err_of (Err e) = e"
| "err_of _ = LibError []"

lemma wrapper_client_stable:
  "cw_Client (wrapper_at (update_wrapper r (updateClientBackoffStatus now k b) m) r') = cw_Client (wrapper_at m r')"
proof (cases "valid_ref m r")
  case True
  then show ?thesis by (simp add: wrapper_at_update)
next
  case False
  then show ?thesis
    by (cases "cm_DynamicClientWrappers m"; cases r; cases r')
      (auto simp: valid_ref_def wrapper_at_def update_wrapper_def list_update_beyond)
qed

lemma failover_loop_result:
  assumes "out = (\<lambda>r. request (cw_Client (wrapper_at (ldr_Manager l) r)))"
  shows "snd (failover_loop ce request i rs errors l) =
    (case find (\<lambda>r. \<not> fails_over (out r)) rs of
       Some r \<Rightarrow> (Some (out r), errors @ map (err_of \<circ> out) (takeWhile (\<lambda>r. fails_over (out r)) rs))
     | None \<Rightarrow> (None, errors @ map (err_of \<circ> out) rs))"
  using assms
proof (induction ce request i rs errors l rule: failover_loop.induct)
  case (2 ce request i r rs errors l)
  let ?o = "request (cw_Client (wrapper_at (ldr_Manager l) r))"
  have or: "out r = ?o" by (simp add: "2.prems")
  show ?case
  proof (cases "fails_over ?o")
    case False
    then show ?thesis
      by (cases ?o) (simp_all add: or Let_def)
  next
    case True
    then obtain e where e: "?o = Err e" "IsFailoverable e" by (cases ?o) auto
    let ?l = "mark_attempt ce i False r (trace_attempt ce (errors \<noteq> []) l)"
    have out: "out = (\<lambda>r. request (cw_Client (wrapper_at (ldr_Manager ?l) r)))"
      by (simp add: "2.prems" wrapper_client_stable)
    have e': "request (cw_Client (wrapper_at (ldr_Manager (trace_attempt ce (errors \<noteq> []) l)) r)) = Err e"
      using e(1) by simp
    have "failover_loop ce request i (r # rs) errors l = failover_loop ce request (Suc i) rs (errors @ [e]) ?l"
      using e by (simp add: Let_def)
    moreover have "snd (failover_loop ce request (Suc i) rs (errors @ [e]) ?l) =
      (case find (\<lambda>r. \<not> fails_over (out r)) rs of
         Some r \<Rightarrow> (Some (out r), (errors @ [e]) @ map (err_of \<circ> out) (takeWhile (\<lambda>r. fails_over (out r)) rs))
       | None \<Rightarrow> (None, (errors @ [e]) @ map (err_of \<circ> out) rs))"
      by (rule "2.IH" [OF refl e' refl e(2) out])
    moreover have "fails_over (out r)" "err_of (out r) = e" using e by (simp_all add: or)
    ultimately show ?thesis
      by (simp split: option.split)
  qed
qed simp


lemma manager_ok_last [simp]: "manager_ok (m\<lparr> cm_lastSuccessfulEndpoint := e \<rparr>) = manager_ok m"
  by (simp add: manager_ok_def)

text \<open>The loop keeps the invariant of the manager, whatever the outcome.\<close>

lemma failover_loop_manager_ok:
  "manager_ok (ldr_Manager l) \<Longrightarrow> manager_ok (ldr_Manager (fst (failover_loop ce request i rs errors l)))"
proof (induction ce request i rs errors l rule: failover_loop.induct)
  case (2 ce request i r rs errors l)
  have ok: "manager_ok (ldr_Manager (mark_attempt ce i b r (trace_attempt ce f l)))" for b f
    using "2.prems" by (simp add: manager_ok_update_status)
  have ok': "manager_ok (ldr_Manager (mark_attempt ce i b r (mark_success r (trace_attempt ce f l))))" for b f
    using "2.prems" by (simp add: manager_ok_update_status)
  show ?case
  proof (cases "request (cw_Client (wrapper_at (ldr_Manager (trace_attempt ce (errors \<noteq> []) l)) r))")
    case (Err e)
    show ?thesis
      using Err ok "2.IH" [OF refl Err refl] by (simp add: Let_def)
  qed (use "2.prems" ok' in \<open>simp_all add: Let_def\<close>)
qed simp

lemma refresh_clients_manager_ok:
  "manager_ok (ldr_Manager l) \<Longrightarrow> manager_ok (ldr_Manager (fst (refresh_clients ce l)))"
  by (auto simp: refresh_clients_def split: res.splits dest: manager_ok_RefreshClients)

lemma get_clients_manager_ok:
  "manager_ok (ldr_Manager l) \<Longrightarrow> manager_ok (ldr_Manager (fst (get_clients ce l)))"
  by (auto simp: get_clients_def split: res.splits dest: manager_ok_GetClients)

lemma ExecuteFailoverPolicy_manager_ok:
  assumes "manager_ok (ldr_Manager l)"
  shows "manager_ok (ldr_Manager (fst (ExecuteFailoverPolicy ce request l)))"
  unfolding ExecuteFailoverPolicy_def
proof (rule act_bind_preserves [where P = "\<lambda>l. manager_ok (ldr_Manager l)"])
  fix clients and l :: loader assume ok: "manager_ok (ldr_Manager l)"
  show "manager_ok (ldr_Manager (fst (try_clients ce request clients l)))"
  proof (cases "clients = []")
    case True
    have "manager_ok (ldr_Manager (fst (act_bind (refresh_clients ce) (\<lambda>_. act_lift r) l)))" for r :: "SettingsResponse option res"
      using ok by (rule act_bind_preserves) (simp_all add: refresh_clients_manager_ok)
    then show ?thesis using True by (simp add: try_clients_def)
  next
    case False
    let ?rs = "client_order (pv_Spec (ldr_Provider l)) (ldr_Manager l) clients"
    obtain l' r errs where f: "failover_loop ce request 0 ?rs [] l = (l', r, errs)"
      by (metis prod_cases3)
    then have ok': "manager_ok (ldr_Manager l')"
      using failover_loop_manager_ok [OF ok, of ce request 0 ?rs "[]"] by simp
    have "manager_ok (ldr_Manager (fst (act_bind (refresh_clients ce) (\<lambda>_. act_lift r) l')))" for r :: "SettingsResponse option res"
      using ok' by (rule act_bind_preserves) (simp_all add: refresh_clients_manager_ok)
    then show ?thesis
      using False f ok' by (cases r) (simp_all add: try_clients_def Let_def)
  qed
qed (use assms in \<open>simp_all add: get_clients_manager_ok\<close>)

lemma backoff_at_least: "MinBackoffDuration \<le> calculateBackoffDuration k n"
proof (cases "n \<le> 1")
  case True
  then show ?thesis by (simp add: calculateBackoffDuration_def)
next
  case False
  define M :: int where "M = min (30000 * 2 ^ nat (min (n - 1) 63)) 600000"
  have "(2 :: int) ^ 1 \<le> 2 ^ nat (min (n - 1) 63)" using False by (intro power_increasing) auto
  then have M: "60000 \<le> M" "M \<le> 600000" by (auto simp: M_def)
  have "\<bar>Jitter k (4 * (M * 250000)) - 4 * (M * 250000)\<bar> \<le> M * 250000"
    using M by (intro Jitter_bounds) auto
  moreover have "calculateBackoffDuration k n = Jitter k (4 * (M * 250000))"
    using False unfolding M_def by (intro backoff_base) simp
  ultimately show ?thesis using M by (simp add: MinBackoffDuration_def duration_defs)
qed

lemma failed_wrapper_rests:
  "now + MinBackoffDuration \<le> cw_BackOffEndTime (updateClientBackoffStatus now k False w)"
  using backoff_at_least by (simp add: updateClientBackoffStatus_def Let_def)

text \<open>A wrapper the rest of the loop does not touch stays as it is.\<close>

lemma failover_loop_untouched:
  "r \<notin> set rs \<Longrightarrow> wrapper_at (ldr_Manager (fst (failover_loop ce request i rs errors l))) r = wrapper_at (ldr_Manager l) r"
proof (induction ce request i rs errors l rule: failover_loop.induct)
  case (2 ce request i x rs errors l)
  have ne: "r \<noteq> x" and nr: "r \<notin> set rs" using "2.prems" by auto
  have keep: "wrapper_at (update_wrapper x f m) r = wrapper_at m r" for f m
    using ne by (cases "cm_DynamicClientWrappers m"; cases x; cases r) (auto simp: wrapper_at_def update_wrapper_def)
  show ?case
  proof (cases "request (cw_Client (wrapper_at (ldr_Manager (trace_attempt ce (errors \<noteq> []) l)) x))")
    case (Err e)
    show ?thesis
      using Err keep "2.IH" [OF refl Err refl _ nr] by (simp add: Let_def)
  qed (use keep in \<open>simp_all add: Let_def\<close>)
qed simp

lemma failover_loop_state:
  assumes "\<forall>x \<in> set pre. fails_over (out x)" and "out r = Ok resp"
    and "out = (\<lambda>r. request (cw_Client (wrapper_at (ldr_Manager l) r)))"
    and "distinct (pre @ r # post)" and "\<forall>x \<in> set (pre @ [r]). valid_ref (ldr_Manager l) x"
  shows "\<exists>l'. failover_loop ce request i (pre @ r # post) errors l
        = (l', Some (Ok resp), errors @ map (err_of \<circ> out) pre)
    \<and> cm_lastSuccessfulEndpoint (ldr_Manager l') = cw_Endpoint (wrapper_at (ldr_Manager l) r)
    \<and> cw_BackOffEndTime (wrapper_at (ldr_Manager l') r) = 0
    \<and> (\<forall>j < length pre. ce_attempt_now ce (i + j) + MinBackoffDuration
          \<le> cw_BackOffEndTime (wrapper_at (ldr_Manager l') (pre ! j)))"
  using assms
proof (induction pre arbitrary: i errors l)
  case Nil
  then show ?case
    by (simp add: Let_def wrapper_at_update updateClientBackoffStatus_def)
      (cases r; simp add: update_wrapper_def)
next
  case (Cons x pre)
  from Cons.prems(1,3) obtain e where e: "request (cw_Client (wrapper_at (ldr_Manager l) x)) = Err e" "IsFailoverable e"
    by (cases "out x") auto
  let ?l = "mark_attempt ce i False x (trace_attempt ce (errors \<noteq> []) l)"
  have step: "failover_loop ce request i ((x # pre) @ r # post) errors l
      = failover_loop ce request (Suc i) (pre @ r # post) (errors @ [e]) ?l"
    using e by (simp add: Let_def)
  have out: "out = (\<lambda>r. request (cw_Client (wrapper_at (ldr_Manager ?l) r)))"
    by (simp add: Cons.prems(3) wrapper_client_stable)
  have "\<exists>l'. failover_loop ce request (Suc i) (pre @ r # post) (errors @ [e]) ?l
        = (l', Some (Ok resp), (errors @ [e]) @ map (err_of \<circ> out) pre)
    \<and> cm_lastSuccessfulEndpoint (ldr_Manager l') = cw_Endpoint (wrapper_at (ldr_Manager ?l) r)
    \<and> cw_BackOffEndTime (wrapper_at (ldr_Manager l') r) = 0
    \<and> (\<forall>j < length pre. ce_attempt_now ce (Suc i + j) + MinBackoffDuration
          \<le> cw_BackOffEndTime (wrapper_at (ldr_Manager l') (pre ! j)))"
    using Cons.prems by (intro Cons.IH [OF _ _ out]) auto
  then obtain l' where l': "failover_loop ce request (Suc i) (pre @ r # post) (errors @ [e]) ?l
        = (l', Some (Ok resp), (errors @ [e]) @ map (err_of \<circ> out) pre)"
    "cm_lastSuccessfulEndpoint (ldr_Manager l') = cw_Endpoint (wrapper_at (ldr_Manager ?l) r)"
    "cw_BackOffEndTime (wrapper_at (ldr_Manager l') r) = 0"
    "\<forall>j < length pre. ce_attempt_now ce (Suc i + j) + MinBackoffDuration
          \<le> cw_BackOffEndTime (wrapper_at (ldr_Manager l') (pre ! j))" by blast
  have v: "valid_ref (ldr_Manager l) x" "x \<noteq> r" using Cons.prems(4,5) by auto
  have "wrapper_at (ldr_Manager l') x = wrapper_at (ldr_Manager ?l) x"
    using failover_loop_untouched [of x "pre @ r # post" ce request "Suc i" "errors @ [e]" ?l] Cons.prems(4) l'(1)
    by simp
  then have rest: "ce_attempt_now ce i + MinBackoffDuration \<le> cw_BackOffEndTime (wrapper_at (ldr_Manager l') x)"
    using v(1) failed_wrapper_rests by (simp add: wrapper_at_update)
  have "ce_attempt_now ce (i + j) + MinBackoffDuration
      \<le> cw_BackOffEndTime (wrapper_at (ldr_Manager l') ((x # pre) ! j))" if "j < length (x # pre)" for j
    using that rest l'(4) by (cases j) auto
  moreover have "err_of (out x) = e" using e(1) Cons.prems(3) by simp
  moreover have "cw_Endpoint (wrapper_at (ldr_Manager ?l) r) = cw_Endpoint (wrapper_at (ldr_Manager l) r)"
    using v by (simp add: wrapper_at_update)
  ultimately show ?case using step l'(1-3) by simp
qed

lemma ready_refs:
  "r \<in> set (ready t mk ws) \<longleftrightarrow> (\<exists>i < length ws. r = mk i \<and> cw_BackOffEndTime (ws ! i) < t)"
  by (auto simp: ready_def)

lemma distinct_ready: "inj mk \<Longrightarrow> distinct (ready t mk ws)"
  by (auto simp: ready_def distinct_map inj_on_def)

text \<open>The clients listed are different, exist and are not resting.\<close>

lemma DiscoverFallbackClients_static [simp]:
  "cm_StaticClientWrappers (DiscoverFallbackClients env ds host m) = cm_StaticClientWrappers m"
  using DiscoverFallbackClients_cases [of env ds host m] by auto

lemma GetClients_refs:
  assumes "GetClients env ds t m = Ok (m', clients)"
  shows "distinct clients"
    and "\<forall>r \<in> set clients. valid_ref m' r \<and> cw_BackOffEndTime (wrapper_at m' r) < t"
proof -
  have st: "cm_StaticClientWrappers m' = cm_StaticClientWrappers m"
    using assms by (auto simp: GetClients_def Let_def discover_def split: if_splits)
  have c: "clients = ready t StaticRef (cm_StaticClientWrappers m) \<or>
      clients = ready t StaticRef (cm_StaticClientWrappers m) @ ready t DynamicRef (slice (cm_DynamicClientWrappers m'))"
    using assms by (auto simp: GetClients_def Let_def split: if_splits)
  have "inj StaticRef" "inj DynamicRef" by (auto simp: inj_def)
  then show "distinct clients"
    using c by (auto simp: distinct_ready ready_refs)
  show "\<forall>r \<in> set clients. valid_ref m' r \<and> cw_BackOffEndTime (wrapper_at m' r) < t"
    using c by (auto simp: ready_refs valid_ref_def wrapper_at_def st)
qed

section \<open>Properties\<close>

text \<open>
  C17. The failover policy returns what the first client that does not fail over answers.  With
  clients available, the request goes to them in the policy's order; the caller gets the
  outcome of the first client that succeeds or fails with an error no other client could
  cure, and when every client fails over, the error that lists all of theirs (or the panic
  of the refresh that follows).
\<close>

theorem failover_first_decisive:
  assumes "GetClients (ce_env ce) (ce_discovery ce) (ce_now ce) (ldr_Manager l) = Ok (m, clients)"
    and "clients \<noteq> []"
    and "order = client_order (pv_Spec (ldr_Provider l)) m clients"
    and "out = (\<lambda>r. request (cw_Client (wrapper_at m r)))"
  shows "mset order = mset clients
    \<and> (case find (\<lambda>r. \<not> fails_over (out r)) order of
         Some r \<Rightarrow> snd (ExecuteFailoverPolicy ce request l) = out r
       | None \<Rightarrow> snd (ExecuteFailoverPolicy ce request l) =
             Err (Errorf ''all app configuration clients failed to get settings: %v'' [] (map (err_of \<circ> out) order))
           \<or> (\<exists>p. snd (ExecuteFailoverPolicy ce request l) = Panic p))"
proof -
  let ?l = "l\<lparr> ldr_Manager := m \<rparr>"
  have e: "ExecuteFailoverPolicy ce request l = try_clients ce request clients ?l"
    using assms(1) by (simp add: ExecuteFailoverPolicy_def act_bind_def get_clients_def)
  obtain l' r errs where f: "failover_loop ce request 0 order [] ?l = (l', r, errs)"
    by (metis prod_cases3)
  have o: "out = (\<lambda>r. request (cw_Client (wrapper_at (ldr_Manager ?l) r)))" by (simp add: assms(4))
  note res = failover_loop_result [OF o, of ce 0 order "[]"]
  have t: "try_clients ce request clients ?l =
      (case r of Some x \<Rightarrow> (l', x)
       | None \<Rightarrow> act_bind (refresh_clients ce) (\<lambda>_. act_lift
           (Err (Errorf ''all app configuration clients failed to get settings: %v'' [] errs))) l')"
    using assms(2,3) f by (simp add: try_clients_def Let_def split: option.split)
  have ref: "snd (refresh_clients ce x) = Ok () \<or> (\<exists>p. snd (refresh_clients ce x) = Panic p)" for x
    by (auto simp: refresh_clients_def RefreshClients_def discover_def host_of_def split: res.splits option.splits if_splits)
  have "case find (\<lambda>r. \<not> fails_over (out r)) order of
         Some r \<Rightarrow> snd (ExecuteFailoverPolicy ce request l) = out r
       | None \<Rightarrow> snd (ExecuteFailoverPolicy ce request l) =
             Err (Errorf ''all app configuration clients failed to get settings: %v'' [] (map (err_of \<circ> out) order))
           \<or> (\<exists>p. snd (ExecuteFailoverPolicy ce request l) = Panic p)"
  proof (cases "find (\<lambda>r. \<not> fails_over (out r)) order")
    case (Some x)
    then have "r = Some (out x)" using res f by simp
    then show ?thesis using Some e t by simp
  next
    case None
    then have "r = None" "errs = map (err_of \<circ> out) order" using res f by auto
    then show ?thesis
      using None e t ref [of l'] by (cases "refresh_clients ce l'") (auto simp: act_bind_def split: res.splits)
  qed
  then show ?thesis by (simp add: assms(3) mset_client_order)
qed

text \<open>
  C32. Load balancing is a round robin: with it enabled, the request goes first to the client
  after the one that answered last, and wraps around.
\<close>

theorem load_balancing_round_robin:
  assumes "spec_LoadBalancingEnabled spec" and "distinct (map (\<lambda>r. cw_Endpoint (wrapper_at m r)) clients)"
    and "i < length clients" and "cw_Endpoint (wrapper_at m (clients ! i)) = cm_lastSuccessfulEndpoint m"
    and "cm_lastSuccessfulEndpoint m \<noteq> []"
  shows "client_order spec m clients = drop (Suc i) clients @ take (Suc i) clients
    \<and> hd (client_order spec m clients) = clients ! (Suc i mod length clients)"
proof -
  let ?es = "map (\<lambda>r. cw_Endpoint (wrapper_at m r)) clients"
  have "cm_lastSuccessfulEndpoint m \<in> set ?es" using assms(3,4) by (metis length_map nth_map nth_mem)
  then obtain j where j: "j < length ?es" "?es ! j = cm_lastSuccessfulEndpoint m"
      "next_client_index (cm_lastSuccessfulEndpoint m) ?es 0 = 0 + Suc j"
    using next_client_index_found by blast
  have "?es ! i = ?es ! j" using j(2) assms(3,4) by simp
  then have "j = i" using assms(2,3) j(1) by (metis length_map nth_eq_iff_index_eq)
  then have n: "next_client_index (cm_lastSuccessfulEndpoint m) ?es 0 = Suc i" using j(3) by simp
  have order: "client_order spec m clients = drop (Suc i) clients @ take (Suc i) clients"
  proof (cases "Suc i < length clients")
    case True
    then show ?thesis
      using assms(1,5) n by (simp add: client_order_def Let_def rotate_clients_eq)
  next
    case False
    then have "length clients = Suc i" using assms(3) by simp
    then show ?thesis using n by (simp add: client_order_def Let_def)
  qed
  moreover have "hd (drop (Suc i) clients @ take (Suc i) clients) = clients ! (Suc i mod length clients)"
  proof (cases "Suc i < length clients")
    case True
    then show ?thesis by (simp add: hd_append hd_drop_conv_nth)
  next
    case False
    then have len: "length clients = Suc i" using assms(3) by simp
    then show ?thesis by (cases clients) auto
  qed
  ultimately show ?thesis by simp
qed


text \<open>
  C28. The policy remembers how the clients did.  When some clients fail over and the next one
  answers, that one becomes the last successful endpoint and may be used at once, and each
  client that failed rests at least 30 seconds from its attempt.
\<close>

theorem failover_records_outcomes:
  assumes "GetClients (ce_env ce) (ce_discovery ce) (ce_now ce) (ldr_Manager l) = Ok (m, clients)"
    and "client_order (pv_Spec (ldr_Provider l)) m clients = pre @ r # post"
    and "\<forall>x \<in> set pre. fails_over (request (cw_Client (wrapper_at m x)))"
    and "request (cw_Client (wrapper_at m r)) = Ok resp"
    and "m' = ldr_Manager (fst (ExecuteFailoverPolicy ce request l))"
  shows "cm_lastSuccessfulEndpoint m' = cw_Endpoint (wrapper_at m r)
    \<and> cw_BackOffEndTime (wrapper_at m' r) = 0
    \<and> (\<forall>j < length pre. ce_attempt_now ce j + 30 * second \<le> cw_BackOffEndTime (wrapper_at m' (pre ! j)))"
proof -
  let ?l = "l\<lparr> ldr_Manager := m \<rparr>"
  have ms: "mset (pre @ r # post) = mset clients"
    using mset_client_order [of "pv_Spec (ldr_Provider l)" m clients] assms(2) by simp
  then have d: "distinct (pre @ r # post)"
    using GetClients_refs(1) [OF assms(1)] by (metis mset_eq_imp_distinct_iff)
  have v: "\<forall>x \<in> set (pre @ [r]). valid_ref m x"
    using GetClients_refs(2) [OF assms(1)] mset_eq_setD [OF ms] by auto
  have ne: "clients \<noteq> []" using ms by auto
  obtain l' where l': "failover_loop ce request 0 (pre @ r # post) [] ?l
        = (l', Some (Ok resp), [] @ map (err_of \<circ> (\<lambda>r. request (cw_Client (wrapper_at m r)))) pre)"
    "cm_lastSuccessfulEndpoint (ldr_Manager l') = cw_Endpoint (wrapper_at m r)"
    "cw_BackOffEndTime (wrapper_at (ldr_Manager l') r) = 0"
    "\<forall>j < length pre. ce_attempt_now ce (0 + j) + MinBackoffDuration
          \<le> cw_BackOffEndTime (wrapper_at (ldr_Manager l') (pre ! j))"
    using failover_loop_state [of pre "\<lambda>r. request (cw_Client (wrapper_at m r))" r resp request ?l post ce 0 "[]"]
      assms(3,4) d v by auto
  have "fst (ExecuteFailoverPolicy ce request l) = l'"
    using assms(1,2) ne l'(1)
    by (simp add: ExecuteFailoverPolicy_def act_bind_def get_clients_def try_clients_def Let_def)
  then show ?thesis
    using l'(2-4) by (simp add: assms(5) MinBackoffDuration_def)
qed

section \<open>Instances\<close>

definition answering_client :: az_client where
  "answering_client = client_of (one_page_store ''a'' ''b'')"

definition silent_client :: az_client where
  "silent_client = client_of (\<lambda>q. [])"

text \<open>A request that fails with status 503 on a client that lists no page.\<close>

definition sample_request :: "az_client \<Rightarrow> SettingsResponse option res" where
  "sample_request c =
     (case ListSettings c (selector_query wildcard_selector) [] of
        [] \<Rightarrow> Err (ResponseError 503 None)
      | _ \<Rightarrow> Ok None)"

definition sample_manager :: ConfigurationClientManager where
  "sample_manager =
     \<lparr> cm_ReplicaDiscoveryEnabled = True, cm_LoadBalancingEnabled = True,
       cm_StaticClientWrappers = [fresh_wrapper ''https://store.azconfig.io'' silent_client],
       cm_DynamicClientWrappers = Some [fresh_wrapper ''https://replica.azconfig.io'' answering_client],
       cm_validDomain = ''.azconfig.io'', cm_endpoint = ''https://store.azconfig.io'', cm_credential = None,
       cm_secret = [], cm_id = [], cm_lastFallbackClientAttempt = 0, cm_lastFallbackClientRefresh = 0,
       cm_lastSuccessfulEndpoint = [] \<rparr>"

definition sample_call :: call_env where
  "sample_call =
     \<lparr> ce_env = sample_env sample_srv, ce_now = 1,
       ce_discovery = \<lparr> ds_timed_out = True, ds_Intn = (\<lambda>i. 0), ds_now = 1 \<rparr>,
       ce_attempt_now = (\<lambda>i. 1), ce_attempt_rand = (\<lambda>i. 0), ce_refresh_now = 1,
       ce_refresh_discovery = \<lparr> ds_timed_out = True, ds_Intn = (\<lambda>i. 0), ds_now = 1 \<rparr>, ce_startUp = None \<rparr>"

definition sample_loader :: loader where
  "sample_loader =
     \<lparr> ldr_Provider = sample_provider, ldr_Manager = sample_manager, ldr_SettingsClient = None,
       ldr_Tracing = \<lparr> tf_ReplicaCount = 0, tf_IsFailoverRequest = False, tf_UseAIConfiguration = False,
         tf_UseAIChatCompletionConfiguration = False, tf_UseSnapshotReference = False \<rparr>,
       ldr_Headers = [], ldr_calls = 0 \<rparr>"

lemma sample_clients:
  "GetClients (ce_env sample_call) (ce_discovery sample_call) (ce_now sample_call) (ldr_Manager sample_loader)
     = Ok (sample_manager, [StaticRef 0, DynamicRef 0])"
  by (simp add: GetClients_def sample_call_def sample_loader_def sample_manager_def Let_def ready_def
      fresh_wrapper_def MinimalClientRefreshInterval_def duration_defs)

lemma sample_outcomes:
  "sample_request (cw_Client (wrapper_at sample_manager (StaticRef 0))) = Err (ResponseError 503 None)"
  "sample_request (cw_Client (wrapper_at sample_manager (DynamicRef 0))) = Ok None"
  by (simp_all add: sample_request_def sample_manager_def wrapper_at_def fresh_wrapper_def silent_client_def
      answering_client_def client_of_def one_page_store_def)

lemma sample_order:
  "client_order (pv_Spec (ldr_Provider sample_loader)) sample_manager [StaticRef 0, DynamicRef 0]
     = [StaticRef 0] @ DynamicRef 0 # []"
  by (simp add: client_order_def sample_manager_def)

lemma sample_fails: "\<forall>x \<in> set [StaticRef 0]. fails_over (sample_request (cw_Client (wrapper_at sample_manager x)))"
  by (simp add: sample_outcomes IsFailoverable_iff)

theorem failover_first_decisive_witness:
  "snd (ExecuteFailoverPolicy sample_call sample_request sample_loader) = Ok None"
  using failover_first_decisive [OF sample_clients _ refl refl, of sample_request]
  by (simp add: sample_order [simplified] sample_outcomes IsFailoverable_iff)

theorem failover_records_outcomes_witness:
  "cm_lastSuccessfulEndpoint (ldr_Manager (fst (ExecuteFailoverPolicy sample_call sample_request sample_loader)))
     = ''https://replica.azconfig.io''"
  using failover_records_outcomes [where request = sample_request, OF sample_clients sample_order sample_fails sample_outcomes(2) refl]
  by (simp add: sample_manager_def wrapper_at_def fresh_wrapper_def)

theorem load_balancing_round_robin_witness:
  "client_order (sample_spec\<lparr> spec_LoadBalancingEnabled := True \<rparr>)
     (sample_manager\<lparr> cm_lastSuccessfulEndpoint := ''https://store.azconfig.io'' \<rparr>) [StaticRef 0, DynamicRef 0]
     = [DynamicRef 0, StaticRef 0]"
  using load_balancing_round_robin [of "sample_spec\<lparr> spec_LoadBalancingEnabled := True \<rparr>"
      "sample_manager\<lparr> cm_lastSuccessfulEndpoint := ''https://store.azconfig.io'' \<rparr>" "[StaticRef 0, DynamicRef 0]" 0]
  by (simp add: sample_manager_def wrapper_at_def fresh_wrapper_def)

end
