(* ===== verification/Setting_Loader.thy ===== *)
theory Setting_Loader
  imports Failover
begin

text \<open>
  The loader of \<^verbatim>\<open>internal/loader/configuration_setting_loader.go\<close>: key-values, Key Vault
  references, snapshot references and feature flags become the raw settings and the target
  settings; sentinels and page ETags are checked.  \<open>calls n\<close> is the environment of the \<open>n\<close>-th
  use of the clients.
\<close>

section \<open>Classifying settings\<close>

definition SecretReferenceContentType :: string where
  "SecretReferenceContentType = ''application/vnd.microsoft.appconfig.keyvaultref+json;charset=utf-8''"

definition SnapshotReferenceContentType :: string where
  "SnapshotReferenceContentType =
     ''application/json; profile='' @ [DQ] @ ''https://azconfig.io/mime-profiles/snapshot-ref'' @ [DQ] @ ''; charset=utf-8''"

definition FeatureFlagContentType :: string where
  "FeatureFlagContentType = ''application/vnd.microsoft.appconfig.ff+json;charset=utf-8''"

definition PreservedSecretTypeTag :: string where
  "PreservedSecretTypeTag = ''.kubernetes.secret.type''"

text \<open>What a call of the loader has from outside.\<close>

record 'k loader_ctx =
  lc_codec :: codec
  lc_crypto :: "'k crypto"
  lc_vault :: vault_env
  lc_calls :: "nat \<Rightarrow> call_env"

text \<open>
  The loader and the context of a run of \<^verbatim>\<open>processSettings\<close>; the resolver starts as the
  caller's and is created on the first Key Vault reference when nil.
\<close>

record process_state =
  ps_loader :: loader
  ps_raw :: RawSettings
  ps_resolver :: "resolver option"
  ps_snapshotClient :: "az_client option"
  ps_useAI :: bool
  ps_useAIChat :: bool

definition parseSnapshotReference :: "codec \<Rightarrow> string \<Rightarrow> string res" where
  "parseSnapshotReference cd ref =
     (case res_bind (json_Unmarshal cd ref) (struct_string ''snapshot_name'') of
        Err e \<Rightarrow> Err (Errorf ''failed to parse snapshot reference: %s'' [] [e])
      | Panic p \<Rightarrow> Panic p
      | Ok name \<Rightarrow>
          if name = [] then Err (Errorf ''snapshot_name is empty in snapshot reference'' [] []) else Ok name)"

definition store_setting :: "string \<Rightarrow> string option \<Rightarrow> bool \<Rightarrow> RawSettings \<Rightarrow> RawSettings" where
  "store_setting key v isJson raw =
     raw\<lparr> rw_KeyValueSettings := gostore key v (rw_KeyValueSettings raw),
          rw_IsJsonContentTypeMap := gostore key isJson (rw_IsJsonContentTypeMap raw) \<rparr>"

text \<open>Storing a reference under its Kubernetes secret, which is added when it is new.\<close>

definition store_reference ::
    "string \<Rightarrow> SecretType \<Rightarrow> string \<Rightarrow> KeyVaultSecretMetadata \<Rightarrow> RawSettings \<Rightarrow> RawSettings" where
  "store_reference secretName secretType key md raw =
     (let secrets = rw_K8sSecrets raw;
          target = (case golookup secrets secretName of
                      Some t \<Rightarrow> t
                    | None \<Rightarrow> \<lparr> tk_Type = secretType, tk_SecretsKeyVaultMetadata = [], tk_SecretResourceVersion = [] \<rparr>)
      in raw\<lparr> rw_K8sSecrets :=
           gostore secretName
             (target\<lparr> tk_SecretsKeyVaultMetadata := gostore key md (tk_SecretsKeyVaultMetadata target) \<rparr>) secrets \<rparr>)"

text \<open>The resolver made from the provider's authentication settings.\<close>

definition new_resolver :: "'k loader_ctx \<Rightarrow> loader_env \<Rightarrow> Provider \<Rightarrow> resolver res" where
  "new_resolver lc env provider =
     res_map (\<lambda>kvc. \<lambda>md. snd (Resolve (lc_vault lc) kvc md))
       (createSecretReferenceResolver env (lc_vault lc) provider)"

definition process_reference :: "'k loader_ctx \<Rightarrow> string \<Rightarrow> Setting \<Rightarrow> (process_state, unit) act" where
  "process_reference lc trimmedKey setting st =
     (let provider = ldr_Provider (ps_loader st); key = (case set_Key setting of None \<Rightarrow> [] | Some k \<Rightarrow> k)
      in case set_Value setting of
           None \<Rightarrow> (st, Err (Errorf ''the value of Key Vault reference '%s' is null'' [key] []))
         | Some currentUrl \<Rightarrow>
             (case spec_Secret (pv_Spec provider) of
                None \<Rightarrow> (st, Err (Errorf ''a Key Vault reference is found in App Configuration, but 'spec.secret' was not configured in the Azure App Configuration provider '%s' in namespace '%s' ''
                               [pv_Name provider, pv_Namespace provider] []))
              | Some sr \<Rightarrow>
                  act_bind
                    (act_lift
                       (case golookup (set_Tags setting) PreservedSecretTypeTag of
                          None \<Rightarrow> Ok SecretTypeOpaque
                        | Some None \<Rightarrow> Err (Errorf ''the secret type tag '%s' for setting '%s' is invalid'' [PreservedSecretTypeTag, key] [])
                        | Some (Some tag) \<Rightarrow> parseSecretType tag))
                    (\<lambda>secretType.
                       act_bind
                         (\<lambda>st. case ps_resolver st of
                            Some r \<Rightarrow> (st, Ok ())
                          | None \<Rightarrow>
                              (case new_resolver lc (ce_env (lc_calls lc (ldr_calls (ps_loader st)))) provider of
                                 Ok r \<Rightarrow> (st\<lparr> ps_resolver := Some r \<rparr>, Ok ())
                               | Err e \<Rightarrow> (st, Err e)
                               | Panic p \<Rightarrow> (st, Panic p)))
                         (\<lambda>_. act_bind (act_lift (parse (lc_codec lc) currentUrl)) (\<lambda>md.
                            let secretName = (if secretType = SecretTypeOpaque then sg_SecretName (sr_Target sr) else trimmedKey)
                            in act_modify (\<lambda>st. st\<lparr> ps_raw := store_reference secretName secretType trimmedKey md (ps_raw st) \<rparr>))))
                    st))"

text \<open>The first client that is listed, for the snapshots of this run.\<close>

definition snapshot_client :: "'k loader_ctx \<Rightarrow> (process_state, az_client) act" where
  "snapshot_client lc st =
     (case ps_snapshotClient st of
        Some c \<Rightarrow> (st, Ok c)
      | None \<Rightarrow>
          (let l = ps_loader st;
               (l', r) = get_clients (lc_calls lc (ldr_calls l)) (l\<lparr> ldr_calls := Suc (ldr_calls l) \<rparr>);
               st' = st\<lparr> ps_loader := l' \<rparr>
           in case r of
                Err e \<Rightarrow> (st', Err e)
              | Panic p \<Rightarrow> (st', Panic p)
              | Ok [] \<Rightarrow> (st', Err (Errorf ''no client is available to resolve snapshot references'' [] []))
              | Ok (c # cs) \<Rightarrow>
                  (let client = cw_Client (wrapper_at (ldr_Manager l') c)
                   in (st'\<lparr> ps_snapshotClient := Some client \<rparr>, Ok client))))"

text \<open>
  A snapshot reference: the settings of the snapshot are processed in its place, by
  \<open>nested\<close>, with a context of its own for the AI markers.
\<close>

definition process_snapshot ::
    "'k loader_ctx \<Rightarrow> (Setting list \<Rightarrow> (process_state, unit) act) \<Rightarrow> string \<Rightarrow> string \<Rightarrow> (process_state, unit) act" where
  "process_snapshot lc nested trimmedKey ref =
     act_bind (act_modify (\<lambda>st. st\<lparr> ps_loader := (ps_loader st)\<lparr> ldr_Tracing :=
         (ldr_Tracing (ps_loader st))\<lparr> tf_UseSnapshotReference := True \<rparr> \<rparr> \<rparr>)) (\<lambda>_.
     act_bind (act_lift (wrap_error ''invalid format for snapshot reference setting '%s': %s'' [trimmedKey]
         (parseSnapshotReference (lc_codec lc) ref))) (\<lambda>snapshotName.
     act_bind (snapshot_client lc) (\<lambda>client.
     act_bind (act_lift (wrap_error ''failed to load snapshot settings: key=%s, error=%s'' [trimmedKey]
         (loadSnapshotSettings client snapshotName))) (\<lambda>snapshotSettings.
     act_bind (act_get (\<lambda>st. (ps_useAI st, ps_useAIChat st))) (\<lambda>(ai, chat).
     act_bind (act_modify (\<lambda>st. st\<lparr> ps_useAI := False, ps_useAIChat := False \<rparr>)) (\<lambda>_.
     act_bind (nested snapshotSettings) (\<lambda>_.
     act_modify (\<lambda>st. st\<lparr> ps_useAI := ai \<or> ps_useAI st, ps_useAIChat := chat \<or> ps_useAIChat st \<rparr>))))))))"

definition process_plain :: "string \<Rightarrow> string option \<Rightarrow> string \<Rightarrow> (process_state, unit) act" where
  "process_plain trimmedKey v contentType =
     act_modify (\<lambda>st.
       let isJson = isJsonContentType (Some contentType);
           st' = st\<lparr> ps_raw := store_setting trimmedKey v isJson (ps_raw st) \<rparr>
       in if \<not> isJson then st'
          else st'\<lparr> ps_useAI := ps_useAI st' \<or> isAIConfigurationContentType contentType,
                    ps_useAIChat := ps_useAIChat st' \<or> isAIChatCompletionContentType contentType \<rparr>)"

definition process_setting ::
    "'k loader_ctx \<Rightarrow> bool \<Rightarrow> (Setting list \<Rightarrow> (process_state, unit) act) \<Rightarrow> Setting \<Rightarrow> (process_state, unit) act" where
  "process_setting lc allowSnapshotRef nested setting st =
     (case set_Key setting of
        None \<Rightarrow> (st, Ok ())
      | Some key \<Rightarrow>
          (let trimmedKey = trimPrefix key (kvo_TrimKeyPrefixes (spec_Configuration (pv_Spec (ldr_Provider (ps_loader st)))))
           in if length trimmedKey = 0 then (st, Ok ())
              else
                (case set_ContentType setting of
                   None \<Rightarrow> (st\<lparr> ps_raw := store_setting trimmedKey (set_Value setting) False (ps_raw st) \<rparr>, Ok ())
                 | Some contentType \<Rightarrow>
                     (let ct = TrimSpace (ToLower contentType)
                      in if ct = FeatureFlagContentType then (st, Ok ())
                         else if ct = SecretReferenceContentType then process_reference lc trimmedKey setting st
                         else if ct = SnapshotReferenceContentType then
                           (case set_Value setting of
                              Some ref \<Rightarrow>
                                if allowSnapshotRef then process_snapshot lc nested trimmedKey ref st else (st, Ok ())
                            | None \<Rightarrow> (st, Ok ()))
                         else process_plain trimmedKey (set_Value setting) contentType st))))"

text \<open>Inside a snapshot no snapshot reference is followed, so \<open>nested\<close> is not used there.\<close>

definition processNestedSettings :: "'k loader_ctx \<Rightarrow> Setting list \<Rightarrow> (process_state, unit) act" where
  "processNestedSettings lc = act_iter (process_setting lc False (\<lambda>_. act_return ()))"

definition processSettings :: "'k loader_ctx \<Rightarrow> Setting list \<Rightarrow> (process_state, unit) act" where
  "processSettings lc = act_iter (process_setting lc True (processNestedSettings lc))"

section \<open>Requests\<close>

definition execute :: "'k loader_ctx \<Rightarrow> SettingsClient \<Rightarrow> (loader, SettingsResponse option) act" where
  "execute lc settingsClient l =
     ExecuteFailoverPolicy (lc_calls lc (ldr_calls l))
       (case ldr_SettingsClient l of
          None \<Rightarrow> GetSettings (lc_codec lc) settingsClient
        | Some injected \<Rightarrow> injected)
       (l\<lparr> ldr_calls := Suc (ldr_calls l) \<rparr>)"

definition empty_raw :: "page_etags option \<Rightarrow> RawSettings" where
  "empty_raw etags =
     \<lparr> rw_KeyValueSettings = [], rw_IsJsonContentTypeMap = [], rw_FeatureFlagSettings = None,
       rw_SecretSettings = [], rw_K8sSecrets = [], rw_KeyValueETags = etags, rw_FeatureFlagETags = None \<rparr>"

definition initial_raw :: "ProviderSpec \<Rightarrow> page_etags option \<Rightarrow> RawSettings" where
  "initial_raw spec etags =
     (case spec_Secret spec of
        None \<Rightarrow> empty_raw etags
      | Some sr \<Rightarrow>
          (empty_raw etags)\<lparr> rw_K8sSecrets :=
             [(sg_SecretName (sr_Target sr),
               \<lparr> tk_Type = SecretTypeOpaque, tk_SecretsKeyVaultMetadata = [], tk_SecretResourceVersion = [] \<rparr>)] \<rparr>)"

text \<open>Running \<^verbatim>\<open>processSettings\<close> on the loader's own state.\<close>

definition run_process ::
    "'k loader_ctx \<Rightarrow> Setting list \<Rightarrow> RawSettings \<Rightarrow> resolver option \<Rightarrow> (loader, process_state) act" where
  "run_process lc settings raw resolver l =
     (case processSettings lc settings
          \<lparr> ps_loader = l, ps_raw = raw, ps_resolver = resolver, ps_snapshotClient = None,
            ps_useAI = False, ps_useAIChat = False \<rparr> of
        (st, Ok _) \<Rightarrow> (ps_loader st, Ok st)
      | (st, Err e) \<Rightarrow> (ps_loader st, Err e)
      | (st, Panic p) \<Rightarrow> (ps_loader st, Panic p))"

definition CreateKeyValueSettings :: "'k loader_ctx \<Rightarrow> resolver option \<Rightarrow> (loader, RawSettings) act" where
  "CreateKeyValueSettings lc resolver =
     act_bind (act_get (\<lambda>l. pv_Spec (ldr_Provider l))) (\<lambda>spec.
     act_bind (execute lc (SelectorSettingsClient (GetKeyValueFilters spec))) (\<lambda>response.
     act_bind (act_lift (deref response)) (\<lambda>resp.
     act_bind (run_process lc (slice (rsp_Settings resp)) (initial_raw spec (rsp_Etags resp)) resolver) (\<lambda>st.
     act_bind (act_modify (\<lambda>l. l\<lparr> ldr_Tracing := (ldr_Tracing l)\<lparr> tf_UseAIConfiguration := ps_useAI st,
         tf_UseAIChatCompletionConfiguration := ps_useAIChat st \<rparr> \<rparr>)) (\<lambda>_.
     act_bind (\<lambda>l. (l, ResolveSecretReferences (lc_codec lc) (lc_crypto lc) spec
         (new_resolver lc (ce_env (lc_calls lc (ldr_calls l))) (ldr_Provider l))
         (rw_K8sSecrets (ps_raw st)) (ps_resolver st))) (\<lambda>resolved.
     act_bind (act_lift (MergeSecret (rw_SecretSettings (ps_raw st)) (tg_SecretSettings resolved))) (\<lambda>secrets.
     act_return ((ps_raw st)\<lparr> rw_K8sSecrets := tg_K8sSecrets resolved, rw_SecretSettings := secrets \<rparr>))))))))"

section \<open>Sentinels and page ETags\<close>

fun sentinel_loop ::
    "'k loader_ctx \<Rightarrow> string \<Rightarrow> sentinel_etags \<Rightarrow> bool \<Rightarrow> sentinel_etags \<Rightarrow> (loader, bool \<times> sentinel_etags) act" where
  "sentinel_loop lc interval [] changed refreshed = act_return (changed, refreshed)"
| "sentinel_loop lc interval ((sentinel, currentETag) # eTags) changed refreshed =
     act_bind (execute lc (SentinelSettingsClient sentinel currentETag interval)) (\<lambda>response.
       case response of
         None \<Rightarrow> sentinel_loop lc interval eTags changed (gostore sentinel currentETag refreshed)
       | Some resp \<Rightarrow>
           (case rsp_Settings resp of
              None \<Rightarrow> sentinel_loop lc interval eTags changed (gostore sentinel currentETag refreshed)
            | Some [] \<Rightarrow> act_lift (Panic ''index out of range'')
            | Some (s # _) \<Rightarrow>
                (case set_ETag s of
                   None \<Rightarrow> sentinel_loop lc interval eTags changed (gostore sentinel currentETag refreshed)
                 | Some e \<Rightarrow> sentinel_loop lc interval eTags True (gostore sentinel (Some e) refreshed))))"

text \<open>
  The provider's refresh section is dereferenced for its interval when there is a sentinel.
\<close>

definition CheckAndRefreshSentinels ::
    "'k loader_ctx \<Rightarrow> Provider \<Rightarrow> sentinel_etags \<Rightarrow> (loader, bool \<times> sentinel_etags) act" where
  "CheckAndRefreshSentinels lc provider eTags =
     (if eTags = [] then act_return (False, [])
      else
        act_bind (act_lift (deref (kvo_Refresh (spec_Configuration (pv_Spec provider))))) (\<lambda>refresh.
          sentinel_loop lc (dr_Interval refresh) eTags False []))"

definition CheckPageETags :: "'k loader_ctx \<Rightarrow> page_etags \<Rightarrow> (loader, bool) act" where
  "CheckPageETags lc eTags =
     act_bind (execute lc (EtagSettingsClient eTags)) (\<lambda>response.
     act_bind (act_lift (deref response)) (\<lambda>resp. act_return (rsp_Etags resp \<noteq> None)))"

section \<open>Feature flags\<close>

definition generateFeatureFlagReference :: "Setting \<Rightarrow> string \<Rightarrow> string" where
  "generateFeatureFlagReference setting endpoint =
     endpoint @ ''/kv/'' @ (case set_Key setting of None \<Rightarrow> [] | Some k \<Rightarrow> k) @
     (case set_Label setting of
        None \<Rightarrow> []
      | Some label \<Rightarrow> if TrimSpace label \<noteq> [] then ''?label='' @ label else [])"

definition populateTelemetryMetadata :: "object \<Rightarrow> Setting \<Rightarrow> string \<Rightarrow> object res" where
  "populateTelemetryMetadata featureFlag setting endpoint =
     (case golookup featureFlag ''telemetry'' of
        Some (VMap telemetry) \<Rightarrow>
          (if golookup telemetry ''enabled'' = Some (VBool True) then
             res_bind (deref (set_ETag setting)) (\<lambda>etag.
               let metadata = (case golookup telemetry ''metadata'' of Some (VMap md) \<Rightarrow> md | _ \<Rightarrow> []);
                   metadata' = gostore ''FeatureFlagReference'' (VStr (generateFeatureFlagReference setting endpoint))
                                 (gostore ''ETag'' (VStr etag) metadata)
               in Ok (gostore ''telemetry'' (VMap (gostore ''metadata'' (VMap metadata') telemetry)) featureFlag))
           else Ok featureFlag)
      | _ \<Rightarrow> Ok featureFlag)"

text \<open>One flag: its JSON object with the telemetry metadata; a null stays null.\<close>

definition feature_flag_value :: "codec \<Rightarrow> string \<Rightarrow> Setting \<Rightarrow> go_value res" where
  "feature_flag_value cd endpoint setting =
     res_bind (deref (set_Value setting)) (\<lambda>v.
       res_bind
         (wrap_error ''failed to unmarshal feature flag settings: %s'' [] (res_bind (json_Unmarshal cd v) as_object))
         (\<lambda>out. case out of
            None \<Rightarrow> Ok VNil
          | Some flag \<Rightarrow> res_map VMap (populateTelemetryMetadata flag setting endpoint)))"

text \<open>
  The loop from the last setting to the first; \<open>seen\<close> is the map \<^verbatim>\<open>featureFlagExist\<close>.
\<close>

fun feature_flag_loop ::
    "codec \<Rightarrow> string \<Rightarrow> Setting list \<Rightarrow> nat \<Rightarrow> (string, bool) gomap \<Rightarrow> go_value list \<Rightarrow> go_value list res" where
  "feature_flag_loop cd endpoint settings 0 seen flags = Ok flags"
| "feature_flag_loop cd endpoint settings (Suc i) seen flags =
     res_bind (deref (set_Key (settings ! i))) (\<lambda>key.
       if golookup seen key = Some True then feature_flag_loop cd endpoint settings i seen flags
       else
         res_bind (feature_flag_value cd endpoint (settings ! i)) (\<lambda>out.
           feature_flag_loop cd endpoint settings i (gostore key True seen) (flags @ [out])))"

definition getFeatureFlagSettings :: "'k loader_ctx \<Rightarrow> (loader, object \<times> page_etags option) act" where
  "getFeatureFlagSettings lc =
     act_bind (act_get (\<lambda>l. pv_Spec (ldr_Provider l))) (\<lambda>spec.
     act_bind (execute lc (SelectorSettingsClient (GetFeatureFlagFilters spec))) (\<lambda>response.
     act_bind (act_lift (deref response)) (\<lambda>resp.
     act_bind (\<lambda>l. (l, case cm_StaticClientWrappers (ldr_Manager l) of
                         [] \<Rightarrow> Panic ''index out of range''
                       | w # _ \<Rightarrow> Ok (cw_Endpoint w))) (\<lambda>clientEndpoint.
     act_bind (act_lift (feature_flag_loop (lc_codec lc) clientEndpoint (slice (rsp_Settings resp))
         (length (slice (rsp_Settings resp))) [] [])) (\<lambda>flags.
     act_return ([(FeatureFlagSectionName, VList (swap_loop flags 0 (length flags - 1)))], rsp_Etags resp))))))"

section \<open>Target settings\<close>

text \<open>
  \<open>addr\<close> is the address of \<^verbatim>\<open>normalizeSentinels\<close>' own string.
\<close>

definition initial_sentinels :: "nat \<Rightarrow> ProviderSpec \<Rightarrow> sentinel_etags option" where
  "initial_sentinels addr spec =
     (case kvo_Refresh (spec_Configuration spec) of
        None \<Rightarrow> None
      | Some refresh \<Rightarrow>
          (case dr_Monitoring refresh of
             None \<Rightarrow> None
           | Some mon \<Rightarrow>
               if dr_Enabled refresh
               then Some (gostore_all (map (\<lambda>s. (s, None)) (normalizeSentinels addr (mon_Sentinels mon))) [])
               else None))"

definition CreateTargetSettings ::
    "'k loader_ctx \<Rightarrow> nat \<Rightarrow> resolver option \<Rightarrow> (loader, TargetKeyValueSettings) act" where
  "CreateTargetSettings lc addr resolver =
     act_bind (CreateKeyValueSettings lc resolver) (\<lambda>raw0.
     act_bind (act_get ldr_Provider) (\<lambda>provider.
     act_bind (case initial_sentinels addr (pv_Spec provider) of
                 None \<Rightarrow> act_return []
               | Some eTags \<Rightarrow>
                   act_bind (CheckAndRefreshSentinels lc provider eTags) (\<lambda>(_, refreshed). act_return refreshed))
       (\<lambda>sentinelETags.
     act_bind (if spec_FeatureFlag (pv_Spec provider) \<noteq> None then
                 act_bind (getFeatureFlagSettings lc) (\<lambda>(section, etags).
                   act_return (raw0\<lparr> rw_FeatureFlagSettings := Some section, rw_FeatureFlagETags := etags \<rparr>))
               else act_return raw0)
       (\<lambda>raw.
     act_bind (act_lift (createTypedSettings (lc_codec lc) raw (ct_ConfigMapData (spec_Target (pv_Spec provider)))))
       (\<lambda>typedSettings.
     act_return
       \<lparr> tg_ConfigMapSettings = Some typedSettings, tg_SecretSettings = rw_SecretSettings raw,
         tg_K8sSecrets = rw_K8sSecrets raw, tg_KeyValueETags = rw_KeyValueETags raw,
         tg_FeatureFlagETags = rw_FeatureFlagETags raw, tg_SentinelETags = Some sentinelETags \<rparr>)))))"

definition RefreshKeyValueSettings ::
    "'k loader_ctx \<Rightarrow> (string, string) gomap \<Rightarrow> resolver option \<Rightarrow> (loader, TargetKeyValueSettings) act" where
  "RefreshKeyValueSettings lc existing resolver =
     act_bind (CreateKeyValueSettings lc resolver) (\<lambda>raw0.
     act_bind (act_get (\<lambda>l. pv_Spec (ldr_Provider l))) (\<lambda>spec.
     act_bind (if spec_FeatureFlag spec \<noteq> None then
                 act_bind (act_lift (unmarshalConfigMap (lc_codec lc) existing (ct_ConfigMapData (spec_Target spec))))
                   (\<lambda>(flags, _). act_return (raw0\<lparr> rw_FeatureFlagSettings := Some flags \<rparr>))
               else act_return raw0)
       (\<lambda>raw.
     act_bind (act_lift (createTypedSettings (lc_codec lc) raw (ct_ConfigMapData (spec_Target spec)))) (\<lambda>typedSettings.
     act_return
       (empty_target\<lparr> tg_ConfigMapSettings := Some typedSettings, tg_SecretSettings := rw_SecretSettings raw,
          tg_K8sSecrets := rw_K8sSecrets raw, tg_KeyValueETags := rw_KeyValueETags raw \<rparr>)))))"

definition RefreshFeatureFlagSettings ::
    "'k loader_ctx \<Rightarrow> (string, string) gomap \<Rightarrow> (loader, TargetKeyValueSettings) act" where
  "RefreshFeatureFlagSettings lc existing =
     act_bind (getFeatureFlagSettings lc) (\<lambda>(latest, etags).
     act_bind (act_get (\<lambda>l. ct_ConfigMapData (spec_Target (pv_Spec (ldr_Provider l))))) (\<lambda>dataOptions.
     act_bind (act_lift (unmarshalConfigMap (lc_codec lc) existing dataOptions)) (\<lambda>(_, existingSettings).
     act_bind (act_lift (deref dataOptions)) (\<lambda>opts.
     act_bind (act_lift (marshalJsonYaml (lc_codec lc)
         (gostore FeatureManagementSectionName (VMap latest) existingSettings) opts)) (\<lambda>typedStr.
     act_return (empty_target\<lparr> tg_ConfigMapSettings := Some [(do_Key opts, typedStr)], tg_FeatureFlagETags := etags \<rparr>))))))"


section \<open>Precedence of key-values\<close>

text \<open>The content types that do not go into the key-values.\<close>

definition special_type :: "string \<Rightarrow> bool" where
  "special_type contentType \<longleftrightarrow>
     TrimSpace (ToLower contentType) \<in> {FeatureFlagContentType, SecretReferenceContentType, SnapshotReferenceContentType}"

text \<open>The key-value a setting contributes by itself: its trimmed key and its value.\<close>

definition plain_entry :: "string list \<Rightarrow> Setting \<Rightarrow> (string \<times> string option) list" where
  "plain_entry pfx s =
     (case set_Key s of
        None \<Rightarrow> []
      | Some key \<Rightarrow>
          if trimPrefix key pfx = [] then []
          else (case set_ContentType s of
                  None \<Rightarrow> [(trimPrefix key pfx, set_Value s)]
                | Some ct \<Rightarrow> if special_type ct then [] else [(trimPrefix key pfx, set_Value s)]))"

definition is_snapshot_reference :: "string list \<Rightarrow> Setting \<Rightarrow> bool" where
  "is_snapshot_reference pfx s \<longleftrightarrow>
     (\<exists>key ct. set_Key s = Some key \<and> trimPrefix key pfx \<noteq> [] \<and> set_ContentType s = Some ct \<and>
        TrimSpace (ToLower ct) = SnapshotReferenceContentType) \<and> set_Value s \<noteq> None"

text \<open>
  The key-values of a list of settings: a snapshot reference stands for the settings of the
  snapshot it names.
\<close>

definition snapshot_settings :: "codec \<Rightarrow> az_client \<Rightarrow> string \<Rightarrow> Setting list" where
  "snapshot_settings cd client ref =
     (case res_bind (parseSnapshotReference cd ref) (loadSnapshotSettings client) of Ok ss \<Rightarrow> ss | _ \<Rightarrow> [])"

definition setting_entries ::
    "codec \<Rightarrow> string list \<Rightarrow> az_client \<Rightarrow> Setting \<Rightarrow> (string \<times> string option) list" where
  "setting_entries cd pfx client s =
     (if is_snapshot_reference pfx s
      then concat (map (plain_entry pfx)
             (snapshot_settings cd client (case set_Value s of Some ref \<Rightarrow> ref | None \<Rightarrow> [])))
      else plain_entry pfx s)"

text \<open>The client a loader uses for snapshots: the first one that is listed.\<close>

definition first_client :: "'k loader_ctx \<Rightarrow> loader \<Rightarrow> az_client option" where
  "first_client lc l =
     (case get_clients (lc_calls lc (ldr_calls l)) (l\<lparr> ldr_calls := Suc (ldr_calls l) \<rparr>) of
        (l', Ok (c # cs)) \<Rightarrow> Some (cw_Client (wrapper_at (ldr_Manager l') c))
      | _ \<Rightarrow> None)"

lemma first_client_tracing [simp]: "first_client lc (l\<lparr> ldr_Tracing := t \<rparr>) = first_client lc l"
  by (simp add: first_client_def get_clients_def split: res.split)

text \<open>The settings of the snapshot a reference names could be loaded from the client.\<close>

definition snapshot_loads :: "codec \<Rightarrow> az_client \<Rightarrow> Setting \<Rightarrow> bool" where
  "snapshot_loads cd client s \<longleftrightarrow>
     is_Ok (res_bind (parseSnapshotReference cd (case set_Value s of Some ref \<Rightarrow> ref | None \<Rightarrow> [])) (loadSnapshotSettings client))"

lemma content_types_distinct [simp]:
  "SecretReferenceContentType \<noteq> FeatureFlagContentType" "FeatureFlagContentType \<noteq> SecretReferenceContentType"
  "SnapshotReferenceContentType \<noteq> FeatureFlagContentType" "FeatureFlagContentType \<noteq> SnapshotReferenceContentType"
  "SnapshotReferenceContentType \<noteq> SecretReferenceContentType" "SecretReferenceContentType \<noteq> SnapshotReferenceContentType"
  by (simp_all add: SecretReferenceContentType_def SnapshotReferenceContentType_def FeatureFlagContentType_def)

lemma store_setting_kv [simp]:
  "rw_KeyValueSettings (store_setting k v b raw) = gostore k v (rw_KeyValueSettings raw)"
  by (simp add: store_setting_def)

lemma store_reference_kv [simp]:
  "rw_KeyValueSettings (store_reference sn ty k md raw) = rw_KeyValueSettings raw"
  by (simp add: store_reference_def Let_def)

text \<open>What the steps keep: the provider, the key-values of a reference, the snapshot client.\<close>

lemma process_reference_keeps:
  "process_reference lc k s st = (st', Ok ()) \<Longrightarrow>
   rw_KeyValueSettings (ps_raw st') = rw_KeyValueSettings (ps_raw st) \<and>
   ps_loader st' = ps_loader st \<and> ps_snapshotClient st' = ps_snapshotClient st"
  by (auto simp: process_reference_def Let_def act_bind_lift act_bind_def split: option.splits res.splits prod.splits)

lemma ldr_Provider_get_clients: "ldr_Provider (fst (get_clients ce l)) = ldr_Provider l"
  by (auto simp: get_clients_def split: res.splits)

lemma snapshot_client_keeps:
  "snapshot_client lc st = (st', Ok c) \<Longrightarrow>
   ps_raw st' = ps_raw st \<and> ldr_Provider (ps_loader st') = ldr_Provider (ps_loader st) \<and>
   ps_snapshotClient st' = Some c \<and> (\<forall>c'. ps_snapshotClient st = Some c' \<longrightarrow> c = c') \<and>
   (ps_snapshotClient st = None \<longrightarrow> first_client lc (ps_loader st) = Some c)"
  using ldr_Provider_get_clients [of "lc_calls lc (ldr_calls (ps_loader st))"
      "(ps_loader st)\<lparr> ldr_calls := Suc (ldr_calls (ps_loader st)) \<rparr>"]
  by (auto simp: snapshot_client_def first_client_def Let_def split: option.splits prod.splits res.splits list.splits)

lemma process_nested_step:
  assumes "process_setting lc False nested s st = (st', Ok ())"
    and "pfx = kvo_TrimKeyPrefixes (spec_Configuration (pv_Spec (ldr_Provider (ps_loader st))))"
  shows "rw_KeyValueSettings (ps_raw st') = gostore_all (plain_entry pfx s) (rw_KeyValueSettings (ps_raw st))
    \<and> ps_loader st' = ps_loader st \<and> ps_snapshotClient st' = ps_snapshotClient st"
  using assms process_reference_keeps [of lc _ s st st']
  by (auto simp: process_setting_def process_plain_def plain_entry_def special_type_def gostore_all_def Let_def
      split: option.splits if_splits)

lemma gostore_all_append: "gostore_all (xs @ ys) m = gostore_all ys (gostore_all xs m)"
  by (simp add: gostore_all_def)

lemma process_nested:
  assumes "processNestedSettings lc ss st = (st', Ok ())"
    and "pfx = kvo_TrimKeyPrefixes (spec_Configuration (pv_Spec (ldr_Provider (ps_loader st))))"
  shows "rw_KeyValueSettings (ps_raw st') = gostore_all (concat (map (plain_entry pfx) ss)) (rw_KeyValueSettings (ps_raw st))
    \<and> ps_loader st' = ps_loader st \<and> ps_snapshotClient st' = ps_snapshotClient st"
  using assms unfolding processNestedSettings_def
proof (induction ss arbitrary: st)
  case Nil
  then show ?case by (simp add: gostore_all_def)
next
  case (Cons s ss)
  from Cons.prems(1) obtain st1 where st1: "process_setting lc False (\<lambda>_. act_return ()) s st = (st1, Ok ())"
      "act_iter (process_setting lc False (\<lambda>_. act_return ())) ss st1 = (st', Ok ())"
    by (auto simp: act_bind_eq_Ok simp del: act_return_simp)
  note step = process_nested_step [OF st1(1) Cons.prems(2)]
  show ?case
    using step Cons.IH [OF st1(2)] Cons.prems(2) by (simp add: gostore_all_append)
qed

lemma wrap_error_Ok [simp]: "wrap_error f a r = Ok x \<longleftrightarrow> r = Ok x"
  by (cases r) (auto simp: wrap_error_def)

lemma process_snapshot_step:
  assumes "process_snapshot lc (processNestedSettings lc) k ref st = (st', Ok ())"
    and "pfx = kvo_TrimKeyPrefixes (spec_Configuration (pv_Spec (ldr_Provider (ps_loader st))))"
  shows "\<exists>c. rw_KeyValueSettings (ps_raw st') =
        gostore_all (concat (map (plain_entry pfx) (snapshot_settings (lc_codec lc) c ref))) (rw_KeyValueSettings (ps_raw st))
    \<and> ldr_Provider (ps_loader st') = ldr_Provider (ps_loader st) \<and> ps_snapshotClient st' = Some c
    \<and> (\<forall>c'. ps_snapshotClient st = Some c' \<longrightarrow> c = c')
    \<and> (ps_snapshotClient st = None \<longrightarrow> first_client lc (ps_loader st) = Some c)
    \<and> is_Ok (res_bind (parseSnapshotReference (lc_codec lc) ref) (loadSnapshotSettings c))"
proof -
  let ?st0 = "st\<lparr> ps_loader := (ps_loader st)\<lparr> ldr_Tracing :=
         (ldr_Tracing (ps_loader st))\<lparr> tf_UseSnapshotReference := True \<rparr> \<rparr> \<rparr>"
  from assms(1) obtain name c st1 ss st2 where
    n: "parseSnapshotReference (lc_codec lc) ref = Ok name"
    and c: "snapshot_client lc ?st0 = (st1, Ok c)"
    and ss: "loadSnapshotSettings c name = Ok ss"
    and nest: "processNestedSettings lc ss (st1\<lparr> ps_useAI := False, ps_useAIChat := False \<rparr>) = (st2, Ok ())"
    and st': "st' = st2\<lparr> ps_useAI := ps_useAI st1 \<or> ps_useAI st2, ps_useAIChat := ps_useAIChat st1 \<or> ps_useAIChat st2 \<rparr>"
    unfolding process_snapshot_def by (auto simp: act_bind_eq_Ok)
  note k = snapshot_client_keeps [OF c]
  have p: "pfx = kvo_TrimKeyPrefixes (spec_Configuration (pv_Spec (ldr_Provider
      (ps_loader (st1\<lparr> ps_useAI := False, ps_useAIChat := False \<rparr>)))))"
    using k assms(2) by simp
  have "snapshot_settings (lc_codec lc) c ref = ss" using n ss by (simp add: snapshot_settings_def)
  then show ?thesis
    using process_nested [OF nest p] k st' n ss by (intro exI [of _ c]) simp
qed

lemma process_step:
  assumes "process_setting lc True (processNestedSettings lc) s st = (st', Ok ())"
    and "pfx = kvo_TrimKeyPrefixes (spec_Configuration (pv_Spec (ldr_Provider (ps_loader st))))"
  shows "is_snapshot_reference pfx s \<Longrightarrow>
      \<exists>c. rw_KeyValueSettings (ps_raw st') = gostore_all (setting_entries (lc_codec lc) pfx c s) (rw_KeyValueSettings (ps_raw st))
        \<and> ldr_Provider (ps_loader st') = ldr_Provider (ps_loader st) \<and> ps_snapshotClient st' = Some c
        \<and> (\<forall>c'. ps_snapshotClient st = Some c' \<longrightarrow> c = c')
        \<and> (ps_snapshotClient st = None \<longrightarrow> first_client lc (ps_loader st) = Some c) \<and> snapshot_loads (lc_codec lc) c s"
    and "\<not> is_snapshot_reference pfx s \<Longrightarrow>
      rw_KeyValueSettings (ps_raw st') = gostore_all (setting_entries (lc_codec lc) pfx c s) (rw_KeyValueSettings (ps_raw st))
        \<and> ps_loader st' = ps_loader st \<and> ps_snapshotClient st' = ps_snapshotClient st"
proof -
  assume snap: "is_snapshot_reference pfx s"
  then obtain key ct ref where s: "set_Key s = Some key" "trimPrefix key pfx \<noteq> []" "set_ContentType s = Some ct"
      "TrimSpace (ToLower ct) = SnapshotReferenceContentType" "set_Value s = Some ref"
    by (auto simp: is_snapshot_reference_def)
  have "process_snapshot lc (processNestedSettings lc) (trimPrefix key pfx) ref st = (st', Ok ())"
    using assms(1) s by (simp add: process_setting_def Let_def assms(2))
  from process_snapshot_step [OF this assms(2)]
  show "\<exists>c. rw_KeyValueSettings (ps_raw st') = gostore_all (setting_entries (lc_codec lc) pfx c s) (rw_KeyValueSettings (ps_raw st))
        \<and> ldr_Provider (ps_loader st') = ldr_Provider (ps_loader st) \<and> ps_snapshotClient st' = Some c
        \<and> (\<forall>c'. ps_snapshotClient st = Some c' \<longrightarrow> c = c')
        \<and> (ps_snapshotClient st = None \<longrightarrow> first_client lc (ps_loader st) = Some c) \<and> snapshot_loads (lc_codec lc) c s"
    using snap s(5) by (simp add: setting_entries_def snapshot_loads_def)
next
  assume other: "\<not> is_snapshot_reference pfx s"
  have "process_setting lc False (processNestedSettings lc) s st = (st', Ok ())"
    using assms(1) other
    by (auto simp: process_setting_def is_snapshot_reference_def Let_def assms(2) split: option.splits if_splits)
  from process_nested_step [OF this assms(2)]
  show "rw_KeyValueSettings (ps_raw st') = gostore_all (setting_entries (lc_codec lc) pfx c s) (rw_KeyValueSettings (ps_raw st))
        \<and> ps_loader st' = ps_loader st \<and> ps_snapshotClient st' = ps_snapshotClient st"
    using other by (simp add: setting_entries_def)
qed

lemma setting_entries_client:
  "\<not> is_snapshot_reference pfx s \<Longrightarrow> setting_entries cd pfx c s = setting_entries cd pfx c' s"
  by (simp add: setting_entries_def)

text \<open>One client serves all snapshot references of a run, and all their snapshots could be loaded.\<close>

lemma process_entries:
  assumes "processSettings lc ss st = (st', Ok ())"
    and "pfx = kvo_TrimKeyPrefixes (spec_Configuration (pv_Spec (ldr_Provider (ps_loader st))))"
  shows "\<exists>c. rw_KeyValueSettings (ps_raw st') =
        gostore_all (concat (map (setting_entries (lc_codec lc) pfx c) ss)) (rw_KeyValueSettings (ps_raw st))
      \<and> (\<forall>c'. ps_snapshotClient st = Some c' \<longrightarrow> c = c')
      \<and> (\<forall>s \<in> set ss. is_snapshot_reference pfx s \<longrightarrow> snapshot_loads (lc_codec lc) c s
           \<and> (ps_snapshotClient st = None \<longrightarrow> first_client lc (ps_loader st) = Some c))"
  using assms unfolding processSettings_def
proof (induction ss arbitrary: st)
  case Nil
  then show ?case by (cases "ps_snapshotClient st") (auto simp: gostore_all_def)
next
  case (Cons s ss)
  from Cons.prems(1) obtain st1 where st1: "process_setting lc True (processNestedSettings lc) s st = (st1, Ok ())"
      "act_iter (process_setting lc True (processNestedSettings lc)) ss st1 = (st', Ok ())"
    by (auto simp: act_bind_eq_Ok)
  note step = process_step [OF st1(1) Cons.prems(2)]
  have "ldr_Provider (ps_loader st1) = ldr_Provider (ps_loader st)" 
    using step(1) step(2) [of undefined] by (cases "is_snapshot_reference pfx s") auto
  then obtain c where c: "rw_KeyValueSettings (ps_raw st') =
      gostore_all (concat (map (setting_entries (lc_codec lc) pfx c) ss)) (rw_KeyValueSettings (ps_raw st1))"
    "\<forall>c'. ps_snapshotClient st1 = Some c' \<longrightarrow> c = c'"
    "\<forall>s \<in> set ss. is_snapshot_reference pfx s \<longrightarrow> snapshot_loads (lc_codec lc) c s
       \<and> (ps_snapshotClient st1 = None \<longrightarrow> first_client lc (ps_loader st1) = Some c)"
    using Cons.IH [OF st1(2)] Cons.prems(2) by auto
  show ?case
  proof (cases "is_snapshot_reference pfx s")
    case True
    from step(1) [OF True] c(2) have
      "rw_KeyValueSettings (ps_raw st1) = gostore_all (setting_entries (lc_codec lc) pfx c s) (rw_KeyValueSettings (ps_raw st))"
      "(\<forall>c'. ps_snapshotClient st = Some c' \<longrightarrow> c = c') \<and> (ps_snapshotClient st = None \<longrightarrow> first_client lc (ps_loader st) = Some c)"
      "snapshot_loads (lc_codec lc) c s"
      by auto
    with c show ?thesis by (intro exI [of _ c]) (auto simp: gostore_all_append)
  next
    case False
    with step(2) [OF False, of c] c show ?thesis by (intro exI [of _ c]) (auto simp: gostore_all_append)
  qed
qed

section \<open>Feature flags: the last one wins\<close>

definition same_flag :: "Setting \<Rightarrow> Setting \<Rightarrow> bool" where
  "same_flag a b \<longleftrightarrow> set_Key a = set_Key b"

interpretation flags: last_wins same_flag
  by unfold_locales (auto simp: same_flag_def)

lemma res_list_append:
  "res_list f (xs @ ys) = res_bind (res_list f xs) (\<lambda>a. res_bind (res_list f ys) (\<lambda>b. Ok (a @ b)))"
proof (induction xs)
  case (Cons x xs)
  then show ?case by (cases "f x") (auto simp: res_bind_assoc)
qed simp

text \<open>
  The loop keeps the flags the deduplication keeps, and its map marks exactly their keys.
\<close>

lemma feature_flag_loop_dedup:
  assumes "i \<le> length settings" and "feature_flag_loop cd endpoint settings i seen flags = Ok out"
    and "\<And>k. golookup seen k = Some True \<longleftrightarrow> (\<exists>r \<in> set kept. set_Key r = Some k)"
    and "\<forall>r \<in> set kept. set_Key r \<noteq> None"
    and "res_list (feature_flag_value cd endpoint) kept = Ok flags"
  shows "res_list (feature_flag_value cd endpoint) (dedup_loop same_flag settings i kept) = Ok out"
  using assms
proof (induction i arbitrary: seen flags kept)
  case (Suc i)
  from Suc.prems(2) obtain key where key: "set_Key (settings ! i) = Some key"
    by (auto simp: deref_def split: option.splits)
  have ex: "list_ex (\<lambda>r. same_flag r (settings ! i)) kept \<longleftrightarrow> golookup seen key = Some True"
    using Suc.prems(3) key by (auto simp: list_ex_iff same_flag_def)
  show ?case
  proof (cases "golookup seen key = Some True")
    case True
    then have "feature_flag_loop cd endpoint settings i seen flags = Ok out"
      using Suc.prems(2) key by (simp add: deref_def)
    then have "res_list (feature_flag_value cd endpoint) (dedup_loop same_flag settings i kept) = Ok out"
      using Suc.prems by (intro Suc.IH [of seen flags kept]) auto
    then show ?thesis using True ex by simp
  next
    case False
    then obtain v where v: "feature_flag_value cd endpoint (settings ! i) = Ok v"
        "feature_flag_loop cd endpoint settings i (gostore key True seen) (flags @ [v]) = Ok out"
      using Suc.prems(2) key by (auto simp: deref_def)
    have "res_list (feature_flag_value cd endpoint) (dedup_loop same_flag settings i (kept @ [settings ! i])) = Ok out"
      using Suc.prems key v by (intro Suc.IH [OF _ v(2)]) (auto simp: res_list_append)
    then show ?thesis using False ex by simp
  qed
qed simp

lemma res_list_rev: "res_list f xs = Ok ys \<Longrightarrow> res_list f (rev xs) = Ok (rev ys)"
  by (simp add: res_list_eq_Ok list_all2_rev)

lemma feature_flag_loop_keep_last:
  assumes "feature_flag_loop cd endpoint settings (length settings) [] [] = Ok out"
  shows "res_list (feature_flag_value cd endpoint) (keep_last same_flag settings) = Ok (rev out)"
proof -
  have "res_list (feature_flag_value cd endpoint) (dedup_loop same_flag settings (length settings) []) = Ok out"
    using assms by (rule feature_flag_loop_dedup [OF order_refl]) auto
  from res_list_rev [OF this] show ?thesis
    by (simp only: flags.dedup_loop_keep_last)
qed

lemma feature_flag_loop_prefix: "\<exists>zs. dedup_loop r xs i kept = kept @ zs"
proof (induction i arbitrary: kept)
  case (Suc i)
  show ?case
    using Suc.IH [of kept] Suc.IH [of "kept @ [xs ! i]"] by auto
qed simp

text \<open>Conversely, when all keys are there and the kept flags can be read, the loop succeeds.\<close>

lemma feature_flag_loop_complete:
  assumes "i \<le> length settings" and "\<forall>s \<in> set settings. set_Key s \<noteq> None"
    and "res_list (feature_flag_value cd endpoint) (dedup_loop same_flag settings i kept) = Ok out"
    and "\<And>k. golookup seen k = Some True \<longleftrightarrow> (\<exists>r \<in> set kept. set_Key r = Some k)"
    and "res_list (feature_flag_value cd endpoint) kept = Ok flags"
  shows "feature_flag_loop cd endpoint settings i seen flags = Ok out"
  using assms
proof (induction i arbitrary: seen flags kept)
  case (Suc i)
  have "settings ! i \<in> set settings" using Suc.prems(1) by simp
  then obtain key where key: "set_Key (settings ! i) = Some key" using Suc.prems(2) by fastforce
  have ex: "list_ex (\<lambda>r. same_flag r (settings ! i)) kept \<longleftrightarrow> golookup seen key = Some True"
    using Suc.prems(4) key by (auto simp: list_ex_iff same_flag_def)
  show ?case
  proof (cases "golookup seen key = Some True")
    case True
    then have "feature_flag_loop cd endpoint settings i seen flags = Ok out"
      using Suc.prems ex by (intro Suc.IH [of kept]) auto
    then show ?thesis using True key by (simp add: deref_def)
  next
    case False
    then have d: "res_list (feature_flag_value cd endpoint) (dedup_loop same_flag settings i (kept @ [settings ! i])) = Ok out"
      using Suc.prems(3) ex by simp
    obtain zs where "dedup_loop same_flag settings i (kept @ [settings ! i]) = (kept @ [settings ! i]) @ zs"
      using feature_flag_loop_prefix by blast
    with d obtain v where v: "feature_flag_value cd endpoint (settings ! i) = Ok v"
      by (auto simp: res_list_append)
    have "feature_flag_loop cd endpoint settings i (gostore key True seen) (flags @ [v]) = Ok out"
      using Suc.prems key v by (intro Suc.IH [OF _ _ d]) (auto simp: res_list_append)
    then show ?thesis using False key v by (simp add: deref_def)
  qed
qed simp

lemma swap_loop_flags: "swap_loop flags 0 (length flags - 1) = rev flags"
  by (rule swap_loop_rev)

end
