(* ===== verification/Store_Access.thy ===== *)
theory Store_Access
  imports Failover
begin

text \<open>
  Which clients answer a request: when every client that the manager holds and every client
  that is made later satisfies a predicate (they all talk to replicas of one store, for
  instance), each answer of the failover policy is the answer of such a client, and the
  loader stays in this situation.
\<close>

definition builds :: "(az_client \<Rightarrow> bool) \<Rightarrow> loader_env \<Rightarrow> bool" where
  "builds P env \<longleftrightarrow>
     (\<forall>e cr opts c. env_NewClient env e cr opts = Ok c \<longrightarrow> P c) \<and>
     (\<forall>s opts c. env_NewClientFromConnectionString env s opts = Ok c \<longrightarrow> P c)"

definition holds :: "(az_client \<Rightarrow> bool) \<Rightarrow> ConfigurationClientManager \<Rightarrow> bool" where
  "holds P m \<longleftrightarrow>
     list_all (P \<circ> cw_Client) (cm_StaticClientWrappers m) \<and>
     list_all (P \<circ> cw_Client) (slice (cm_DynamicClientWrappers m))"

lemma holds_update [simp]:
  "holds P (m\<lparr> cm_lastFallbackClientAttempt := t \<rparr>) = holds P m"
  "holds P (m\<lparr> cm_lastFallbackClientRefresh := t \<rparr>) = holds P m"
  "holds P (m\<lparr> cm_lastSuccessfulEndpoint := e \<rparr>) = holds P m"
  by (simp_all add: holds_def)

lemma holds_wrapper_at: "holds P m \<Longrightarrow> valid_ref m r \<Longrightarrow> P (cw_Client (wrapper_at m r))"
  by (cases r) (auto simp: holds_def valid_ref_def wrapper_at_def list_all_length)

lemma fallback_clients_hold:
  "builds P env \<Longrightarrow> fallback_clients env m hosts = Ok ws \<Longrightarrow> list_all (P \<circ> cw_Client) ws"
proof (induction hosts arbitrary: ws)
  case (Cons h hosts)
  have "newConfigurationClient env m e = Ok c \<Longrightarrow> P c" for e c
    using Cons.prems(1) by (auto simp: newConfigurationClient_def builds_def Let_def split: if_splits option.splits)
  with Cons show ?case by (auto simp: Let_def fresh_wrapper_def split: if_splits)
qed simp

lemma holds_Discover: "builds P env \<Longrightarrow> holds P m \<Longrightarrow> holds P (DiscoverFallbackClients env ds host m)"
  using DiscoverFallbackClients_cases [of env ds host m] fallback_clients_hold [of P env m]
  by (auto simp: holds_def)

lemma holds_discover: "builds P env \<Longrightarrow> holds P m \<Longrightarrow> discover env ds t m = Ok m' \<Longrightarrow> holds P m'"
  by (auto simp: discover_def intro: holds_Discover)

lemma holds_GetClients: "builds P env \<Longrightarrow> holds P m \<Longrightarrow> GetClients env ds t m = Ok (m', cs) \<Longrightarrow> holds P m'"
  by (auto simp: GetClients_def Let_def intro: holds_discover split: if_splits)

lemma holds_RefreshClients: "builds P env \<Longrightarrow> holds P m \<Longrightarrow> RefreshClients env ds t m = Ok m' \<Longrightarrow> holds P m'"
  by (auto simp: RefreshClients_def intro: holds_discover split: if_splits)

lemma list_all_update: "list_all Q ws \<Longrightarrow> (\<And>w. Q (f w) = Q w) \<Longrightarrow> list_all Q (ws[i := f (ws ! i)])"
  by (cases "i < length ws") (auto simp: list_all_length nth_list_update list_update_beyond)

lemma holds_update_status:
  "holds P m \<Longrightarrow> holds P (update_wrapper r (updateClientBackoffStatus now k b) m)"
  by (cases "cm_DynamicClientWrappers m"; cases r) (auto simp: holds_def update_wrapper_def intro!: list_all_update)

section \<open>Answers\<close>

text \<open>What stays the same for the caller of the policy.\<close>

definition in_store :: "(az_client \<Rightarrow> bool) \<Rightarrow> loader \<Rightarrow> loader \<Rightarrow> bool" where
  "in_store P l l' \<longleftrightarrow>
     (holds P (ldr_Manager l) \<longrightarrow> holds P (ldr_Manager l')) \<and> ldr_Provider l' = ldr_Provider l \<and>
     ldr_SettingsClient l' = ldr_SettingsClient l \<and> ldr_calls l' = ldr_calls l"

lemma in_store_refl [simp]: "in_store P l l"
  by (simp add: in_store_def)

lemma in_store_trans: "in_store P l l1 \<Longrightarrow> in_store P l1 l2 \<Longrightarrow> in_store P l l2"
  by (simp add: in_store_def)

lemma in_store_trace [simp]: "in_store P l (trace_attempt ce b l)"
  by (simp add: in_store_def trace_attempt_def Let_def)

lemma in_store_mark [simp]:
  "in_store P l (mark_attempt ce i b r l)" "in_store P l (mark_success r l)"
  by (auto simp: in_store_def mark_attempt_def mark_success_def holds_update_status)

lemma failover_loop_in_store: "in_store P l (fst (failover_loop ce request i rs errors l))"
proof (induction ce request i rs errors l rule: failover_loop.induct)
  case (2 ce request i r rs errors l)
  let ?t = "trace_attempt ce (errors \<noteq> []) l"
  have t: "in_store P l ?t" by simp
  have fail: "in_store P l (mark_attempt ce i False r ?t)"
    by (rule in_store_trans [OF t]) simp
  have ok: "in_store P l (mark_attempt ce i True r (mark_success r ?t))"
    using in_store_trans [OF t in_store_mark(2)] in_store_mark(1) by (rule in_store_trans)
  show ?case
  proof (cases "request (cw_Client (wrapper_at (ldr_Manager ?t) r))")
    case (Err e)
    show ?thesis
      using Err fail "2.IH" [OF refl Err refl] by (auto simp: Let_def intro: in_store_trans)
  qed (use t ok in \<open>simp_all add: Let_def\<close>)
qed simp

lemma failover_loop_answer:
  "holds P (ldr_Manager l) \<Longrightarrow> \<forall>r \<in> set rs. valid_ref (ldr_Manager l) r \<Longrightarrow>
   failover_loop ce request i rs errors l = (l', Some (Ok resp), errs) \<Longrightarrow> \<exists>c. P c \<and> request c = Ok resp"
proof (induction ce request i rs errors l rule: failover_loop.induct)
  case (2 ce request i r rs errors l)
  let ?t = "trace_attempt ce (errors \<noteq> []) l"
  show ?case
  proof (cases "request (cw_Client (wrapper_at (ldr_Manager ?t) r))")
    case (Ok x)
    have "P (cw_Client (wrapper_at (ldr_Manager ?t) r))"
      using holds_wrapper_at [of P "ldr_Manager l" r] "2.prems"(1,2) by simp
    then show ?thesis using Ok "2.prems"(3) by (auto simp: Let_def)
  next
    case (Err e)
    have h: "holds P (ldr_Manager (mark_attempt ce i False r ?t))"
      using "2.prems"(1) by (simp add: holds_update_status)
    show ?thesis
    proof (cases "IsFailoverable e")
      case True
      then show ?thesis
        using "2.IH" [OF refl Err refl True h] "2.prems"(2,3) Err by (simp add: Let_def)
    next
      case False
      then show ?thesis using Err "2.prems"(3) by (simp add: Let_def)
    qed
  next
    case (Panic p)
    then show ?thesis using "2.prems"(3) by (simp add: Let_def)
  qed
qed simp

lemma get_clients_in_store: "builds P (ce_env ce) \<Longrightarrow> in_store P l (fst (get_clients ce l))"
  by (auto simp: get_clients_def in_store_def intro: holds_GetClients split: res.splits)

lemma refresh_clients_in_store: "builds P (ce_env ce) \<Longrightarrow> in_store P l (fst (refresh_clients ce l))"
  by (auto simp: refresh_clients_def in_store_def intro: holds_RefreshClients split: res.splits)

lemma refresh_then_in_store:
  assumes "builds P (ce_env ce)" and "in_store P l0 l"
  shows "in_store P l0 (fst (act_bind (refresh_clients ce) (\<lambda>_. act_lift r) l))"
  using refresh_clients_in_store [OF assms(1), of l] assms(2)
  by (auto simp: act_bind_fst_cong intro: in_store_trans split: prod.splits res.splits)

lemma try_clients_in_store:
  assumes "builds P (ce_env ce)"
  shows "in_store P l (fst (try_clients ce request clients l))"
proof -
  let ?rs = "client_order (pv_Spec (ldr_Provider l)) (ldr_Manager l) clients"
  obtain l' r errs where f: "failover_loop ce request 0 ?rs [] l = (l', r, errs)" by (metis prod_cases3)
  have "in_store P l l'" using failover_loop_in_store [of P l ce request 0 ?rs "[]"] f by simp
  then show ?thesis
    using f refresh_then_in_store [OF assms, of l l'] refresh_then_in_store [OF assms in_store_refl]
    by (cases r; cases "clients = []") (simp_all add: try_clients_def Let_def)
qed

lemma ExecuteFailoverPolicy_in_store:
  assumes "builds P (ce_env ce)"
  shows "in_store P l (fst (ExecuteFailoverPolicy ce request l))"
  using get_clients_in_store [OF assms, of l] try_clients_in_store [OF assms]
  by (auto simp: ExecuteFailoverPolicy_def act_bind_fst_cong intro: in_store_trans split: prod.splits res.splits)

lemma ExecuteFailoverPolicy_answer:
  assumes "builds P (ce_env ce)" and "holds P (ldr_Manager l)"
    and "ExecuteFailoverPolicy ce request l = (l', Ok resp)"
  shows "\<exists>c. P c \<and> request c = Ok resp"
proof -
  obtain l1 clients where c: "get_clients ce l = (l1, Ok clients)" "try_clients ce request clients l1 = (l', Ok resp)"
    using assms(3) by (auto simp: ExecuteFailoverPolicy_def act_bind_eq_Ok)
  let ?rs = "client_order (pv_Spec (ldr_Provider l1)) (ldr_Manager l1) clients"
  have h: "holds P (ldr_Manager l1)"
    using get_clients_in_store [OF assms(1), of l] assms(2) c(1) by (simp add: in_store_def)
  have v: "\<forall>r \<in> set ?rs. valid_ref (ldr_Manager l1) r"
    using c(1) GetClients_refs(2) mset_eq_setD [OF mset_client_order]
    by (fastforce simp: get_clients_def split: res.splits)
  obtain l2 r errs where f: "failover_loop ce request 0 ?rs [] l1 = (l2, r, errs)" by (metis prod_cases3)
  then have "r = Some (Ok resp)"
    using c(2) by (cases r) (auto simp: try_clients_def act_bind_eq_Ok Let_def split: if_splits)
  then show ?thesis using failover_loop_answer [OF h v] f by blast
qed

end
