(* ===== verification/Rendered_Documents.thy ===== *)
theory Rendered_Documents
  imports Typed_Settings
begin

text \<open>
  Facts about the documents the loader renders as JSON: whatever \<^verbatim>\<open>encoding/json\<close> decodes
  it also encodes and decodes again, the hierarchy keeps this, and deep equality is
  transitive.  The partial refreshes of the loader rest on them.
\<close>

section \<open>Decoded values\<close>

text \<open>The text Go prints for a number is read back as the same number.\<close>

definition canon_ok :: "(string \<Rightarrow> string option) \<Rightarrow> bool" where
  "canon_ok canon \<longleftrightarrow> (\<forall>t c. canon t = Some c \<longrightarrow> valid_number c \<and> canon c = Some c)"

lemma set_gostore_all: "(k, v) \<in> set (gostore_all kvs []) \<Longrightarrow> (k, v) \<in> set kvs"
proof -
  assume "(k, v) \<in> set (gostore_all kvs [])"
  then have "golookup (gostore_all kvs []) k = Some v" by (simp add: golookup_in_set)
  then have "map_of (rev kvs) k = Some v" by (simp add: golookup_gostore_all split: option.splits)
  then show ?thesis using map_of_SomeD by fastforce
qed

lemma json_plain_VMap:
  "json_plain canon (VMap m) \<longleftrightarrow> gomap_ok m \<and> (\<forall>k v. golookup m k = Some v \<longrightarrow> json_plain canon v)"
  by (auto simp: list_all_iff golookup_in_set)

lemma json_plain_gostore:
  "json_plain canon (VMap m) \<Longrightarrow> json_plain canon v \<Longrightarrow> json_plain canon (VMap (gostore k v m))"
  by (simp add: json_plain_VMap del: json_plain.simps)

lemma json_plain_godelete: "json_plain canon (VMap m) \<Longrightarrow> json_plain canon (VMap (godelete k m))"
  by (simp add: json_plain_VMap AList.delete_conv' del: json_plain.simps)

lemma json_plain_lookup: "json_plain canon (VMap m) \<Longrightarrow> golookup m k = Some v \<Longrightarrow> json_plain canon v"
  by (simp add: json_plain_VMap del: json_plain.simps)

lemma parse_plain:
  assumes "canon_ok canon"
  shows "parse_value canon n s = Some (v, r) \<Longrightarrow> json_plain canon v"
    and "parse_elems canon n s = Some (vs, r) \<Longrightarrow> list_all (json_plain canon) vs"
    and "parse_members canon n s = Some (m, r) \<Longrightarrow> list_all (\<lambda>(k, v). json_plain canon v) m"
  using assms
proof (induction canon n s and canon n s and canon n s arbitrary: v r and vs r and m r
    rule: parse_value_parse_elems_parse_members.induct)
  case (2 canon n s)
  have num: "parse_number canon t = Some (v, r) \<Longrightarrow> json_plain canon v" for t
    using "2.prems"(2) by (auto simp: parse_number_def canon_ok_def Let_def split: if_splits)
  have members: "json_plain canon (VMap (gostore_all m []))"
    if "list_all (\<lambda>(k, v). json_plain canon v) m" for m
    using that set_gostore_all [of _ _ m] by (auto simp: list_all_iff)
  show ?case
    using 2 num members by (fastforce split: list.splits if_splits)
next
  case (4 canon n s)
  then show ?case by (fastforce split: list.splits if_splits option.splits)
next
  case (6 canon n s)
  then show ?case by (fastforce split: list.splits if_splits option.splits)
qed simp_all

lemma json_decode_plain: "canon_ok canon \<Longrightarrow> json_decode canon s = Ok v \<Longrightarrow> json_plain canon v"
  using parse_plain(1) by (auto simp: json_decode_def simp del: parse_value.simps split: option.splits if_splits)

section \<open>Deep equality\<close>

lemma deep_eq_trans: "deep_eq u v \<Longrightarrow> deep_eq v w \<Longrightarrow> deep_eq u w"
proof (induction u arbitrary: v w)
  case (VMap m)
  obtain n where n: "v = VMap n" using VMap.prems(1) deep_eq_VMap_left [of m v] by blast
  obtain p where p: "w = VMap p" using VMap.prems(2) n deep_eq_VMap_left [of n w] by blast
  note np = n p
  have step: "\<exists>z. golookup p k = Some z \<and> deep_eq x z" if kx: "(k, x) \<in> set m" for k x
  proof -
    obtain y where y: "golookup n k = Some y" "deep_eq x y"
      using VMap.prems(1) np kx by (fastforce simp: list_all_iff split: option.splits)
    have "(k, y) \<in> set n" using y(1) by (rule map_of_SomeD)
    then obtain z where "golookup p k = Some z" "deep_eq y z"
      using VMap.prems(2) np by (fastforce simp: list_all_iff split: option.splits)
    then show ?thesis using VMap.IH [OF kx, of x y z] y(2) by auto
  qed
  have "length m = length p" using VMap.prems by (simp add: np)
  with step show ?case by (fastforce simp: np list_all_iff)
next
  case (VList xs)
  obtain ys where ys: "v = VList ys" using VList.prems(1) by (cases v) simp_all
  obtain zs where zs: "w = VList zs" using VList.prems(2) ys by (cases w) simp_all
  note yz = ys zs
  have len: "length xs = length ys" "length ys = length zs" using VList.prems yz by auto
  have "deep_eq (xs ! i) (zs ! i)" if "i < length xs" for i
  proof (rule VList.IH)
    show "xs ! i \<in> set xs" using that by simp
    show "deep_eq (xs ! i) (ys ! i)" "deep_eq (ys ! i) (zs ! i)"
      using VList.prems that len by (simp_all add: yz list_all_length)
  qed
  then show ?case using yz len by (auto simp: list_all_length)
next
  case VNil
  then show ?case by (cases v) auto
next
  case (VBool b)
  then show ?case by (cases v) auto
next
  case (VNum t)
  then show ?case by (cases v) auto
next
  case (VStr s)
  then show ?case by (cases v) auto
qed

text \<open>Maps are deeply equal when their lookups are.\<close>

lemma deep_eq_rel_option:
  assumes "deep_eq (VMap m) (VMap n)" and "gomap_ok m" and "gomap_ok n"
  shows "rel_option deep_eq (golookup m k) (golookup n k)"
proof (cases "golookup m k")
  case None
  then have "k \<notin> set (gokeys n)"
    using deep_eq_keys [OF assms] by (auto simp: gokeys_def map_of_eq_None_iff)
  then have "golookup n k = None" by (simp add: gokeys_def map_of_eq_None_iff)
  with None show ?thesis by simp
next
  case (Some v)
  with deep_eq_lookup [OF assms(1,2), of k v] show ?thesis by auto
qed

lemma deep_eq_VMapI:
  assumes "gomap_ok m" and "gomap_ok n" and "\<And>k. rel_option deep_eq (golookup m k) (golookup n k)"
  shows "deep_eq (VMap m) (VMap n)"
proof -
  have "k \<in> set (gokeys m) \<longleftrightarrow> k \<in> set (gokeys n)" for k
    using assms(3) [of k] unfolding gohas_iff [symmetric] gohas_def
    by (cases "golookup m k"; cases "golookup n k") simp_all
  then have "set (gokeys m) = set (gokeys n)" by blast
  then have "length m = length n"
    using assms(1,2) unfolding gomap_ok_def gokeys_def by (metis distinct_card length_map)
  moreover have "\<exists>w. golookup n k = Some w \<and> deep_eq v w" if "(k, v) \<in> set m" for k v
    using assms(3) [of k] that assms(1) by (simp add: golookup_in_set [symmetric] option_rel_Some1)
  ultimately show ?thesis by (fastforce simp: list_all_iff)
qed

lemma deep_eq_gostore:
  assumes "deep_eq (VMap (godelete k m)) (VMap (godelete k n))" and "gomap_ok m" and "gomap_ok n" and "deep_eq v w"
  shows "deep_eq (VMap (gostore k v m)) (VMap (gostore k w n))"
proof (rule deep_eq_VMapI)
  fix j
  have "rel_option deep_eq (golookup (godelete k m) j) (golookup (godelete k n) j)"
    using assms(1-3) by (intro deep_eq_rel_option) simp_all
  then show "rel_option deep_eq (golookup (gostore k v m) j) (golookup (gostore k w n) j)"
    using assms(4) by (auto simp: AList.delete_conv' split: if_splits)
qed (use assms in simp_all)

lemma json_plain_value_ok: "json_plain canon v \<Longrightarrow> value_ok v"
  by (induction v) (auto simp: list_all_iff)

section \<open>The hierarchy\<close>

fun tree_plain :: "(string \<Rightarrow> string option) \<Rightarrow> tree \<Rightarrow> bool" where
  "tree_plain canon (Tree cs tv) \<longleftrightarrow>
     json_plain canon tv \<and> gomap_ok cs \<and> list_all (\<lambda>(k, c). tree_plain canon c) cs"

lemma tree_plain_empty [simp]: "tree_plain canon empty_tree"
  by (simp add: empty_tree_def)

lemma tree_plain_child_of:
  "list_all (\<lambda>(k, c). tree_plain canon c) cs \<Longrightarrow> tree_plain canon (child_of cs p)"
  by (auto simp: child_of_def list_all_iff dest: map_of_SomeD split: option.splits)

lemma tree_plain_insert_put:
  "tree_plain canon t \<Longrightarrow> json_plain canon v \<Longrightarrow> tree_plain canon (tree_insert ps v t)"
  "tree_plain canon t \<Longrightarrow> json_plain canon v \<Longrightarrow> tree_plain canon (tree_put v t)"
proof (induction ps v t and v t rule: tree_insert_tree_put.induct)
  case (2 p ps v cs tv)
  have c: "tree_plain canon (child_of cs p)"
    using "2.prems"(1) by (intro tree_plain_child_of) simp
  then have "tree_plain canon (if ps = [] then tree_put v (child_of cs p) else tree_insert ps v (child_of cs p))"
    using "2.IH" "2.prems"(2) by auto
  with "2.prems"(1) show ?case
    by (auto simp: Let_def list_all_iff dest!: set_gostore)
next
  case (3 obj t)
  have "tree_plain canon (fold (\<lambda>(k, v). tree_insert [k] v) xs t)"
    if "set xs \<subseteq> set obj" "tree_plain canon t" for xs t
    using that
  proof (induction xs arbitrary: t)
    case (Cons x xs)
    obtain k w where x: "x = (k, w)" by fastforce
    then have kw: "(k, w) \<in> set obj" using Cons.prems(1) by simp
    then have "json_plain canon w" using "3.prems"(2) by (auto simp: list_all_iff)
    then have "tree_plain canon (tree_insert [k] w t)"
      using "3.IH" [OF kw refl Cons.prems(2)] by blast
    then show ?case using Cons.IH Cons.prems(1) x by simp
  qed simp
  with "3.prems" show ?case by simp
next
  case (4 obj t)
  have "tree_plain canon (fold (\<lambda>(k, v). tree_insert [Itoa k] v) xs t)"
    if "set xs \<subseteq> set (enumerate 0 obj)" "tree_plain canon t" for xs t
    using that
  proof (induction xs arbitrary: t)
    case (Cons x xs)
    obtain k w where x: "x = (k, w)" by fastforce
    then have kw: "(k, w) \<in> set (enumerate 0 obj)" using Cons.prems(1) by simp
    then have "w \<in> set obj" by (auto simp: in_set_enumerate_eq)
    then have "json_plain canon w" using "4.prems"(2) by (simp add: list_all_iff)
    then have "tree_plain canon (tree_insert [Itoa k] w t)"
      using "4.IH" [OF kw refl Cons.prems(2)] by blast
    then show ?case using Cons.IH Cons.prems(1) x by simp
  qed simp
  with "4.prems" show ?case by simp
qed auto

lemma tree_plain_insert_all:
  "tree_plain canon t \<Longrightarrow> \<forall>(ps, v) \<in> set kvs. json_plain canon v \<Longrightarrow> tree_plain canon (insert_all kvs t)"
  unfolding insert_all_def
  by (induction kvs arbitrary: t) (auto simp: tree_plain_insert_put)

lemma unflatten_plain: "tree_plain canon t \<Longrightarrow> unflatten t = Ok v \<Longrightarrow> json_plain canon v"
proof (induction t arbitrary: v)
  case (Tree cs tv)
  let ?rs = "map (\<lambda>(k, c). (k, unflatten c)) cs"
  have child: "json_plain canon x" if "Ok x \<in> snd ` set ?rs" for x
  proof -
    from that obtain k c where kc: "(k, c) \<in> set cs" "unflatten c = Ok x" by force
    then show ?thesis using Tree.IH [of "(k, c)" c x] Tree.prems(1) by (auto simp: list_all_iff)
  qed
  show ?case
  proof (cases "cs = []")
    case True
    then show ?thesis using Tree.prems by simp
  next
    case False
    then have a: "assemble ?rs = Ok v" using Tree.prems(2) by simp
    show ?thesis
    proof (cases "fill_array (length ?rs) ?rs (replicate (length ?rs) None)")
      case (Some arr)
      then obtain vs where vs: "res_list slot_result arr = Ok vs" "v = VList vs"
        using a by (auto simp: assemble_def res_map_def)
      have "json_plain canon x" if "x \<in> set vs" for x
      proof -
        have "Some (Ok x) \<in> set arr" using slot_results_Ok [OF vs(1)] that by simp
        then show ?thesis using fill_array_members [OF Some] child by blast
      qed
      then show ?thesis by (simp add: vs(2) list_all_iff)
    next
      case None
      then obtain m where m: "res_list pair_result ?rs = Ok m" "v = VMap m"
        using a by (auto simp: assemble_def res_map_def)
      have "gomap_ok m"
        using pair_results_keys [OF m(1)] Tree.prems(1) by (simp add: gomap_ok_def gokeys_def case_prod_unfold comp_def)
      moreover have "json_plain canon x" if "golookup m k = Some x" for k x
      proof -
        have "golookup ?rs k = Some (Ok x)" using pair_results_lookup [OF m(1), of k] that by simp
        then have "(k, Ok x) \<in> set ?rs" by (rule map_of_SomeD)
        then show ?thesis using child by force
      qed
      ultimately show ?thesis unfolding m(2) json_plain_VMap by blast
    qed
  qed
qed

lemma build_plain:
  assumes "tree_plain canon t" and "build t = Ok m"
  shows "json_plain canon (VMap m)"
proof -
  let ?rs = "map (\<lambda>(k, c). (k, unflatten c)) (children t)"
  have m: "res_list pair_result ?rs = Ok m" using assms(2) by (simp add: build_def)
  have t: "gomap_ok (children t)" "\<forall>(k, c) \<in> set (children t). tree_plain canon c"
    using assms(1) by (cases t; auto simp: list_all_iff)+
  have "gomap_ok m"
    using pair_results_keys [OF m] t(1) by (simp add: gomap_ok_def gokeys_def case_prod_unfold comp_def)
  moreover have "json_plain canon x" if "golookup m k = Some x" for k x
  proof -
    have "golookup ?rs k = Some (Ok x)" using pair_results_lookup [OF m, of k] that by simp
    then have "(k, Ok x) \<in> set ?rs" by (rule map_of_SomeD)
    then obtain c where "(k, c) \<in> set (children t)" "unflatten c = Ok x" by auto
    then show ?thesis using t(2) unflatten_plain by blast
  qed
  ultimately show ?thesis unfolding json_plain_VMap by blast
qed

section \<open>Settings\<close>

lemma setting_value_plain:
  assumes "canon_ok canon" and "cd = go_codec canon ym yu yu2"
  shows "json_plain canon (setting_value cd isJson v)"
  using json_decode_plain [OF assms(1)]
  by (auto simp: assms(2) setting_value_def go_codec_def split: option.splits res.splits)

lemma parsed_settings_plain:
  assumes "\<forall>(k, v) \<in> set kvs. json_plain canon v" and "parsed_settings kvs sep = Ok parsed"
  shows "json_plain canon (VMap parsed)"
proof (cases sep)
  case None
  then have "parsed = gostore_all kvs []" using assms(2) by (simp add: parsed_settings_def)
  then show ?thesis using assms(1) set_gostore_all [of _ _ kvs] by (auto simp: list_all_iff)
next
  case (Some s)
  then have "build (insert_all (map (\<lambda>(k, v). (Split k s, v)) kvs) empty_tree) = Ok parsed"
    using assms(2) by (simp add: parsed_settings_def)
  then show ?thesis
    using assms(1) by (intro build_plain [OF tree_plain_insert_all]) auto
qed

text \<open>Reading a JSON document that was encoded, and what is left when its flags are taken out.\<close>

lemma unmarshal_encoded:
  assumes "canon_ok canon" and "json_plain canon (VMap doc)" and "do_Type opts = Json"
    and "golookup existing (do_Key opts) = Some (json_encode (VMap doc))"
    and "unmarshalConfigMap (go_codec canon ym yu yu2) existing (Some opts) = Ok (flags, rest)"
  shows "json_plain canon (VMap flags)" and "json_plain canon (VMap rest)"
    and "deep_eq (VMap (godelete FeatureManagementSectionName doc)) (VMap rest)"
    and "\<And>old. golookup doc FeatureManagementSectionName = Some (VMap old) \<Longrightarrow> deep_eq (VMap old) (VMap flags)"
proof -
  obtain n where n: "key_ordered (VMap doc) = VMap n" by simp
  have dec: "json_decode canon (json_encode (VMap doc)) = Ok (VMap n)"
    using json_decode_encode [OF assms(2)] n by simp
  have pn: "json_plain canon (VMap n)" using json_decode_plain [OF assms(1) dec] .
  have eq: "deep_eq (VMap doc) (VMap n)" using deep_eq_key_ordered [OF assms(2)] unfolding n .
  have ok: "gomap_ok doc" "gomap_ok n" using assms(2) pn by auto
  have f: "golookup n FeatureManagementSectionName = Some (VMap flags)"
    and r: "rest = godelete FeatureManagementSectionName n"
    using assms(3-5) dec
    by (auto simp: unmarshalConfigMap_def go_codec_def Let_def split: option.splits go_value.splits)
  show "json_plain canon (VMap flags)" using json_plain_lookup [OF pn f] .
  show "json_plain canon (VMap rest)" unfolding r using pn by (rule json_plain_godelete)
  show "deep_eq (VMap (godelete FeatureManagementSectionName doc)) (VMap rest)"
    unfolding r using eq ok by (rule deep_eq_godelete)
  show "deep_eq (VMap old) (VMap flags)"
    if "golookup doc FeatureManagementSectionName = Some (VMap old)" for old
    using deep_eq_lookup [OF eq ok(1) that] f by auto
qed

lemma godelete_gostore: "godelete k (gostore k v m) = godelete k m"
  by (induction m) auto

lemma godelete_idem: "godelete k (godelete k m) = godelete k m"
  by (simp add: AList.delete_eq)

end
