(* ===== verification/Loader_Refresh.thy ===== *)
theory Loader_Refresh
  imports Setting_Loader Store_Access Rendered_Documents
begin

text \<open>
  What the loader gives its caller: precedence of key-values and feature flags, the two partial
  refreshes and the sentinel check, with the instances that show the statements apply.
\<close>

section \<open>Requests to one store\<close>

definition builds_all :: "(az_client \<Rightarrow> bool) \<Rightarrow> 'k loader_ctx \<Rightarrow> bool" where
  "builds_all P lc \<longleftrightarrow> (\<forall>n. builds P (ce_env (lc_calls lc n)))"

text \<open>A loader whose clients all satisfy the predicate, without an injected client.\<close>

definition connected :: "(az_client \<Rightarrow> bool) \<Rightarrow> loader \<Rightarrow> bool" where
  "connected P l \<longleftrightarrow> holds P (ldr_Manager l) \<and> ldr_SettingsClient l = None"

lemma builds_all_True: "builds_all (\<lambda>_. True) lc"
  by (simp add: builds_all_def builds_def)

lemma execute_provider: "ldr_Provider (fst (execute lc sc l)) = ldr_Provider l"
  using ExecuteFailoverPolicy_in_store [of "\<lambda>_. True" "lc_calls lc (ldr_calls l)" "l\<lparr> ldr_calls := Suc (ldr_calls l) \<rparr>"]
    builds_all_True [of lc]
  by (simp add: execute_def in_store_def builds_all_def)

lemma execute_answer:
  assumes "builds_all P lc" and "connected P l" and "execute lc sc l = (l', Ok resp)"
  shows "connected P l'" and "\<exists>c. P c \<and> GetSettings (lc_codec lc) sc c = Ok resp"
proof -
  let ?ce = "lc_calls lc (ldr_calls l)" and ?l = "l\<lparr> ldr_calls := Suc (ldr_calls l) \<rparr>"
  have e: "ExecuteFailoverPolicy ?ce (GetSettings (lc_codec lc) sc) ?l = (l', Ok resp)"
    using assms(2,3) by (simp add: execute_def connected_def)
  have b: "builds P (ce_env ?ce)" and h: "holds P (ldr_Manager ?l)"
    using assms(1,2) by (simp_all add: builds_all_def connected_def)
  show "connected P l'"
    using ExecuteFailoverPolicy_in_store [OF b, of ?l "GetSettings (lc_codec lc) sc"] e assms(2)
    by (simp add: in_store_def connected_def)
  show "\<exists>c. P c \<and> GetSettings (lc_codec lc) sc c = Ok resp"
    by (rule ExecuteFailoverPolicy_answer [OF b h e])
qed

section \<open>Sentinels\<close>

text \<open>
  The contract of the service for single settings: \<open>v key label\<close> is the ETag of a setting
  that exists.  A missing one is status 404, one whose ETag equals the condition status 304
  with an empty setting, and otherwise the setting comes with its ETag.
\<close>

definition serves_sentinels :: "(string \<Rightarrow> string option \<Rightarrow> etag option) \<Rightarrow> az_client \<Rightarrow> bool" where
  "serves_sentinels v client \<longleftrightarrow>
     (\<forall>key label cond.
        case v key label of
          None \<Rightarrow> \<exists>s h. GetSetting client key label cond = (s, Some (ResponseError 404 h))
        | Some e \<Rightarrow>
            if cond = Some e
            then \<exists>s h. GetSetting client key label cond = (s, Some (ResponseError 304 h)) \<and> set_ETag s = None
            else \<exists>s. GetSetting client key label cond = (s, None) \<and> set_ETag s = Some e)"

text \<open>The ETag recorded for a sentinel after the check.\<close>

definition latest_etag ::
    "(string \<Rightarrow> string option \<Rightarrow> etag option) \<Rightarrow> Sentinel \<Rightarrow> etag option \<Rightarrow> etag option" where
  "latest_etag v s current =
     (case v (sen_Key s) (map_option snd (sen_Label s)) of None \<Rightarrow> current | Some e \<Rightarrow> Some e)"

lemma sentinel_answer:
  assumes "serves_sentinels v client"
    and "GetSettings cd (SentinelSettingsClient s cur interval) client = Ok resp"
  shows "if latest_etag v s cur = cur
    then resp = None \<or> (\<exists>st. resp = Some \<lparr> rsp_Settings = Some [st], rsp_Etags = None \<rparr> \<and> set_ETag st = None)
    else \<exists>st. resp = Some \<lparr> rsp_Settings = Some [st], rsp_Etags = None \<rparr> \<and> set_ETag st = latest_etag v s cur"
proof -
  have "case v (sen_Key s) (map_option snd (sen_Label s)) of
          None \<Rightarrow> \<exists>st h. GetSetting client (sen_Key s) (map_option snd (sen_Label s)) cur = (st, Some (ResponseError 404 h))
        | Some e \<Rightarrow>
            if cur = Some e
            then \<exists>st h. GetSetting client (sen_Key s) (map_option snd (sen_Label s)) cur = (st, Some (ResponseError 304 h)) \<and> set_ETag st = None
            else \<exists>st. GetSetting client (sen_Key s) (map_option snd (sen_Label s)) cur = (st, None) \<and> set_ETag st = Some e"
    using assms(1) unfolding serves_sentinels_def by blast
  then show ?thesis
    using assms(2)
    by (auto simp: GetSettings_def sentinel_GetSettings_def latest_etag_def split: option.splits if_splits)
qed

lemma sentinel_loop_exact:
  assumes "builds_all (serves_sentinels v) lc"
  shows "connected (serves_sentinels v) l \<Longrightarrow>
    sentinel_loop lc interval eTags changed refreshed l = (l', Ok (ch, re)) \<Longrightarrow>
    ch = (changed \<or> (\<exists>(s, e) \<in> set eTags. latest_etag v s e \<noteq> e)) \<and>
    re = gostore_all (map (\<lambda>(s, e). (s, latest_etag v s e)) eTags) refreshed"
proof (induction eTags arbitrary: changed refreshed l)
  case Nil
  then show ?case by (simp add: gostore_all_def)
next
  case (Cons x eTags)
  obtain s e where x: "x = (s, e)" by fastforce
  obtain l1 resp where ex: "execute lc (SentinelSettingsClient s e interval) l = (l1, Ok resp)"
    using Cons.prems(2) unfolding x by (auto simp: act_bind_eq_Ok)
  note conn = execute_answer(1) [OF assms Cons.prems(1) ex]
  obtain c where c: "serves_sentinels v c" "GetSettings (lc_codec lc) (SentinelSettingsClient s e interval) c = Ok resp"
    using execute_answer(2) [OF assms Cons.prems(1) ex] by blast
  note ans = sentinel_answer [OF c]
  show ?case
  proof (cases "latest_etag v s e = e")
    case True
    have "sentinel_loop lc interval eTags changed (gostore s e refreshed) l1 = (l', Ok (ch, re))"
      using Cons.prems(2) ex ans True unfolding x by (auto simp: act_bind_def)
    from Cons.IH [OF conn this] True show ?thesis by (simp add: x gostore_all_def)
  next
    case False
    then obtain st where st: "resp = Some \<lparr> rsp_Settings = Some [st], rsp_Etags = None \<rparr>" "set_ETag st = latest_etag v s e"
      using ans by auto
    obtain y where y: "latest_etag v s e = Some y"
      using False by (cases "v (sen_Key s) (map_option snd (sen_Label s))") (auto simp: latest_etag_def)
    have "sentinel_loop lc interval eTags True (gostore s (Some y) refreshed) l1 = (l', Ok (ch, re))"
      using Cons.prems(2) ex st y unfolding x by (simp add: act_bind_def)
    from Cons.IH [OF conn this] False y show ?thesis by (simp add: x gostore_all_def)
  qed
qed

section \<open>Documents of the partial refreshes\<close>

lemma populateTelemetryMetadata_plain:
  assumes "json_plain canon (VMap flag)" and "populateTelemetryMetadata flag setting endpoint = Ok out"
  shows "json_plain canon (VMap out)"
proof (cases "out = flag")
  case False
  then obtain telemetry etag where t: "golookup flag ''telemetry'' = Some (VMap telemetry)"
    and o: "out = gostore ''telemetry'' (VMap (gostore ''metadata''
        (VMap (gostore ''FeatureFlagReference'' (VStr (generateFeatureFlagReference setting endpoint))
           (gostore ''ETag'' (VStr etag) (case golookup telemetry ''metadata'' of Some (VMap md) \<Rightarrow> md | _ \<Rightarrow> []))))
        telemetry)) flag"
    using assms(2)
    by (auto simp: populateTelemetryMetadata_def Let_def split: option.splits go_value.splits if_splits)
  have p: "json_plain canon (VMap telemetry)" using json_plain_lookup [OF assms(1) t] .
  have "json_plain canon (VMap (case golookup telemetry ''metadata'' of Some (VMap md) \<Rightarrow> md | _ \<Rightarrow> []))"
    using json_plain_lookup [OF p, of "''metadata''"]
    by (auto simp: gomap_ok_def gokeys_def split: option.splits go_value.splits)
  then show ?thesis
    unfolding o by (intro json_plain_gostore assms(1) p) simp_all
qed (use assms(1) in simp)

lemma feature_flag_value_plain:
  assumes "canon_ok canon" and "feature_flag_value (go_codec canon ym yu yu2) endpoint s = Ok v"
  shows "json_plain canon v"
proof -
  obtain t out where t: "json_decode canon t = Ok out"
      "(case as_object out of Ok None \<Rightarrow> v = VNil
        | Ok (Some flag) \<Rightarrow> \<exists>f. populateTelemetryMetadata flag s endpoint = Ok f \<and> v = VMap f | _ \<Rightarrow> False)"
    using assms(2)
    by (auto simp: feature_flag_value_def go_codec_def res_map_def wrap_error_Ok split: option.splits)
  then show ?thesis
    using json_decode_plain [OF assms(1) t(1)] populateTelemetryMetadata_plain
    by (cases out) (auto simp del: json_plain.simps split: option.splits)
qed

lemma getFeatureFlagSettings_Ok:
  assumes "getFeatureFlagSettings lc l = (l', Ok (section, etags))"
  shows "\<exists>resp w ws flags.
      execute lc (SelectorSettingsClient (GetFeatureFlagFilters (pv_Spec (ldr_Provider l)))) l = (l', Ok (Some resp))
    \<and> cm_StaticClientWrappers (ldr_Manager l') = w # ws
    \<and> res_list (feature_flag_value (lc_codec lc) (cw_Endpoint w)) (keep_last same_flag (slice (rsp_Settings resp))) = Ok flags
    \<and> section = [(FeatureFlagSectionName, VList flags)] \<and> etags = rsp_Etags resp"
proof -
  obtain l1 response where e: "execute lc (SelectorSettingsClient (GetFeatureFlagFilters (pv_Spec (ldr_Provider l)))) l
      = (l1, Ok response)"
    and rest: "act_bind (act_lift (deref response)) (\<lambda>resp.
     act_bind (\<lambda>l. (l, case cm_StaticClientWrappers (ldr_Manager l) of
                         [] \<Rightarrow> Panic ''index out of range''
                       | w # _ \<Rightarrow> Ok (cw_Endpoint w))) (\<lambda>clientEndpoint.
     act_bind (act_lift (feature_flag_loop (lc_codec lc) clientEndpoint (slice (rsp_Settings resp))
         (length (slice (rsp_Settings resp))) [] [])) (\<lambda>flags.
     act_return ([(FeatureFlagSectionName, VList (swap_loop flags 0 (length flags - 1)))], rsp_Etags resp)))) l1
      = (l', Ok (section, etags))"
    using assms unfolding getFeatureFlagSettings_def act_bind_get act_bind_eq_Ok by blast
  obtain resp where r: "response = Some resp"
    using rest by (cases response) (simp_all add: deref_def act_bind_lift)
  obtain w ws where w: "cm_StaticClientWrappers (ldr_Manager l1) = w # ws"
    using rest r by (cases "cm_StaticClientWrappers (ldr_Manager l1)") (simp_all add: deref_def act_bind_def)
  obtain out where f: "feature_flag_loop (lc_codec lc) (cw_Endpoint w) (slice (rsp_Settings resp))
      (length (slice (rsp_Settings resp))) [] [] = Ok out"
    and o: "l' = l1" "section = [(FeatureFlagSectionName, VList (rev out))]" "etags = rsp_Etags resp"
    using rest r w
    by (cases "feature_flag_loop (lc_codec lc) (cw_Endpoint w) (slice (rsp_Settings resp))
        (length (slice (rsp_Settings resp))) [] []") (simp_all add: deref_def act_bind_def swap_loop_flags [simplified])
  show ?thesis
    using e r w o feature_flag_loop_keep_last [OF f] by blast
qed

lemma feature_flag_section_plain:
  assumes "canon_ok canon" and "lc_codec lc = go_codec canon ym yu yu2"
    and "getFeatureFlagSettings lc l = (l', Ok (section, etags))"
  shows "json_plain canon (VMap section)"
proof -
  obtain endpoint ss flags where f: "res_list (feature_flag_value (go_codec canon ym yu yu2) endpoint) ss = Ok flags"
      "section = [(FeatureFlagSectionName, VList flags)]"
    using getFeatureFlagSettings_Ok [OF assms(3)] unfolding assms(2) by blast
  have "list_all (json_plain canon) flags"
    using f(1) feature_flag_value_plain [OF assms(1)]
    by (auto simp: res_list_eq_Ok list_all2_conv_all_nth list_all_length)
  then show ?thesis by (simp add: f(2) gomap_ok_def gokeys_def)
qed

text \<open>Reading a document that was written with a section of feature flags.\<close>

lemma unmarshal_written:
  assumes "canon_ok canon" and "json_plain canon (VMap doc)" and "do_Type opts = Json"
    and "golookup existing (do_Key opts) = Some (json_encode (VMap doc))"
    and "golookup doc FeatureManagementSectionName = Some (VMap old)"
  shows "\<exists>flags rest. unmarshalConfigMap (go_codec canon ym yu yu2) existing (Some opts) = Ok (flags, rest)
    \<and> json_plain canon (VMap flags) \<and> json_plain canon (VMap rest) \<and> deep_eq (VMap old) (VMap flags)
    \<and> deep_eq (VMap (godelete FeatureManagementSectionName doc)) (VMap rest)
    \<and> godelete FeatureManagementSectionName rest = rest"
proof -
  obtain n where n: "key_ordered (VMap doc) = VMap n" by simp
  have dec: "json_decode canon (json_encode (VMap doc)) = Ok (VMap n)"
    using json_decode_encode [OF assms(2)] n by simp
  have "deep_eq (VMap doc) (VMap n)" using deep_eq_key_ordered [OF assms(2)] unfolding n .
  from deep_eq_lookup [OF this _ assms(5)] obtain w where
    "golookup n FeatureManagementSectionName = Some w" "deep_eq (VMap old) w"
    using assms(2) by auto
  then obtain flags where "golookup n FeatureManagementSectionName = Some (VMap flags)"
    using deep_eq_VMap_left [of old w] by blast
  then have u: "unmarshalConfigMap (go_codec canon ym yu yu2) existing (Some opts)
      = Ok (flags, godelete FeatureManagementSectionName n)"
    using assms(3,4) dec by (simp add: unmarshalConfigMap_def go_codec_def)
  note e = unmarshal_encoded [OF assms(1-4) u]
  show ?thesis
    by (intro exI conjI) (rule u e(1) e(2) e(4) [OF assms(5)] e(3) godelete_idem)+
qed

text \<open>What is read from a written document.\<close>

definition document_of :: "(string \<Rightarrow> string option) \<Rightarrow> string \<Rightarrow> object \<Rightarrow> bool" where
  "document_of canon s doc \<longleftrightarrow> (\<exists>m. json_decode canon s = Ok (VMap m) \<and> deep_eq (VMap doc) (VMap m))"

lemma document_of_encode: "json_plain canon (VMap doc) \<Longrightarrow> document_of canon (json_encode (VMap doc)) doc"
  using json_decode_encode [of canon "VMap doc"] deep_eq_key_ordered [of canon "VMap doc"]
  by (auto simp: document_of_def simp del: json_plain.simps deep_eq.simps)

lemma document_of_deep_eq:
  "document_of canon s doc \<Longrightarrow> deep_eq (VMap doc') (VMap doc) \<Longrightarrow> document_of canon s doc'"
  unfolding document_of_def using deep_eq_trans by blast

section \<open>Properties\<close>

lemma map_of_rev_distinct: "distinct (map fst xs) \<Longrightarrow> map_of (rev xs) = map_of xs"
  using map_of_inject_set [of "rev xs" xs] by (simp add: rev_map [symmetric])

lemma golookup_gostore_all_empty: "golookup (gostore_all kvs []) k = map_of (rev kvs) k"
  by (simp add: golookup_gostore_all split: option.split)

text \<open>
  C8. The last key-value wins, and a snapshot reference stands for the snapshot's settings at its
  position.  When the key-values are loaded, a key has the value of the last setting of the
  answer with that trimmed key, where every snapshot reference is replaced by the settings
  of its snapshot; feature flags, Key Vault references and keys trimmed to nothing never
  become key-values.  All snapshots are read from the first client that is listed after the
  key-values came, and each of them could be loaded.
\<close>

theorem key_values_last_wins:
  assumes "CreateKeyValueSettings lc resolver l = (l', Ok raw)"
    and "execute lc (SelectorSettingsClient (GetKeyValueFilters (pv_Spec (ldr_Provider l)))) l = (l1, Ok (Some resp))"
    and "pfx = kvo_TrimKeyPrefixes (spec_Configuration (pv_Spec (ldr_Provider l)))"
  shows "\<exists>client.
    (\<forall>s \<in> set (slice (rsp_Settings resp)). is_snapshot_reference pfx s \<longrightarrow>
       first_client lc l1 = Some client \<and> snapshot_loads (lc_codec lc) client s)
  \<and> (\<forall>k. golookup (rw_KeyValueSettings raw) k =
       map_of (rev (concat (map (setting_entries (lc_codec lc) pfx client) (slice (rsp_Settings resp))))) k)"
proof -
  let ?spec = "pv_Spec (ldr_Provider l)"
  let ?st = "\<lparr> ps_loader = l1, ps_raw = initial_raw ?spec (rsp_Etags resp), ps_resolver = resolver,
      ps_snapshotClient = None, ps_useAI = False, ps_useAIChat = False \<rparr>"
  obtain l2 st where st: "run_process lc (slice (rsp_Settings resp)) (initial_raw ?spec (rsp_Etags resp)) resolver l1 = (l2, Ok st)"
    and kv: "rw_KeyValueSettings raw = rw_KeyValueSettings (ps_raw st)"
    using assms(1,2) by (auto simp: CreateKeyValueSettings_def act_bind_eq_Ok deref_def)
  obtain st' r where "processSettings lc (slice (rsp_Settings resp)) ?st = (st', r)" by fastforce
  with st have p: "processSettings lc (slice (rsp_Settings resp)) ?st = (st, Ok ())"
    by (cases r) (simp_all add: run_process_def)
  have pfx: "pfx = kvo_TrimKeyPrefixes (spec_Configuration (pv_Spec (ldr_Provider (ps_loader ?st))))"
    using assms(2,3) execute_provider [of lc "SelectorSettingsClient (GetKeyValueFilters ?spec)" l] by simp
  have "rw_KeyValueSettings (ps_raw ?st) = []"
    by (simp add: initial_raw_def empty_raw_def split: option.split)
  then obtain c where "rw_KeyValueSettings raw =
      gostore_all (concat (map (setting_entries (lc_codec lc) pfx c) (slice (rsp_Settings resp)))) []"
    "\<forall>s \<in> set (slice (rsp_Settings resp)). is_snapshot_reference pfx s \<longrightarrow>
       first_client lc l1 = Some c \<and> snapshot_loads (lc_codec lc) c s"
    using process_entries [OF p pfx] kv by auto
  then show ?thesis by (intro exI [of _ c]) (simp add: golookup_gostore_all_empty)
qed

text \<open>
  C9. The last feature flag with a key wins and the order is kept.  With an answer whose
  settings have keys, getting the feature flags succeeds exactly when every flag that is
  last with its key can be read, and gives these flags in the order of the answer.
\<close>

theorem feature_flags_last_wins:
  assumes "execute lc (SelectorSettingsClient (GetFeatureFlagFilters (pv_Spec (ldr_Provider l)))) l = (l1, Ok (Some resp))"
    and "\<forall>s \<in> set (slice (rsp_Settings resp)). set_Key s \<noteq> None"
    and "cm_StaticClientWrappers (ldr_Manager l1) = w # ws"
  shows "getFeatureFlagSettings lc l = (l1, Ok (section, etags)) \<longleftrightarrow>
    (\<exists>flags. res_list (feature_flag_value (lc_codec lc) (cw_Endpoint w))
        (keep_last same_flag (slice (rsp_Settings resp))) = Ok flags
      \<and> section = [(FeatureFlagSectionName, VList flags)] \<and> etags = rsp_Etags resp)"
    (is "?lhs \<longleftrightarrow> ?rhs")
proof
  assume ?lhs
  from getFeatureFlagSettings_Ok [OF this] assms(1,3) show ?rhs by auto
next
  let ?ss = "slice (rsp_Settings resp)"
  assume ?rhs
  then obtain flags where f: "res_list (feature_flag_value (lc_codec lc) (cw_Endpoint w)) (keep_last same_flag ?ss) = Ok flags"
      "section = [(FeatureFlagSectionName, VList flags)]" "etags = rsp_Etags resp" by blast
  have "dedup_loop same_flag ?ss (length ?ss) [] = rev (keep_last same_flag ?ss)"
    using flags.dedup_loop_keep_last [of ?ss] by (metis rev_rev_ident)
  then have "res_list (feature_flag_value (lc_codec lc) (cw_Endpoint w)) (dedup_loop same_flag ?ss (length ?ss) []) = Ok (rev flags)"
    using res_list_rev [OF f(1)] by simp
  from feature_flag_loop_complete [OF order_refl assms(2) this]
  have "feature_flag_loop (lc_codec lc) (cw_Endpoint w) ?ss (length ?ss) [] [] = Ok (rev flags)" by simp
  then show ?lhs
    using assms(1,3) f(2,3) by (simp add: getFeatureFlagSettings_def act_bind_def deref_def swap_loop_flags [simplified])
qed

text \<open>The document of a feature flag refresh: the old one with its section replaced.\<close>

lemma flags_refreshed:
  assumes "canon_ok canon" and "lc_codec lc = go_codec canon ym yu yu2"
    and "ct_ConfigMapData (spec_Target (pv_Spec (ldr_Provider l))) = Some opts" and "do_Type opts = Json"
    and "golookup existing (do_Key opts) = Some (json_encode (VMap doc))" and "json_plain canon (VMap doc)"
    and "golookup doc FeatureManagementSectionName = Some (VMap old)"
    and "getFeatureFlagSettings lc l = (l', Ok (latest, etags))"
  obtains new where "RefreshFeatureFlagSettings lc existing l = (l', Ok (empty_target
      \<lparr> tg_ConfigMapSettings := Some [(do_Key opts, json_encode (VMap new))], tg_FeatureFlagETags := etags \<rparr>))"
    "json_plain canon (VMap new)" "golookup new FeatureManagementSectionName = Some (VMap latest)"
    "document_of canon (json_encode (VMap new)) (gostore FeatureManagementSectionName (VMap latest) doc)"
proof -
  let ?FM = "FeatureManagementSectionName"
  obtain flags rest where u: "unmarshalConfigMap (go_codec canon ym yu yu2) existing (Some opts) = Ok (flags, rest)"
    and rest: "json_plain canon (VMap rest)" "deep_eq (VMap (godelete ?FM doc)) (VMap rest)" "godelete ?FM rest = rest"
    using unmarshal_written [OF assms(1,6,4,5,7)] by blast
  have pv: "ldr_Provider l' = ldr_Provider l"
    using getFeatureFlagSettings_Ok [OF assms(8)] execute_provider
    by (metis fst_conv)
  have sec: "json_plain canon (VMap latest)" using feature_flag_section_plain [OF assms(1,2,8)] .
  let ?new = "gostore ?FM (VMap latest) rest"
  have new: "json_plain canon (VMap ?new)" using json_plain_gostore [OF rest(1) sec] .
  have ok: "gomap_ok doc" "gomap_ok rest" using assms(6) rest(1) by auto
  have "godelete ?FM rest = rest" using rest(3) by simp
  then have "deep_eq (VMap (gostore ?FM (VMap latest) doc)) (VMap ?new)"
    using deep_eq_gostore [of ?FM doc rest] rest(2) ok deep_eq_refl [OF json_plain_value_ok [OF sec]] by simp
  then have doc: "document_of canon (json_encode (VMap ?new)) (gostore ?FM (VMap latest) doc)"
    using document_of_encode [OF new] document_of_deep_eq by blast
  have "RefreshFeatureFlagSettings lc existing l = (l', Ok (empty_target
      \<lparr> tg_ConfigMapSettings := Some [(do_Key opts, json_encode (VMap ?new))], tg_FeatureFlagETags := etags \<rparr>))"
    using assms(2-4,8) pv u
    by (simp add: RefreshFeatureFlagSettings_def act_bind_def deref_def marshalJsonYaml_def go_codec_def)
  from this new _ doc show thesis by (rule that) simp
qed

text \<open>The document of a key-value refresh: the new hierarchy with the section that was there.\<close>

lemma key_values_refreshed:
  assumes "canon_ok canon" and "lc_codec lc = go_codec canon ym yu yu2"
    and "CreateKeyValueSettings lc resolver l = (l', Ok raw)" and "spec_FeatureFlag (pv_Spec (ldr_Provider l')) \<noteq> None"
    and "ct_ConfigMapData (spec_Target (pv_Spec (ldr_Provider l'))) = Some opts" and "do_Type opts = Json"
    and "golookup existing (do_Key opts) = Some (json_encode (VMap doc))" and "json_plain canon (VMap doc)"
    and "golookup doc FeatureManagementSectionName = Some (VMap old)"
    and "parsed_settings (map (\<lambda>(k, v). (k, setting_value (lc_codec lc) (is_json_key raw k) v)) (rw_KeyValueSettings raw))
           (do_Separator opts) = Ok parsed"
  obtains s where "RefreshKeyValueSettings lc existing resolver l = (l', Ok (empty_target
      \<lparr> tg_ConfigMapSettings := Some [(do_Key opts, s)], tg_SecretSettings := rw_SecretSettings raw,
        tg_K8sSecrets := rw_K8sSecrets raw, tg_KeyValueETags := rw_KeyValueETags raw \<rparr>))"
    "document_of canon s (gostore FeatureManagementSectionName (VMap old) parsed)"
proof -
  let ?FM = "FeatureManagementSectionName"
  obtain flags rest where u: "unmarshalConfigMap (go_codec canon ym yu yu2) existing (Some opts) = Ok (flags, rest)"
    and flags: "json_plain canon (VMap flags)" "deep_eq (VMap old) (VMap flags)"
    using unmarshal_written [OF assms(1,8,6,7,9)] by blast
  let ?raw = "raw\<lparr> rw_FeatureFlagSettings := Some flags \<rparr>" and ?new = "gostore ?FM (VMap flags) parsed"
  have parsed: "json_plain canon (VMap parsed)"
    using assms(10) setting_value_plain [OF assms(1,2)] by (intro parsed_settings_plain [OF _ assms(10)]) auto
  have new: "json_plain canon (VMap ?new)" using json_plain_gostore [OF parsed flags(1)] .
  have p: "gomap_ok parsed" and v: "value_ok (VMap (godelete ?FM parsed))"
    using parsed json_plain_value_ok [OF json_plain_godelete [OF parsed]] by auto
  have "deep_eq (VMap (gostore ?FM (VMap old) parsed)) (VMap ?new)"
    using deep_eq_gostore [OF deep_eq_refl [OF v] p p flags(2)] .
  then have doc: "document_of canon (json_encode (VMap ?new)) (gostore ?FM (VMap old) parsed)"
    using document_of_encode [OF new] document_of_deep_eq by blast
  have "createTypedSettings (lc_codec lc) ?raw (Some opts) = Ok [(do_Key opts, json_encode (VMap ?new))]"
    using createTypedSettings_doc [of opts ?raw flags "lc_codec lc" parsed] assms(2,6,10)
    by (simp add: is_json_key_def marshalJsonYaml_def go_codec_def)
  then have "RefreshKeyValueSettings lc existing resolver l = (l', Ok (empty_target
      \<lparr> tg_ConfigMapSettings := Some [(do_Key opts, json_encode (VMap ?new))], tg_SecretSettings := rw_SecretSettings raw,
        tg_K8sSecrets := rw_K8sSecrets raw, tg_KeyValueETags := rw_KeyValueETags raw \<rparr>))"
    using assms(2-5) u by (simp add: RefreshKeyValueSettings_def act_bind_def)
  from this doc show thesis by (rule that)
qed

text \<open>
  C12. Refreshing the feature flags leaves the other settings alone.  From a ConfigMap that holds
  a written JSON document with a feature flag section, the refresh with the latest flags
  succeeds, and the new data are one document that reads as the old one with only that
  section replaced.
\<close>

theorem feature_flag_refresh_keeps_settings:
  assumes "canon_ok canon" and "lc_codec lc = go_codec canon ym yu yu2"
    and "ct_ConfigMapData (spec_Target (pv_Spec (ldr_Provider l))) = Some opts" and "do_Type opts = Json"
    and "golookup existing (do_Key opts) = Some (json_encode (VMap doc))" and "json_plain canon (VMap doc)"
    and "golookup doc FeatureManagementSectionName = Some (VMap old)"
    and "getFeatureFlagSettings lc l = (l', Ok (latest, etags))"
  shows "\<exists>target s. RefreshFeatureFlagSettings lc existing l = (l', Ok target)
    \<and> tg_ConfigMapSettings target = Some [(do_Key opts, s)] \<and> tg_FeatureFlagETags target = etags
    \<and> document_of canon s (gostore FeatureManagementSectionName (VMap latest) doc)"
proof -
  obtain new where "RefreshFeatureFlagSettings lc existing l = (l', Ok (empty_target
      \<lparr> tg_ConfigMapSettings := Some [(do_Key opts, json_encode (VMap new))], tg_FeatureFlagETags := etags \<rparr>))"
    "document_of canon (json_encode (VMap new)) (gostore FeatureManagementSectionName (VMap latest) doc)"
    using flags_refreshed [OF assms] by metis
  then show ?thesis by simp
qed

text \<open>
  C13. Refreshing the key-values leaves the feature flags alone.  From a ConfigMap that holds a
  written JSON document with a feature flag section, once the key-values are loaded and
  their hierarchy can be built, the refresh succeeds, and the new document reads as the new
  hierarchy with the section that was there.
\<close>

theorem key_value_refresh_keeps_flags:
  assumes "canon_ok canon" and "lc_codec lc = go_codec canon ym yu yu2"
    and "CreateKeyValueSettings lc resolver l = (l', Ok raw)" and "spec_FeatureFlag (pv_Spec (ldr_Provider l')) \<noteq> None"
    and "ct_ConfigMapData (spec_Target (pv_Spec (ldr_Provider l'))) = Some opts" and "do_Type opts = Json"
    and "golookup existing (do_Key opts) = Some (json_encode (VMap doc))" and "json_plain canon (VMap doc)"
    and "golookup doc FeatureManagementSectionName = Some (VMap old)"
    and "parsed_settings (map (\<lambda>(k, v). (k, setting_value (lc_codec lc) (is_json_key raw k) v)) (rw_KeyValueSettings raw))
           (do_Separator opts) = Ok parsed"
  shows "\<exists>target s. RefreshKeyValueSettings lc existing resolver l = (l', Ok target)
    \<and> tg_ConfigMapSettings target = Some [(do_Key opts, s)] \<and> tg_KeyValueETags target = rw_KeyValueETags raw
    \<and> tg_SecretSettings target = rw_SecretSettings raw
    \<and> document_of canon s (gostore FeatureManagementSectionName (VMap old) parsed)"
proof -
  obtain s where "RefreshKeyValueSettings lc existing resolver l = (l', Ok (empty_target
      \<lparr> tg_ConfigMapSettings := Some [(do_Key opts, s)], tg_SecretSettings := rw_SecretSettings raw,
        tg_K8sSecrets := rw_K8sSecrets raw, tg_KeyValueETags := rw_KeyValueETags raw \<rparr>))"
    "document_of canon s (gostore FeatureManagementSectionName (VMap old) parsed)"
    using key_values_refreshed [OF assms] by metis
  then show ?thesis by simp
qed

text \<open>
  C21. The sentinel check is exact, whichever replica answers.  When all clients talk to one store
  that serves the sentinels, a check that returns says changed exactly when some sentinel
  exists with another ETag than recorded, and records for each sentinel the ETag of the
  store, or keeps the one it had when the sentinel does not exist.
\<close>

theorem sentinel_check_exact:
  assumes "builds_all (serves_sentinels v) lc" and "connected (serves_sentinels v) l" and "gomap_ok eTags"
    and "CheckAndRefreshSentinels lc provider eTags l = (l', Ok (changed, refreshed))"
  shows "(changed \<longleftrightarrow> (\<exists>(s, e) \<in> set eTags. latest_etag v s e \<noteq> e))
    \<and> golookup refreshed s = map_option (latest_etag v s) (golookup eTags s)"
proof -
  let ?out = "map (\<lambda>(s, e). (s, latest_etag v s e)) eTags"
  have r: "changed = (\<exists>(s, e) \<in> set eTags. latest_etag v s e \<noteq> e) \<and> refreshed = gostore_all ?out []"
  proof (cases "eTags = []")
    case True
    then show ?thesis using assms(4) by (simp add: CheckAndRefreshSentinels_def gostore_all_def)
  next
    case False
    then obtain interval where "sentinel_loop lc interval eTags False [] l = (l', Ok (changed, refreshed))"
      using assms(4) by (cases "kvo_Refresh (spec_Configuration (pv_Spec provider))")
        (auto simp: CheckAndRefreshSentinels_def deref_def act_bind_lift)
    from sentinel_loop_exact [OF assms(1,2) this] show ?thesis by simp
  qed
  have "distinct (map fst ?out)" using assms(3) by (simp add: gomap_ok_def gokeys_def case_prod_unfold comp_def)
  then have "map_of (rev ?out) s = map_of ?out s"
    by (simp only: map_of_rev_distinct)
  moreover have "map_of ?out s = map_option (latest_etag v s) (golookup eTags s)"
    by (induction eTags) auto
  ultimately show ?thesis
    using r by (simp add: golookup_gostore_all_empty)
qed

section \<open>Instances\<close>

definition test_loader ::
    "Provider \<Rightarrow> az_client \<Rightarrow> (az_client \<Rightarrow> SettingsResponse option res) option \<Rightarrow> loader" where
  "test_loader p c injected =
     sample_loader\<lparr> ldr_Provider := p, ldr_SettingsClient := injected,
       ldr_Manager := sample_manager\<lparr> cm_ReplicaDiscoveryEnabled := False, cm_DynamicClientWrappers := None,
         cm_StaticClientWrappers := [fresh_wrapper ''https://store.azconfig.io'' c] \<rparr> \<rparr>"

text \<open>Numbers are kept as they are written.\<close>

definition num_canon :: "string \<Rightarrow> string option" where
  "num_canon t = (if valid_number t then Some t else None)"

definition test_codec :: codec where
  "test_codec = go_codec num_canon (\<lambda>v. Ok []) (\<lambda>s. Ok VNil) (\<lambda>s. None)"

definition test_ctx :: "string loader_ctx" where
  "test_ctx = \<lparr> lc_codec = test_codec, lc_crypto = sample_crypto, lc_vault = sample_vault_env,
     lc_calls = (\<lambda>n. sample_call) \<rparr>"

lemma test_execute:
  assumes "(case injected of None \<Rightarrow> GetSettings test_codec sc | Some f \<Rightarrow> f) c = Ok resp"
  shows "\<exists>l1 w. execute test_ctx sc (test_loader p c injected) = (l1, Ok resp)
    \<and> cm_StaticClientWrappers (ldr_Manager l1) = [w] \<and> cw_Endpoint w = ''https://store.azconfig.io''
    \<and> cw_Client w = c \<and> ldr_Provider l1 = p \<and> ldr_SettingsClient l1 = injected
    \<and> cm_DynamicClientWrappers (ldr_Manager l1) = None"
  using assms
  by (simp add: execute_def test_ctx_def test_loader_def sample_loader_def sample_manager_def sample_call_def
      ExecuteFailoverPolicy_def act_bind_def get_clients_def GetClients_def ready_def fresh_wrapper_def
      try_clients_def client_order_def trace_attempt_def tracing_enabled_def sample_env_def wrapper_at_def
      mark_attempt_def mark_success_def update_wrapper_def updateClientBackoffStatus_def Let_def split: option.splits)

definition plain_setting :: "string \<Rightarrow> string \<Rightarrow> Setting" where
  "plain_setting k v = \<lparr> set_Key = Some k, set_Value = Some v, set_Label = None, set_ContentType = None,
     set_ETag = None, set_Tags = [] \<rparr>"

definition answers :: "Setting list \<Rightarrow> az_client \<Rightarrow> SettingsResponse option res" where
  "answers ss c = Ok (Some \<lparr> rsp_Settings = Some ss, rsp_Etags = Some [] \<rparr>)"

text \<open>Loading two settings with one key.\<close>

definition two_settings :: "Setting list" where
  "two_settings = [plain_setting ''a'' ''1'', plain_setting ''a'' ''2'']"

definition kv_loader :: "Provider \<Rightarrow> loader" where
  "kv_loader p = test_loader p silent_client (Some (answers two_settings))"

lemma kv_loader_provider [simp]: "ldr_Provider (kv_loader p) = p"
  by (simp add: kv_loader_def test_loader_def)

lemma kv_execute:
  "\<exists>l1. execute test_ctx sc (kv_loader p) = (l1, Ok (Some \<lparr> rsp_Settings = Some two_settings, rsp_Etags = Some [] \<rparr>))
    \<and> ldr_Provider l1 = p"
  using test_execute [where injected = "Some (answers two_settings)" and c = silent_client and sc = sc and p = p]
  by (auto simp: kv_loader_def answers_def)

definition json_provider :: Provider where
  "json_provider = sample_provider\<lparr> pv_Spec := sample_spec\<lparr> spec_Target :=
     \<lparr> ct_ConfigMapName = ''settings'', ct_ConfigMapData = Some sample_options \<rparr> \<rparr> \<rparr>"

lemma json_provider_spec:
  "spec_Secret (pv_Spec json_provider) = None"
  "kvo_TrimKeyPrefixes (spec_Configuration (pv_Spec json_provider)) = []"
  "ct_ConfigMapData (spec_Target (pv_Spec json_provider)) = Some sample_options"
  "spec_FeatureFlag (pv_Spec json_provider) \<noteq> None"
  by (simp_all add: json_provider_def sample_spec_def)

lemma test_resolver: "\<exists>r. new_resolver test_ctx (sample_env sample_srv) json_provider = Ok r"
  by (simp add: new_resolver_def test_ctx_def createSecretReferenceResolver_def createSecretClients_def
      CreateTokenCredential_def new_credential_def json_provider_def sample_spec_def res_map_def)
    (simp add: sample_env_def)

lemma test_load:
  "\<exists>l' raw. CreateKeyValueSettings test_ctx None (kv_loader json_provider) = (l', Ok raw)
    \<and> ldr_Provider l' = json_provider
    \<and> rw_KeyValueSettings raw = [(''a'', Some ''2'')] \<and> rw_IsJsonContentTypeMap raw = [(''a'', False)]"
proof -
  let ?sc = "SelectorSettingsClient (GetKeyValueFilters (pv_Spec json_provider))"
  obtain l1 where l1: "execute test_ctx ?sc (kv_loader json_provider)
      = (l1, Ok (Some \<lparr> rsp_Settings = Some two_settings, rsp_Etags = Some [] \<rparr>))" "ldr_Provider l1 = json_provider"
    using kv_execute by blast
  obtain r where r: "new_resolver test_ctx (sample_env sample_srv) json_provider = Ok r" using test_resolver by blast
  have env: "ce_env (lc_calls test_ctx n) = sample_env sample_srv" for n
    by (simp add: test_ctx_def sample_call_def)
  show ?thesis
    using l1 r
    by (simp add: CreateKeyValueSettings_def act_bind_def deref_def run_process_def processSettings_def
        process_setting_def two_settings_def plain_setting_def store_setting_def initial_raw_def
        empty_raw_def ResolveSecretReferences_def Let_def json_provider_spec env)
qed

text \<open>A setting that is replaced by the one of a snapshot, read from the client of the store.\<close>

definition snapshot_store :: az_client where
  "snapshot_store = silent_client\<lparr> GetSnapshot := (\<lambda>n. Ok (Some ''key'')),
     ListSnapshotSettings := (\<lambda>n. [Ok \<lparr> pg_Settings = Some [plain_setting ''a'' n], pg_ETag = None \<rparr>]) \<rparr>"

definition snapshot_reference :: Setting where
  "snapshot_reference = (plain_setting ''r'' ''{\"snapshot_name\":\"s\"}'')\<lparr> set_ContentType := Some SnapshotReferenceContentType \<rparr>"

definition snapshot_loader :: "Provider \<Rightarrow> loader" where
  "snapshot_loader p = test_loader p snapshot_store (Some (answers [plain_setting ''a'' ''1'', snapshot_reference]))"

lemma snapshot_execute:
  "\<exists>l1. execute test_ctx sc (snapshot_loader p)
      = (l1, Ok (Some \<lparr> rsp_Settings = Some [plain_setting ''a'' ''1'', snapshot_reference], rsp_Etags = Some [] \<rparr>))
    \<and> ldr_Provider l1 = p \<and> first_client test_ctx l1 = Some snapshot_store"
  by (simp add: snapshot_loader_def answers_def execute_def test_ctx_def test_loader_def sample_loader_def
      sample_manager_def sample_call_def first_client_def
      ExecuteFailoverPolicy_def act_bind_def get_clients_def GetClients_def ready_def fresh_wrapper_def
      try_clients_def client_order_def trace_attempt_def tracing_enabled_def sample_env_def wrapper_at_def
      mark_attempt_def mark_success_def update_wrapper_def updateClientBackoffStatus_def Let_def split: option.splits)

lemma snapshot_read: "snapshot_settings test_codec snapshot_store ''{\"snapshot_name\":\"s\"}'' = [plain_setting ''a'' ''s'']"
proof -
  have "parseSnapshotReference test_codec ''{\"snapshot_name\":\"s\"}'' = Ok ''s''" by code_simp
  then show ?thesis by (simp add: snapshot_settings_def loadSnapshotSettings_def snapshot_store_def)
qed

lemma flag_codec: "lc_codec test_ctx = test_codec"
  by (simp add: test_ctx_def)

lemma snapshot_client_first:
  assumes "first_client lc (ps_loader st) = Some c" and "ps_snapshotClient st = None"
  shows "\<exists>m. snapshot_client lc st = (st\<lparr> ps_loader := m, ps_snapshotClient := Some c \<rparr>, Ok c)
    \<and> ldr_Provider m = ldr_Provider (ps_loader st)"
  using assms ldr_Provider_get_clients [of "lc_calls lc (ldr_calls (ps_loader st))"
      "(ps_loader st)\<lparr> ldr_calls := Suc (ldr_calls (ps_loader st)) \<rparr>"]
  by (auto simp: first_client_def snapshot_client_def Let_def split: prod.splits res.splits list.splits)

lemma snapshot_type:
  "TrimSpace (ToLower SnapshotReferenceContentType) = SnapshotReferenceContentType"
  "parseSnapshotReference test_codec ''{\"snapshot_name\":\"s\"}'' = Ok ''s''"
  by code_simp+

lemma snapshot_load:
  "\<exists>l' raw. CreateKeyValueSettings test_ctx None (snapshot_loader json_provider) = (l', Ok raw)"
proof -
  let ?sc = "SelectorSettingsClient (GetKeyValueFilters (pv_Spec json_provider))"
  obtain l1 where l1: "execute test_ctx ?sc (snapshot_loader json_provider)
      = (l1, Ok (Some \<lparr> rsp_Settings = Some [plain_setting ''a'' ''1'', snapshot_reference], rsp_Etags = Some [] \<rparr>))"
    "ldr_Provider l1 = json_provider" "first_client test_ctx l1 = Some snapshot_store"
    using snapshot_execute by blast
  let ?ref = "''{\"snapshot_name\":\"s\"}''"
  have snap: "\<exists>st'. process_snapshot test_ctx (processNestedSettings test_ctx) ''r'' ?ref st = (st', Ok ())
      \<and> ps_raw st' = store_setting ''a'' (Some ''s'') False (ps_raw st) \<and> ldr_Provider (ps_loader st') = json_provider
      \<and> ps_resolver st' = ps_resolver st"
    if st: "first_client test_ctx (ps_loader st) = Some snapshot_store" "ps_snapshotClient st = None"
      "ldr_Provider (ps_loader st) = json_provider" for st
  proof -
    let ?st = "st\<lparr> ps_loader := (ps_loader st)\<lparr> ldr_Tracing := (ldr_Tracing (ps_loader st))\<lparr> tf_UseSnapshotReference := True \<rparr> \<rparr> \<rparr>"
    obtain m where "snapshot_client test_ctx ?st = (?st\<lparr> ps_loader := m, ps_snapshotClient := Some snapshot_store \<rparr>, Ok snapshot_store)"
      "ldr_Provider m = json_provider"
      using snapshot_client_first [of test_ctx ?st snapshot_store] st by auto
    then show ?thesis
      by (simp add: process_snapshot_def act_bind_def wrap_error_def snapshot_type flag_codec loadSnapshotSettings_def snapshot_store_def
          processNestedSettings_def process_setting_def plain_setting_def json_provider_spec Let_def)
  qed
  obtain r where r: "new_resolver test_ctx (sample_env sample_srv) json_provider = Ok r" using test_resolver by blast
  have env: "ce_env (lc_calls test_ctx n) = sample_env sample_srv" for n
    by (simp add: test_ctx_def sample_call_def)
  obtain st' where "processSettings test_ctx [plain_setting ''a'' ''1'', snapshot_reference]
      \<lparr> ps_loader = l1, ps_raw = initial_raw (pv_Spec json_provider) (Some []), ps_resolver = None, ps_snapshotClient = None,
        ps_useAI = False, ps_useAIChat = False \<rparr> = (st', Ok ())"
    "rw_K8sSecrets (ps_raw st') = []" "ldr_Provider (ps_loader st') = json_provider" "ps_resolver st' = None"
    "rw_SecretSettings (ps_raw st') = rw_SecretSettings (initial_raw (pv_Spec json_provider) (Some []))"
    using snap [of "\<lparr> ps_loader = l1, ps_raw = store_setting ''a'' (Some ''1'') False (initial_raw (pv_Spec json_provider) (Some [])),
        ps_resolver = None, ps_snapshotClient = None, ps_useAI = False, ps_useAIChat = False \<rparr>"] l1(2,3)
    by (auto simp: processSettings_def act_bind_def process_setting_def plain_setting_def snapshot_reference_def
        snapshot_type Let_def json_provider_spec initial_raw_def empty_raw_def store_setting_def)
  then show ?thesis
    using l1 r
    by (simp add: CreateKeyValueSettings_def act_bind_def deref_def run_process_def
        ResolveSecretReferences_def Let_def json_provider_spec env snapshot_loader_def test_loader_def
        initial_raw_def empty_raw_def)
qed

theorem key_values_last_wins_witness:
  "\<exists>l' raw. CreateKeyValueSettings test_ctx None (snapshot_loader json_provider) = (l', Ok raw)
    \<and> golookup (rw_KeyValueSettings raw) ''a'' = Some (Some ''s'')"
proof -
  obtain l' raw where r: "CreateKeyValueSettings test_ctx None (snapshot_loader json_provider) = (l', Ok raw)"
    using snapshot_load by blast
  have p: "ldr_Provider (snapshot_loader json_provider) = json_provider"
    by (simp add: snapshot_loader_def test_loader_def)
  obtain l1 where l1: "execute test_ctx (SelectorSettingsClient (GetKeyValueFilters (pv_Spec (ldr_Provider (snapshot_loader json_provider)))))
      (snapshot_loader json_provider)
      = (l1, Ok (Some \<lparr> rsp_Settings = Some [plain_setting ''a'' ''1'', snapshot_reference], rsp_Etags = Some [] \<rparr>))"
    and first: "first_client test_ctx l1 = Some snapshot_store"
    using snapshot_execute by blast
  have ref: "is_snapshot_reference [] snapshot_reference"
    by (simp add: is_snapshot_reference_def snapshot_reference_def plain_setting_def snapshot_type)
  obtain client where "\<forall>s \<in> set [plain_setting ''a'' ''1'', snapshot_reference].
      is_snapshot_reference [] s \<longrightarrow> first_client test_ctx l1 = Some client"
    and c: "golookup (rw_KeyValueSettings raw) k =
      map_of (rev (concat (map (setting_entries test_codec [] client) [plain_setting ''a'' ''1'', snapshot_reference]))) k" for k
    using key_values_last_wins [OF r l1 refl] by (auto simp: p json_provider_spec flag_codec)
  with first ref have client: "client = snapshot_store" by simp
  have "setting_entries test_codec [] snapshot_store snapshot_reference = [(''a'', Some ''s'')]"
    using ref snapshot_read
    by (simp add: setting_entries_def) (simp add: snapshot_reference_def plain_setting_def plain_entry_def)
  moreover have "setting_entries test_codec [] snapshot_store (plain_setting ''a'' ''1'') = [(''a'', Some ''1'')]"
    by (simp add: setting_entries_def is_snapshot_reference_def plain_setting_def plain_entry_def)
  ultimately show ?thesis using r c [of "''a''"] client by simp
qed

text \<open>Two versions of a flag.\<close>

definition flag_setting :: "string \<Rightarrow> string \<Rightarrow> Setting" where
  "flag_setting k v = \<lparr> set_Key = Some (FeatureFlagKeyPrefix @ k), set_Value = Some v, set_Label = None,
     set_ContentType = Some FeatureFlagContentType, set_ETag = Some ''e'', set_Tags = [] \<rparr>"

definition flag_settings :: "Setting list" where
  "flag_settings = [flag_setting ''Beta'' ''[]'', flag_setting ''Alpha'' ''{}'', flag_setting ''Beta'' ''{}'']"

definition flag_loader :: loader where
  "flag_loader = test_loader json_provider silent_client (Some (answers flag_settings))"

lemma flag_execute:
  "\<exists>l1 w. execute test_ctx sc flag_loader = (l1, Ok (Some \<lparr> rsp_Settings = Some flag_settings, rsp_Etags = Some [] \<rparr>))
    \<and> cm_StaticClientWrappers (ldr_Manager l1) = [w]"
  using test_execute [where injected = "Some (answers flag_settings)" and c = silent_client and sc = sc and p = json_provider]
  by (auto simp: flag_loader_def answers_def)

lemma flag_kept:
  "keep_last same_flag flag_settings = [flag_setting ''Alpha'' ''{}'', flag_setting ''Beta'' ''{}'']"
  by (simp add: flag_settings_def same_flag_def flag_setting_def)

lemma flag_read: "feature_flag_value test_codec e (flag_setting k ''{}'') = Ok (VMap [])"
proof -
  have "json_decode num_canon ''{}'' = Ok (VMap [])" by code_simp
  then show ?thesis
    by (simp add: feature_flag_value_def flag_setting_def deref_def test_codec_def go_codec_def
        populateTelemetryMetadata_def wrap_error_def res_map_def)
qed

theorem feature_flags_last_wins_witness:
  "\<exists>l' etags. getFeatureFlagSettings test_ctx flag_loader
      = (l', Ok ([(FeatureFlagSectionName, VList [VMap [], VMap []])], etags))"
proof -
  obtain l1 w where l1: "execute test_ctx (SelectorSettingsClient (GetFeatureFlagFilters (pv_Spec (ldr_Provider flag_loader)))) flag_loader
      = (l1, Ok (Some \<lparr> rsp_Settings = Some flag_settings, rsp_Etags = Some [] \<rparr>))"
    "cm_StaticClientWrappers (ldr_Manager l1) = w # []"
    using flag_execute by blast
  have "\<forall>s \<in> set (slice (Some flag_settings)). set_Key s \<noteq> None"
    by (simp add: flag_settings_def flag_setting_def)
  with feature_flags_last_wins [OF l1(1) _ l1(2), of "[(FeatureFlagSectionName, VList [VMap [], VMap []])]" "Some []"]
  show ?thesis
    by (auto simp: flag_kept flag_codec flag_read)
qed

definition written_doc :: object where
  "written_doc = [(''x'', VStr ''y''), (FeatureManagementSectionName, VMap [(FeatureFlagSectionName, VList [])])]"

lemma written_doc_plain: "json_plain num_canon (VMap written_doc)"
  by (simp add: written_doc_def gomap_ok_def gokeys_def FeatureManagementSectionName_def)

lemma written_doc_flags:
  "golookup written_doc FeatureManagementSectionName = Some (VMap [(FeatureFlagSectionName, VList [])])"
  by (simp add: written_doc_def FeatureManagementSectionName_def)

lemma flag_load:
  "\<exists>l' etags. getFeatureFlagSettings test_ctx flag_loader
      = (l', Ok ([(FeatureFlagSectionName, VList [VMap [], VMap []])], etags))"
proof -
  obtain l1 w where "execute test_ctx (SelectorSettingsClient (GetFeatureFlagFilters (pv_Spec (ldr_Provider flag_loader)))) flag_loader
      = (l1, Ok (Some \<lparr> rsp_Settings = Some flag_settings, rsp_Etags = Some [] \<rparr>))"
    "cm_StaticClientWrappers (ldr_Manager l1) = [w]"
    using flag_execute by blast
  moreover have "feature_flag_loop test_codec e flag_settings (length flag_settings) [] [] = Ok [VMap [], VMap []]" for e
    using flag_read [of e "''Alpha''"] flag_read [of e "''Beta''"]
    by (simp add: flag_settings_def deref_def flag_setting_def del: res_bind_eq_Ok)
  ultimately show ?thesis
    by (simp add: getFeatureFlagSettings_def act_bind_def deref_def flag_codec swap_loop_flags [simplified])
qed

lemma codec_written: "canon_ok num_canon" "lc_codec test_ctx = go_codec num_canon (\<lambda>v. Ok []) (\<lambda>s. Ok VNil) (\<lambda>s. None)"
  by (simp_all add: canon_ok_def num_canon_def flag_codec test_codec_def)

theorem feature_flag_refresh_keeps_settings_witness:
  "\<exists>l' target s. RefreshFeatureFlagSettings test_ctx [(''settings.json'', json_encode (VMap written_doc))] flag_loader = (l', Ok target)
    \<and> tg_ConfigMapSettings target = Some [(''settings.json'', s)]
    \<and> document_of num_canon s
        [(''x'', VStr ''y''), (FeatureManagementSectionName, VMap [(FeatureFlagSectionName, VList [VMap [], VMap []])])]"
proof -
  obtain l' etags where g: "getFeatureFlagSettings test_ctx flag_loader
      = (l', Ok ([(FeatureFlagSectionName, VList [VMap [], VMap []])], etags))" using flag_load by blast
  have o: "ct_ConfigMapData (spec_Target (pv_Spec (ldr_Provider flag_loader))) = Some sample_options"
    "do_Type sample_options = Json"
    "golookup [(''settings.json'', json_encode (VMap written_doc))] (do_Key sample_options) = Some (json_encode (VMap written_doc))"
    by (simp_all add: flag_loader_def test_loader_def json_provider_spec sample_options_def)
  from feature_flag_refresh_keeps_settings [OF codec_written o written_doc_plain written_doc_flags g]
  show ?thesis
    by (simp add: written_doc_def FeatureManagementSectionName_def sample_options_def) blast
qed

theorem key_value_refresh_keeps_flags_witness:
  "\<exists>l' target s. RefreshKeyValueSettings test_ctx [(''settings.json'', json_encode (VMap written_doc))] None
      (kv_loader json_provider) = (l', Ok target)
    \<and> tg_ConfigMapSettings target = Some [(''settings.json'', s)]
    \<and> document_of num_canon s
        [(''a'', VStr ''2''), (FeatureManagementSectionName, VMap [(FeatureFlagSectionName, VList [])])]"
proof -
  obtain l' raw where r: "CreateKeyValueSettings test_ctx None (kv_loader json_provider) = (l', Ok raw)"
      "ldr_Provider l' = json_provider"
      "rw_KeyValueSettings raw = [(''a'', Some ''2'')]" "rw_IsJsonContentTypeMap raw = [(''a'', False)]"
    using test_load by blast
  have p: "parsed_settings [(''a'', VStr ''2'')] (Some '':'') = Ok [(''a'', VStr ''2'')]" by code_simp
  have o: "spec_FeatureFlag (pv_Spec (ldr_Provider l')) \<noteq> None"
    "ct_ConfigMapData (spec_Target (pv_Spec (ldr_Provider l'))) = Some sample_options" "do_Type sample_options = Json"
    "golookup [(''settings.json'', json_encode (VMap written_doc))] (do_Key sample_options) = Some (json_encode (VMap written_doc))"
    using r(2) by (simp_all add: json_provider_spec sample_options_def)
  have q: "parsed_settings (map (\<lambda>(k, v). (k, setting_value (lc_codec test_ctx) (is_json_key raw k) v)) (rw_KeyValueSettings raw))
      (do_Separator sample_options) = Ok [(''a'', VStr ''2'')]"
    using r(3,4) p by (simp add: is_json_key_def setting_value_def sample_options_def)
  from key_value_refresh_keeps_flags [OF codec_written r(1) o written_doc_plain written_doc_flags q]
  show ?thesis
    by (simp add: FeatureManagementSectionName_def sample_options_def) blast
qed

text \<open>A store with one sentinel.\<close>

definition sentinel_store :: "string \<Rightarrow> string option \<Rightarrow> etag option" where
  "sentinel_store key label = (if key = ''s'' then Some ''new'' else None)"

definition sentinel_client :: az_client where
  "sentinel_client = (client_of (\<lambda>q. []))\<lparr> GetSetting := (\<lambda>key label cond.
     let none = \<lparr> set_Key = None, set_Value = None, set_Label = None, set_ContentType = None, set_ETag = None, set_Tags = [] \<rparr>
     in case sentinel_store key label of
          None \<Rightarrow> (none, Some (ResponseError 404 None))
        | Some e \<Rightarrow> if cond = Some e then (none, Some (ResponseError 304 None)) else (none\<lparr> set_ETag := Some e \<rparr>, None)) \<rparr>"

definition sentinel_ctx :: "string loader_ctx" where
  "sentinel_ctx = test_ctx\<lparr> lc_calls := (\<lambda>n. sample_call\<lparr> ce_env := (sample_env sample_srv)\<lparr>
     env_NewClient := (\<lambda>e c opts. Ok sentinel_client), env_NewClientFromConnectionString := (\<lambda>c opts. Ok sentinel_client) \<rparr> \<rparr>) \<rparr>"

definition sentinel_provider :: Provider where
  "sentinel_provider = sample_provider\<lparr> pv_Spec := sample_spec\<lparr> spec_Configuration :=
     \<lparr> kvo_Selectors = [], kvo_TrimKeyPrefixes = [], kvo_Refresh = Some \<lparr> dr_Monitoring = None, dr_Interval = ''30s'', dr_Enabled = True \<rparr> \<rparr> \<rparr> \<rparr>"

lemma sentinel_contract:
  "serves_sentinels sentinel_store sentinel_client"
  "builds_all (serves_sentinels sentinel_store) sentinel_ctx"
  "connected (serves_sentinels sentinel_store) (test_loader sentinel_provider sentinel_client None)"
proof -
  show c: "serves_sentinels sentinel_store sentinel_client"
    by (auto simp: serves_sentinels_def sentinel_client_def Let_def split: option.splits)
  show "builds_all (serves_sentinels sentinel_store) sentinel_ctx"
    using c by (simp add: builds_all_def builds_def sentinel_ctx_def)
  show "connected (serves_sentinels sentinel_store) (test_loader sentinel_provider sentinel_client None)"
    using c by (simp add: connected_def holds_def test_loader_def fresh_wrapper_def)
qed

theorem sentinel_check_exact_witness:
  "\<exists>l' refreshed. CheckAndRefreshSentinels sentinel_ctx sentinel_provider [(\<lparr> sen_Key = ''s'', sen_Label = None \<rparr>, Some ''old'')]
      (test_loader sentinel_provider sentinel_client None) = (l', Ok (True, refreshed))
    \<and> golookup refreshed \<lparr> sen_Key = ''s'', sen_Label = None \<rparr> = Some (Some ''new'')"
proof -
  let ?s = "\<lparr> sen_Key = ''s'', sen_Label = None \<rparr>"
  let ?l = "test_loader sentinel_provider sentinel_client None"
  obtain l' ch re where r: "CheckAndRefreshSentinels sentinel_ctx sentinel_provider [(?s, Some ''old'')] ?l = (l', Ok (ch, re))"
  proof -
    have "\<exists>l' ch re. CheckAndRefreshSentinels sentinel_ctx sentinel_provider [(?s, Some ''old'')] ?l = (l', Ok (ch, re))"
      by (simp add: CheckAndRefreshSentinels_def sentinel_provider_def deref_def act_bind_def execute_def
        sentinel_ctx_def test_loader_def sample_loader_def sample_manager_def sample_call_def
        ExecuteFailoverPolicy_def get_clients_def GetClients_def ready_def fresh_wrapper_def
        try_clients_def client_order_def trace_attempt_def tracing_enabled_def sample_env_def wrapper_at_def
        GetSettings_def sentinel_GetSettings_def sentinel_client_def sentinel_store_def Let_def)  blast
    then show ?thesis using that by blast
  qed
  have g: "gomap_ok [(?s, Some ''old'')]" by (simp add: gomap_ok_def gokeys_def)
  from sentinel_check_exact [OF sentinel_contract(2,3) g r, of ?s] r show ?thesis
    by (auto simp: latest_etag_def sentinel_store_def)
qed

end
