(* ===== verification/Kube_Objects.thy ===== *)
theory Kube_Objects
  imports Loader_Types
begin

text \<open>
  The ConfigMaps and Secrets of the cluster as the controller sees them, who owns them
  (\<^verbatim>\<open>verifyExistingTargetObject\<close> of \<^verbatim>\<open>internal/controller/utils.go\<close>), and the constants of
  \<^verbatim>\<open>appconfigurationprovider_controller.go\<close>.
\<close>

definition ProviderName :: string where
  "ProviderName = ''AzureAppConfigurationProvider''"

definition LastReconcileTimeAnnotation :: string where
  "LastReconcileTimeAnnotation = ''azconfig.io/LastReconcileTime''"

text \<open>\<^verbatim>\<open>acpv1.GroupVersion.String()\<close>\<close>

definition GroupVersion :: string where
  "GroupVersion = ''azconfig.io/v1''"

record OwnerReference =
  or_APIVersion :: string
  or_Kind :: string
  or_Name :: string
  or_UID :: string

record ObjectMeta =
  om_Kind :: string
  om_Name :: string
  om_Namespace :: string
  om_ResourceVersion :: string
  om_OwnerReferences :: "OwnerReference list"
  om_Labels :: "(string, string) gomap"
  om_Annotations :: "(string, string) gomap"
  om_Generation :: int

record ConfigMap =
  cmo_Meta :: ObjectMeta
  cmo_Data :: "(string, string) gomap option"

record Secret =
  sco_Meta :: ObjectMeta
  sco_Content :: SecretContent

text \<open>\<^verbatim>\<open>metav1.ObjectMeta{Name: name}\<close>\<close>

definition named_meta :: "string \<Rightarrow> ObjectMeta" where
  "named_meta name =
     \<lparr> om_Kind = [], om_Name = name, om_Namespace = [], om_ResourceVersion = [], om_OwnerReferences = [],
       om_Labels = [], om_Annotations = [], om_Generation = 0 \<rparr>"

definition empty_ConfigMap :: ConfigMap where
  "empty_ConfigMap = \<lparr> cmo_Meta = named_meta [], cmo_Data = None \<rparr>"

definition named_Secret :: "string \<Rightarrow> Secret" where
  "named_Secret name =
     \<lparr> sco_Meta = named_meta name, sco_Content = \<lparr> sc_Type = OtherSecretType [], sc_Data = None \<rparr> \<rparr>"

section \<open>Ownership\<close>

fun owned_loop :: "Provider \<Rightarrow> OwnerReference list \<Rightarrow> bool" where
  "owned_loop provider [] = False"
| "owned_loop provider (ownerRef # refs) =
     (if or_APIVersion ownerRef = GroupVersion \<and> or_Kind ownerRef = ProviderName \<and>
         or_Name ownerRef = pv_Name provider \<and> or_UID ownerRef = pv_UID provider
      then True else owned_loop provider refs)"

definition verifyExistingTargetObject :: "ObjectMeta \<Rightarrow> string \<Rightarrow> Provider \<Rightarrow> unit res" where
  "verifyExistingTargetObject targetObj targetName provider =
     (if om_Name targetObj \<noteq> targetName then Ok ()
      else if owned_loop provider (om_OwnerReferences targetObj) then Ok ()
      else Err (Errorf (''a %s with name '%s' already exists in namespace '%s'' @ [CHR 0x27])
             [om_Kind targetObj, targetName, om_Namespace targetObj] []))"

text \<open>What ownership means: one owner reference identifies the provider by all four fields.\<close>

definition owner_reference :: "Provider \<Rightarrow> OwnerReference" where
  "owner_reference provider =
     \<lparr> or_APIVersion = GroupVersion, or_Kind = ProviderName, or_Name = pv_Name provider, or_UID = pv_UID provider \<rparr>"

definition owned_by :: "Provider \<Rightarrow> ObjectMeta \<Rightarrow> bool" where
  "owned_by provider meta \<longleftrightarrow> owner_reference provider \<in> set (om_OwnerReferences meta)"

lemma owned_loop_iff: "owned_loop provider refs \<longleftrightarrow> owner_reference provider \<in> set refs"
  by (induction refs) (auto simp: owner_reference_def)

lemma verifyExistingTargetObject_Ok:
  "om_Name meta = name \<Longrightarrow> verifyExistingTargetObject meta name provider = Ok () \<longleftrightarrow> owned_by provider meta"
  by (simp add: verifyExistingTargetObject_def owned_loop_iff owned_by_def)

end
