(* ===== verification/Go_Duration.thy ===== *)
theory Go_Duration
  imports Client_Manager
begin

text \<open>
  \<^verbatim>\<open>time.ParseDuration\<close>, with the overflow checks and the floating point arithmetic for
  fractions that Go performs.  Whole numbers of a unit are parsed exactly.
\<close>

section \<open>Numbers\<close>

text \<open>\<^verbatim>\<open>leadingInt\<close>: the digits at the front, with the checks against \<open>2 ^ 63\<close>.\<close>

fun leadingInt :: "nat \<Rightarrow> string \<Rightarrow> (nat \<times> string) option" where
  "leadingInt x [] = Some (x, [])"
| "leadingInt x (c # s) =
     (case digit_val c of
        None \<Rightarrow> Some (x, c # s)
      | Some d \<Rightarrow>
          if x > 2 ^ 63 div 10 then None
          else if 10 * x + d > 2 ^ 63 then None
          else leadingInt (10 * x + d) s)"

text \<open>\<^verbatim>\<open>leadingFraction\<close>: digits that no longer fit are skipped.\<close>

fun leadingFraction :: "nat \<Rightarrow> nat \<Rightarrow> bool \<Rightarrow> string \<Rightarrow> nat \<times> nat \<times> string" where
  "leadingFraction x scale overflow [] = (x, scale, [])"
| "leadingFraction x scale overflow (c # s) =
     (case digit_val c of
        None \<Rightarrow> (x, scale, c # s)
      | Some d \<Rightarrow>
          if overflow \<or> x > (2 ^ 63 - 1) div 10 \<or> 10 * x + d > 2 ^ 63 then leadingFraction x scale True s
          else leadingFraction (10 * x + d) (scale * 10) False s)"

text \<open>
  \<^verbatim>\<open>uint64(float64(f) * (float64(unit) / scale))\<close>.  Units and scales are exact as
  \<^verbatim>\<open>float64\<close>; the quotient is rounded to 53 bits in units of \<open>2 ^ -129\<close>, with a sticky bit for
  its remainder, and so is the product.
\<close>

definition fraction_nanoseconds :: "nat \<Rightarrow> nat \<Rightarrow> nat \<Rightarrow> nat" where
  "fraction_nanoseconds f unit scale =
     (let q = unit * 2 ^ 128 div scale;
          sticky = (if unit * 2 ^ 128 mod scale = 0 then 0 else 1);
          quotient = round53_nat (2 * q + sticky)
      in round53_nat (round53_nat f * quotient) div 2 ^ 129)"

section \<open>Units\<close>

definition unitMap :: "(string \<times> nat) list" where
  "unitMap =
     [(''ns'', 1), (''us'', 1000), ([CHR 0xC2, CHR 0xB5] @ ''s'', 1000), ([CHR 0xCE, CHR 0xBC] @ ''s'', 1000),
      (''ms'', 1000000), (''s'', 1000000000), (''m'', 60000000000), (''h'', 3600000000000)]"

definition unit_char :: "char \<Rightarrow> bool" where
  "unit_char c \<longleftrightarrow> c \<noteq> CHR ''.'' \<and> digit_val c = None"

section \<open>Parsing\<close>

definition invalid_duration :: "'a res" where
  "invalid_duration = Err (LibError ''time: invalid duration'')"

text \<open>The number at the front: its integer part, its fraction with the scale, and the rest.\<close>

definition duration_number :: "string \<Rightarrow> (nat \<times> nat \<times> nat \<times> string) res" where
  "duration_number s =
     (if s = [] \<or> unit_char (hd s) then invalid_duration
      else
        (case leadingInt 0 s of
           None \<Rightarrow> invalid_duration
         | Some (v, s1) \<Rightarrow>
             if s1 \<noteq> [] \<and> hd s1 = CHR ''.'' then
               (case leadingFraction 0 1 False (tl s1) of
                  (f, scale, s2) \<Rightarrow>
                    if length s1 = length s \<and> length s2 = length (tl s1) then invalid_duration
                    else Ok (v, f, scale, s2))
             else if length s1 = length s then invalid_duration
             else Ok (v, 0, 1, s1)))"

text \<open>One number with its unit in nanoseconds, and the text that is left.\<close>

definition duration_part :: "string \<Rightarrow> (nat \<times> string) res" where
  "duration_part s =
     res_bind (duration_number s) (\<lambda>(v, f, scale, s2).
       let u = takeWhile unit_char s2; rest = dropWhile unit_char s2
       in if u = [] then Err (LibError ''time: missing unit in duration'')
          else
            (case map_of unitMap u of
               None \<Rightarrow> Err (LibError ''time: unknown unit in duration'')
             | Some unit \<Rightarrow>
                 if v > 2 ^ 63 div unit then invalid_duration
                 else if f > 0 \<and> v * unit + fraction_nanoseconds f unit scale > 2 ^ 63 then invalid_duration
                 else Ok (v * unit + (if f > 0 then fraction_nanoseconds f unit scale else 0), rest)))"

lemma leadingFraction_length: "leadingFraction x scale ov s = (f, sc, r) \<Longrightarrow> length r \<le> length s"
  by (induction x scale ov s rule: leadingFraction.induct)
    (auto split: option.splits if_splits simp: Let_def)

lemma leadingInt_length: "leadingInt x s = Some (v, r) \<Longrightarrow> length r \<le> length s"
  by (induction x s rule: leadingInt.induct) (auto split: option.splits if_splits)

lemma duration_number_length: "duration_number s = Ok (v, f, scale, r) \<Longrightarrow> length r \<le> length s"
  using leadingInt_length [of 0 s] leadingFraction_length [of 0 1 False]
  by (fastforce simp: duration_number_def invalid_duration_def split: if_splits option.splits prod.splits)

lemma duration_part_shorter:
  assumes "duration_part s = Ok (v, r)"
  shows "length r < length s"
proof -
  have drop: "length (dropWhile unit_char t) < length t" if "takeWhile unit_char t \<noteq> []" for t
    using that by (cases t) (auto simp: length_dropWhile_le le_imp_less_Suc split: if_splits)
  obtain v' f scale s2 where n: "duration_number s = Ok (v', f, scale, s2)"
      "takeWhile unit_char s2 \<noteq> []" "r = dropWhile unit_char s2"
    using assms by (auto simp: duration_part_def invalid_duration_def Let_def split: if_splits option.splits)
  with drop [of s2] duration_number_length [OF n(1)] show ?thesis by simp
qed

text \<open>The sum is a \<^verbatim>\<open>uint64\<close>.\<close>

function duration_loop :: "nat \<Rightarrow> string \<Rightarrow> nat res" where
  "duration_loop d s =
     (if s = [] then Ok d
      else
        res_bind (duration_part s) (\<lambda>(v, rest).
          let sum = (d + v) mod 2 ^ 64
          in if sum > 2 ^ 63 then invalid_duration else duration_loop sum rest))"
  by pat_completeness auto
termination
  by (relation "measure (length \<circ> snd)") (auto dest: duration_part_shorter)

declare duration_loop.simps [simp del]

definition ParseDuration :: "string \<Rightarrow> duration res" where
  "ParseDuration s0 =
     (let neg = (s0 \<noteq> [] \<and> hd s0 = CHR ''-'');
          s = (if s0 \<noteq> [] \<and> (hd s0 = CHR ''-'' \<or> hd s0 = CHR ''+'') then tl s0 else s0)
      in if s = ''0'' then Ok 0
         else if s = [] then invalid_duration
         else
           res_bind (duration_loop 0 s) (\<lambda>d.
             if neg then Ok (- int d)
             else if d > 2 ^ 63 - 1 then invalid_duration
             else Ok (int d)))"

text \<open>\<^verbatim>\<open>d, _ := time.ParseDuration(s)\<close>: the duration is zero when the text is invalid.\<close>

definition duration_or_zero :: "string \<Rightarrow> duration" where
  "duration_or_zero s = (case ParseDuration s of Ok d \<Rightarrow> d | _ \<Rightarrow> 0)"

section \<open>Whole numbers of a unit\<close>

lemma digits_val_ge: "digits_val x ds = Some v \<Longrightarrow> x \<le> v"
  by (induction x ds rule: digits_val.induct) (auto split: option.splits dest: le_trans [rotated])

lemma leadingInt_digits:
  assumes "digits_val x ds = Some v" and "v \<le> 2 ^ 63" and "\<forall>c r. rest = c # r \<longrightarrow> digit_val c = None"
  shows "leadingInt x (ds @ rest) = Some (v, rest)"
  using assms(1,2)
proof (induction ds arbitrary: x)
  case Nil
  then show ?case using assms(3) by (cases rest) auto
next
  case (Cons c ds)
  then obtain d where d: "digit_val c = Some d" "digits_val (10 * x + d) ds = Some v"
    by (auto split: option.splits)
  have "10 * x + d \<le> v" using d(2) by (rule digits_val_ge)
  then show ?case using Cons d by simp
qed

lemma unitMap_entries: "(u, n) \<in> set unitMap \<Longrightarrow> 0 < n \<and> u \<noteq> [] \<and> list_all unit_char u"
  unfolding unitMap_def by (auto simp: unit_char_def digit_val_def)

text \<open>Numbers written by \<^verbatim>\<open>strconv.Itoa\<close> with a unit are parsed exactly.\<close>

lemma ParseDuration_unit:
  assumes "map_of unitMap u = Some n" and "k * n < 2 ^ 63"
  shows "ParseDuration (Itoa k @ u) = Ok (int (k * n))"
proof -
  have u: "0 < n" "u \<noteq> []" "\<forall>c \<in> set u. unit_char c"
    using unitMap_entries [OF map_of_SomeD [OF assms(1)]] by (auto simp: list_all_iff)
  have "k \<le> k * n" using u(1) by simp
  then have k: "k \<le> 2 ^ 63" using assms(2) by linarith
  have hd: "digit_val (hd (Itoa k)) \<noteq> None" by (rule Itoa_digits [of _ k]) simp
  have "leadingInt 0 (Itoa k @ u) = Some (k, u)"
    using u(3) by (intro leadingInt_digits digits_val_Itoa k) (auto simp: unit_char_def)
  moreover have "hd u \<noteq> CHR ''.''" using u(2,3) by (cases u) (auto simp: unit_char_def)
  moreover have "\<not> unit_char (hd (Itoa k @ u))" using hd by (simp add: unit_char_def)
  ultimately have num: "duration_number (Itoa k @ u) = Ok (k, 0, 1, u)"
    by (simp add: duration_number_def)
  have "k \<le> 2 ^ 63 div n" using assms(2) u(1) by (simp add: less_eq_div_iff_mult_less_eq)
  moreover have w: "takeWhile unit_char u = u" "dropWhile unit_char u = []" using u(3) by simp_all
  ultimately have part: "duration_part (Itoa k @ u) = Ok (k * n, [])"
    using num assms(1) u(2) unfolding duration_part_def by (simp add: w Let_def)
  have loop: "duration_loop 0 (Itoa k @ u) = Ok (k * n)"
    using assms(2) by (subst duration_loop.simps) (simp add: part Let_def duration_loop.simps)
  have "hd (Itoa k @ u) \<noteq> CHR ''-''" "hd (Itoa k @ u) \<noteq> CHR ''+''"
    using hd by (auto simp: digit_val_def)
  moreover have "Itoa k @ u \<noteq> ''0''"
    using u(2) by (cases u) (auto simp: append_eq_Cons_conv)
  ultimately show ?thesis
    using loop assms(2) by (simp add: ParseDuration_def Let_def)
qed

section \<open>Invalid text is an error\<close>

lemma duration_part_no_panic: "duration_part s \<noteq> Panic p"
  by (auto simp: duration_part_def duration_number_def invalid_duration_def res_bind_eq_Panic Let_def
      split: option.splits if_splits prod.splits)

lemma duration_loop_no_panic: "duration_loop d s \<noteq> Panic p"
proof (induction d s rule: duration_loop.induct)
  case (1 d s)
  then show ?case
    by (subst duration_loop.simps)
      (auto simp: res_bind_eq_Panic duration_part_no_panic invalid_duration_def Let_def)
qed

lemma ParseDuration_no_panic: "ParseDuration s \<noteq> Panic p"
  by (auto simp: ParseDuration_def Let_def res_bind_eq_Panic duration_loop_no_panic invalid_duration_def)

end
