(* ===== verification/Url_Case.thy ===== *)
theory Url_Case
  imports Go_Url
begin

text \<open>
  The case of letters does not decide whether \<^verbatim>\<open>url.Parse\<close> succeeds: the validation parses the
  lower-cased endpoint, and the clients parse the endpoint as it is written.
\<close>

lemma of_char_lower:
  "(of_char (lower_char c) :: nat) =
     (if 65 \<le> (of_char c :: nat) \<and> (of_char c :: nat) \<le> 90 then of_char c + 32 else of_char c)"
  by (auto simp: lower_char_def less_eq_char_def of_char_of)

lemma lower_class [simp]:
  "is_letter (lower_char c) = is_letter c" "is_dec (lower_char c) = is_dec c" "url_hex (lower_char c) = url_hex c"
  by (auto simp: is_letter_def is_dec_def url_hex_def of_char_lower Let_def)

lemma lower_eq_iff:
  assumes "\<not> is_letter p"
  shows "lower_char c = p \<longleftrightarrow> c = p"
proof
  assume "lower_char c = p"
  moreover from this have "\<not> is_letter c" using assms lower_class(1) [of c] by simp
  then have "lower_char c = c" by (auto simp: is_letter_def lower_char_def less_eq_char_def)
  ultimately show "c = p" by simp
next
  assume "c = p"
  then show "lower_char c = p" using assms by (auto simp: is_letter_def lower_char_def less_eq_char_def)
qed

lemma lower_mem_iff: "list_all (\<lambda>p. \<not> is_letter p) ps \<Longrightarrow> lower_char c \<in> set ps \<longleftrightarrow> c \<in> set ps"
  by (induction ps) (auto simp: lower_eq_iff)

lemma lower_special [simp]:
  "lower_char c = CHR ''%'' \<longleftrightarrow> c = CHR ''%''" "lower_char c = CHR '':'' \<longleftrightarrow> c = CHR '':''"
  "lower_char c = CHR ''/'' \<longleftrightarrow> c = CHR ''/''" "lower_char c = DQ \<longleftrightarrow> c = DQ"
  "lower_char c = CHR 0x27 \<longleftrightarrow> c = CHR 0x27" "lower_char c = CHR ''*'' \<longleftrightarrow> c = CHR ''*''"
  by (rule lower_eq_iff, simp add: is_letter_def)+

lemma host_char_lower [simp]: "host_char (lower_char c) = host_char c"
proof -
  have "lower_char c \<in> set ''!$&()*+,;=:[]<>-_.~'' \<longleftrightarrow> c \<in> set ''!$&()*+,;=:[]<>-_.~''"
    by (rule lower_mem_iff) (simp add: is_letter_def)
  moreover have "128 \<le> (of_char (lower_char c) :: nat) \<longleftrightarrow> 128 \<le> (of_char c :: nat)"
    by (simp add: of_char_lower)
  ultimately show ?thesis unfolding host_char_def lower_special lower_class by argo
qed

lemma userinfo_char_lower [simp]: "userinfo_char (lower_char c) = userinfo_char c"
proof -
  have "lower_char c \<in> set ''-._:~!$&()*+,;=%@'' \<longleftrightarrow> c \<in> set ''-._:~!$&()*+,;=%@''"
    by (rule lower_mem_iff) (simp add: is_letter_def)
  then show ?thesis unfolding userinfo_char_def lower_special lower_class by argo
qed

lemma has_ctl_lower [simp]: "has_ctl (ToLower s) = has_ctl s"
  by (induction s) (auto simp: has_ctl_def ToLower_def of_char_lower)

lemma HasPrefix_char_lower:
  "list_all (\<lambda>p. \<not> is_letter p) ps \<Longrightarrow> HasPrefix (ToLower s) ps = HasPrefix s ps"
proof (induction ps arbitrary: s)
  case (Cons p ps)
  then show ?case by (cases s) (auto simp: HasPrefix_def ToLower_def lower_eq_iff)
qed (simp add: HasPrefix_def)

lemma ToLower_simps: "ToLower [] = []" "ToLower (c # s) = lower_char c # ToLower s"
  by (simp_all add: ToLower_def)

lemma Index_lower:
  assumes "list_all (\<lambda>p. \<not> is_letter p) ps"
  shows "Index (ToLower s) ps = Index s ps"
proof (induction s)
  case (Cons c s)
  then show ?case using HasPrefix_char_lower [OF assms, of "c # s"] by (simp add: ToLower_simps)
qed (simp add: ToLower_simps)

lemma LastIndex_lower:
  assumes "list_all (\<lambda>p. \<not> is_letter p) ps"
  shows "LastIndex (ToLower s) ps = LastIndex s ps"
proof (induction s)
  case (Cons c s)
  then show ?case using HasPrefix_char_lower [OF assms, of "c # s"] by (simp add: ToLower_simps)
qed (simp add: ToLower_simps)

lemma ToLower_take_drop:
  "take n (ToLower s) = ToLower (take n s)" "drop n (ToLower s) = ToLower (drop n s)"
  by (simp_all add: ToLower_def take_map drop_map)

lemma str_Cut_lower:
  "list_all (\<lambda>p. \<not> is_letter p) ps \<Longrightarrow> str_Cut (ToLower s) ps = map_prod ToLower ToLower (str_Cut s ps)"
  by (auto simp: str_Cut_def Index_lower ToLower_take_drop split: option.splits) (simp add: ToLower_def)

lemma scheme_length_lower: "scheme_length i (ToLower s) = scheme_length i s"
proof (induction i s rule: scheme_length.induct)
  case (2 i c s)
  have "lower_char c \<in> set ''+-.'' \<longleftrightarrow> c \<in> set ''+-.''"
    by (rule lower_mem_iff) (simp add: is_letter_def)
  with 2 show ?case by (simp add: ToLower_def del: list.set)
qed (simp add: ToLower_def)

lemma unescape_lower: "unescape (ToLower s) = None \<longleftrightarrow> unescape s = None"
proof (induction s rule: unescape.induct)
  case (2 c s)
  show ?case
  proof (cases "c = CHR ''%''")
    case True
    show ?thesis
    proof (cases s)
      case (Cons a t)
      then show ?thesis using True 2
        by (cases t; cases "url_hex a"; cases "url_hex (hd t)") (auto simp: ToLower_def)
    qed (use True in \<open>simp add: ToLower_def\<close>)
  next
    case False
    then show ?thesis using 2 by (simp add: ToLower_def)
  qed
qed (simp add: ToLower_def)

lemma unescape_host_lower: "unescape_host (ToLower s) = None \<longleftrightarrow> unescape_host s = None"
proof (induction s rule: unescape_host.induct)
  case (2 c s)
  show ?case
  proof (cases "c = CHR ''%''")
    case True
    show ?thesis
    proof (cases s)
      case (Cons a t)
      then show ?thesis using True 2
        by (cases t; cases "url_hex a"; cases "url_hex (hd t)") (auto simp: ToLower_def)
    qed (use True in \<open>simp add: ToLower_def\<close>)
  next
    case False
    then show ?thesis using 2 by (cases "host_char c") (simp_all add: ToLower_def)
  qed
qed (simp add: ToLower_def)

lemma validOptionalPort_lower: "validOptionalPort (ToLower s) = validOptionalPort s"
  by (cases s) (simp_all add: validOptionalPort_def ToLower_def list_all_iff)

lemma single_nonletter:
  "list_all (\<lambda>p. \<not> is_letter p) ''[''" "list_all (\<lambda>p. \<not> is_letter p) '']''" "list_all (\<lambda>p. \<not> is_letter p) '':''"
  "list_all (\<lambda>p. \<not> is_letter p) ''@''" "list_all (\<lambda>p. \<not> is_letter p) ''?''" "list_all (\<lambda>p. \<not> is_letter p) ''#''"
  "list_all (\<lambda>p. \<not> is_letter p) ''/''" "list_all (\<lambda>p. \<not> is_letter p) ''//''" "list_all (\<lambda>p. \<not> is_letter p) ''///''"
  by (simp_all add: is_letter_def)

lemmas lower_search = single_nonletter [THEN Index_lower] single_nonletter [THEN LastIndex_lower]
  single_nonletter [THEN HasPrefix_char_lower] single_nonletter [THEN str_Cut_lower]

lemma parseHost_lower: "parseHost (ToLower s) = None \<longleftrightarrow> parseHost s = None"
  by (simp add: parseHost_def lower_search ToLower_take_drop validOptionalPort_lower unescape_host_lower
      split: option.split)

lemma parseAuthority_lower: "parseAuthority (ToLower s) = None \<longleftrightarrow> parseAuthority s = None"
proof -
  have "list_all userinfo_char (ToLower t) = list_all userinfo_char t" for t
    by (simp add: ToLower_def list_all_iff)
  note u = this
  show ?thesis
  proof (cases "LastIndex s ''@''")
    case (Some i)
    then show ?thesis
      using parseHost_lower [of "drop (Suc i) s"]
      by (cases "parseHost (drop (Suc i) s)"; cases "parseHost (ToLower (drop (Suc i) s))")
        (simp_all add: parseAuthority_def lower_search ToLower_take_drop unescape_lower u)
  qed (simp add: parseAuthority_def lower_search parseHost_lower)
qed

lemma span_lower:
  "takeWhile (\<lambda>c. c \<noteq> CHR ''/'') (ToLower s) = ToLower (takeWhile (\<lambda>c. c \<noteq> CHR ''/'') s)"
  "dropWhile (\<lambda>c. c \<noteq> CHR ''/'') (ToLower s) = ToLower (dropWhile (\<lambda>c. c \<noteq> CHR ''/'') s)"
  by (induction s) (simp_all add: ToLower_def)

lemma colon_lower: "CHR '':'' \<in> set (ToLower s) \<longleftrightarrow> CHR '':'' \<in> set s"
  by (auto simp: ToLower_def image_iff eq_commute [of "CHR '':''"])

lemma getScheme_lower: "getScheme (ToLower s) = map_option (map_prod ToLower ToLower) (getScheme s)"
  by (simp add: getScheme_def scheme_length_lower ToLower_take_drop split: option.split) (simp add: ToLower_def)

lemma lower_idem: "lower_char (lower_char c) = lower_char c"
  by (auto simp: lower_char_def less_eq_char_def of_char_of)

lemma ToLower_idem: "ToLower (ToLower s) = ToLower s"
  by (simp add: ToLower_def lower_idem)

lemma authority_None:
  "(case parseAuthority a of None \<Rightarrow> None | Some h \<Rightarrow> with_path sc h p) = None \<longleftrightarrow>
     parseAuthority a = None \<or> unescape p = None"
  by (simp add: with_path_def split: option.split)

lemma with_path_None: "with_path sc h p = None \<longleftrightarrow> unescape p = None"
  by (simp add: with_path_def)

lemma parse_url_lower: "parse_url (ToLower s) = None \<longleftrightarrow> parse_url s = None"
proof -
  have star: "ToLower s = ''*'' \<longleftrightarrow> s = ''*''" by (cases s) (auto simp: ToLower_def)
  have cq: "cut_query (ToLower t) = ToLower (cut_query t)" for t
    by (simp add: cut_query_def lower_search)
  show ?thesis
  proof (cases "getScheme s")
    case (Some p)
    obtain sch rest where p: "p = (sch, rest)" by fastforce
    show ?thesis
      using Some p
      by (simp add: parse_url_def star getScheme_lower cq colon_lower Let_def lower_search ToLower_idem span_lower
          ToLower_take_drop authority_None with_path_None parseAuthority_lower unescape_lower ToLower_simps)
  qed (simp add: parse_url_def star getScheme_lower)
qed

lemma url_Parse_lower: "url_Parse (ToLower s) = None \<longleftrightarrow> url_Parse s = None"
proof -
  obtain u frag where c: "str_Cut s ''#'' = (u, frag)" by fastforce
  show ?thesis
    using parse_url_lower [of u]
    by (auto simp: url_Parse_def lower_search c unescape_lower split: option.splits)
qed

end
