(* ===== verification/Spec_Validation.thy ===== *)
theory Spec_Validation
  imports Go_Duration Url_Case Key_Vault
begin

text \<open>
  The validation of a provider's specification in \<^verbatim>\<open>internal/controller/utils.go\<close>.
\<close>

definition MinimalSentinelBasedRefreshInterval :: duration where
  "MinimalSentinelBasedRefreshInterval = second"

definition MinimalSecretRefreshInterval :: duration where
  "MinimalSecretRefreshInterval = minute"

definition MinimalFeatureFlagRefreshInterval :: duration where
  "MinimalFeatureFlagRefreshInterval = second"

section \<open>Label filters\<close>

fun hasNonEscapedValueInLabel :: "string \<Rightarrow> bool" where
  "hasNonEscapedValueInLabel [] = False"
| "hasNonEscapedValueInLabel (c # s) =
     (if c = BS then hasNonEscapedValueInLabel (tl s)
      else if c = CHR ''*'' \<or> c = CHR '','' then True
      else hasNonEscapedValueInLabel s)"

section \<open>Parts of the specification\<close>

definition verifySelectorObject :: "Selector \<Rightarrow> unit res" where
  "verifySelectorObject selector =
     (if sel_KeyFilter selector = None \<and> sel_SnapshotName selector = None then
        Err (Errorf (''a selector must specify either 'keyFilter' or 'snapshotName'' @ [CHR 0x27]) [] [])
      else if sel_SnapshotName selector \<noteq> None \<and> sel_KeyFilter selector \<noteq> None then
        Err (Errorf ''set both 'keyFilter' and 'snapshotName' in one selector causes ambiguity, only one of them should be set'' [] [])
      else if sel_SnapshotName selector \<noteq> None \<and> sel_LabelFilter selector \<noteq> None then
        Err (Errorf (CHR 0x27 # ''labelFilter' is not allowed when 'snapshotName' is set'') [] [])
      else if sel_SnapshotName selector \<noteq> None \<and> sel_TagFilters selector \<noteq> None then
        Err (Errorf (CHR 0x27 # ''tagFilters' is not allowed when 'snapshotName' is set'') [] [])
      else
        (case sel_LabelFilter selector of
           None \<Rightarrow> Ok ()
         | Some label \<Rightarrow>
             if hasNonEscapedValueInLabel label then
               Err (Errorf ''non-escaped reserved wildcard character '*' and multiple labels separator ',' are not supported in label filters'' [] [])
             else Ok ()))"

definition data_type_name :: "DataType \<Rightarrow> string" where
  "data_type_name t =
     (case t of Default \<Rightarrow> ''default'' | Properties \<Rightarrow> ''properties'' | Yaml \<Rightarrow> ''yaml'' | Json \<Rightarrow> ''json''
        | OtherDataType s \<Rightarrow> s)"

definition verifyDataOptions :: "DataOptions \<Rightarrow> string \<Rightarrow> unit res" where
  "verifyDataOptions opts path =
     (if do_Type opts = Default \<and> do_Key opts \<noteq> [] then
        Err (NewArgumentError (path @ ''.key'') (Errorf ''key field is not allowed when type is default'' [] []))
      else if do_Type opts \<noteq> Default \<and> do_Key opts = [] then
        Err (NewArgumentError (path @ ''.key'') (Errorf ''key field is required when type is json, yaml or properties'' [] []))
      else if do_Separator opts \<noteq> None \<and> (do_Type opts = Default \<or> do_Type opts = Properties) then
        Err (NewArgumentError (path @ ''.separator'')
               (Errorf ''separator field is not allowed when type is %s'' [data_type_name (do_Type opts)] []))
      else Ok ())"

text \<open>\<^verbatim>\<open>Duration.String\<close> for whole seconds below an hour, which the minimal intervals are.\<close>

definition duration_text :: "duration \<Rightarrow> string" where
  "duration_text d =
     (if d < minute then Itoa (nat (d div second)) @ ''s''
      else Itoa (nat (d div minute)) @ ''m'' @ Itoa (nat (d mod minute div second)) @ ''s'')"

definition verifyRefreshInterval :: "string \<Rightarrow> duration \<Rightarrow> string \<Rightarrow> unit res" where
  "verifyRefreshInterval interval allowedMinimalRefreshInterval refreshArgument =
     (case ParseDuration interval of
        Ok refreshInterval \<Rightarrow>
          if refreshInterval < allowedMinimalRefreshInterval then
            Err (NewArgumentError refreshArgument
                   (Errorf ''%s can not be shorter than %s'' [refreshArgument, duration_text allowedMinimalRefreshInterval] []))
          else Ok ()
      | Err e \<Rightarrow> Err (NewArgumentError refreshArgument e)
      | Panic p \<Rightarrow> Panic p)"

definition verifyEndpoint :: "string \<Rightarrow> unit res" where
  "verifyEndpoint endpoint =
     (case url_Parse (ToLower endpoint) of
        None \<Rightarrow> Err (NewArgumentError ''endpoint'' (LibError ''url.Error''))
      | Some url \<Rightarrow>
          if u_Host url = [] then
            Err (NewArgumentError ''endpoint'' (Errorf ''%q is not a valid endpoint. Host must be specified'' [endpoint] []))
          else if u_Scheme url \<noteq> ''https'' then
            Err (NewArgumentError ''endpoint'' (Errorf ''%q is not a valid endpoint. Only https scheme is allowed'' [endpoint] []))
          else if Trim (u_Path url) ''/'' \<noteq> [] then
            Err (NewArgumentError ''endpoint'' (Errorf ''%q is not a valid endpoint. Only host name is allowed'' [endpoint] []))
          else Ok ())"

section \<open>Authentication\<close>

definition Getenv :: "loader_env \<Rightarrow> string \<Rightarrow> string" where
  "Getenv env name = (case env_LookupEnv env name of None \<Rightarrow> [] | Some v \<Rightarrow> v)"

definition WorkloadIdentityEnabled :: string where
  "WorkloadIdentityEnabled = ''WORKLOAD_IDENTITY_ENABLED''"

definition WorkloadIdentityGlobalServiceAccountEnabled :: string where
  "WorkloadIdentityGlobalServiceAccountEnabled = ''WORKLOAD_IDENTITY_GLOBAL_SERVICE_ACCOUNT_ENABLED''"

definition global_account_error :: "string \<Rightarrow> 'a res" where
  "global_account_error field =
     Err (NewArgumentError field (Errorf ''using a global service account is no longer permitted with workload identity. See https://aka.ms/appconfig/k8sglobalserviceaccount for more information'' [] []))"

definition count :: "'a option \<Rightarrow> nat" where
  "count x = (if x = None then 0 else 1)"

definition verifyWorkloadIdentityParameters :: "loader_env \<Rightarrow> WorkloadIdentityParameters \<Rightarrow> unit res" where
  "verifyWorkloadIdentityParameters env wi =
     (let noGlobal = EqualFold (Getenv env WorkloadIdentityGlobalServiceAccountEnabled) ''false'';
          authCount = count (wi_ManagedIdentityClientId wi) + count (wi_ManagedIdentityClientIdReference wi)
                      + count (wi_ServiceAccountName wi)
      in if \<not> EqualFold (Getenv env WorkloadIdentityEnabled) ''true'' then
           Err (NewArgumentError ''auth.workloadIdentity'' (Errorf ''workloadIdentity is not enabled'' [] []))
         else if wi_ManagedIdentityClientId wi \<noteq> None \<and> noGlobal then
           global_account_error ''auth.workloadIdentity.managedIdentityClientId''
         else if wi_ManagedIdentityClientIdReference wi \<noteq> None \<and> noGlobal then
           global_account_error ''auth.workloadIdentity.managedIdentityClientIdReference''
         else if authCount = 0 then
           Err (NewArgumentError ''auth.workloadIdentity'' (Errorf ''setting one of 'managedIdentityClientId', 'managedIdentityClientIdReference' or 'serviceAccountName' field is required'' [] []))
         else if authCount > 1 then
           Err (NewArgumentError ''auth.workloadIdentity'' (Errorf ''setting only one of 'managedIdentityClientId', 'managedIdentityClientIdReference' or 'serviceAccountName' field is allowed'' [] []))
         else
           (case wi_ManagedIdentityClientId wi of
              None \<Rightarrow> Ok ()
            | Some i \<Rightarrow>
                if env_uuid_Parse env i then Ok ()
                else Err (NewArgumentError ''auth.workloadIdentity.managedIdentityClientId''
                       (Errorf ''managedIdentityClientId %q in auth.workloadIdentity is not a valid uuid'' [i] []))))"

definition verifyAuthObject :: "loader_env \<Rightarrow> AzureAppConfigurationProviderAuth option \<Rightarrow> unit res" where
  "verifyAuthObject env au =
     (case au of
        None \<Rightarrow> Ok ()
      | Some a \<Rightarrow>
          res_bind
            (case auth_ManagedIdentityClientId a of
               None \<Rightarrow> Ok ()
             | Some i \<Rightarrow>
                 if env_uuid_Parse env i then Ok ()
                 else Err (NewArgumentError ''auth'' (Errorf ''ManagedIdentityClientId %q in auth field is not a valid uuid'' [i] [])))
            (\<lambda>_. res_bind
               (case auth_WorkloadIdentity a of None \<Rightarrow> Ok () | Some wi \<Rightarrow> verifyWorkloadIdentityParameters env wi)
               (\<lambda>_. if count (auth_ServicePrincipalReference a) + count (auth_ManagedIdentityClientId a)
                         + count (auth_WorkloadIdentity a) > 1 then
                       Err (NewArgumentError ''auth'' (Errorf ''more than one authentication methods are specified in 'auth' field'' [] []))
                     else Ok ())))"

section \<open>The specification\<close>

text \<open>A loop that stops at the first error.\<close>

fun verify_each :: "('a \<Rightarrow> unit res) \<Rightarrow> 'a list \<Rightarrow> unit res" where
  "verify_each f [] = Ok ()"
| "verify_each f (x # xs) = res_bind (f x) (\<lambda>_. verify_each f xs)"

definition argument_error :: "string \<Rightarrow> 'a res \<Rightarrow> 'a res" where
  "argument_error field r = (case r of Err e \<Rightarrow> Err (NewArgumentError field e) | _ \<Rightarrow> r)"

definition verify_connection :: "ProviderSpec \<Rightarrow> unit res" where
  "verify_connection spec =
     (if spec_Endpoint spec = None \<and> spec_ConnectionStringReference spec = None then
        Err (NewArgumentError ''spec'' (Errorf ''one of endpoint and connectionStringReference field must be set'' [] []))
      else if spec_ConnectionStringReference spec \<noteq> None \<and> spec_Endpoint spec \<noteq> None then
        Err (NewArgumentError ''spec'' (Errorf ''both endpoint and connectionStringReference field are set'' [] []))
      else if spec_ConnectionStringReference spec \<noteq> None \<and> spec_Auth spec \<noteq> None then
        Err (NewArgumentError ''spec.auth'' (Errorf ''auth field is not allowed when connectionStringReference field is set'' [] []))
      else Ok ())"

definition verify_feature_flag :: "ProviderSpec \<Rightarrow> AzureAppConfigurationFeatureFlagOptions \<Rightarrow> unit res" where
  "verify_feature_flag spec ff =
     (if (case ct_ConfigMapData (spec_Target spec) of
            None \<Rightarrow> True | Some opts \<Rightarrow> do_Type opts = Default \<or> do_Type opts = Properties) then
        Err (NewArgumentError ''spec.target.configMapData'' (Errorf ''configMap data type must be json or yaml when FeatureFlag is set'' [] []))
      else if ff_Selectors ff = [] then
        Err (NewArgumentError ''spec.featureFlag.selectors'' (Errorf ''featureFlag.selectors must be specified when FeatureFlag is set'' [] []))
      else
        res_bind (argument_error ''spec.featureFlag.selectors'' (verify_each verifySelectorObject (ff_Selectors ff)))
          (\<lambda>_. case ff_Refresh ff of
             None \<Rightarrow> Ok ()
           | Some r \<Rightarrow> verifyRefreshInterval (ffr_Interval r) MinimalFeatureFlagRefreshInterval ''featureFlag.refresh.interval''))"

definition verify_vault :: "loader_env \<Rightarrow> AzureKeyVaultPerVaultAuth \<Rightarrow> unit res" where
  "verify_vault env v =
     res_bind (verifyEndpoint (kv_Uri v)) (\<lambda>_.
       if kv_Auth v = None then
         Err (NewArgumentError ''secret.auth.keyVaults'' (Errorf (''authentication method must be specified for Key Vault '%s'' @ [CHR 0x27]) [kv_Uri v] []))
       else verifyAuthObject env (kv_Auth v))"

definition verify_secret :: "loader_env \<Rightarrow> SecretReferenceOptions \<Rightarrow> unit res" where
  "verify_secret env sr =
     res_bind
       (case sr_Auth sr of
          None \<Rightarrow> Ok ()
        | Some au \<Rightarrow> res_bind (verifyAuthObject env (kva_Auth au)) (\<lambda>_. verify_each (verify_vault env) (kva_KeyVaults au)))
       (\<lambda>_. res_bind
          (case sr_Refresh sr of
             None \<Rightarrow> Ok ()
           | Some r \<Rightarrow> verifyRefreshInterval (rs_Interval r) MinimalSecretRefreshInterval ''secret.refresh.interval'')
          (\<lambda>_. case sg_SecretData (sr_Target sr) of
             None \<Rightarrow> Ok ()
           | Some opts \<Rightarrow> verifyDataOptions opts ''spec.secret.target.secretData''))"

text \<open>The map of the sentinels seen, whose keys compare labels as pointers.\<close>

fun verify_sentinels :: "(Sentinel, bool) gomap \<Rightarrow> Sentinel list \<Rightarrow> unit res" where
  "verify_sentinels sentinelMap [] = Ok ()"
| "verify_sentinels sentinelMap (s # ss) =
     (if golookup sentinelMap s \<noteq> None then
        Err (NewArgumentError ''spec.configuration.refresh.monitoring.keyValues'' (Errorf (''monitoring duplicated key '%s'' @ [CHR 0x27]) [sen_Key s] []))
      else verify_sentinels (gostore s True sentinelMap) ss)"

definition verify_refresh :: "DynamicConfigurationRefreshParameters \<Rightarrow> unit res" where
  "verify_refresh r =
     res_bind
       (case dr_Monitoring r of None \<Rightarrow> Ok () | Some mon \<Rightarrow> verify_sentinels [] (mon_Sentinels mon))
       (\<lambda>_. if dr_Interval r \<noteq> []
             then verifyRefreshInterval (dr_Interval r) MinimalSentinelBasedRefreshInterval ''configuration.refresh.interval''
             else Ok ())"

definition on_some :: "('a \<Rightarrow> unit res) \<Rightarrow> 'a option \<Rightarrow> unit res" where
  "on_some f x = (case x of None \<Rightarrow> Ok () | Some y \<Rightarrow> f y)"

definition verifyObject :: "loader_env \<Rightarrow> ProviderSpec \<Rightarrow> unit res" where
  "verifyObject env spec =
     res_bind (verify_connection spec) (\<lambda>_.
     res_bind (on_some (\<lambda>opts. verifyDataOptions opts ''spec.target.configMapData'') (ct_ConfigMapData (spec_Target spec))) (\<lambda>_.
     res_bind (argument_error ''spec.configuration.selectors''
                (verify_each verifySelectorObject (kvo_Selectors (spec_Configuration spec)))) (\<lambda>_.
     res_bind (on_some (verify_feature_flag spec) (spec_FeatureFlag spec)) (\<lambda>_.
     res_bind (on_some verifyEndpoint (spec_Endpoint spec)) (\<lambda>_.
     res_bind (verifyAuthObject env (spec_Auth spec)) (\<lambda>_.
     res_bind (on_some (verify_secret env) (spec_Secret spec)) (\<lambda>_.
     on_some verify_refresh (kvo_Refresh (spec_Configuration spec)))))))))"

section \<open>What is accepted\<close>

lemma verify_each_Ok: "verify_each f xs = Ok () \<longleftrightarrow> (\<forall>x \<in> set xs. f x = Ok ())"
  by (induction xs) auto

lemma on_some_Ok: "on_some f x = Ok () \<longleftrightarrow> (\<forall>y. x = Some y \<longrightarrow> f y = Ok ())"
  by (simp add: on_some_def split: option.split)

lemma argument_error_Ok: "argument_error field r = Ok x \<longleftrightarrow> r = Ok x"
  by (simp add: argument_error_def split: res.split)

lemmas verify_Ok = verify_each_Ok on_some_Ok argument_error_Ok

lemma verifyRefreshInterval_Ok:
  "verifyRefreshInterval interval m arg = Ok () \<longleftrightarrow> (\<exists>d. ParseDuration interval = Ok d \<and> m \<le> d)"
  by (auto simp: verifyRefreshInterval_def split: res.splits)

lemma verifyEndpoint_parses: "verifyEndpoint e = Ok () \<Longrightarrow> \<exists>u. url_Parse e = Some u"
  using url_Parse_lower [of e] by (auto simp: verifyEndpoint_def split: option.splits)

lemma host_of_no_panic: "url_Parse e = Some u \<Longrightarrow> host_of e = Ok (u_Host u)"
  by (simp add: host_of_def)

section \<open>Verified specifications do not panic\<close>

text \<open>The library calls return errors, they do not panic.\<close>

definition library_calm :: "loader_env \<Rightarrow> bool" where
  "library_calm env \<longleftrightarrow>
     (\<forall>ns n p. env_GetConfigMap env ns n \<noteq> Panic p) \<and> (\<forall>ns n p. env_GetSecret env ns n \<noteq> Panic p) \<and>
     (\<forall>ns n p. env_GetServiceAccount env ns n \<noteq> Panic p) \<and> (\<forall>e c opts p. env_NewClient env e c opts \<noteq> Panic p) \<and>
     (\<forall>s opts p. env_NewClientFromConnectionString env s opts \<noteq> Panic p)"

lemma wrap_error_eq_Panic: "wrap_error fmt args r = Panic p \<longleftrightarrow> r = Panic p"
  by (cases r) (auto simp: wrap_error_def)

lemmas panic_eqs = res_bind_eq_Panic wrap_error_eq_Panic

lemma new_credential_no_panic: "new_credential env c \<noteq> Panic p"
  by (simp add: new_credential_def split: option.split)

lemma CreateTokenCredential_no_panic:
  assumes "verifyAuthObject env au = Ok ()" and "library_calm env"
  shows "CreateTokenCredential env au ns \<noteq> Panic p"
proof -
  have wi: "getWorkloadIdentityClientId env wi ns \<noteq> Panic q"
    if "verifyWorkloadIdentityParameters env wi = Ok ()" "wi_ServiceAccountName wi = None" for wi q
    using that assms(2)
    by (auto simp: verifyWorkloadIdentityParameters_def getWorkloadIdentityClientId_def global_account_error_def
        library_calm_def count_def Let_def res_bind_eq_Panic split: if_splits option.splits)
  have ca: "newClientAssertionCredential env sa ns \<noteq> Panic q" for sa q
    using assms(2) new_credential_no_panic
    by (auto simp: newClientAssertionCredential_def library_calm_def res_bind_eq_Panic split: option.splits)
  have sp: "getServicePrincipleAuthenticationParameters env ns ref \<noteq> Panic q" for ref q
    using assms(2) by (auto simp: getServicePrincipleAuthenticationParameters_def library_calm_def res_bind_eq_Panic)
  show ?thesis
    using assms(1) wi
    by (auto simp: CreateTokenCredential_def verifyAuthObject_def ca sp new_credential_no_panic
        panic_eqs split: option.splits)
qed

lemma secret_clients_loop_no_panic:
  assumes "library_calm env" and "\<forall>v \<in> set kvs. verify_vault env v = Ok ()"
  shows "secret_clients_loop env ve ns kvs clients \<noteq> Panic p"
  using assms(2)
proof (induction kvs arbitrary: clients)
  case (Cons v kvs)
  obtain u where u: "url_Parse (kv_Uri v) = Some u"
    using Cons.prems verifyEndpoint_parses by (auto simp: verify_vault_def)
  have "verifyAuthObject env (kv_Auth v) = Ok ()"
    using Cons.prems by (auto simp: verify_vault_def split: if_splits)
  then have "CreateTokenCredential env (kv_Auth v) ns \<noteq> Panic q" for q
    using CreateTokenCredential_no_panic assms(1) by blast
  moreover have "new_secret_client ve w c \<noteq> Panic q" for w c q
    by (simp add: new_secret_client_def split: option.split)
  ultimately show ?case
    using Cons.IH Cons.prems host_of_no_panic [OF u] by (auto simp: panic_eqs)
qed simp

lemma manager_no_panic:
  assumes "verifyObject env (pv_Spec provider) = Ok ()" and "library_calm env"
  shows "NewConfigurationClientManager env provider \<noteq> Panic p"
proof -
  let ?spec = "pv_Spec provider"
  have v: "verify_connection ?spec = Ok ()" "\<forall>e. spec_Endpoint ?spec = Some e \<longrightarrow> verifyEndpoint e = Ok ()"
    "verifyAuthObject env (spec_Auth ?spec) = Ok ()"
    using assms(1) by (auto simp: verifyObject_def verify_Ok)
  have cred: "CreateTokenCredential env (spec_Auth ?spec) ns \<noteq> Panic q" for ns q
    using CreateTokenCredential_no_panic [OF v(3) assms(2)] .
  have dom: "getValidDomain e \<noteq> Panic q" if "url_Parse e = Some u" for e u q
    using host_of_no_panic [OF that] by (simp add: getValidDomain_def)
  have cs: "parseConnectionString s tok \<noteq> Panic q" for s tok q
    by (simp add: parseConnectionString_def Let_def split: option.split)
  have ve: "verifyEndpointFromConnectionString e \<noteq> Panic q" for e q
    by (simp add: verifyEndpointFromConnectionString_def split: option.split)
  have ve_ok: "\<exists>u. url_Parse e = Some u" if "verifyEndpointFromConnectionString e = Ok ()" for e
    using that url_Parse_lower [of e] by (auto simp: verifyEndpointFromConnectionString_def split: option.splits)
  have vd: "getValidDomain e \<noteq> Panic q" if "verifyEndpointFromConnectionString e = Ok ()" for e q
    using ve_ok [OF that] dom by blast
  have param: "getConnectionStringParameter env ns n \<noteq> Panic q" for ns n q
    using assms(2) by (auto simp: getConnectionStringParameter_def library_calm_def res_bind_eq_Panic split: option.splits)
  show ?thesis
  proof (cases "spec_ConnectionStringReference ?spec")
    case (Some ref)
    then show ?thesis
      using assms(2) vd
      by (auto simp: NewConfigurationClientManager_def Let_def cs ve param library_calm_def panic_eqs)
  next
    case None
    then obtain e where e: "spec_Endpoint ?spec = Some e"
      using v(1) by (auto simp: verify_connection_def split: if_splits)
    then obtain u where "url_Parse e = Some u" using v(2) verifyEndpoint_parses by blast
    then show ?thesis
      using None e assms(2) dom
      by (auto simp: NewConfigurationClientManager_def Let_def cred library_calm_def panic_eqs)
  qed
qed

lemma resolver_no_panic:
  assumes "verifyObject env (pv_Spec provider) = Ok ()" and "library_calm env"
  shows "createSecretReferenceResolver env ve provider \<noteq> Panic q"
proof -
  have s: "verify_secret env sr = Ok ()" if "spec_Secret (pv_Spec provider) = Some sr" for sr
    using assms(1) that by (auto simp: verifyObject_def verify_Ok)
  have no: "verifyAuthObject env None = Ok ()" by (simp add: verifyAuthObject_def)
  show ?thesis
  proof (cases "spec_Secret (pv_Spec provider)")
    case None
    then show ?thesis
      using CreateTokenCredential_no_panic [OF no assms(2)]
      by (auto simp: createSecretReferenceResolver_def createSecretClients_def panic_eqs)
  next
    case (Some sr)
    show ?thesis
    proof (cases "sr_Auth sr")
      case None
      then show ?thesis
        using Some CreateTokenCredential_no_panic [OF no assms(2)]
        by (auto simp: createSecretReferenceResolver_def createSecretClients_def panic_eqs)
    next
      case (Some au)
      have "verifyAuthObject env (kva_Auth au) = Ok ()" "\<forall>v \<in> set (kva_KeyVaults au). verify_vault env v = Ok ()"
        using s [OF \<open>spec_Secret (pv_Spec provider) = Some sr\<close>] Some by (auto simp: verify_secret_def verify_Ok)
      then show ?thesis
        using Some \<open>spec_Secret (pv_Spec provider) = Some sr\<close> CreateTokenCredential_no_panic [OF _ assms(2)]
          secret_clients_loop_no_panic [OF assms(2)]
        by (auto simp: createSecretReferenceResolver_def createSecretClients_def panic_eqs)
    qed
  qed
qed

section \<open>Escapes\<close>

text \<open>The backslashes right before a position.\<close>

definition trailing_backslashes :: "string \<Rightarrow> nat" where
  "trailing_backslashes a = length (takeWhile (\<lambda>c. c = BS) (rev a))"

lemma trailing_backslashes_all: "\<forall>x \<in> set a. x = BS \<Longrightarrow> trailing_backslashes a = length a"
  by (simp add: trailing_backslashes_def takeWhile_eq_all_conv [THEN iffD2])

lemma trailing_backslashes_Cons:
  "trailing_backslashes (c # a) =
     (if \<forall>x \<in> set a. x = BS then length a + (if c = BS then 1 else 0) else trailing_backslashes a)"
  by (simp add: trailing_backslashes_def takeWhile_append)

lemma even_trailing_escape:
  "even (trailing_backslashes (BS # d # a)) = even (trailing_backslashes a)"
  by (cases "\<forall>x \<in> set a. x = BS") (auto simp: trailing_backslashes_Cons trailing_backslashes_all)

lemma even_trailing_plain:
  "c \<noteq> BS \<Longrightarrow> even (trailing_backslashes (c # a)) = even (trailing_backslashes a)"
  by (cases "\<forall>x \<in> set a. x = BS") (auto simp: trailing_backslashes_Cons trailing_backslashes_all)

text \<open>A star or a comma that no backslash escapes.\<close>

definition unescaped :: "string \<Rightarrow> bool" where
  "unescaped label = (\<exists>a c b. label = a @ c # b \<and> (c = CHR ''*'' \<or> c = CHR '','') \<and> even (trailing_backslashes a))"

lemma unescaped_special: "c = CHR ''*'' \<or> c = CHR '','' \<Longrightarrow> unescaped (c # s)"
  unfolding unescaped_def by (intro exI [of _ "[]"]) (auto simp: trailing_backslashes_def)

lemma unescaped_escape: "unescaped (BS # s) \<longleftrightarrow> unescaped (tl s)"
proof
  assume "unescaped (BS # s)"
  then obtain a x b where x: "BS # s = a @ x # b" "x = CHR ''*'' \<or> x = CHR '',''" "even (trailing_backslashes a)"
    by (auto simp: unescaped_def)
  then obtain d a' where "a = BS # d # a'"
    by (cases a; cases "tl a") (auto simp: trailing_backslashes_def)
  with x even_trailing_escape [of d a'] show "unescaped (tl s)" by (auto simp: unescaped_def)
next
  assume "unescaped (tl s)"
  then obtain a x b where x: "tl s = a @ x # b" "x = CHR ''*'' \<or> x = CHR '',''" "even (trailing_backslashes a)"
    by (auto simp: unescaped_def)
  then obtain d where "s = d # a @ x # b" by (cases s) auto
  with x even_trailing_escape [of d a] show "unescaped (BS # s)"
    unfolding unescaped_def by (intro exI [of _ "BS # d # a"]) auto
qed

lemma unescaped_plain:
  assumes "c \<noteq> BS" "c \<noteq> CHR ''*''" "c \<noteq> CHR '',''"
  shows "unescaped (c # s) \<longleftrightarrow> unescaped s"
proof
  assume "unescaped (c # s)"
  then obtain a x b where x: "c # s = a @ x # b" "x = CHR ''*'' \<or> x = CHR '',''" "even (trailing_backslashes a)"
    by (auto simp: unescaped_def)
  then obtain a' where "a = c # a'" using assms by (cases a) auto
  with x even_trailing_plain [OF assms(1), of a'] show "unescaped s" by (auto simp: unescaped_def)
next
  assume "unescaped s"
  then obtain a x b where x: "s = a @ x # b" "x = CHR ''*'' \<or> x = CHR '',''" "even (trailing_backslashes a)"
    by (auto simp: unescaped_def)
  with even_trailing_plain [OF assms(1), of a] show "unescaped (c # s)"
    unfolding unescaped_def by (intro exI [of _ "c # a"]) auto
qed

section \<open>Properties\<close>

text \<open>
  A label filter is rejected exactly when it has an unescaped wildcard or separator: a star or
  a comma with an even number of backslashes right before it.
\<close>

theorem label_filter_check_exact:
  "hasNonEscapedValueInLabel label \<longleftrightarrow>
     (\<exists>a c b. label = a @ c # b \<and> (c = CHR ''*'' \<or> c = CHR '','') \<and> even (trailing_backslashes a))"
  unfolding unescaped_def [symmetric]
proof (induction label rule: hasNonEscapedValueInLabel.induct)
  case (2 c s)
  then show ?case
    using unescaped_special [of c s] unescaped_escape [of s] unescaped_plain [of c s] by (auto split: if_splits)
qed (simp add: unescaped_def)

text \<open>
  C11. An accepted specification cannot make the loader dereference a nil pointer: creating the
  client manager and the Key Vault resolver return a value or an error, never a panic, as
  long as the libraries return.
\<close>

theorem verified_spec_never_panics:
  assumes "verifyObject env (pv_Spec provider) = Ok ()" and "library_calm env"
  shows "NewConfigurationClientManager env provider \<noteq> Panic p
    \<and> createSecretReferenceResolver env ve provider \<noteq> Panic q"
proof
  show "NewConfigurationClientManager env provider \<noteq> Panic p" by (rule manager_no_panic [OF assms])
  show "createSecretReferenceResolver env ve provider \<noteq> Panic q" by (rule resolver_no_panic [OF assms])
qed

text \<open>
  What a selector has to be, of settings and of feature flags alike: it names either keys or
  a snapshot, a snapshot comes without label and tag filters, and the label filter has no
  wildcard and no separator that is not escaped.
\<close>

definition unambiguous :: "Selector \<Rightarrow> bool" where
  "unambiguous s \<longleftrightarrow>
     (sel_KeyFilter s = None \<longleftrightarrow> sel_SnapshotName s \<noteq> None)
   \<and> (sel_SnapshotName s \<noteq> None \<longrightarrow> sel_LabelFilter s = None \<and> sel_TagFilters s = None)
   \<and> (\<forall>label. sel_LabelFilter s = Some label \<longrightarrow> \<not> unescaped label)"

lemma verifySelectorObject_Ok: "verifySelectorObject s = Ok () \<longleftrightarrow> unambiguous s"
  by (auto simp: verifySelectorObject_def unambiguous_def label_filter_check_exact unescaped_def split: option.splits)

text \<open>
  C26. What an accepted specification promises the rest of the controller: exactly one way to
  connect, a key for typed data and none for plain data, ConfigMap data that are neither plain nor
  properties when there are feature flags, unambiguous selectors of settings and of feature flags, and
  intervals that are at least a second, or a minute for secrets.  The one interval that is not
  checked is an empty one of the settings.
\<close>

theorem accepted_spec:
  assumes "verifyObject env spec = Ok ()"
  shows "(spec_Endpoint spec = None \<longleftrightarrow> spec_ConnectionStringReference spec \<noteq> None)
    \<and> (spec_ConnectionStringReference spec \<noteq> None \<longrightarrow> spec_Auth spec = None)
    \<and> (\<forall>opts. ct_ConfigMapData (spec_Target spec) = Some opts \<longrightarrow> (do_Type opts = Default \<longleftrightarrow> do_Key opts = []))
    \<and> (\<forall>sr opts. spec_Secret spec = Some sr \<and> sg_SecretData (sr_Target sr) = Some opts \<longrightarrow>
          (do_Type opts = Default \<longleftrightarrow> do_Key opts = []))
    \<and> (\<forall>ff. spec_FeatureFlag spec = Some ff \<longrightarrow> ff_Selectors ff \<noteq> [] \<and> list_all unambiguous (ff_Selectors ff)
          \<and> (\<exists>opts. ct_ConfigMapData (spec_Target spec) = Some opts \<and> do_Type opts \<notin> {Default, Properties}))
    \<and> list_all unambiguous (kvo_Selectors (spec_Configuration spec))
    \<and> (\<forall>ff r. spec_FeatureFlag spec = Some ff \<and> ff_Refresh ff = Some r \<longrightarrow> second \<le> duration_or_zero (ffr_Interval r))
    \<and> (\<forall>sr r. spec_Secret spec = Some sr \<and> sr_Refresh sr = Some r \<longrightarrow> minute \<le> duration_or_zero (rs_Interval r))
    \<and> (\<forall>r. kvo_Refresh (spec_Configuration spec) = Some r \<and> dr_Interval r \<noteq> [] \<longrightarrow>
          second \<le> duration_or_zero (dr_Interval r))"
proof -
  have v: "verify_connection spec = Ok ()"
    "\<forall>opts. ct_ConfigMapData (spec_Target spec) = Some opts \<longrightarrow> verifyDataOptions opts ''spec.target.configMapData'' = Ok ()"
    "list_all unambiguous (kvo_Selectors (spec_Configuration spec))"
    "\<forall>ff. spec_FeatureFlag spec = Some ff \<longrightarrow> verify_feature_flag spec ff = Ok ()"
    "\<forall>sr. spec_Secret spec = Some sr \<longrightarrow> verify_secret env sr = Ok ()"
    "\<forall>r. kvo_Refresh (spec_Configuration spec) = Some r \<longrightarrow> verify_refresh r = Ok ()"
    using assms by (auto simp: verifyObject_def verify_Ok verifySelectorObject_Ok list_all_iff)
  have int: "m \<le> duration_or_zero i" if "verifyRefreshInterval i m arg = Ok ()" for i m arg
    using that by (auto simp: verifyRefreshInterval_Ok duration_or_zero_def)
  have opts: "do_Type opts = Default \<longleftrightarrow> do_Key opts = []" if "verifyDataOptions opts path = Ok ()" for opts path
    using that by (auto simp: verifyDataOptions_def split: if_splits)
  have "spec_Endpoint spec = None \<longleftrightarrow> spec_ConnectionStringReference spec \<noteq> None"
    "spec_ConnectionStringReference spec \<noteq> None \<Longrightarrow> spec_Auth spec = None"
    using v(1) by (auto simp: verify_connection_def split: if_splits)
  moreover have "do_Type opts = Default \<longleftrightarrow> do_Key opts = []"
    if "spec_Secret spec = Some sr" "sg_SecretData (sr_Target sr) = Some opts" for sr opts
    using v(5) that opts by (auto simp: verify_secret_def)
  moreover have "ff_Selectors ff \<noteq> [] \<and> list_all unambiguous (ff_Selectors ff)
      \<and> (\<exists>opts. ct_ConfigMapData (spec_Target spec) = Some opts \<and> do_Type opts \<notin> {Default, Properties})"
    if "spec_FeatureFlag spec = Some ff" for ff
    using v(4) that
    by (auto simp: verify_feature_flag_def verify_Ok verifySelectorObject_Ok list_all_iff split: if_splits option.splits)
  moreover have "second \<le> duration_or_zero (ffr_Interval r)"
    if "spec_FeatureFlag spec = Some ff" "ff_Refresh ff = Some r" for ff r
    using v(4) that int [of "ffr_Interval r"]
    by (auto simp: verify_feature_flag_def MinimalFeatureFlagRefreshInterval_def split: if_splits option.splits)
  moreover have "minute \<le> duration_or_zero (rs_Interval r)"
    if "spec_Secret spec = Some sr" "sr_Refresh sr = Some r" for sr r
    using v(5) that int [of "rs_Interval r"] by (auto simp: verify_secret_def MinimalSecretRefreshInterval_def)
  moreover have "second \<le> duration_or_zero (dr_Interval r)"
    if "kvo_Refresh (spec_Configuration spec) = Some r" "dr_Interval r \<noteq> []" for r
    using v(6) that int [of "dr_Interval r"]
    by (auto simp: verify_refresh_def MinimalSentinelBasedRefreshInterval_def)
  ultimately show ?thesis using v(2,3) opts by blast
qed

text \<open>
  Duplicate sentinels slip through when they have a label: the sentinels are compared with
  their label pointers, so the same key and label read from two entries are accepted.
\<close>

theorem duplicate_sentinels_accepted:
  assumes "address \<noteq> address'"
  shows "verify_sentinels [] [\<lparr> sen_Key = key, sen_Label = Some (address, label) \<rparr>,
      \<lparr> sen_Key = key, sen_Label = Some (address', label) \<rparr>] = Ok ()"
  using assms by simp

section \<open>Witnesses\<close>

definition uuid_env :: loader_env where
  "uuid_env = (sample_env sample_srv)\<lparr> env_uuid_Parse := (\<lambda>s. s = ''id'') \<rparr>"

definition checked_spec :: ProviderSpec where
  "checked_spec =
     sample_spec\<lparr> spec_Target := \<lparr> ct_ConfigMapName = ''settings'',
         ct_ConfigMapData = Some \<lparr> do_Type = Json, do_Key = ''settings.json'', do_Separator = None \<rparr> \<rparr>,
       spec_Configuration := \<lparr> kvo_Selectors = sample_selectors, kvo_TrimKeyPrefixes = [],
         kvo_Refresh = Some \<lparr> dr_Monitoring = Some \<lparr> mon_Sentinels = [\<lparr> sen_Key = ''s'', sen_Label = None \<rparr>] \<rparr>,
           dr_Interval = ''1s'', dr_Enabled = True \<rparr> \<rparr>,
       spec_Secret := Some (sample_secret_options\<lparr> sr_Refresh := Some \<lparr> rs_Interval = ''1m'', rs_Enabled = True \<rparr> \<rparr>),
       spec_FeatureFlag := Some \<lparr> ff_Selectors = sample_selectors,
         ff_Refresh = Some \<lparr> ffr_Interval = ''30s'', ffr_Enabled = True \<rparr> \<rparr> \<rparr>"

lemma checked_spec_accepted: "verifyObject uuid_env checked_spec = Ok ()"
proof -
  have i: "Itoa (Suc 0) = ''1''" "Itoa 30 = ''30''" by code_simp+
  have u: "map_of unitMap ''s'' = Some (nat second)" "map_of unitMap ''m'' = Some (nat minute)"
    by (simp_all add: unitMap_def duration_defs)
  have d: "verifyRefreshInterval ''1s'' MinimalSentinelBasedRefreshInterval arg = Ok ()"
    "verifyRefreshInterval ''30s'' MinimalFeatureFlagRefreshInterval arg = Ok ()"
    "verifyRefreshInterval ''1m'' MinimalSecretRefreshInterval arg = Ok ()" for arg
    using ParseDuration_unit [OF u(1), of 1] ParseDuration_unit [OF u(1), of 30] ParseDuration_unit [OF u(2), of 1]
    by (simp_all add: verifyRefreshInterval_def i duration_defs MinimalSentinelBasedRefreshInterval_def
        MinimalFeatureFlagRefreshInterval_def MinimalSecretRefreshInterval_def)
  have e: "verifyEndpoint ''https://store.azconfig.io'' = Ok ()" "verifyEndpoint ''https://Vault.azure.net'' = Ok ()"
    by code_simp+
  have s: "\<forall>s \<in> set sample_selectors. verifySelectorObject s = Ok ()"
    by (simp add: sample_selectors_def verifySelectorObject_def)
  have ne: "sample_selectors \<noteq> []" by (simp add: sample_selectors_def)
  show ?thesis
    by (simp add: verifyObject_def verify_Ok s ne checked_spec_def sample_spec_def verify_connection_def verifyDataOptions_def
        verify_feature_flag_def verifyAuthObject_def verify_secret_def verify_vault_def verify_refresh_def d e
        sample_secret_options_def uuid_env_def count_def)
qed

theorem verified_spec_never_panics_witness:
  "NewConfigurationClientManager uuid_env (sample_provider\<lparr> pv_Spec := checked_spec \<rparr>) \<noteq> Panic ''p''
   \<and> createSecretReferenceResolver uuid_env sample_vault_env (sample_provider\<lparr> pv_Spec := checked_spec \<rparr>) \<noteq> Panic ''q''"
proof (rule verified_spec_never_panics)
  show "verifyObject uuid_env (pv_Spec (sample_provider\<lparr> pv_Spec := checked_spec \<rparr>)) = Ok ()"
    using checked_spec_accepted by simp
  show "library_calm uuid_env" by (simp add: library_calm_def uuid_env_def sample_env_def)
qed

theorem accepted_spec_witness:
  "minute \<le> duration_or_zero ''1m'' \<and> second \<le> duration_or_zero ''30s'' \<and> list_all unambiguous sample_selectors"
  using accepted_spec [OF checked_spec_accepted] by (simp add: checked_spec_def)

theorem duplicate_sentinels_accepted_witness:
  "verify_sentinels [] [\<lparr> sen_Key = ''s'', sen_Label = Some (0, ''dev'') \<rparr>, \<lparr> sen_Key = ''s'', sen_Label = Some (1, ''dev'') \<rparr>] = Ok ()"
  by (rule duplicate_sentinels_accepted) simp

end
