(* ===== verification/Processor.thy ===== *)
theory Processor
  imports Loader_Refresh Kube_Objects Spec_Validation
begin

text \<open>
  The processor of one reconciliation, \<^verbatim>\<open>internal/controller/processor.go\<close>: whether everything
  is loaded again, the three refreshes with their timers, and the requeue interval.  The
  loader is seen through its interface \<^verbatim>\<open>ConfigurationSettingsRetriever\<close>, a record of
  operations on the retriever's own state.
\<close>

section \<open>Data\<close>

record 's retriever =
  rt_CreateTargetSettings :: "resolver option \<Rightarrow> ('s, TargetKeyValueSettings) act"
  rt_CheckAndRefreshSentinels :: "Provider \<Rightarrow> sentinel_etags \<Rightarrow> ('s, bool \<times> sentinel_etags) act"
  rt_CheckPageETags :: "page_etags \<Rightarrow> ('s, bool) act"
  rt_RefreshKeyValueSettings :: "(string, string) gomap \<Rightarrow> resolver option \<Rightarrow> ('s, TargetKeyValueSettings) act"
  rt_RefreshFeatureFlagSettings :: "(string, string) gomap \<Rightarrow> ('s, TargetKeyValueSettings) act"
  rt_ResolveSecretReferences :: "k8s_secrets \<Rightarrow> resolver option \<Rightarrow> ('s, TargetKeyValueSettings) act"

text \<open>The loader as a retriever.\<close>

definition loader_retriever :: "'k loader_ctx \<Rightarrow> nat \<Rightarrow> loader retriever" where
  "loader_retriever lc addr =
     \<lparr> rt_CreateTargetSettings = CreateTargetSettings lc addr,
       rt_CheckAndRefreshSentinels = CheckAndRefreshSentinels lc,
       rt_CheckPageETags = CheckPageETags lc,
       rt_RefreshKeyValueSettings = RefreshKeyValueSettings lc,
       rt_RefreshFeatureFlagSettings = RefreshFeatureFlagSettings lc,
       rt_ResolveSecretReferences = (\<lambda>refs resolver l.
         (l, ResolveSecretReferences (lc_codec lc) (lc_crypto lc) (pv_Spec (ldr_Provider l))
               (new_resolver lc (ce_env (lc_calls lc (ldr_calls l))) (ldr_Provider l)) refs resolver)) \<rparr>"

text \<open>
  The state kept between the reconciliations of a provider.  Its maps are only ranged over,
  looked up and measured, so a nil map is the empty one.
\<close>

record ReconciliationState =
  rc_Generation :: int
  rc_ConfigMapResourceVersion :: "string option"
  rc_Annotations :: "(string, string) gomap"
  rc_SentinelETags :: sentinel_etags
  rc_KeyValueETags :: page_etags
  rc_FeatureFlagETags :: page_etags
  rc_ExistingK8sSecrets :: k8s_secrets
  rc_NextKeyValueRefreshReconcileTime :: go_time
  rc_NextSecretReferenceRefreshReconcileTime :: go_time
  rc_NextFeatureFlagRefreshReconcileTime :: go_time
  rc_ClientManager :: "ConfigurationClientManager option"

record RefreshOptions =
  ro_keyValueRefreshEnabled :: bool
  ro_secretReferenceRefreshEnabled :: bool
  ro_secretReferenceRefreshNeeded :: bool
  ro_featureFlagRefreshEnabled :: bool
  ro_featureFlagRefreshNeeded :: bool
  ro_ConfigMapSettingPopulated :: bool
  ro_SecretSettingPopulated :: bool
  ro_sentinelChanged :: bool
  ro_keyValuePageETagsChanged :: bool
  ro_updatedSentinelETags :: sentinel_etags
  ro_updatedKeyValueETags :: "page_etags option"
  ro_updatedFeatureFlagETags :: "page_etags option"

definition NewRefreshOptions :: RefreshOptions where
  "NewRefreshOptions =
     \<lparr> ro_keyValueRefreshEnabled = False, ro_secretReferenceRefreshEnabled = False,
       ro_secretReferenceRefreshNeeded = False, ro_featureFlagRefreshEnabled = False,
       ro_featureFlagRefreshNeeded = False, ro_ConfigMapSettingPopulated = False,
       ro_SecretSettingPopulated = False, ro_sentinelChanged = False, ro_keyValuePageETagsChanged = False,
       ro_updatedSentinelETags = [], ro_updatedKeyValueETags = None, ro_updatedFeatureFlagETags = None \<rparr>"

text \<open>
  \<open>pr_SharedSecrets\<close> records an alias: after a refresh of the secret references the settings
  and the reconciliation state hold the same map \<^verbatim>\<open>K8sSecrets\<close>.
\<close>

record 's processor =
  pr_Retriever :: 's
  pr_Provider :: Provider
  pr_Settings :: TargetKeyValueSettings
  pr_ShouldReconcile :: bool
  pr_State :: ReconciliationState
  pr_CurrentTime :: go_time
  pr_Options :: RefreshOptions
  pr_Resolver :: "resolver option"
  pr_SharedSecrets :: bool

text \<open>\<^verbatim>\<open>ctrl.Result\<close>\<close>

record Result =
  rr_Requeue :: bool
  rr_RequeueAfter :: duration

text \<open>A call of the retriever, and changes of the options and of the state.\<close>

definition call :: "('s, 'a) act \<Rightarrow> ('s processor, 'a) act" where
  "call m p = (case m (pr_Retriever p) of (s, r) \<Rightarrow> (p\<lparr> pr_Retriever := s \<rparr>, r))"

definition with_options :: "(RefreshOptions \<Rightarrow> RefreshOptions) \<Rightarrow> 's processor \<Rightarrow> 's processor" where
  "with_options f p = p\<lparr> pr_Options := f (pr_Options p) \<rparr>"

definition with_state :: "(ReconciliationState \<Rightarrow> ReconciliationState) \<Rightarrow> 's processor \<Rightarrow> 's processor" where
  "with_state f p = p\<lparr> pr_State := f (pr_State p) \<rparr>"

section \<open>Loading everything\<close>

definition processFullReconciliation :: "'s retriever \<Rightarrow> ('s processor, unit) act" where
  "processFullReconciliation rt p =
     act_bind (call (rt_CreateTargetSettings rt (pr_Resolver p))) (\<lambda>updatedSettings.
       act_modify (\<lambda>p. with_options
         (\<lambda>ro. ro\<lparr> ro_ConfigMapSettingPopulated := True,
                   ro_updatedKeyValueETags := tg_KeyValueETags updatedSettings,
                   ro_updatedFeatureFlagETags := tg_FeatureFlagETags updatedSettings,
                   ro_updatedSentinelETags := slice (tg_SentinelETags updatedSettings),
                   ro_SecretSettingPopulated :=
                     (spec_Secret (pv_Spec (pr_Provider p)) \<noteq> None \<or> ro_SecretSettingPopulated ro) \<rparr>)
         (p\<lparr> pr_Settings := updatedSettings \<rparr>))) p"

definition annotationChanged :: "(string, string) gomap \<Rightarrow> (string, string) gomap \<Rightarrow> bool" where
  "annotationChanged oldAnnotations newAnnotations =
     (if length oldAnnotations \<noteq> length newAnnotations then True
      else list_ex (\<lambda>(key, v). golookup oldAnnotations key \<noteq> Some v) newAnnotations)"

definition shouldReconcile :: "'s processor \<Rightarrow> ConfigMap \<Rightarrow> (string, Secret) gomap \<Rightarrow> bool" where
  "shouldReconcile p existingConfigMap existingSecrets =
     (let st = pr_State p; existing = rc_ExistingK8sSecrets st
      in if pv_Generation (pr_Provider p) \<noteq> rc_Generation st then True
         else if annotationChanged (rc_Annotations st) (pv_Annotations (pr_Provider p)) then True
         else if rc_ConfigMapResourceVersion st = None \<or>
                 rc_ConfigMapResourceVersion st \<noteq> Some (om_ResourceVersion (cmo_Meta existingConfigMap)) then True
         else if spec_Secret (pv_Spec (pr_Provider p)) = None then False
         else if length existing = 0 \<or> length existing \<noteq> length existingSecrets then True
         else list_ex (\<lambda>(name, secret). case golookup existing name of
                None \<Rightarrow> False
              | Some m \<Rightarrow> tk_SecretResourceVersion m \<noteq> om_ResourceVersion (sco_Meta secret)) existingSecrets)"

section \<open>Feature flags\<close>

definition feature_flag_interval :: "ProviderSpec \<Rightarrow> string option" where
  "feature_flag_interval spec =
     (case spec_FeatureFlag spec of
        None \<Rightarrow> None
      | Some ff \<Rightarrow>
          (case ff_Refresh ff of None \<Rightarrow> None | Some r \<Rightarrow> if ffr_Enabled r then Some (ffr_Interval r) else None))"

definition processFeatureFlagRefresh :: "'s retriever \<Rightarrow> ConfigMap \<Rightarrow> ('s processor, unit) act" where
  "processFeatureFlagRefresh rt existingConfigMap p =
     (case feature_flag_interval (pv_Spec (pr_Provider p)) of
        None \<Rightarrow> (with_state (\<lambda>st. st\<lparr> rc_NextFeatureFlagRefreshReconcileTime := 0 \<rparr>) p, Ok ())
      | Some interval \<Rightarrow>
          (let p1 = with_options (\<lambda>ro. ro\<lparr> ro_featureFlagRefreshEnabled := True \<rparr>) p;
               nextTime = pr_CurrentTime p + duration_or_zero interval;
               advance = with_state (\<lambda>st. st\<lparr> rc_NextFeatureFlagRefreshReconcileTime := nextTime \<rparr>)
           in if pr_ShouldReconcile p then (advance p1, Ok ())
              else if \<not> rc_NextFeatureFlagRefreshReconcileTime (pr_State p) < pr_CurrentTime p then (p1, Ok ())
              else
                act_bind (call (rt_CheckPageETags rt (rc_FeatureFlagETags (pr_State p)))) (\<lambda>needed.
                act_bind (act_modify (with_options (\<lambda>ro. ro\<lparr> ro_featureFlagRefreshNeeded := needed \<rparr>))) (\<lambda>_.
                if \<not> needed then act_modify advance
                else
                  act_bind (call (rt_RefreshFeatureFlagSettings rt (slice (cmo_Data existingConfigMap)))) (\<lambda>refreshed.
                    act_modify (\<lambda>p. advance (with_options
                      (\<lambda>ro. ro\<lparr> ro_updatedFeatureFlagETags := tg_FeatureFlagETags refreshed,
                                ro_ConfigMapSettingPopulated := True \<rparr>)
                      (p\<lparr> pr_Settings := refreshed \<rparr>)))))) p1))"

section \<open>Key-values\<close>

definition key_value_refresh :: "ProviderSpec \<Rightarrow> DynamicConfigurationRefreshParameters option" where
  "key_value_refresh spec =
     (case kvo_Refresh (spec_Configuration spec) of
        None \<Rightarrow> None | Some r \<Rightarrow> if dr_Enabled r then Some r else None)"

text \<open>The change check: by sentinels when there is monitoring, else by the pages' ETags.\<close>

definition check_key_values :: "'s retriever \<Rightarrow> DynamicConfigurationRefreshParameters \<Rightarrow> ('s processor, unit) act" where
  "check_key_values rt r p =
     (if dr_Monitoring r \<noteq> None then
        act_bind (call (rt_CheckAndRefreshSentinels rt (pr_Provider p) (rc_SentinelETags (pr_State p))))
          (\<lambda>(changed, eTags). act_modify (with_options (\<lambda>ro. ro\<lparr> ro_sentinelChanged := changed, ro_updatedSentinelETags := eTags \<rparr>))) p
      else
        act_bind (call (rt_CheckPageETags rt (rc_KeyValueETags (pr_State p))))
          (\<lambda>changed. act_modify (with_options (\<lambda>ro. ro\<lparr> ro_keyValuePageETagsChanged := changed \<rparr>))) p)"

text \<open>The ConfigMap's data, or the settings a feature flag refresh has produced.\<close>

definition existing_settings :: "ConfigMap \<Rightarrow> TargetKeyValueSettings \<Rightarrow> (string, string) gomap" where
  "existing_settings existingConfigMap settings =
     (case tg_ConfigMapSettings settings of None \<Rightarrow> slice (cmo_Data existingConfigMap) | Some m \<Rightarrow> m)"

definition load_key_values ::
    "'s retriever \<Rightarrow> ConfigMap \<Rightarrow> ('s processor \<Rightarrow> 's processor) \<Rightarrow> ('s processor, unit) act" where
  "load_key_values rt existingConfigMap advance p =
     (if \<not> ro_sentinelChanged (pr_Options p) \<and> \<not> ro_keyValuePageETagsChanged (pr_Options p)
      then (advance p, Ok ())
      else
        act_bind (call (rt_RefreshKeyValueSettings rt (existing_settings existingConfigMap (pr_Settings p)) (pr_Resolver p)))
          (\<lambda>refreshed. act_modify (\<lambda>p. advance (with_options
             (\<lambda>ro. ro\<lparr> ro_ConfigMapSettingPopulated := True,
                       ro_updatedKeyValueETags :=
                         (if ro_keyValuePageETagsChanged ro then tg_KeyValueETags refreshed else ro_updatedKeyValueETags ro),
                       ro_SecretSettingPopulated :=
                         (spec_Secret (pv_Spec (pr_Provider p)) \<noteq> None \<or> ro_SecretSettingPopulated ro) \<rparr>)
             (p\<lparr> pr_Settings := refreshed \<rparr>)))) p)"

definition processKeyValueRefresh :: "'s retriever \<Rightarrow> ConfigMap \<Rightarrow> ('s processor, unit) act" where
  "processKeyValueRefresh rt existingConfigMap p =
     (case key_value_refresh (pv_Spec (pr_Provider p)) of
        None \<Rightarrow> (with_state (\<lambda>st. st\<lparr> rc_NextKeyValueRefreshReconcileTime := 0 \<rparr>) p, Ok ())
      | Some r \<Rightarrow>
          (let p1 = with_options (\<lambda>ro. ro\<lparr> ro_keyValueRefreshEnabled := True \<rparr>) p;
               nextTime = pr_CurrentTime p + duration_or_zero (dr_Interval r);
               advance = with_state (\<lambda>st. st\<lparr> rc_NextKeyValueRefreshReconcileTime := nextTime \<rparr>)
           in if pr_ShouldReconcile p then (advance p1, Ok ())
              else if \<not> rc_NextKeyValueRefreshReconcileTime (pr_State p) < pr_CurrentTime p then (p1, Ok ())
              else act_bind (check_key_values rt r) (\<lambda>_. load_key_values rt existingConfigMap advance) p1))"

section \<open>Secret references\<close>

definition secret_interval :: "ProviderSpec \<Rightarrow> string option" where
  "secret_interval spec =
     (case spec_Secret spec of
        None \<Rightarrow> None
      | Some sr \<Rightarrow>
          (case sr_Refresh sr of None \<Rightarrow> None | Some r \<Rightarrow> if rs_Enabled r then Some (rs_Interval r) else None))"

fun solve_keys ::
    "string \<Rightarrow> SecretType \<Rightarrow> (string, KeyVaultSecretMetadata) gomap \<Rightarrow> k8s_secrets \<Rightarrow> k8s_secrets" where
  "solve_keys secretName ty [] toSolve = toSolve"
| "solve_keys secretName ty ((key, md) # m) toSolve =
     (if kvm_SecretVersion md = [] then
        (let target = (case golookup toSolve secretName of
                         Some t \<Rightarrow> t
                       | None \<Rightarrow> \<lparr> tk_Type = ty, tk_SecretsKeyVaultMetadata = [], tk_SecretResourceVersion = [] \<rparr>)
         in solve_keys secretName ty m
              (gostore secretName (target\<lparr> tk_SecretsKeyVaultMetadata :=
                 gostore key md (tk_SecretsKeyVaultMetadata target) \<rparr>) toSolve))
      else solve_keys secretName ty m toSolve)"

fun solve_secrets :: "k8s_secrets \<Rightarrow> k8s_secrets \<Rightarrow> k8s_secrets" where
  "solve_secrets [] toSolve = toSolve"
| "solve_secrets ((secretName, k8sSecret) # m) toSolve =
     solve_secrets m (solve_keys secretName (tk_Type k8sSecret) (tk_SecretsKeyVaultMetadata k8sSecret) toSolve)"

text \<open>Only secrets that exist take the resolved data; assigning into a nil map panics.\<close>

fun update_secrets :: "secret_settings \<Rightarrow> secret_settings \<Rightarrow> secret_settings res" where
  "update_secrets secrets [] = Ok secrets"
| "update_secrets secrets ((secretName, resolved) # m) =
     (case golookup secrets secretName of
        None \<Rightarrow> update_secrets secrets m
      | Some existing \<Rightarrow>
          res_bind (merge_data (sc_Data existing) (sc_Data resolved)) (\<lambda>data.
            update_secrets (gostore secretName (existing\<lparr> sc_Data := data \<rparr>) secrets) m))"

definition secret_contents :: "(string, Secret) gomap \<Rightarrow> secret_settings" where
  "secret_contents existingSecrets = map (\<lambda>(name, secret). (name, sco_Content secret)) existingSecrets"

definition resolve_unversioned ::
    "'s retriever \<Rightarrow> (string, Secret) gomap \<Rightarrow> ('s processor \<Rightarrow> 's processor) \<Rightarrow> ('s processor, unit) act" where
  "resolve_unversioned rt existingSecrets advance p =
     act_bind (call (rt_ResolveSecretReferences rt (solve_secrets (rc_ExistingK8sSecrets (pr_State p)) []) (pr_Resolver p)))
       (\<lambda>resolved.
     act_bind (act_lift (update_secrets (secret_contents existingSecrets) (tg_SecretSettings resolved))) (\<lambda>secrets.
       act_modify (\<lambda>p. advance (with_options (\<lambda>ro. ro\<lparr> ro_SecretSettingPopulated := True \<rparr>)
         (p\<lparr> pr_Settings := (pr_Settings p)\<lparr> tg_SecretSettings := secrets, tg_K8sSecrets := rc_ExistingK8sSecrets (pr_State p) \<rparr>,
             pr_SharedSecrets := True \<rparr>))))) p"

definition processSecretReferenceRefresh :: "'s retriever \<Rightarrow> (string, Secret) gomap \<Rightarrow> ('s processor, unit) act" where
  "processSecretReferenceRefresh rt existingSecrets p =
     (let spec = pv_Spec (pr_Provider p);
          p1 = with_options (\<lambda>ro. ro\<lparr> ro_secretReferenceRefreshEnabled :=
                 (secret_interval spec \<noteq> None \<or> ro_secretReferenceRefreshEnabled ro) \<rparr>) p
      in if \<not> ro_secretReferenceRefreshEnabled (pr_Options p1)
         then (with_state (\<lambda>st. st\<lparr> rc_NextSecretReferenceRefreshReconcileTime := 0 \<rparr>) p1, Ok ())
         else if \<not> rc_NextSecretReferenceRefreshReconcileTime (pr_State p) < pr_CurrentTime p then (p1, Ok ())
         else
           act_bind (act_modify (with_options (\<lambda>ro. ro\<lparr> ro_secretReferenceRefreshNeeded := True \<rparr>))) (\<lambda>_.
           act_bind (act_lift (deref (spec_Secret spec))) (\<lambda>sr.
           act_bind (act_lift (deref (sr_Refresh sr))) (\<lambda>refresh.
             let advance = with_state (\<lambda>st. st\<lparr> rc_NextSecretReferenceRefreshReconcileTime :=
                             pr_CurrentTime p + duration_or_zero (rs_Interval refresh) \<rparr>)
             in if ro_SecretSettingPopulated (pr_Options p) then act_modify advance
                else resolve_unversioned rt existingSecrets advance))) p1)"

section \<open>One pass\<close>

definition PopulateSettings :: "'s retriever \<Rightarrow> ConfigMap \<Rightarrow> (string, Secret) gomap \<Rightarrow> ('s processor, unit) act" where
  "PopulateSettings rt existingConfigMap existingSecrets =
     act_bind (act_modify (\<lambda>p. p\<lparr> pr_ShouldReconcile := shouldReconcile p existingConfigMap existingSecrets \<rparr>)) (\<lambda>_.
     act_bind (\<lambda>p. if pr_ShouldReconcile p then processFullReconciliation rt p else (p, Ok ())) (\<lambda>_.
     act_bind (processFeatureFlagRefresh rt existingConfigMap) (\<lambda>_.
     act_bind (processKeyValueRefresh rt existingConfigMap) (\<lambda>_.
       processSecretReferenceRefresh rt existingSecrets))))"

fun next_requeue_time :: "go_time list \<Rightarrow> go_time \<Rightarrow> go_time" where
  "next_requeue_time [] nextRequeueTime = nextRequeueTime"
| "next_requeue_time (t # ts) nextRequeueTime =
     next_requeue_time ts (if t \<noteq> 0 \<and> (nextRequeueTime = 0 \<or> t < nextRequeueTime) then t else nextRequeueTime)"

text \<open>\<open>now\<close> is the clock when the interval is calculated.\<close>

definition calculateRequeueAfterInterval :: "go_time \<Rightarrow> ReconciliationState \<Rightarrow> duration" where
  "calculateRequeueAfterInterval now st =
     (let nextRequeueTime = next_requeue_time [rc_NextKeyValueRefreshReconcileTime st,
            rc_NextSecretReferenceRefreshReconcileTime st, rc_NextFeatureFlagRefreshReconcileTime st] 0;
          requeueAfterInterval = time_Sub nextRequeueTime now
      in if requeueAfterInterval < second then second else requeueAfterInterval)"

definition finish_state :: "'s processor \<Rightarrow> ReconciliationState \<Rightarrow> ReconciliationState" where
  "finish_state p st =
     (let ro = pr_Options p
      in st\<lparr> rc_Generation := pv_Generation (pr_Provider p), rc_Annotations := pv_Annotations (pr_Provider p),
             rc_ExistingK8sSecrets :=
               (if ro_SecretSettingPopulated ro then tg_K8sSecrets (pr_Settings p) else rc_ExistingK8sSecrets st),
             rc_KeyValueETags :=
               (case ro_updatedKeyValueETags ro of None \<Rightarrow> rc_KeyValueETags st | Some e \<Rightarrow> e),
             rc_FeatureFlagETags :=
               (case ro_updatedFeatureFlagETags ro of None \<Rightarrow> rc_FeatureFlagETags st | Some e \<Rightarrow> e),
             rc_SentinelETags :=
               (if pr_ShouldReconcile p then ro_updatedSentinelETags ro else rc_SentinelETags st) \<rparr>)"

definition finish_status :: "'s processor \<Rightarrow> RefreshStatus \<Rightarrow> RefreshStatus" where
  "finish_status p rst =
     (let ro = pr_Options p; now = pr_CurrentTime p
      in rst\<lparr> rst_LastKeyValueRefreshTime :=
                (if ro_sentinelChanged ro \<or> ro_keyValuePageETagsChanged ro then now else rst_LastKeyValueRefreshTime rst),
              rst_LastKeyVaultReferenceRefreshTime :=
                (if ro_secretReferenceRefreshNeeded ro then now else rst_LastKeyVaultReferenceRefreshTime rst),
              rst_LastFeatureFlagRefreshTime :=
                (if ro_featureFlagRefreshNeeded ro then now else rst_LastFeatureFlagRefreshTime rst) \<rparr>)"

definition Finish :: "go_time \<Rightarrow> 's processor \<Rightarrow> 's processor \<times> Result" where
  "Finish now p =
     (let ro = pr_Options p; p1 = with_state (finish_state p) p
      in if \<not> ro_secretReferenceRefreshEnabled ro \<and> \<not> ro_keyValueRefreshEnabled ro \<and> \<not> ro_featureFlagRefreshEnabled ro
         then (p1, \<lparr> rr_Requeue = False, rr_RequeueAfter = 0 \<rparr>)
         else
           (let p2 = with_state (\<lambda>st. st\<lparr>
                  rc_SentinelETags := (if ro_sentinelChanged ro then ro_updatedSentinelETags ro else rc_SentinelETags st),
                  rc_KeyValueETags := (if ro_keyValuePageETagsChanged ro then slice (ro_updatedKeyValueETags ro)
                                       else rc_KeyValueETags st) \<rparr>) p1;
                p3 = p2\<lparr> pr_Provider := (pr_Provider p2)\<lparr> pv_Status := (pv_Status (pr_Provider p2))\<lparr>
                       st_RefreshStatus := finish_status p (st_RefreshStatus (pv_Status (pr_Provider p2))) \<rparr> \<rparr> \<rparr>
            in (p3, \<lparr> rr_Requeue = True, rr_RequeueAfter = calculateRequeueAfterInterval now (pr_State p3) \<rparr>)))"

section \<open>Timers\<close>

lemma call_frame:
  assumes "call m p = (p', r)"
  shows "\<exists>s. p' = p\<lparr> pr_Retriever := s \<rparr> \<and> m (pr_Retriever p) = (s, r)"
  using assms by (auto simp: call_def split: prod.splits)

text \<open>
  What the three refreshes have in common.  \<open>step\<close> is the refresh, \<open>interval\<close> its setting
  when it is enabled, \<open>due\<close> its timer and \<open>enabled\<close> the flag it sets for the requeue.
\<close>

locale refresh_gate =
  fixes step :: "('s processor, unit) act"
    and interval :: "ProviderSpec \<Rightarrow> string option"
    and due :: "ReconciliationState \<Rightarrow> go_time"
    and enabled :: "RefreshOptions \<Rightarrow> bool"
  assumes disabled: "interval (pv_Spec (pr_Provider p)) = None \<Longrightarrow> \<not> enabled (pr_Options p) \<Longrightarrow> step p = (p', r)
      \<Longrightarrow> r = Ok () \<and> due (pr_State p') = 0 \<and> \<not> enabled (pr_Options p')"
    and succeeded: "interval (pv_Spec (pr_Provider p)) = Some i \<Longrightarrow> step p = (p', Ok ())
      \<Longrightarrow> enabled (pr_Options p') \<and> (due (pr_State p') = pr_CurrentTime p + duration_or_zero i
            \<or> due (pr_State p') = due (pr_State p) \<and> pr_CurrentTime p \<le> due (pr_State p))"
    and failed: "step p = (p', r) \<Longrightarrow> r \<noteq> Ok () \<Longrightarrow> due (pr_State p') = due (pr_State p) \<and> due (pr_State p) < pr_CurrentTime p"
    and frame: "step p = (p', r) \<Longrightarrow> pr_Provider p' = pr_Provider p \<and> pr_CurrentTime p' = pr_CurrentTime p
      \<and> pr_ShouldReconcile p' = pr_ShouldReconcile p"
begin

text \<open>The timer of an enabled refresh is never left in the past.\<close>

lemma timer_ahead:
  assumes "interval (pv_Spec (pr_Provider p)) = Some i" and "0 \<le> duration_or_zero i" and "step p = (p', Ok ())"
  shows "pr_CurrentTime p \<le> due (pr_State p')"
  using succeeded [OF assms(1,3)] assms(2) by auto

text \<open>A refresh that failed is tried again by the next pass, however soon that comes.\<close>

lemma failure_stays_due:
  assumes "step p = (p', r)" and "r \<noteq> Ok ()" and "pr_CurrentTime p \<le> t"
  shows "due (pr_State p') < t"
  using failed [OF assms(1,2)] assms(3) by simp

end

lemmas refresh_simps = with_options_def with_state_def act_bind_def call_def Let_def

lemmas refresh_splits = option.splits if_splits prod.splits res.splits

interpretation feature_flag_gate: refresh_gate
  "processFeatureFlagRefresh rt existingConfigMap" feature_flag_interval
  rc_NextFeatureFlagRefreshReconcileTime ro_featureFlagRefreshEnabled
proof
  fix p p' :: "'a processor" and r i
  show "processFeatureFlagRefresh rt existingConfigMap p = (p', r) \<Longrightarrow>
      pr_Provider p' = pr_Provider p \<and> pr_CurrentTime p' = pr_CurrentTime p \<and> pr_ShouldReconcile p' = pr_ShouldReconcile p"
    by (auto simp: processFeatureFlagRefresh_def refresh_simps split: refresh_splits)
  show "processFeatureFlagRefresh rt existingConfigMap p = (p', r) \<Longrightarrow> r \<noteq> Ok () \<Longrightarrow>
      rc_NextFeatureFlagRefreshReconcileTime (pr_State p') = rc_NextFeatureFlagRefreshReconcileTime (pr_State p)
      \<and> rc_NextFeatureFlagRefreshReconcileTime (pr_State p) < pr_CurrentTime p"
    by (auto simp: processFeatureFlagRefresh_def refresh_simps split: refresh_splits)
  show "feature_flag_interval (pv_Spec (pr_Provider p)) = None \<Longrightarrow> \<not> ro_featureFlagRefreshEnabled (pr_Options p) \<Longrightarrow>
      processFeatureFlagRefresh rt existingConfigMap p = (p', r) \<Longrightarrow>
      r = Ok () \<and> rc_NextFeatureFlagRefreshReconcileTime (pr_State p') = 0 \<and> \<not> ro_featureFlagRefreshEnabled (pr_Options p')"
    by (auto simp: processFeatureFlagRefresh_def refresh_simps)
  show "feature_flag_interval (pv_Spec (pr_Provider p)) = Some i \<Longrightarrow> processFeatureFlagRefresh rt existingConfigMap p = (p', Ok ()) \<Longrightarrow>
      ro_featureFlagRefreshEnabled (pr_Options p') \<and>
      (rc_NextFeatureFlagRefreshReconcileTime (pr_State p') = pr_CurrentTime p + duration_or_zero i \<or>
       rc_NextFeatureFlagRefreshReconcileTime (pr_State p') = rc_NextFeatureFlagRefreshReconcileTime (pr_State p)
       \<and> pr_CurrentTime p \<le> rc_NextFeatureFlagRefreshReconcileTime (pr_State p))"
    by (auto simp: processFeatureFlagRefresh_def refresh_simps split: refresh_splits)
qed

text \<open>The interval of an enabled key-value refresh.\<close>

definition key_value_interval :: "ProviderSpec \<Rightarrow> string option" where
  "key_value_interval spec = map_option dr_Interval (key_value_refresh spec)"

interpretation key_value_gate: refresh_gate
  "processKeyValueRefresh rt existingConfigMap" key_value_interval
  rc_NextKeyValueRefreshReconcileTime ro_keyValueRefreshEnabled
proof
  fix p p' :: "'a processor" and r i
  show "processKeyValueRefresh rt existingConfigMap p = (p', r) \<Longrightarrow>
      pr_Provider p' = pr_Provider p \<and> pr_CurrentTime p' = pr_CurrentTime p \<and> pr_ShouldReconcile p' = pr_ShouldReconcile p"
    by (auto simp: processKeyValueRefresh_def key_value_interval_def check_key_values_def load_key_values_def refresh_simps split: refresh_splits)
  show "processKeyValueRefresh rt existingConfigMap p = (p', r) \<Longrightarrow> r \<noteq> Ok () \<Longrightarrow>
      rc_NextKeyValueRefreshReconcileTime (pr_State p') = rc_NextKeyValueRefreshReconcileTime (pr_State p)
      \<and> rc_NextKeyValueRefreshReconcileTime (pr_State p) < pr_CurrentTime p"
    by (auto simp: processKeyValueRefresh_def key_value_interval_def check_key_values_def load_key_values_def refresh_simps split: refresh_splits)
  show "key_value_interval (pv_Spec (pr_Provider p)) = None \<Longrightarrow> \<not> ro_keyValueRefreshEnabled (pr_Options p) \<Longrightarrow>
      processKeyValueRefresh rt existingConfigMap p = (p', r) \<Longrightarrow>
      r = Ok () \<and> rc_NextKeyValueRefreshReconcileTime (pr_State p') = 0 \<and> \<not> ro_keyValueRefreshEnabled (pr_Options p')"
    by (auto simp: processKeyValueRefresh_def key_value_interval_def check_key_values_def load_key_values_def refresh_simps)
  show "key_value_interval (pv_Spec (pr_Provider p)) = Some i \<Longrightarrow> processKeyValueRefresh rt existingConfigMap p = (p', Ok ()) \<Longrightarrow>
      ro_keyValueRefreshEnabled (pr_Options p') \<and>
      (rc_NextKeyValueRefreshReconcileTime (pr_State p') = pr_CurrentTime p + duration_or_zero i \<or>
       rc_NextKeyValueRefreshReconcileTime (pr_State p') = rc_NextKeyValueRefreshReconcileTime (pr_State p)
       \<and> pr_CurrentTime p \<le> rc_NextKeyValueRefreshReconcileTime (pr_State p))"
    by (auto simp: processKeyValueRefresh_def key_value_interval_def check_key_values_def load_key_values_def refresh_simps split: refresh_splits)
qed

interpretation secret_gate: refresh_gate
  "processSecretReferenceRefresh rt existingSecrets" secret_interval
  rc_NextSecretReferenceRefreshReconcileTime ro_secretReferenceRefreshEnabled
proof
  fix p p' :: "'a processor" and r i
  show "processSecretReferenceRefresh rt existingSecrets p = (p', r) \<Longrightarrow>
      pr_Provider p' = pr_Provider p \<and> pr_CurrentTime p' = pr_CurrentTime p \<and> pr_ShouldReconcile p' = pr_ShouldReconcile p"
    by (auto simp: processSecretReferenceRefresh_def resolve_unversioned_def deref_def secret_interval_def refresh_simps split: refresh_splits)
  show "processSecretReferenceRefresh rt existingSecrets p = (p', r) \<Longrightarrow> r \<noteq> Ok () \<Longrightarrow>
      rc_NextSecretReferenceRefreshReconcileTime (pr_State p') = rc_NextSecretReferenceRefreshReconcileTime (pr_State p)
      \<and> rc_NextSecretReferenceRefreshReconcileTime (pr_State p) < pr_CurrentTime p"
    by (auto simp: processSecretReferenceRefresh_def resolve_unversioned_def deref_def secret_interval_def refresh_simps split: refresh_splits)
  show "secret_interval (pv_Spec (pr_Provider p)) = None \<Longrightarrow> \<not> ro_secretReferenceRefreshEnabled (pr_Options p) \<Longrightarrow>
      processSecretReferenceRefresh rt existingSecrets p = (p', r) \<Longrightarrow>
      r = Ok () \<and> rc_NextSecretReferenceRefreshReconcileTime (pr_State p') = 0 \<and> \<not> ro_secretReferenceRefreshEnabled (pr_Options p')"
    by (auto simp: processSecretReferenceRefresh_def resolve_unversioned_def deref_def secret_interval_def refresh_simps)
  show "secret_interval (pv_Spec (pr_Provider p)) = Some i \<Longrightarrow> processSecretReferenceRefresh rt existingSecrets p = (p', Ok ()) \<Longrightarrow>
      ro_secretReferenceRefreshEnabled (pr_Options p') \<and>
      (rc_NextSecretReferenceRefreshReconcileTime (pr_State p') = pr_CurrentTime p + duration_or_zero i \<or>
       rc_NextSecretReferenceRefreshReconcileTime (pr_State p') = rc_NextSecretReferenceRefreshReconcileTime (pr_State p)
       \<and> pr_CurrentTime p \<le> rc_NextSecretReferenceRefreshReconcileTime (pr_State p))"
    by (auto simp: processSecretReferenceRefresh_def resolve_unversioned_def deref_def secret_interval_def refresh_simps split: refresh_splits)
qed

section \<open>The timers after a pass\<close>

lemma full_frame:
  assumes "processFullReconciliation rt p = (p', r)"
  shows "pr_Provider p' = pr_Provider p \<and> pr_CurrentTime p' = pr_CurrentTime p \<and> pr_ShouldReconcile p' = pr_ShouldReconcile p
    \<and> pr_State p' = pr_State p
    \<and> ro_keyValueRefreshEnabled (pr_Options p') = ro_keyValueRefreshEnabled (pr_Options p)
    \<and> ro_secretReferenceRefreshEnabled (pr_Options p') = ro_secretReferenceRefreshEnabled (pr_Options p)
    \<and> ro_featureFlagRefreshEnabled (pr_Options p') = ro_featureFlagRefreshEnabled (pr_Options p)"
  using assms by (auto simp: processFullReconciliation_def refresh_simps split: refresh_splits)

lemma feature_flag_frame:
  assumes "processFeatureFlagRefresh rt cm p = (p', r)"
  shows "\<exists>t. pr_State p' = (pr_State p)\<lparr> rc_NextFeatureFlagRefreshReconcileTime := t \<rparr>"
    and "ro_keyValueRefreshEnabled (pr_Options p') = ro_keyValueRefreshEnabled (pr_Options p)
    \<and> ro_secretReferenceRefreshEnabled (pr_Options p') = ro_secretReferenceRefreshEnabled (pr_Options p)"
proof -
  show "\<exists>t. pr_State p' = (pr_State p)\<lparr> rc_NextFeatureFlagRefreshReconcileTime := t \<rparr>"
    using assms by (cases "pr_State p") (auto simp: processFeatureFlagRefresh_def refresh_simps split: refresh_splits)
  show "ro_keyValueRefreshEnabled (pr_Options p') = ro_keyValueRefreshEnabled (pr_Options p)
    \<and> ro_secretReferenceRefreshEnabled (pr_Options p') = ro_secretReferenceRefreshEnabled (pr_Options p)"
    using assms by (auto simp: processFeatureFlagRefresh_def refresh_simps split: refresh_splits)
qed

lemma key_value_frame:
  assumes "processKeyValueRefresh rt cm p = (p', r)"
  shows "\<exists>t. pr_State p' = (pr_State p)\<lparr> rc_NextKeyValueRefreshReconcileTime := t \<rparr>"
    and "ro_featureFlagRefreshEnabled (pr_Options p') = ro_featureFlagRefreshEnabled (pr_Options p)
    \<and> ro_secretReferenceRefreshEnabled (pr_Options p') = ro_secretReferenceRefreshEnabled (pr_Options p)"
proof -
  show "\<exists>t. pr_State p' = (pr_State p)\<lparr> rc_NextKeyValueRefreshReconcileTime := t \<rparr>"
    using assms by (cases "pr_State p")
      (auto simp: processKeyValueRefresh_def check_key_values_def load_key_values_def refresh_simps split: refresh_splits)
  show "ro_featureFlagRefreshEnabled (pr_Options p') = ro_featureFlagRefreshEnabled (pr_Options p)
    \<and> ro_secretReferenceRefreshEnabled (pr_Options p') = ro_secretReferenceRefreshEnabled (pr_Options p)"
    using assms
    by (auto simp: processKeyValueRefresh_def check_key_values_def load_key_values_def refresh_simps split: refresh_splits)
qed

lemma secret_frame:
  assumes "processSecretReferenceRefresh rt es p = (p', r)"
  shows "\<exists>t. pr_State p' = (pr_State p)\<lparr> rc_NextSecretReferenceRefreshReconcileTime := t \<rparr>"
    and "ro_featureFlagRefreshEnabled (pr_Options p') = ro_featureFlagRefreshEnabled (pr_Options p)
    \<and> ro_keyValueRefreshEnabled (pr_Options p') = ro_keyValueRefreshEnabled (pr_Options p)"
proof -
  show "\<exists>t. pr_State p' = (pr_State p)\<lparr> rc_NextSecretReferenceRefreshReconcileTime := t \<rparr>"
    using assms by (cases "pr_State p")
      (auto simp: processSecretReferenceRefresh_def resolve_unversioned_def deref_def refresh_simps split: refresh_splits)
  show "ro_featureFlagRefreshEnabled (pr_Options p') = ro_featureFlagRefreshEnabled (pr_Options p)
    \<and> ro_keyValueRefreshEnabled (pr_Options p') = ro_keyValueRefreshEnabled (pr_Options p)"
    using assms
    by (auto simp: processSecretReferenceRefresh_def resolve_unversioned_def deref_def refresh_simps split: refresh_splits)
qed

text \<open>The steps of a pass that succeeds.\<close>

lemma PopulateSettings_steps:
  assumes "PopulateSettings rt cm es p = (p', Ok ())"
  obtains p0 p1 p2 where
    "if shouldReconcile p cm es then processFullReconciliation rt (p\<lparr> pr_ShouldReconcile := True \<rparr>) = (p0, Ok ())
     else p0 = p\<lparr> pr_ShouldReconcile := False \<rparr>"
    "processFeatureFlagRefresh rt cm p0 = (p1, Ok ())" "processKeyValueRefresh rt cm p1 = (p2, Ok ())"
    "processSecretReferenceRefresh rt es p2 = (p', Ok ())"
  using assms unfolding PopulateSettings_def
  by (cases "shouldReconcile p cm es") (auto simp: act_bind_eq_Ok)

text \<open>What a pass leaves in a timer.\<close>

definition timer_set :: "go_time \<Rightarrow> string option \<Rightarrow> go_time \<Rightarrow> go_time \<Rightarrow> bool" where
  "timer_set now interval old t \<longleftrightarrow>
     (case interval of
        None \<Rightarrow> t = 0
      | Some i \<Rightarrow> t = now + duration_or_zero i \<or> t = old \<and> now \<le> old)"

lemma pass_timers:
  assumes "PopulateSettings rt cm es p = (p', Ok ())" and "pr_Options p = NewRefreshOptions"
    and "spec = pv_Spec (pr_Provider p)" and "now = pr_CurrentTime p"
  shows "timer_set now (feature_flag_interval spec) (rc_NextFeatureFlagRefreshReconcileTime (pr_State p))
          (rc_NextFeatureFlagRefreshReconcileTime (pr_State p'))
    \<and> timer_set now (key_value_interval spec) (rc_NextKeyValueRefreshReconcileTime (pr_State p))
          (rc_NextKeyValueRefreshReconcileTime (pr_State p'))
    \<and> timer_set now (secret_interval spec) (rc_NextSecretReferenceRefreshReconcileTime (pr_State p))
          (rc_NextSecretReferenceRefreshReconcileTime (pr_State p'))
    \<and> ro_featureFlagRefreshEnabled (pr_Options p') = (feature_flag_interval spec \<noteq> None)
    \<and> ro_keyValueRefreshEnabled (pr_Options p') = (key_value_interval spec \<noteq> None)
    \<and> ro_secretReferenceRefreshEnabled (pr_Options p') = (secret_interval spec \<noteq> None)
    \<and> pr_Provider p' = pr_Provider p \<and> pr_CurrentTime p' = pr_CurrentTime p"
proof -
  obtain p0 p1 p2 where
    full: "if shouldReconcile p cm es then processFullReconciliation rt (p\<lparr> pr_ShouldReconcile := True \<rparr>) = (p0, Ok ())
     else p0 = p\<lparr> pr_ShouldReconcile := False \<rparr>"
    and ff: "processFeatureFlagRefresh rt cm p0 = (p1, Ok ())" and kv: "processKeyValueRefresh rt cm p1 = (p2, Ok ())"
    and se: "processSecretReferenceRefresh rt es p2 = (p', Ok ())"
    using assms(1) by (rule PopulateSettings_steps)
  have p0: "pr_Provider p0 = pr_Provider p" "pr_CurrentTime p0 = now" "pr_State p0 = pr_State p"
    "\<not> ro_keyValueRefreshEnabled (pr_Options p0)" "\<not> ro_secretReferenceRefreshEnabled (pr_Options p0)"
    "\<not> ro_featureFlagRefreshEnabled (pr_Options p0)"
    using full full_frame [of rt "p\<lparr> pr_ShouldReconcile := True \<rparr>" p0] assms(2,4)
    by (auto simp: NewRefreshOptions_def split: if_splits)
  note frames = feature_flag_gate.frame [OF ff] key_value_gate.frame [OF kv] secret_gate.frame [OF se]
  obtain t1 t2 t3 where t:
    "pr_State p1 = (pr_State p0)\<lparr> rc_NextFeatureFlagRefreshReconcileTime := t1 \<rparr>"
    "pr_State p2 = (pr_State p1)\<lparr> rc_NextKeyValueRefreshReconcileTime := t2 \<rparr>"
    "pr_State p' = (pr_State p2)\<lparr> rc_NextSecretReferenceRefreshReconcileTime := t3 \<rparr>"
    using feature_flag_frame(1) [OF ff] key_value_frame(1) [OF kv] secret_frame(1) [OF se] by blast
  note flags = feature_flag_frame(2) [OF ff] key_value_frame(2) [OF kv] secret_frame(2) [OF se]
  show ?thesis
    using feature_flag_gate.disabled [OF _ _ ff] feature_flag_gate.succeeded [OF _ ff]
      key_value_gate.disabled [OF _ _ kv] key_value_gate.succeeded [OF _ kv]
      secret_gate.disabled [OF _ _ se] secret_gate.succeeded [OF _ se] p0 frames t flags assms(3,4)
    by (simp add: timer_set_def split: option.splits)
qed

end
