(* ===== verification/Target_Changes.thy ===== *)
theory Target_Changes
  imports Processor
begin

text \<open>
  Whether the ConfigMap and the secrets of a provider are written at all:
  \<^verbatim>\<open>shouldCreateOrUpdateConfigMap\<close> and \<^verbatim>\<open>shouldCreateOrUpdateSecret\<close> of
  \<^verbatim>\<open>internal/controller/utils.go\<close>.  Typed data are compared as documents.
\<close>

text \<open>\<^verbatim>\<open>reflect.DeepEqual\<close> on maps of strings: a nil map is not an empty one.\<close>

definition map_DeepEqual :: "('k, 'v) gomap option \<Rightarrow> ('k, 'v) gomap option \<Rightarrow> bool" where
  "map_DeepEqual a b =
     (case a of
        None \<Rightarrow> b = None
      | Some m \<Rightarrow>
          (case b of
             None \<Rightarrow> False
           | Some n \<Rightarrow> length m = length n \<and> list_all (\<lambda>(k, v). golookup n k = Some v) m))"

text \<open>
  The map a document is unmarshalled into when the error is ignored: nil when the document
  does not decode.
\<close>

definition decoded :: "go_value res \<Rightarrow> object option" where
  "decoded r = (case res_bind r as_object of Ok out \<Rightarrow> out | _ \<Rightarrow> None)"

definition object_DeepEqual :: "object option \<Rightarrow> object option \<Rightarrow> bool" where
  "object_DeepEqual a b =
     (case a of
        None \<Rightarrow> b = None
      | Some m \<Rightarrow> (case b of None \<Rightarrow> False | Some n \<Rightarrow> deep_eq (VMap m) (VMap n)))"

definition data_at :: "(string, string) gomap option \<Rightarrow> string \<Rightarrow> string" where
  "data_at data key = (case golookup (slice data) key of None \<Rightarrow> [] | Some s \<Rightarrow> s)"

definition shouldCreateOrUpdateConfigMap ::
    "codec \<Rightarrow> ConfigMap \<Rightarrow> (string, string) gomap option \<Rightarrow> DataOptions option \<Rightarrow> bool" where
  "shouldCreateOrUpdateConfigMap cd existingConfigMap latest dataOptions =
     (let data = cmo_Data existingConfigMap
      in if data = None then True
         else case dataOptions of
                None \<Rightarrow> \<not> map_DeepEqual data latest
              | Some opts \<Rightarrow>
                  if do_Type opts = Default \<or> do_Type opts = Properties then \<not> map_DeepEqual data latest
                  else if golookup (slice data) (do_Key opts) = None then True
                  else if do_Type opts = Yaml then
                    \<not> object_DeepEqual (yaml_v2_Unmarshal cd (data_at data (do_Key opts)))
                        (yaml_v2_Unmarshal cd (data_at latest (do_Key opts)))
                  else if do_Type opts = Json then
                    \<not> object_DeepEqual (decoded (json_Unmarshal cd (data_at data (do_Key opts))))
                        (decoded (json_Unmarshal cd (data_at latest (do_Key opts))))
                  else False)"

definition secret_data :: "secret_settings \<Rightarrow> string \<Rightarrow> (string, string) gomap option" where
  "secret_data settings name = (case golookup settings name of None \<Rightarrow> None | Some c \<Rightarrow> sc_Data c)"

definition shouldCreateOrUpdateSecret ::
    "codec \<Rightarrow> ProviderSpec \<Rightarrow> secret_settings \<Rightarrow> string \<Rightarrow> (string, Secret) gomap \<Rightarrow> bool res" where
  "shouldCreateOrUpdateSecret cd spec settings secretName existingK8sSecrets =
     (case golookup existingK8sSecrets secretName of
        None \<Rightarrow> Ok True
      | Some existing \<Rightarrow>
          res_bind (deref (spec_Secret spec)) (\<lambda>sr.
            let old = sc_Data (sco_Content existing); new = secret_data settings secretName
            in case sg_SecretData (sr_Target sr) of
                 None \<Rightarrow> Ok (\<not> map_DeepEqual new old)
               | Some opts \<Rightarrow>
                   if secretName \<noteq> sg_SecretName (sr_Target sr) \<or> do_Type opts = Default \<or> do_Type opts = Properties
                   then Ok (\<not> map_DeepEqual new old)
                   else if do_Type opts = Yaml then
                     Ok (\<not> object_DeepEqual (yaml_v2_Unmarshal cd (data_at old (do_Key opts)))
                            (yaml_v2_Unmarshal cd (data_at new (do_Key opts))))
                   else if do_Type opts = Json then
                     Ok (\<not> object_DeepEqual (decoded (json_Unmarshal cd (data_at old (do_Key opts))))
                            (decoded (json_Unmarshal cd (data_at new (do_Key opts)))))
                   else Ok False))"

section \<open>Lemmas\<close>

lemma map_DeepEqual_iff:
  assumes "gomap_ok m" and "gomap_ok n"
  shows "map_DeepEqual (Some m) (Some n) \<longleftrightarrow> gomap_eq m n"
proof
  assume eq: "map_DeepEqual (Some m) (Some n)"
  then have sub: "golookup m k = Some v \<Longrightarrow> golookup n k = Some v" for k v
    by (auto simp: map_DeepEqual_def list_all_iff dest: map_of_SomeD)
  have "set (gokeys m) \<subseteq> set (gokeys n)"
    using sub by (metis gokeys_def map_of_eq_None_iff not_None_eq option.exhaust subsetI list.set_map)
  moreover have "card (set (gokeys m)) = card (set (gokeys n))"
    using assms eq by (simp add: map_DeepEqual_def gomap_ok_def distinct_card)
  ultimately have "set (gokeys m) = set (gokeys n)" by (simp add: card_subset_eq)
  then show "gomap_eq m n"
    using sub unfolding gomap_eq_def
    by (metis (no_types, opaque_lifting) ext gokeys_def list.set_map map_of_eq_None_iff not_None_eq)
next
  assume eq: "gomap_eq m n"
  then have "set (gokeys m) = set (gokeys n)"
    by (metis gomap_eq_def dom_map_of_conv_image_fst gokeys_def list.set_map)
  then have "length m = length n"
    using assms by (metis distinct_card gokeys_def gomap_ok_def length_map)
  then show "map_DeepEqual (Some m) (Some n)"
    using eq assms(1) by (auto simp: map_DeepEqual_def list_all_iff gomap_eq_def gomap_ok_def gokeys_def)
      (metis map_of_is_SomeI)
qed

lemma annotationChanged_iff:
  assumes "gomap_ok oldAnnotations" and "gomap_ok newAnnotations"
  shows "annotationChanged oldAnnotations newAnnotations \<longleftrightarrow> \<not> gomap_eq newAnnotations oldAnnotations"
proof -
  have "annotationChanged oldAnnotations newAnnotations \<longleftrightarrow> \<not> map_DeepEqual (Some newAnnotations) (Some oldAnnotations)"
    by (auto simp: annotationChanged_def map_DeepEqual_def list_all_iff list_ex_iff)
  then show ?thesis using map_DeepEqual_iff [OF assms(2,1)] by simp
qed

section \<open>Properties\<close>

text \<open>
  C27. A ConfigMap is written exactly when its content changes.  Plain data are compared as maps;
  JSON data by the document under the data key, so a different text of the same document is
  not written.
\<close>

theorem configmap_written_iff_changed:
  assumes "cmo_Data cm = Some old"
    and "gomap_ok old" and "gomap_ok new"
  shows "(shouldCreateOrUpdateConfigMap (go_codec canon ym yu yu2) cm (Some new) None \<longleftrightarrow> \<not> gomap_eq old new)
    \<and> (do_Type opts = Json \<and> golookup old (do_Key opts) = Some s \<and> json_decode canon s = Ok (VMap doc)
        \<and> golookup new (do_Key opts) = Some s' \<and> json_decode canon s' = Ok (VMap doc') \<longrightarrow>
        (shouldCreateOrUpdateConfigMap (go_codec canon ym yu yu2) cm (Some new) (Some opts) \<longleftrightarrow> \<not> deep_eq (VMap doc) (VMap doc')))"
  using assms map_DeepEqual_iff [OF assms(2,3)]
  by (simp add: shouldCreateOrUpdateConfigMap_def go_codec_def data_at_def decoded_def object_DeepEqual_def del: deep_eq.simps)

theorem configmap_written_iff_changed_witness:
  "\<not> shouldCreateOrUpdateConfigMap test_codec (empty_ConfigMap\<lparr> cmo_Data := Some [(''k'', ''{}'')] \<rparr>)
      (Some [(''k'', '' {} '')]) (Some \<lparr> do_Type = Json, do_Key = ''k'', do_Separator = None \<rparr>)"
proof -
  have j: "json_decode num_canon ''{}'' = Ok (VMap [])" "json_decode num_canon '' {} '' = Ok (VMap [])" by code_simp+
  have g: "gomap_ok [(''k'', v)]" for v :: string by (simp add: gomap_ok_def gokeys_def)
  have d: "cmo_Data (empty_ConfigMap\<lparr> cmo_Data := Some [(''k'', ''{}'')] \<rparr>) = Some [(''k'', ''{}'')]" by simp
  show ?thesis
    using configmap_written_iff_changed [OF d g g, where opts = "\<lparr> do_Type = Json, do_Key = ''k'', do_Separator = None \<rparr>"
        and canon = num_canon and doc = "[]" and doc' = "[]"] j
    unfolding test_codec_def by fastforce
qed

end
