(* ===== verification/Action_Logic.thy ===== *)
theory Action_Logic
  imports Go_Actions
begin

text \<open>
  Handlers for the errors of an action, and a Hoare logic for actions: from states with \<open>P\<close>
  the action ends with \<open>Q x\<close> when it returns \<open>x\<close>, with \<open>E e\<close> when it returns the error \<open>e\<close>,
  and with \<open>F\<close> when it panics.
\<close>

definition handle :: "('s, 'a) act \<Rightarrow> (go_error \<Rightarrow> ('s, 'b) act) \<Rightarrow> ('a \<Rightarrow> ('s, 'b) act) \<Rightarrow> ('s, 'b) act" where
  "handle m h f s =
     (case m s of
        (s', Ok x) \<Rightarrow> f x s'
      | (s', Err e) \<Rightarrow> h e s'
      | (s', Panic p) \<Rightarrow> (s', Panic p))"

lemma handle_lift [simp]:
  "handle (act_lift (Ok x)) h f s = f x s" "handle (act_lift (Err e)) h f s = h e s"
  by (simp_all add: handle_def)

definition ends :: "('a \<Rightarrow> 's \<Rightarrow> bool) \<Rightarrow> (go_error \<Rightarrow> 's \<Rightarrow> bool) \<Rightarrow> ('s \<Rightarrow> bool) \<Rightarrow> 's \<times> 'a res \<Rightarrow> bool" where
  "ends Q E F y = (case y of (s, Ok x) \<Rightarrow> Q x s | (s, Err e) \<Rightarrow> E e s | (s, Panic p) \<Rightarrow> F s)"

lemma ends_simps [simp]:
  "ends Q E F (s, Ok x) = Q x s" "ends Q E F (s, Err e) = E e s" "ends Q E F (s, Panic p) = F s"
  by (simp_all add: ends_def)

definition triple ::
    "('s \<Rightarrow> bool) \<Rightarrow> ('s, 'a) act \<Rightarrow> ('a \<Rightarrow> 's \<Rightarrow> bool) \<Rightarrow> (go_error \<Rightarrow> 's \<Rightarrow> bool) \<Rightarrow> ('s \<Rightarrow> bool) \<Rightarrow> bool" where
  "triple P m Q E F \<longleftrightarrow> (\<forall>s. P s \<longrightarrow> ends Q E F (m s))"

lemma tripleI: "(\<And>s. P s \<Longrightarrow> ends Q E F (m s)) \<Longrightarrow> triple P m Q E F"
  by (simp add: triple_def)

lemma tripleD: "triple P m Q E F \<Longrightarrow> P s \<Longrightarrow> ends Q E F (m s)"
  by (simp add: triple_def)

lemma ends_mono:
  assumes "ends Q E F y" and "\<And>x s. Q x s \<Longrightarrow> Q' x s" and "\<And>e s. E e s \<Longrightarrow> E' e s" and "\<And>s. F s \<Longrightarrow> F' s"
  shows "ends Q' E' F' y"
  using assms by (auto simp: ends_def split: prod.splits res.splits)

lemma triple_conseq:
  assumes "triple P m Q E F" and "\<And>s. P' s \<Longrightarrow> P s" and "\<And>x s. Q x s \<Longrightarrow> Q' x s"
    and "\<And>e s. E e s \<Longrightarrow> E' e s" and "\<And>s. F s \<Longrightarrow> F' s"
  shows "triple P' m Q' E' F'"
proof (rule tripleI)
  fix s assume "P' s"
  then have "ends Q E F (m s)" by (intro tripleD [OF assms(1)] assms(2))
  then show "ends Q' E' F' (m s)" by (rule ends_mono) (fact assms(3-5))+
qed

lemma triple_pre: "triple P m Q E F \<Longrightarrow> (\<And>s. P' s \<Longrightarrow> P s) \<Longrightarrow> triple P' m Q E F"
  by (simp add: triple_def)

lemma triple_return: "(\<And>s. P s \<Longrightarrow> Q x s) \<Longrightarrow> triple P (act_return x) Q E F"
  by (simp add: triple_def)

lemma triple_lift:
  "(\<And>s x. P s \<Longrightarrow> r = Ok x \<Longrightarrow> Q x s) \<Longrightarrow> (\<And>s e. P s \<Longrightarrow> r = Err e \<Longrightarrow> E e s) \<Longrightarrow> (\<And>s p. P s \<Longrightarrow> r = Panic p \<Longrightarrow> F s)
   \<Longrightarrow> triple P (act_lift r) Q E F"
  by (cases r) (simp_all add: triple_def)

lemma triple_get: "(\<And>s. P s \<Longrightarrow> Q (f s) s) \<Longrightarrow> triple P (act_get f) Q E F"
  by (simp add: triple_def)

lemma triple_modify: "(\<And>s. P s \<Longrightarrow> Q () (f s)) \<Longrightarrow> triple P (act_modify f) Q E F"
  by (simp add: triple_def)

lemma triple_bind:
  assumes "triple P m R E F" and "\<And>x. triple (R x) (f x) Q E F"
  shows "triple P (act_bind m f) Q E F"
proof (rule tripleI)
  fix s assume "P s"
  then have "ends R E F (m s)" using assms(1) by (rule tripleD [rotated])
  moreover obtain s' r where "m s = (s', r)" by fastforce
  ultimately show "ends Q E F (act_bind m f s)"
    by (cases r) (auto simp: act_bind_def intro: tripleD [OF assms(2)])
qed

lemma triple_handle:
  assumes "triple P m R E' F" and "\<And>e. triple (E' e) (h e) Q E F" and "\<And>x. triple (R x) (f x) Q E F"
  shows "triple P (handle m h f) Q E F"
proof (rule tripleI)
  fix s assume "P s"
  then have "ends R E' F (m s)" using assms(1) by (rule tripleD [rotated])
  moreover obtain s' r where "m s = (s', r)" by fastforce
  ultimately show "ends Q E F (handle m h f s)"
    by (cases r) (auto simp: handle_def intro: tripleD [OF assms(2)] tripleD [OF assms(3)])
qed

text \<open>An action that depends on the state it starts in.\<close>

lemma triple_state: "(\<And>s0. P s0 \<Longrightarrow> triple (\<lambda>s. s = s0) (m s0) Q E F) \<Longrightarrow> triple P (\<lambda>s. m s s) Q E F"
  by (simp add: triple_def)

lemma triple_if:
  "(b \<Longrightarrow> triple P m Q E F) \<Longrightarrow> (\<not> b \<Longrightarrow> triple P m' Q E F) \<Longrightarrow> triple P (if b then m else m') Q E F"
  by simp

lemma tripleD_Ok: "triple P m Q E F \<Longrightarrow> P s \<Longrightarrow> m s = (s', Ok x) \<Longrightarrow> Q x s'"
  by (metis tripleD ends_simps(1))

lemma tripleD_Err: "triple P m Q E F \<Longrightarrow> P s \<Longrightarrow> m s = (s', Err e) \<Longrightarrow> E e s'"
  by (metis tripleD ends_simps(2))

text \<open>When all outcomes have the same postcondition.\<close>

lemma ends_all: "ends (\<lambda>_. Q) (\<lambda>_. Q) Q y \<longleftrightarrow> Q (fst y)"
  by (auto simp: ends_def split: prod.splits res.splits)

lemma triple_all: "triple P m (\<lambda>_. Q) (\<lambda>_. Q) Q \<longleftrightarrow> (\<forall>s. P s \<longrightarrow> Q (fst (m s)))"
  by (simp add: triple_def ends_all)

section \<open>Actions by their errors\<close>

text \<open>An action that ends with \<open>E e\<close> whenever it returns the error \<open>e\<close>.\<close>

definition errs :: "(go_error \<Rightarrow> 's \<Rightarrow> bool) \<Rightarrow> ('s, 'a) act \<Rightarrow> bool" where
  "errs E m \<longleftrightarrow> triple (\<lambda>_. True) m (\<lambda>_ _. True) E (\<lambda>_. True)"

lemma errsD: "errs E m \<Longrightarrow> triple (\<lambda>_. True) m (\<lambda>_ _. True) E (\<lambda>_. True)"
  by (simp add: errs_def)

lemma errs_iff: "errs E m \<longleftrightarrow> (\<forall>s s' e. m s = (s', Err e) \<longrightarrow> E e s')"
  by (auto simp: errs_def triple_def ends_def split: prod.split res.split)

lemma triple_True: "triple P m (\<lambda>_ _. True) (\<lambda>_ _. True) (\<lambda>_. True)"
  by (simp add: triple_all [where Q = "\<lambda>_. True"])

lemma errs_bind: "errs E m \<Longrightarrow> (\<And>x. errs E (f x)) \<Longrightarrow> errs E (act_bind m f)"
  unfolding errs_def by (rule triple_bind)

lemma errs_handle: "(\<And>e. errs E (h e)) \<Longrightarrow> (\<And>x. errs E (f x)) \<Longrightarrow> errs E (handle m h f)"
  unfolding errs_def by (rule triple_handle [OF triple_True])

lemma errs_none: "(\<And>s e. snd (m s) \<noteq> Err e) \<Longrightarrow> errs E m"
  by (metis errs_iff snd_conv)

lemma errs_return: "errs E (act_return x)"
  by (rule errs_none) simp

lemma errs_get: "errs E (act_get f)"
  by (rule errs_none) simp

lemma errs_modify: "errs E (act_modify f)"
  by (rule errs_none) simp

lemma errs_state: "(\<And>s0. errs E (m s0)) \<Longrightarrow> errs E (\<lambda>s. m s s)"
  by (simp add: errs_iff)

lemma errs_iter: "(\<And>x. errs E (f x)) \<Longrightarrow> errs E (act_iter f xs)"
  by (induction xs) (auto intro: errs_bind errs_return)

lemmas errs_intros = errs_bind errs_return errs_get errs_modify

section \<open>Actions by what they keep\<close>

text \<open>An action that keeps a condition on the state, however it ends.\<close>

definition keeps :: "('s \<Rightarrow> bool) \<Rightarrow> ('s, 'a) act \<Rightarrow> bool" where
  "keeps P m \<longleftrightarrow> (\<forall>s. P s \<longrightarrow> P (fst (m s)))"

lemma keepsD: "keeps P m \<Longrightarrow> triple P m (\<lambda>_. P) (\<lambda>_. P) P"
  by (simp add: keeps_def triple_all)

lemma keepsI: "triple P m (\<lambda>_. P) (\<lambda>_. P) P \<Longrightarrow> keeps P m"
  by (simp add: keeps_def triple_all)

lemma keeps_result: "keeps P m \<Longrightarrow> P s \<Longrightarrow> m s = (s', r) \<Longrightarrow> P s'"
  by (metis keeps_def fst_conv)

lemma keeps_bind: "keeps P m \<Longrightarrow> (\<And>x. keeps P (f x)) \<Longrightarrow> keeps P (act_bind m f)"
  by (rule keepsI [OF triple_bind [OF keepsD keepsD]])

lemma keeps_handle: "keeps P m \<Longrightarrow> (\<And>e. keeps P (h e)) \<Longrightarrow> (\<And>x. keeps P (f x)) \<Longrightarrow> keeps P (handle m h f)"
  by (rule keepsI [OF triple_handle [OF keepsD keepsD keepsD]])

lemma keeps_return: "keeps P (act_return x)"
  by (simp add: keeps_def)

lemma keeps_get: "keeps P (act_get f)"
  by (simp add: keeps_def)

lemma keeps_lift: "keeps P (act_lift r)"
  by (simp add: keeps_def)

lemma keeps_modify: "(\<And>s. P s \<Longrightarrow> P (f s)) \<Longrightarrow> keeps P (act_modify f)"
  by (simp add: keeps_def)

lemma keeps_pure: "keeps P (\<lambda>s. (s, r s))"
  by (simp add: keeps_def)

lemma keeps_state: "(\<And>s0. keeps P (m s0)) \<Longrightarrow> keeps P (\<lambda>s. m s s)"
  by (simp add: keeps_def)

lemma keeps_iter: "(\<And>x. keeps P (f x)) \<Longrightarrow> keeps P (act_iter f xs)"
  by (induction xs) (auto intro: keeps_bind keeps_return)

lemmas keeps_intros = keeps_bind keeps_return keeps_get keeps_lift keeps_pure

end
