(* ===== verification/Reconciler.thy ===== *)
theory Reconciler
  imports Target_Changes Action_Logic
begin

text \<open>
  \<^verbatim>\<open>Reconcile\<close> of \<^verbatim>\<open>internal/controller/appconfigurationprovider_controller.go\<close> with the
  operations it calls.  The Kubernetes client and \<^verbatim>\<open>controllerutil\<close> are parameters, asked with
  the number of the call so that their answers may change; what was asked and answered is
  recorded as a list of events.
\<close>

section \<open>The cluster\<close>

type_synonym NamespacedName = "string \<times> string"

text \<open>
  \<open>ke_CreateOrUpdateConfigMap\<close> and \<open>ke_CreateOrUpdateSecret\<close> are \<^verbatim>\<open>ctrl.CreateOrUpdate\<close>: they
  get the object, apply the function, create or update it, and give the object as it is in
  the cluster afterwards.  \<open>ke_time_text\<close> is \<^verbatim>\<open>Time.UTC().String()\<close>.
\<close>

record kube_env =
  ke_GetProvider :: "nat \<Rightarrow> NamespacedName \<Rightarrow> Provider res"
  ke_GetConfigMap :: "nat \<Rightarrow> string \<Rightarrow> string \<Rightarrow> ConfigMap res"
  ke_GetSecret :: "nat \<Rightarrow> string \<Rightarrow> string \<Rightarrow> Secret res"
  ke_SetControllerReference :: "Provider \<Rightarrow> ObjectMeta \<Rightarrow> ObjectMeta res"
  ke_CreateOrUpdateConfigMap :: "nat \<Rightarrow> ConfigMap \<Rightarrow> (ConfigMap \<Rightarrow> ConfigMap) \<Rightarrow> ConfigMap res"
  ke_CreateOrUpdateSecret :: "nat \<Rightarrow> Secret \<Rightarrow> (Secret \<Rightarrow> Secret) \<Rightarrow> Secret res"
  ke_DeleteSecret :: "nat \<Rightarrow> string \<Rightarrow> string \<Rightarrow> unit res"
  ke_PatchStatus :: "nat \<Rightarrow> Provider \<Rightarrow> go_error option"
  ke_Now :: "nat \<Rightarrow> go_time"
  ke_time_text :: "go_time \<Rightarrow> string"

datatype event =
    GotConfigMap string "ConfigMap res"
  | GotSecret string "Secret res"
  | WroteConfigMap string "ConfigMap res"
  | WroteSecret string "Secret res"
  | DeletedSecret string "unit res"
  | PatchedStatus ProviderStatus "go_error option"

text \<open>The states of all providers, the provider at hand, the events and the number of calls.\<close>

record run =
  run_States :: "(NamespacedName, ReconciliationState) gomap"
  run_Provider :: Provider
  run_Events :: "event list"
  run_Calls :: nat

text \<open>What a reconciliation has from outside; \<open>re_Retriever\<close> is \<^verbatim>\<open>reconciler.Retriever\<close>.\<close>

record 'k reconcile_env =
  re_kube :: kube_env
  re_ctx :: "'k loader_ctx"
  re_env :: loader_env
  re_addr :: nat
  re_Retriever :: "loader retriever option"

definition RequeueReconcileAfter :: duration where
  "RequeueReconcileAfter = second * 30"

definition RetryAttempt :: nat where
  "RetryAttempt = 3"

definition kube :: "(nat \<Rightarrow> 'a res) \<Rightarrow> ('a res \<Rightarrow> event) \<Rightarrow> (run, 'a) act" where
  "kube request event r =
     (let answer = request (run_Calls r)
      in (r\<lparr> run_Calls := Suc (run_Calls r), run_Events := run_Events r @ [event answer] \<rparr>, answer))"

definition clock :: "kube_env \<Rightarrow> (run, go_time) act" where
  "clock ke r = (r\<lparr> run_Calls := Suc (run_Calls r) \<rparr>, Ok (ke_Now ke (run_Calls r)))"

definition requeue_later :: Result where
  "requeue_later = \<lparr> rr_Requeue = True, rr_RequeueAfter = RequeueReconcileAfter \<rparr>"

definition no_requeue :: Result where
  "no_requeue = \<lparr> rr_Requeue = False, rr_RequeueAfter = 0 \<rparr>"

section \<open>Status\<close>

definition newProviderStatus ::
    "go_time \<Rightarrow> AppConfigurationSyncPhase \<Rightarrow> StatusMessage \<Rightarrow> go_time \<Rightarrow> RefreshStatus \<Rightarrow> ProviderStatus" where
  "newProviderStatus now phase message syncTime refreshStatus =
     \<lparr> st_LastReconcileTime = now, st_LastSyncTime = syncTime, st_Phase = phase, st_Message = message,
       st_RefreshStatus = refreshStatus \<rparr>"

definition set_status :: "kube_env \<Rightarrow> AppConfigurationSyncPhase \<Rightarrow> StatusMessage \<Rightarrow> go_time option \<Rightarrow> (run, unit) act" where
  "set_status ke phase message syncTime =
     act_bind (clock ke) (\<lambda>now. act_modify (\<lambda>r.
       let status = pv_Status (run_Provider r);
           sync = (case syncTime of None \<Rightarrow> st_LastSyncTime status | Some t \<Rightarrow> t)
       in r\<lparr> run_Provider := (run_Provider r)\<lparr> pv_Status :=
            newProviderStatus now phase message sync (st_RefreshStatus status) \<rparr> \<rparr>))"

definition provider_key :: "Provider \<Rightarrow> NamespacedName" where
  "provider_key provider = (pv_Namespace provider, pv_Name provider)"

fun is_ArgumentError :: "go_error \<Rightarrow> bool" where
  "is_ArgumentError (ArgumentError _ _) = True"
| "is_ArgumentError _ = False"

definition showErrorAsWarning :: "run \<Rightarrow> go_error \<Rightarrow> bool" where
  "showErrorAsWarning r err =
     (if is_ArgumentError err then False
      else case golookup (run_States r) (provider_key (run_Provider r)) of
             None \<Rightarrow> False
           | Some st \<Rightarrow> rc_ConfigMapResourceVersion st \<noteq> None \<and>
               (spec_Secret (pv_Spec (run_Provider r)) = None \<or> length (rc_ExistingK8sSecrets st) = 0))"

definition logAndSetFailStatus :: "kube_env \<Rightarrow> go_error \<Rightarrow> (run, unit) act" where
  "logAndSetFailStatus ke err r =
     (if showErrorAsWarning r err then set_status ke PhaseUpdateFailed UpdateFailMessage None r
      else set_status ke PhaseFailed CreateFailMessage None r)"

text \<open>
  \<^verbatim>\<open>errors.Is(err, &loader.ArgumentError{})\<close> compares pointers, and the target is new.
\<close>

definition is_new_ArgumentError :: "go_error \<Rightarrow> bool" where
  "is_new_ArgumentError err = False"

text \<open>The log message of the parsed header dereferences the endpoint.\<close>

definition requeueWhenGetSettingsFailed :: "kube_env \<Rightarrow> go_error \<Rightarrow> (run, Result) act" where
  "requeueWhenGetSettingsFailed ke err =
     act_bind (logAndSetFailStatus ke err) (\<lambda>_.
       if is_new_ArgumentError err then act_return no_requeue
       else case as_response_error err of
              Some (code, retryAfter) \<Rightarrow>
                (if code = 429 then
                   (case Atoi (case retryAfter of None \<Rightarrow> [] | Some s \<Rightarrow> s) of
                      Some n \<Rightarrow>
                        act_bind (act_get (\<lambda>r. spec_Endpoint (pv_Spec (run_Provider r)))) (\<lambda>endpoint.
                        act_bind (act_lift (deref endpoint)) (\<lambda>_.
                          act_return \<lparr> rr_Requeue = True, rr_RequeueAfter = wrap64 (n * second) \<rparr>))
                    | None \<Rightarrow> act_return requeue_later)
                 else act_return requeue_later)
            | None \<Rightarrow> act_return requeue_later)"

text \<open>Setting the status of a failure and giving the error back.\<close>

definition failed_write :: "kube_env \<Rightarrow> go_error \<Rightarrow> (run, 'a) act" where
  "failed_write ke e = act_bind (logAndSetFailStatus ke e) (\<lambda>_. act_lift (Err e))"

section \<open>Existing objects\<close>

definition existing_target ::
    "('a res \<Rightarrow> event) \<Rightarrow> (nat \<Rightarrow> 'a res) \<Rightarrow> ('a \<Rightarrow> ObjectMeta) \<Rightarrow> string \<Rightarrow> (run, 'a option) act" where
  "existing_target event get meta targetName r =
     (case kube get event r of
        (r', Ok obj) \<Rightarrow> (r', res_bind (verifyExistingTargetObject (meta obj) targetName (run_Provider r)) (\<lambda>_. Ok (Some obj)))
      | (r', Err e) \<Rightarrow> (r', if e = KubeNotFound then Ok None else Err e)
      | (r', Panic p) \<Rightarrow> (r', Panic p))"

text \<open>\<^verbatim>\<open>verifyTargetObjectExistence\<close> for a ConfigMap and for a secret; \<open>None\<close> when there is none.\<close>

definition verify_ConfigMap :: "kube_env \<Rightarrow> (run, ConfigMap option) act" where
  "verify_ConfigMap ke r =
     (let name = ct_ConfigMapName (spec_Target (pv_Spec (run_Provider r)))
      in existing_target (GotConfigMap name) (\<lambda>n. ke_GetConfigMap ke n (pv_Namespace (run_Provider r)) name) cmo_Meta name r)"

definition verify_Secret :: "kube_env \<Rightarrow> string \<Rightarrow> (run, Secret option) act" where
  "verify_Secret ke name r =
     existing_target (GotSecret name) (\<lambda>n. ke_GetSecret ke n (pv_Namespace (run_Provider r)) name) sco_Meta name r"

definition collectExistingSecret ::
    "kube_env \<Rightarrow> string \<Rightarrow> (string, Secret) gomap \<Rightarrow> (run, (string, Secret) gomap) act" where
  "collectExistingSecret ke name existingSecrets =
     handle (verify_Secret ke name)
       (failed_write ke)
       (\<lambda>found. act_return (case found of None \<Rightarrow> existingSecrets | Some secret \<Rightarrow> gostore name secret existingSecrets))"

fun collect_secrets ::
    "kube_env \<Rightarrow> string list \<Rightarrow> (string, Secret) gomap \<Rightarrow> (run, (string, Secret) gomap) act" where
  "collect_secrets ke [] existingSecrets = act_return existingSecrets"
| "collect_secrets ke (secretName # secretNames) existingSecrets =
     (if golookup existingSecrets secretName \<noteq> None then collect_secrets ke secretNames existingSecrets
      else act_bind (collectExistingSecret ke secretName existingSecrets) (collect_secrets ke secretNames))"

section \<open>Writing\<close>

text \<open>The state of a provider is a pointer in a map; a missing entry is nil.\<close>

definition update_state :: "NamespacedName \<Rightarrow> (ReconciliationState \<Rightarrow> ReconciliationState) \<Rightarrow> (run, unit) act" where
  "update_state key f r =
     (case golookup (run_States r) key of
        None \<Rightarrow> (r, Panic ''nil pointer dereference'')
      | Some st \<Rightarrow> (r\<lparr> run_States := gostore key (f st) (run_States r) \<rparr>, Ok ()))"

definition write_annotations :: "kube_env \<Rightarrow> (run, (string, string) gomap) act" where
  "write_annotations ke =
     act_bind (clock ke) (\<lambda>now. act_get (\<lambda>r.
       gostore LastReconcileTimeAnnotation (ke_time_text ke now) (gostore_all (pv_Annotations (run_Provider r)) [])))"

definition target_meta :: "Provider \<Rightarrow> string \<Rightarrow> ObjectMeta" where
  "target_meta provider name = (named_meta name)\<lparr> om_Namespace := pv_Namespace provider \<rparr>"

definition createOrUpdateConfigMap ::
    "kube_env \<Rightarrow> codec \<Rightarrow> ConfigMap \<Rightarrow> TargetKeyValueSettings \<Rightarrow> (run, unit) act" where
  "createOrUpdateConfigMap ke cd existingConfigMap settings r =
     (let provider = run_Provider r; key = provider_key provider; name = ct_ConfigMapName (spec_Target (pv_Spec provider))
      in if \<not> shouldCreateOrUpdateConfigMap cd existingConfigMap (tg_ConfigMapSettings settings)
               (ct_ConfigMapData (spec_Target (pv_Spec provider)))
         then update_state key (\<lambda>st. st\<lparr> rc_ConfigMapResourceVersion := Some (om_ResourceVersion (cmo_Meta existingConfigMap)) \<rparr>) r
         else
           handle (act_lift (ke_SetControllerReference ke provider (target_meta provider name))) (failed_write ke) (\<lambda>meta.
             act_bind (write_annotations ke) (\<lambda>annotations.
             handle
               (kube (\<lambda>n. ke_CreateOrUpdateConfigMap ke n \<lparr> cmo_Meta = meta, cmo_Data = None \<rparr>
                  (\<lambda>obj. obj\<lparr> cmo_Data := tg_ConfigMapSettings settings,
                     cmo_Meta := (cmo_Meta obj)\<lparr> om_Labels := pv_Labels provider, om_Annotations := annotations \<rparr> \<rparr>))
                  (WroteConfigMap name))
               (failed_write ke)
               (\<lambda>obj. update_state key (\<lambda>st. st\<lparr> rc_ConfigMapResourceVersion := Some (om_ResourceVersion (cmo_Meta obj)) \<rparr>)))) r)"

text \<open>
  Recording a version in \<^verbatim>\<open>processor.Settings.K8sSecrets\<close>, which the state may share.
\<close>

definition record_version ::
    "NamespacedName \<Rightarrow> bool \<Rightarrow> string \<Rightarrow> string \<Rightarrow> k8s_secrets \<Rightarrow> (run, k8s_secrets) act" where
  "record_version key shared name version k8sSecrets =
     (case golookup k8sSecrets name of
        None \<Rightarrow> act_lift (Panic ''nil pointer dereference'')
      | Some md \<Rightarrow>
          (let k8sSecrets' = gostore name (md\<lparr> tk_SecretResourceVersion := version \<rparr>) k8sSecrets
           in if shared then
                act_bind (update_state key (\<lambda>st. st\<lparr> rc_ExistingK8sSecrets := k8sSecrets' \<rparr>)) (\<lambda>_. act_return k8sSecrets')
              else act_return k8sSecrets'))"

definition write_secret :: "kube_env \<Rightarrow> string \<Rightarrow> SecretContent \<Rightarrow> (run, Secret) act" where
  "write_secret ke name content r =
     (let provider = run_Provider r
      in handle (act_lift (ke_SetControllerReference ke provider (target_meta provider name))) (failed_write ke) (\<lambda>meta.
           act_bind (write_annotations ke) (\<lambda>annotations.
           handle
             (kube (\<lambda>n. ke_CreateOrUpdateSecret ke n
                \<lparr> sco_Meta = meta, sco_Content = \<lparr> sc_Type = sc_Type content, sc_Data = None \<rparr> \<rparr>
                (\<lambda>obj. obj\<lparr> sco_Content := (sco_Content obj)\<lparr> sc_Data := sc_Data content \<rparr>,
                   sco_Meta := (sco_Meta obj)\<lparr> om_Labels := pv_Labels provider, om_Annotations := annotations \<rparr> \<rparr>))
                (WroteSecret name))
             (failed_write ke) act_return)) r)"

fun secrets_loop ::
    "kube_env \<Rightarrow> codec \<Rightarrow> NamespacedName \<Rightarrow> bool \<Rightarrow> secret_settings \<Rightarrow> (string, Secret) gomap \<Rightarrow>
     secret_settings \<Rightarrow> k8s_secrets \<Rightarrow> (run, k8s_secrets) act" where
  "secrets_loop ke cd key shared settings existingSecrets [] k8sSecrets = act_return k8sSecrets"
| "secrets_loop ke cd key shared settings existingSecrets ((secretName, secret) # rest) k8sSecrets =
     act_bind (\<lambda>r. (r, shouldCreateOrUpdateSecret cd (pv_Spec (run_Provider r)) settings secretName existingSecrets))
       (\<lambda>write.
          act_bind
            (if \<not> write then
               act_bind (act_lift (deref (golookup existingSecrets secretName))) (\<lambda>existing.
                 record_version key shared secretName (om_ResourceVersion (sco_Meta existing)) k8sSecrets)
             else
               act_bind (write_secret ke secretName secret) (\<lambda>obj.
                 record_version key shared secretName (om_ResourceVersion (sco_Meta obj)) k8sSecrets))
            (secrets_loop ke cd key shared settings existingSecrets rest))"

definition createOrUpdateSecrets ::
    "kube_env \<Rightarrow> codec \<Rightarrow> NamespacedName \<Rightarrow> loader processor \<Rightarrow> (string, Secret) gomap \<Rightarrow> (run, loader processor) act" where
  "createOrUpdateSecrets ke cd key p existingSecrets =
     act_bind (secrets_loop ke cd key (pr_SharedSecrets p) (tg_SecretSettings (pr_Settings p)) existingSecrets
         (tg_SecretSettings (pr_Settings p)) (tg_K8sSecrets (pr_Settings p)))
       (\<lambda>k8sSecrets. act_return (p\<lparr> pr_Settings := (pr_Settings p)\<lparr> tg_K8sSecrets := k8sSecrets \<rparr> \<rparr>))"

fun expelRemovedSecrets :: "kube_env \<Rightarrow> (string, Secret) gomap \<Rightarrow> k8s_secrets \<Rightarrow> (run, unit) act" where
  "expelRemovedSecrets ke [] secretReferences = act_return ()"
| "expelRemovedSecrets ke ((name, secret) # existingSecrets) secretReferences =
     (if golookup secretReferences name \<noteq> None then expelRemovedSecrets ke existingSecrets secretReferences
      else
        act_bind (act_get (\<lambda>r. pv_Namespace (run_Provider r))) (\<lambda>ns.
        handle (kube (\<lambda>n. ke_DeleteSecret ke n ns name) (DeletedSecret name)) (failed_write ke)
          (\<lambda>_. expelRemovedSecrets ke existingSecrets secretReferences)))"

section \<open>Reconcile\<close>

definition initial_state :: ReconciliationState where
  "initial_state =
     \<lparr> rc_Generation = -1, rc_ConfigMapResourceVersion = None, rc_Annotations = [], rc_SentinelETags = [],
       rc_KeyValueETags = [], rc_FeatureFlagETags = [], rc_ExistingK8sSecrets = [],
       rc_NextKeyValueRefreshReconcileTime = 0, rc_NextSecretReferenceRefreshReconcileTime = 0,
       rc_NextFeatureFlagRefreshReconcileTime = 0, rc_ClientManager = None \<rparr>"

definition init_state :: "NamespacedName \<Rightarrow> run \<Rightarrow> run" where
  "init_state req r =
     (if golookup (run_States r) req = None then r\<lparr> run_States := gostore req initial_state (run_States r) \<rparr> else r)"

definition get_state :: "NamespacedName \<Rightarrow> (run, ReconciliationState) act" where
  "get_state req r = (r, deref (golookup (run_States r) req))"

definition existing_secrets :: "kube_env \<Rightarrow> NamespacedName \<Rightarrow> (run, (string, Secret) gomap) act" where
  "existing_secrets ke req r =
     (case spec_Secret (pv_Spec (run_Provider r)) of
        None \<Rightarrow> (r, Ok [])
      | Some sr \<Rightarrow>
          act_bind (get_state req) (\<lambda>st.
            collect_secrets ke (sg_SecretName (sr_Target sr) # gokeys (rc_ExistingK8sSecrets st)) []) r)"

text \<open>Forgetting the versions of objects that are gone.\<close>

definition reset_versions ::
    "ProviderSpec \<Rightarrow> ConfigMap option \<Rightarrow> (string, Secret) gomap \<Rightarrow> ReconciliationState \<Rightarrow> ReconciliationState" where
  "reset_versions spec configMap existingSecrets st =
     (let st1 = (if (case configMap of None \<Rightarrow> [] | Some cm \<Rightarrow> om_Name (cmo_Meta cm)) = []
                 then st\<lparr> rc_ConfigMapResourceVersion := None \<rparr> else st)
      in if spec_Secret spec = None then st1\<lparr> rc_ExistingK8sSecrets := [] \<rparr>
         else st1\<lparr> rc_ExistingK8sSecrets := map (\<lambda>(name, md).
                (name, if golookup existingSecrets name = None then md\<lparr> tk_SecretResourceVersion := [] \<rparr> else md))
                (rc_ExistingK8sSecrets st1) \<rparr>)"

definition ensure_client_manager :: "loader_env \<Rightarrow> NamespacedName \<Rightarrow> (run, ConfigurationClientManager) act" where
  "ensure_client_manager env req =
     act_bind (get_state req) (\<lambda>st.
     act_bind (act_get run_Provider) (\<lambda>provider.
       if rc_ClientManager st = None \<or> rc_Generation st \<noteq> pv_Generation provider then
         act_bind (act_lift (NewConfigurationClientManager env provider)) (\<lambda>manager.
         act_bind (update_state req (\<lambda>st. st\<lparr> rc_ClientManager := Some manager \<rparr>)) (\<lambda>_. act_return manager))
       else act_lift (deref (rc_ClientManager st))))"

definition new_processor :: "loader \<Rightarrow> Provider \<Rightarrow> ReconciliationState \<Rightarrow> go_time \<Rightarrow> loader processor" where
  "new_processor l provider st now =
     \<lparr> pr_Retriever = l, pr_Provider = provider, pr_Settings = empty_target, pr_ShouldReconcile = False,
       pr_State = st, pr_CurrentTime = now, pr_Options = NewRefreshOptions, pr_Resolver = None,
       pr_SharedSecrets = False \<rparr>"

text \<open>The context marks the requests of a provider without a ConfigMap as start-up requests.\<close>

definition with_startup :: "bool \<Rightarrow> 'k loader_ctx \<Rightarrow> 'k loader_ctx" where
  "with_startup startUp lc = lc\<lparr> lc_calls := (\<lambda>n. (lc_calls lc n)\<lparr> ce_startUp := Some startUp \<rparr>) \<rparr>"

text \<open>
  \<^verbatim>\<open>PopulateSettings\<close> on the provider's state.  The processor works on the state itself, and
  the loader on the client manager the state points to.
\<close>

definition populate ::
    "'k reconcile_env \<Rightarrow> NamespacedName \<Rightarrow> ConfigMap \<Rightarrow> (string, Secret) gomap \<Rightarrow> loader \<Rightarrow> (run, loader processor) act" where
  "populate re req configMap existingSecrets l =
     act_bind (get_state req) (\<lambda>st.
     act_bind (clock (re_kube re)) (\<lambda>now.
     act_bind (act_get run_Provider) (\<lambda>provider.
       let lc = with_startup (rc_ConfigMapResourceVersion st = None) (re_ctx re);
           rt = (case re_Retriever re of None \<Rightarrow> loader_retriever lc (re_addr re) | Some rt \<Rightarrow> rt);
           (p, result) = PopulateSettings rt configMap existingSecrets (new_processor l provider st now);
           manager = (if re_Retriever re = None then Some (ldr_Manager (pr_Retriever p)) else rc_ClientManager st)
       in act_bind (update_state req (\<lambda>_. (pr_State p)\<lparr> rc_ClientManager := manager \<rparr>)) (\<lambda>_.
            act_lift (res_map (\<lambda>_. p) result)))))"

text \<open>\<^verbatim>\<open>Finish\<close> on the state as it is after the writes; the provider's status is the run's.\<close>

definition finish :: "kube_env \<Rightarrow> NamespacedName \<Rightarrow> loader processor \<Rightarrow> (run, Result) act" where
  "finish ke req p =
     act_bind (clock ke) (\<lambda>syncTime.
     act_bind (set_status ke PhaseComplete SyncCompleteMessage (Some syncTime)) (\<lambda>_.
     act_bind (get_state req) (\<lambda>st.
     act_bind (act_get run_Provider) (\<lambda>provider.
     act_bind (clock ke) (\<lambda>now.
       let (p', result) = Finish now (p\<lparr> pr_State := st, pr_Provider := provider \<rparr>)
       in act_bind (update_state req (\<lambda>_. pr_State p')) (\<lambda>_.
          act_bind (act_modify (\<lambda>r. r\<lparr> run_Provider := pr_Provider p' \<rparr>)) (\<lambda>_. act_return result)))))))"

definition write_targets ::
    "'k reconcile_env \<Rightarrow> NamespacedName \<Rightarrow> ConfigMap \<Rightarrow> (string, Secret) gomap \<Rightarrow> loader processor \<Rightarrow> (run, loader processor) act" where
  "write_targets re req configMap existingSecrets p =
     (let ke = re_kube re; cd = lc_codec (re_ctx re)
      in act_bind (if ro_ConfigMapSettingPopulated (pr_Options p)
                   then createOrUpdateConfigMap ke cd configMap (pr_Settings p) else act_return ()) (\<lambda>_.
         act_bind (if ro_SecretSettingPopulated (pr_Options p) then
                     act_bind (collect_secrets ke (gokeys (tg_SecretSettings (pr_Settings p))) existingSecrets) (\<lambda>es.
                     act_bind (createOrUpdateSecrets ke cd req p es) (\<lambda>p'. act_return (es, p')))
                   else act_return (existingSecrets, p)) (\<lambda>(es, p').
         act_bind (\<lambda>r. if spec_Secret (pv_Spec (run_Provider r)) = None \<or> ro_SecretSettingPopulated (pr_Options p')
                       then expelRemovedSecrets ke es (tg_K8sSecrets (pr_Settings p')) r else (r, Ok ())) (\<lambda>_.
           act_return p'))))"

definition reconcile_verified :: "'k reconcile_env \<Rightarrow> NamespacedName \<Rightarrow> ConfigMap option \<Rightarrow> (run, Result) act" where
  "reconcile_verified re req found =
     (let ke = re_kube re; configMap = (case found of None \<Rightarrow> empty_ConfigMap | Some cm \<Rightarrow> cm);
          fail = (\<lambda>e. act_bind (logAndSetFailStatus ke e) (\<lambda>_. act_return requeue_later))
      in act_bind (act_modify (init_state req)) (\<lambda>_.
         handle (existing_secrets ke req) (\<lambda>_. act_return requeue_later) (\<lambda>es.
         act_bind (act_get (\<lambda>r. pv_Spec (run_Provider r))) (\<lambda>spec.
         act_bind (update_state req (reset_versions spec found es)) (\<lambda>_.
         handle (ensure_client_manager (re_env re) req) fail (\<lambda>manager.
         act_bind (act_get run_Provider) (\<lambda>provider.
         handle (act_lift (NewConfigurationSettingLoader provider manager None)) fail (\<lambda>l.
         handle (populate re req configMap es l) (requeueWhenGetSettingsFailed ke) (\<lambda>p.
         handle (write_targets re req configMap es p) (\<lambda>_. act_return requeue_later) (\<lambda>p'.
           finish ke req p'))))))))))"

definition reconcile_provider :: "'k reconcile_env \<Rightarrow> NamespacedName \<Rightarrow> (run, Result) act" where
  "reconcile_provider re req r =
     (let ke = re_kube re;
          fail = (\<lambda>result e. act_bind (logAndSetFailStatus ke e) (\<lambda>_. act_return result))
      in if st_Phase (pv_Status (run_Provider r)) = PhaseRunning then (r, Ok no_requeue)
         else
           act_bind (set_status ke PhaseRunning SyncRunningMessage None) (\<lambda>_.
           act_bind (act_get (\<lambda>r. pv_Spec (run_Provider r))) (\<lambda>spec.
           handle (act_lift (verifyObject (re_env re) spec)) (fail no_requeue) (\<lambda>_.
           handle (verify_ConfigMap ke) (fail requeue_later) (reconcile_verified re req)))) r)"

fun patch_status :: "kube_env \<Rightarrow> nat \<Rightarrow> run \<Rightarrow> run" where
  "patch_status ke 0 r = r"
| "patch_status ke (Suc retry) r =
     (let answer = ke_PatchStatus ke (run_Calls r) (run_Provider r);
          r' = r\<lparr> run_Calls := Suc (run_Calls r),
                  run_Events := run_Events r @ [PatchedStatus (pv_Status (run_Provider r)) answer] \<rparr>
      in if answer \<noteq> None then patch_status ke retry r' else r')"

text \<open>The status is patched when the function returns, and when it panics.\<close>

definition Reconcile :: "'k reconcile_env \<Rightarrow> NamespacedName \<Rightarrow> (run, Result) act" where
  "Reconcile re req r =
     (let ke = re_kube re; r1 = r\<lparr> run_Calls := Suc (run_Calls r) \<rparr>
      in case ke_GetProvider ke (run_Calls r) req of
           Err e \<Rightarrow>
             if e = KubeNotFound then (r1\<lparr> run_States := godelete req (run_States r1) \<rparr>, Ok no_requeue)
             else (r1, Err e)
         | Panic p \<Rightarrow> (r1, Panic p)
         | Ok provider \<Rightarrow>
             (let status = pv_Status provider;
                  provider' = (if st_Phase status = PhaseUnset
                               then provider\<lparr> pv_Status := status\<lparr> st_Phase := PhasePending \<rparr> \<rparr> else provider);
                  (r2, result) = reconcile_provider re req (r1\<lparr> run_Provider := provider' \<rparr>)
              in (patch_status ke RetryAttempt r2, result)))"

end
