(* ===== verification/Event_Handler.thy ===== *)
theory Event_Handler
  imports Reconciler
begin

text \<open>
  \<^verbatim>\<open>internal/controller/event_handler.go\<close>: which changes of the watched ConfigMaps and secrets,
  and of the providers themselves, queue a reconciliation.
\<close>

section \<open>Watched objects\<close>

text \<open>\<^verbatim>\<open>GetAnnotations()[key]\<close>: the empty string when there is none.\<close>

definition annotation :: "ObjectMeta \<Rightarrow> string \<Rightarrow> string" where
  "annotation meta key = (case golookup (om_Annotations meta) key of None \<Rightarrow> [] | Some v \<Rightarrow> v)"

text \<open>The loop that looks for an owner of the provider kind; it stops at the first.\<close>

fun owner_loop :: "OwnerReference list \<Rightarrow> string option" where
  "owner_loop [] = None"
| "owner_loop (owner # owners) =
     (if or_Kind owner = ProviderName then Some (or_Name owner) else owner_loop owners)"

definition Update :: "ObjectMeta \<Rightarrow> ObjectMeta \<Rightarrow> NamespacedName list \<Rightarrow> NamespacedName list" where
  "Update objectOld objectNew q =
     (case owner_loop (om_OwnerReferences objectNew) of
        None \<Rightarrow> q
      | Some ownerProvider \<Rightarrow>
          if annotation objectNew LastReconcileTimeAnnotation \<noteq> annotation objectOld LastReconcileTimeAnnotation
          then q else q @ [(om_Namespace objectNew, ownerProvider)])"

definition Delete :: "ObjectMeta \<Rightarrow> NamespacedName list \<Rightarrow> NamespacedName list" where
  "Delete obj q =
     (case owner_loop (om_OwnerReferences obj) of
        None \<Rightarrow> q | Some ownerProvider \<Rightarrow> q @ [(om_Namespace obj, ownerProvider)])"

definition Create :: "ObjectMeta \<Rightarrow> NamespacedName list \<Rightarrow> NamespacedName list" where
  "Create obj q = q"

definition Generic :: "ObjectMeta \<Rightarrow> NamespacedName list \<Rightarrow> NamespacedName list" where
  "Generic obj q = q"

datatype watch_event =
    CreateEvent ObjectMeta | UpdateEvent ObjectMeta ObjectMeta | DeleteEvent ObjectMeta | GenericEvent ObjectMeta

fun WatchedObjectPredicate :: "watch_event \<Rightarrow> bool" where
  "WatchedObjectPredicate (DeleteEvent obj) = True"
| "WatchedObjectPredicate (UpdateEvent objectOld objectNew) = True"
| "WatchedObjectPredicate (CreateEvent obj) = False"
| "WatchedObjectPredicate (GenericEvent obj) = False"

fun EnqueueRequestsFromWatchedObject :: "watch_event \<Rightarrow> NamespacedName list \<Rightarrow> NamespacedName list" where
  "EnqueueRequestsFromWatchedObject (CreateEvent obj) q = Create obj q"
| "EnqueueRequestsFromWatchedObject (UpdateEvent objectOld objectNew) q = Update objectOld objectNew q"
| "EnqueueRequestsFromWatchedObject (DeleteEvent obj) q = Delete obj q"
| "EnqueueRequestsFromWatchedObject (GenericEvent obj) q = Generic obj q"

text \<open>The watches of \<^verbatim>\<open>SetupWithManager\<close>: an event that passes the predicate is handled.\<close>

definition watched :: "watch_event \<Rightarrow> NamespacedName list \<Rightarrow> NamespacedName list" where
  "watched e q = (if WatchedObjectPredicate e then EnqueueRequestsFromWatchedObject e q else q)"

section \<open>Providers\<close>

text \<open>
  \<^verbatim>\<open>predicate.Funcs\<close> lets the events pass whose function is not set.  A map of the metadata
  that is empty is nil: the API leaves empty maps out.
\<close>

fun newEventFilter :: "watch_event \<Rightarrow> bool" where
  "newEventFilter (UpdateEvent objectOld objectNew) \<longleftrightarrow>
     om_Generation objectOld \<noteq> om_Generation objectNew \<or>
     \<not> map_DeepEqual (Some (om_Annotations objectOld)) (Some (om_Annotations objectNew)) \<or>
     \<not> map_DeepEqual (Some (om_Labels objectOld)) (Some (om_Labels objectNew))"
| "newEventFilter (CreateEvent obj) = True"
| "newEventFilter (DeleteEvent obj) = True"
| "newEventFilter (GenericEvent obj) = True"

section \<open>Lemmas\<close>

lemma owner_loop_unique:
  "\<exists>x \<in> set owners. or_Kind x = ProviderName \<Longrightarrow> \<forall>x \<in> set owners. or_Kind x = ProviderName \<longrightarrow> or_Name x = name
   \<Longrightarrow> owner_loop owners = Some name"
  by (induction owners) auto

lemma write_annotations_fresh:
  "write_annotations ke r = (r', Ok annotations) \<Longrightarrow>
   golookup annotations LastReconcileTimeAnnotation = Some (ke_time_text ke (ke_Now ke (run_Calls r)))"
  by (auto simp: write_annotations_def clock_def act_bind_def)

section \<open>Properties\<close>

text \<open>
  C40. The controller reacts to what others do to its objects and not to its own writes.  An update
  of an object the provider owns, with no other provider among its owners, queues the provider
  exactly when the annotation with the time of the last reconciliation stays as it was; every
  write of the controller sets that annotation to the text of the current time, so its event
  is ignored whenever that text is new.  A deletion always queues the provider, and the
  creation of an object never does.
\<close>

theorem watched_objects:
  assumes "owned_by provider new" and "om_Namespace new = pv_Namespace provider"
    and "\<forall>x \<in> set (om_OwnerReferences new). or_Kind x = ProviderName \<longrightarrow> or_Name x = pv_Name provider"
  shows "watched (UpdateEvent old new) q =
      (if annotation new LastReconcileTimeAnnotation = annotation old LastReconcileTimeAnnotation
       then q @ [provider_key provider] else q)
    \<and> (write_annotations ke r = (r', Ok (om_Annotations new))
        \<and> annotation old LastReconcileTimeAnnotation \<noteq> ke_time_text ke (ke_Now ke (run_Calls r)) \<longrightarrow>
        watched (UpdateEvent old new) q = q)
    \<and> watched (DeleteEvent new) q = q @ [provider_key provider]
    \<and> watched (CreateEvent new) q = q"
proof -
  have "\<exists>x \<in> set (om_OwnerReferences new). or_Kind x = ProviderName"
    using assms(1) by (auto simp: owned_by_def owner_reference_def intro!: bexI)
  then have o: "owner_loop (om_OwnerReferences new) = Some (pv_Name provider)"
    by (rule owner_loop_unique) (rule assms(3))
  have "annotation new LastReconcileTimeAnnotation = ke_time_text ke (ke_Now ke (run_Calls r))"
    if "write_annotations ke r = (r', Ok (om_Annotations new))"
    using write_annotations_fresh [OF that] by (simp add: annotation_def)
  then show ?thesis
    using o assms(2) by (auto simp: watched_def Update_def Delete_def provider_key_def)
qed

text \<open>
  A provider is reconciled again when its specification, its annotations or its labels change,
  and not when only its status does.
\<close>

theorem status_updates_ignored:
  assumes "gomap_ok (om_Annotations old)" and "gomap_ok (om_Annotations new)"
    and "gomap_ok (om_Labels old)" and "gomap_ok (om_Labels new)"
  shows "newEventFilter (UpdateEvent old new) \<longleftrightarrow>
      om_Generation old \<noteq> om_Generation new \<or> \<not> gomap_eq (om_Annotations old) (om_Annotations new)
      \<or> \<not> gomap_eq (om_Labels old) (om_Labels new)"
  by (simp add: map_DeepEqual_iff [OF assms(1,2)] map_DeepEqual_iff [OF assms(3,4)])

section \<open>Witnesses\<close>

theorem watched_objects_witness:
  "watched (UpdateEvent (named_meta ''settings'')
      ((named_meta ''settings'')\<lparr> om_Namespace := ''default'', om_OwnerReferences := [owner_reference sample_provider] \<rparr>)) []
    = [(''default'', ''provider'')]"
proof -
  let ?new = "(named_meta ''settings'')\<lparr> om_Namespace := ''default'', om_OwnerReferences := [owner_reference sample_provider] \<rparr>"
  have "owned_by sample_provider ?new" "om_Namespace ?new = pv_Namespace sample_provider"
    "\<forall>x \<in> set (om_OwnerReferences ?new). or_Kind x = ProviderName \<longrightarrow> or_Name x = pv_Name sample_provider"
    by (simp_all add: owned_by_def sample_provider_def owner_reference_def)
  from watched_objects [OF this, of "named_meta ''settings''" "[]"] show ?thesis
    by (simp add: annotation_def named_meta_def provider_key_def sample_provider_def)
qed

theorem status_updates_ignored_witness:
  "\<not> newEventFilter (UpdateEvent (named_meta ''provider'') (named_meta ''provider''))"
  using status_updates_ignored [of "named_meta ''provider''" "named_meta ''provider''"]
  by (simp add: named_meta_def gomap_ok_def gokeys_def gomap_eq_def)

end
