(* ===== verification/Reconcile_Safety.thy ===== *)
theory Reconcile_Safety
  imports Reconciler
begin

text \<open>
  What a reconciliation may do to the cluster: every write and every deletion of an object is
  preceded by a read that found no such object or one the provider owns.
\<close>

section \<open>Traces\<close>

text \<open>The last answer to a read of an object.\<close>

fun last_configmap :: "string \<Rightarrow> event list \<Rightarrow> ConfigMap res option" where
  "last_configmap name [] = None"
| "last_configmap name (e # es) =
     (case last_configmap name es of
        Some x \<Rightarrow> Some x
      | None \<Rightarrow> (case e of GotConfigMap n x \<Rightarrow> if n = name then Some x else None | _ \<Rightarrow> None))"

fun last_secret :: "string \<Rightarrow> event list \<Rightarrow> Secret res option" where
  "last_secret name [] = None"
| "last_secret name (e # es) =
     (case last_secret name es of
        Some x \<Rightarrow> Some x
      | None \<Rightarrow> (case e of GotSecret n x \<Rightarrow> if n = name then Some x else None | _ \<Rightarrow> None))"

definition owned_answer :: "Provider \<Rightarrow> ('a \<Rightarrow> ObjectMeta) \<Rightarrow> 'a res option \<Rightarrow> bool" where
  "owned_answer provider meta x = (case x of Some (Ok obj) \<Rightarrow> owned_by provider (meta obj) | _ \<Rightarrow> False)"

definition free_answer :: "Provider \<Rightarrow> ('a \<Rightarrow> ObjectMeta) \<Rightarrow> 'a res option \<Rightarrow> bool" where
  "free_answer provider meta x \<longleftrightarrow> x = Some (Err KubeNotFound) \<or> owned_answer provider meta x"

text \<open>An event that is allowed after the events before it.\<close>

fun permitted :: "Provider \<Rightarrow> event list \<Rightarrow> event \<Rightarrow> bool" where
  "permitted provider before (WroteConfigMap name x) = free_answer provider cmo_Meta (last_configmap name before)"
| "permitted provider before (WroteSecret name x) = free_answer provider sco_Meta (last_secret name before)"
| "permitted provider before (DeletedSecret name x) = owned_answer provider sco_Meta (last_secret name before)"
| "permitted provider before _ = True"

fun safe_from :: "Provider \<Rightarrow> event list \<Rightarrow> event list \<Rightarrow> bool" where
  "safe_from provider before [] = True"
| "safe_from provider before (e # es) \<longleftrightarrow> permitted provider before e \<and> safe_from provider (before @ [e]) es"

definition safe_trace :: "Provider \<Rightarrow> event list \<Rightarrow> bool" where
  "safe_trace provider es = safe_from provider [] es"

lemma safe_from_append:
  "safe_from provider before (xs @ ys) \<longleftrightarrow> safe_from provider before xs \<and> safe_from provider (before @ xs) ys"
  by (induction xs arbitrary: before) auto

lemma safe_trace_snoc: "safe_trace provider (l @ [e]) \<longleftrightarrow> safe_trace provider l \<and> permitted provider l e"
  by (simp add: safe_trace_def safe_from_append)

lemma last_configmap_snoc [simp]:
  "last_configmap name (l @ [e]) =
     (case e of GotConfigMap n x \<Rightarrow> if n = name then Some x else last_configmap name l | _ \<Rightarrow> last_configmap name l)"
  by (induction l) (auto split: event.split option.split)

lemma last_secret_snoc [simp]:
  "last_secret name (l @ [e]) =
     (case e of GotSecret n x \<Rightarrow> if n = name then Some x else last_secret name l | _ \<Rightarrow> last_secret name l)"
  by (induction l) (auto split: event.split option.split)

section \<open>Operations without events\<close>

text \<open>A provider is the same object when only its status differs.\<close>

definition same_object :: "Provider \<Rightarrow> Provider \<Rightarrow> bool" where
  "same_object provider provider' \<longleftrightarrow>
     pv_Name provider' = pv_Name provider \<and> pv_Namespace provider' = pv_Namespace provider \<and> pv_UID provider' = pv_UID provider
     \<and> pv_Spec provider' = pv_Spec provider \<and> pv_Generation provider' = pv_Generation provider"

text \<open>A condition on the events, in runs for a given provider.\<close>

definition evs :: "Provider \<Rightarrow> (event list \<Rightarrow> bool) \<Rightarrow> run \<Rightarrow> bool" where
  "evs provider G r \<longleftrightarrow> G (run_Events r) \<and> same_object provider (run_Provider r)"

lemma evs_mono: "evs pv G r \<Longrightarrow> (\<And>l. G l \<Longrightarrow> G' l) \<Longrightarrow> evs pv G' r"
  by (simp add: evs_def)

definition silent :: "Provider \<Rightarrow> (run, 'a) act \<Rightarrow> bool" where
  "silent pv m \<longleftrightarrow> (\<forall>G. triple (evs pv G) m (\<lambda>_. evs pv G) (\<lambda>_. evs pv G) (evs pv G))"

lemma silentD: "silent pv m \<Longrightarrow> triple (evs pv G) m (\<lambda>_. evs pv G) (\<lambda>_. evs pv G) (evs pv G)"
  by (simp add: silent_def)

lemma silentI: "(\<And>r. same_object pv (run_Provider r) \<Longrightarrow> run_Events (fst (m r)) = run_Events r \<and> same_object pv (run_Provider (fst (m r))))
  \<Longrightarrow> silent pv m"
  by (simp add: silent_def triple_all evs_def)

lemma silent_clock: "silent pv (clock ke)"
  by (rule silentI) (simp add: clock_def)

lemma silent_set_status: "silent pv (set_status ke phase msg t)"
  by (rule silentI) (simp add: set_status_def clock_def act_bind_def Let_def same_object_def)

lemma silent_fail_status: "silent pv (logAndSetFailStatus ke e)"
  using silent_set_status [of pv ke] by (simp add: silent_def triple_all logAndSetFailStatus_def)

lemma silent_update_state: "silent pv (update_state key f)"
  by (rule silentI) (simp add: update_state_def split: option.split)

lemma silent_get_state: "silent pv (get_state key)"
  by (rule silentI) (simp add: get_state_def)

lemma silent_get: "silent pv (act_get f)"
  by (rule silentI) simp

lemma silent_return: "silent pv (act_return x)"
  by (rule silentI) simp

lemma silent_lift: "silent pv (act_lift x)"
  by (rule silentI) simp

lemma silent_bind: "silent pv m \<Longrightarrow> (\<And>x. silent pv (f x)) \<Longrightarrow> silent pv (act_bind m f)"
  unfolding silent_def by (blast intro: triple_bind)

lemma silent_write_annotations: "silent pv (write_annotations ke)"
  unfolding write_annotations_def by (intro silent_bind silent_clock silent_get)

lemma silent_failed_write: "silent pv (failed_write ke e)"
  unfolding failed_write_def by (intro silent_bind silent_fail_status silent_lift)

lemma triple_failed_write: "triple (evs pv G) (failed_write ke e) Q (\<lambda>_. evs pv G) (evs pv G)"
  unfolding failed_write_def
  by (rule triple_bind [OF silentD [OF silent_fail_status]]) (simp add: triple_def)

lemma silent_record_version: "silent pv (record_version key shared name v k8s)"
  unfolding record_version_def
  by (auto simp: Let_def split: option.split intro!: silent_bind silent_update_state silent_return silent_lift)

lemma silent_requeue: "silent pv (requeueWhenGetSettingsFailed ke e)"
  unfolding requeueWhenGetSettingsFailed_def
  by (intro silent_bind silent_fail_status)
    (auto split: option.split prod.split intro!: silent_bind silent_get silent_lift silent_return)

lemma silent_ensure_client_manager: "silent pv (ensure_client_manager env req)"
  unfolding ensure_client_manager_def
  by (intro silent_bind silent_get_state silent_get)
    (auto intro!: silent_bind silent_lift silent_update_state silent_return)

lemma silent_populate: "silent pv (populate re req cm es l)"
  unfolding populate_def
  by (intro silent_bind silent_get_state silent_get silent_clock)
    (auto simp: Let_def split: prod.split intro!: silent_bind silent_lift silent_update_state)

lemma silent_finish: "silent pv (finish ke req p)"
proof -
  have q: "same_object pv (pr_Provider p')"
    if "Finish now (p\<lparr> pr_State := st, pr_Provider := provider \<rparr>) = (p', result)" "same_object pv provider" for now st provider p' result
    using that by (auto simp: Finish_def Let_def with_state_def same_object_def split: if_splits)
  have "triple (evs pv G) (finish ke req p) (\<lambda>_. evs pv G) (\<lambda>_. evs pv G) (evs pv G)" for G
    unfolding finish_def
  proof (rule triple_bind [OF silentD [OF silent_clock]], rule triple_bind [OF silentD [OF silent_set_status]],
      rule triple_bind [OF silentD [OF silent_get_state]], rule triple_bind, rule_tac [2] triple_bind)
    fix st
    show "triple (evs pv G) (act_get run_Provider) (\<lambda>provider r. evs pv G r \<and> same_object pv provider) (\<lambda>_. evs pv G) (evs pv G)"
      by (rule triple_get) (simp add: evs_def)
    fix provider
    show "triple (\<lambda>r. evs pv G r \<and> same_object pv provider) (clock ke) (\<lambda>_ r. evs pv G r \<and> same_object pv provider) (\<lambda>_. evs pv G) (evs pv G)"
      by (rule tripleI) (simp add: clock_def evs_def)
    fix now
    show "triple (\<lambda>r. evs pv G r \<and> same_object pv provider) (let (p', result) = Finish now (p\<lparr> pr_State := st, pr_Provider := provider \<rparr>)
       in act_bind (update_state req (\<lambda>_. pr_State p')) (\<lambda>_.
          act_bind (act_modify (\<lambda>r. r\<lparr> run_Provider := pr_Provider p' \<rparr>)) (\<lambda>_. act_return result)))
       (\<lambda>_. evs pv G) (\<lambda>_. evs pv G) (evs pv G)"
      by (rule tripleI) (auto simp: update_state_def evs_def act_bind_def split: prod.split option.split dest: q)
  qed
  then show ?thesis by (simp add: silent_def)
qed

section \<open>Reading objects\<close>

text \<open>What the cluster promises: a read by name gives the object of that name.\<close>

definition reads_by_name :: "kube_env \<Rightarrow> bool" where
  "reads_by_name ke \<longleftrightarrow>
     (\<forall>n ns name cm. ke_GetConfigMap ke n ns name = Ok cm \<longrightarrow> om_Name (cmo_Meta cm) = name) \<and>
     (\<forall>n ns name secret. ke_GetSecret ke n ns name = Ok secret \<longrightarrow> om_Name (sco_Meta secret) = name)"

text \<open>The secrets that were read last as owned, and the names that may be written.\<close>

definition collected :: "Provider \<Rightarrow> (string, Secret) gomap \<Rightarrow> event list \<Rightarrow> bool" where
  "collected pv es l \<longleftrightarrow> (\<forall>name. golookup es name \<noteq> None \<longrightarrow> owned_answer pv sco_Meta (last_secret name l))"

definition cleared :: "Provider \<Rightarrow> string set \<Rightarrow> event list \<Rightarrow> bool" where
  "cleared pv names l \<longleftrightarrow> (\<forall>name \<in> names. free_answer pv sco_Meta (last_secret name l))"

lemma owned_by_same: "same_object pv pv' \<Longrightarrow> owned_by pv' meta = owned_by pv meta"
  by (simp add: same_object_def owned_by_def owner_reference_def)

lemma collected_cleared: "collected pv es l \<Longrightarrow> golookup es name \<noteq> None \<Longrightarrow> free_answer pv sco_Meta (last_secret name l)"
  by (simp add: collected_def free_answer_def)

text \<open>The condition kept while secrets are read; \<open>K\<close> is what else is known of the events.\<close>

definition reading :: "Provider \<Rightarrow> (event list \<Rightarrow> bool) \<Rightarrow> (string, Secret) gomap \<Rightarrow> string set \<Rightarrow> event list \<Rightarrow> bool" where
  "reading pv K es names l \<longleftrightarrow> safe_trace pv l \<and> K l \<and> collected pv es l \<and> cleared pv names l"

lemma triple_verify_Secret:
  assumes "reads_by_name ke" and "\<And>l x. K l \<Longrightarrow> K (l @ [GotSecret name x])" and "golookup es name = None"
  shows "triple (evs pv (reading pv K es names)) (verify_Secret ke name)
    (\<lambda>found. evs pv (reading pv K (case found of None \<Rightarrow> es | Some s \<Rightarrow> gostore name s es) (insert name names)))
    (\<lambda>_. evs pv (safe_trace pv)) (evs pv (safe_trace pv))"
proof (rule tripleI)
  fix r assume r: "evs pv (reading pv K es names) r"
  let ?x = "ke_GetSecret ke (run_Calls r) (pv_Namespace (run_Provider r)) name"
  let ?l = "run_Events r"
  have so: "same_object pv (run_Provider r)" using r by (simp add: evs_def)
  have l: "safe_trace pv ?l" "K ?l" "collected pv es ?l" "cleared pv names ?l" using r by (simp_all add: evs_def reading_def)
  have safe: "safe_trace pv (?l @ [GotSecret name x])" for x using l(1) by (simp add: safe_trace_snoc)
  have col: "collected pv es (?l @ [GotSecret name x])" for x
    using l(3) assms(3) by (auto simp: collected_def)
  show "ends (\<lambda>found. evs pv (reading pv K (case found of None \<Rightarrow> es | Some s \<Rightarrow> gostore name s es) (insert name names)))
    (\<lambda>_. evs pv (safe_trace pv)) (evs pv (safe_trace pv)) (verify_Secret ke name r)"
  proof (cases ?x)
    case (Ok s)
    have nm: "om_Name (sco_Meta s) = name" using assms(1) Ok by (auto simp: reads_by_name_def)
    show ?thesis
    proof (cases "owned_by pv (sco_Meta s)")
      case True
      then have v: "verifyExistingTargetObject (sco_Meta s) name (run_Provider r) = Ok ()"
        using verifyExistingTargetObject_Ok [OF nm] owned_by_same [OF so] by simp
      have "owned_answer pv sco_Meta (Some (Ok s))" using True by (simp add: owned_answer_def)
      then have "reading pv K (gostore name s es) (insert name names) (?l @ [GotSecret name ?x])"
        using safe [of ?x] col [of ?x] assms(2) l Ok
        by (auto simp: reading_def collected_def cleared_def free_answer_def)
      then show ?thesis
        using Ok v so by (simp add: verify_Secret_def existing_target_def kube_def Let_def evs_def)
    next
      case False
      then have "verifyExistingTargetObject (sco_Meta s) name (run_Provider r) \<noteq> Ok ()"
        using verifyExistingTargetObject_Ok [OF nm] owned_by_same [OF so] by simp
      then obtain e where "verifyExistingTargetObject (sco_Meta s) name (run_Provider r) = Err e"
        by (auto simp: verifyExistingTargetObject_def split: if_splits)
      then show ?thesis
        using Ok safe [of ?x] so by (simp add: verify_Secret_def existing_target_def kube_def Let_def evs_def)
    qed
  next
    case (Err e)
    have "reading pv K es (insert name names) (?l @ [GotSecret name ?x])" if "e = KubeNotFound"
      using safe [of ?x] col [of ?x] assms(2) l Err that by (auto simp: reading_def cleared_def free_answer_def)
    then show ?thesis
      using Err safe [of ?x] so by (simp add: verify_Secret_def existing_target_def kube_def Let_def evs_def)
  next
    case (Panic p)
    then show ?thesis
      using safe [of ?x] so by (simp add: verify_Secret_def existing_target_def kube_def Let_def evs_def)
  qed
qed

lemma triple_collect:
  assumes "reads_by_name ke" and "\<And>l n x. K l \<Longrightarrow> K (l @ [GotSecret n x])"
  shows "triple (evs pv (reading pv K es names)) (collect_secrets ke todo es)
    (\<lambda>es'. evs pv (reading pv K es' (names \<union> set todo))) (\<lambda>_. evs pv (safe_trace pv)) (evs pv (safe_trace pv))"
proof (induction todo arbitrary: es names)
  case Nil
  then show ?case by (simp add: triple_def)
next
  case (Cons name todo)
  show ?case
  proof (cases "golookup es name = None")
    case False
    have "evs pv (reading pv K es names) r \<Longrightarrow> evs pv (reading pv K es (insert name names)) r" for r
      using collected_cleared [OF _ False] by (auto simp: evs_def reading_def cleared_def)
    then have "triple (evs pv (reading pv K es names)) (collect_secrets ke todo es)
      (\<lambda>es'. evs pv (reading pv K es' (insert name names \<union> set todo))) (\<lambda>_. evs pv (safe_trace pv)) (evs pv (safe_trace pv))"
      by (rule triple_pre [OF Cons.IH])
    then show ?thesis using False by simp
  next
    case True
    have "triple (evs pv (reading pv K es names)) (collectExistingSecret ke name es)
      (\<lambda>es'. evs pv (reading pv K es' (insert name names))) (\<lambda>_. evs pv (safe_trace pv)) (evs pv (safe_trace pv))"
      unfolding collectExistingSecret_def
      by (rule triple_handle [OF triple_verify_Secret [where K = K, OF assms(1) assms(2) True] triple_failed_write])
        (assumption | rule triple_return)+
    then have "triple (evs pv (reading pv K es names)) (act_bind (collectExistingSecret ke name es) (collect_secrets ke todo))
      (\<lambda>es'. evs pv (reading pv K es' (insert name names \<union> set todo))) (\<lambda>_. evs pv (safe_trace pv)) (evs pv (safe_trace pv))"
      by (rule triple_bind) (rule Cons.IH)
    then show ?thesis using True by simp
  qed
qed

section \<open>Writing objects\<close>

text \<open>A request whose event is permitted and keeps the condition.\<close>

lemma triple_kube:
  assumes "\<And>l x. G l \<Longrightarrow> G (l @ [event x])"
  shows "triple (evs pv G) (kube request event) (\<lambda>_. evs pv G) (\<lambda>_. evs pv G) (evs pv G)"
  unfolding triple_all using assms by (simp add: kube_def evs_def Let_def)

lemma triple_write_secret:
  assumes "\<And>l x. G l \<Longrightarrow> G (l @ [WroteSecret name x])"
  shows "triple (evs pv G) (write_secret ke name content) (\<lambda>_. evs pv G) (\<lambda>_. evs pv G) (evs pv G)"
proof -
  have "triple (evs pv G) (handle (act_lift (ke_SetControllerReference ke provider meta)) (failed_write ke) (\<lambda>meta.
           act_bind (write_annotations ke) (\<lambda>annotations.
           handle (kube (request meta annotations) (WroteSecret name)) (failed_write ke) act_return)))
      (\<lambda>_. evs pv G) (\<lambda>_. evs pv G) (evs pv G)" for request provider meta
    by (rule triple_handle [OF silentD [OF silent_lift] triple_failed_write],
        rule triple_bind [OF silentD [OF silent_write_annotations]],
        rule triple_handle [OF triple_kube triple_failed_write silentD [OF silent_return]]) (rule assms)
  then show ?thesis unfolding write_secret_def triple_all by (simp add: Let_def)
qed

text \<open>The condition kept while the secrets are written.\<close>

definition writing :: "Provider \<Rightarrow> (string, Secret) gomap \<Rightarrow> string set \<Rightarrow> event list \<Rightarrow> bool" where
  "writing pv es names l \<longleftrightarrow> safe_trace pv l \<and> collected pv es l \<and> cleared pv names l"

lemma writing_secret:
  "name \<in> names \<Longrightarrow> writing pv es names l \<Longrightarrow> writing pv es names (l @ [WroteSecret name x])"
  by (simp add: writing_def safe_trace_snoc collected_def cleared_def)

lemma triple_secrets_loop:
  assumes "fst ` set rest \<subseteq> names"
  shows "triple (evs pv (writing pv es names)) (secrets_loop ke cd key shared settings existing rest k8s)
    (\<lambda>_. evs pv (writing pv es names)) (\<lambda>_. evs pv (writing pv es names)) (evs pv (writing pv es names))"
  using assms
proof (induction rest arbitrary: k8s)
  case (Cons e rest)
  obtain name secret where e: "e = (name, secret)" by fastforce
  have n: "name \<in> names" "fst ` set rest \<subseteq> names" using Cons.prems e by auto
  have should: "silent pv (\<lambda>r. (r, shouldCreateOrUpdateSecret cd (pv_Spec (run_Provider r)) settings name existing))"
    by (rule silentI) simp
  have skip: "silent pv (act_bind (act_lift (deref (golookup existing name))) (\<lambda>x. record_version key shared name (om_ResourceVersion (sco_Meta x)) k8s))"
    by (intro silent_bind silent_lift silent_record_version)
  have wr: "triple (evs pv (writing pv es names))
      (act_bind (write_secret ke name secret) (\<lambda>obj. record_version key shared name (om_ResourceVersion (sco_Meta obj)) k8s))
      (\<lambda>_. evs pv (writing pv es names)) (\<lambda>_. evs pv (writing pv es names)) (evs pv (writing pv es names))"
    by (rule triple_bind [OF triple_write_secret silentD [OF silent_record_version]]) (rule writing_secret [OF n(1)])
  show ?case
    unfolding e secrets_loop.simps
    by (rule triple_bind [OF silentD [OF should]], rule triple_bind [OF triple_if [OF silentD [OF skip] wr] Cons.IH [OF n(2)]])
qed (simp add: triple_def)

lemma triple_expel:
  assumes "fst ` set es \<subseteq> {name. golookup existing name \<noteq> None}"
  shows "triple (evs pv (writing pv existing names)) (expelRemovedSecrets ke es refs)
    (\<lambda>_. evs pv (safe_trace pv)) (\<lambda>_. evs pv (safe_trace pv)) (evs pv (safe_trace pv))"
  using assms
proof (induction es)
  case Nil
  then show ?case by (simp add: triple_def evs_def writing_def)
next
  case (Cons e es)
  obtain name secret where e: "e = (name, secret)" by fastforce
  have n: "golookup existing name \<noteq> None" "fst ` set es \<subseteq> {name. golookup existing name \<noteq> None}"
    using Cons.prems e by auto
  have keep: "writing pv existing names l \<Longrightarrow> writing pv existing names (l @ [DeletedSecret name x])" for l x
    using n(1) by (auto simp: writing_def safe_trace_snoc collected_def cleared_def)
  have weak: "triple (evs pv (writing pv existing names)) (failed_write ke err) Q (\<lambda>_. evs pv (safe_trace pv)) (evs pv (safe_trace pv))" for err Q
    by (rule triple_conseq [OF triple_failed_write [where Q = Q]]) (auto simp: evs_def writing_def)
  have del: "triple (evs pv (writing pv existing names)) (kube (\<lambda>n. ke_DeleteSecret ke n ns name) (DeletedSecret name))
      (\<lambda>_. evs pv (writing pv existing names)) (\<lambda>_. evs pv (writing pv existing names)) (evs pv (safe_trace pv))" for ns
    by (rule triple_conseq [OF triple_kube [where G = "writing pv existing names", OF keep]]) (auto simp: evs_def writing_def)
  have get: "triple (evs pv (writing pv existing names)) (act_get (\<lambda>r. pv_Namespace (run_Provider r)))
      (\<lambda>_. evs pv (writing pv existing names)) (\<lambda>_. evs pv (safe_trace pv)) (evs pv (safe_trace pv))"
    by (rule triple_get)
  have "triple (evs pv (writing pv existing names)) (act_bind (act_get (\<lambda>r. pv_Namespace (run_Provider r))) (\<lambda>ns.
        handle (kube (\<lambda>n. ke_DeleteSecret ke n ns name) (DeletedSecret name)) (failed_write ke)
          (\<lambda>_. expelRemovedSecrets ke es refs)))
      (\<lambda>_. evs pv (safe_trace pv)) (\<lambda>_. evs pv (safe_trace pv)) (evs pv (safe_trace pv))"
    by (rule triple_bind [OF get], rule triple_handle [OF del weak Cons.IH [OF n(2)]])
  with Cons.IH [OF n(2)] show ?case unfolding e by simp
qed

text \<open>The ConfigMap may be written.\<close>

definition configmap_cleared :: "Provider \<Rightarrow> event list \<Rightarrow> bool" where
  "configmap_cleared pv l \<longleftrightarrow>
     free_answer pv cmo_Meta (last_configmap (ct_ConfigMapName (spec_Target (pv_Spec pv))) l)"

lemma triple_verify_ConfigMap:
  assumes "reads_by_name ke"
  shows "triple (evs pv (safe_trace pv)) (verify_ConfigMap ke)
    (\<lambda>_. evs pv (\<lambda>l. safe_trace pv l \<and> configmap_cleared pv l)) (\<lambda>_. evs pv (safe_trace pv)) (evs pv (safe_trace pv))"
proof (rule tripleI)
  fix r assume r: "evs pv (safe_trace pv) r"
  let ?name = "ct_ConfigMapName (spec_Target (pv_Spec pv))"
  let ?x = "ke_GetConfigMap ke (run_Calls r) (pv_Namespace (run_Provider r)) ?name"
  have so: "same_object pv (run_Provider r)" "pv_Spec (run_Provider r) = pv_Spec pv"
    using r by (simp_all add: evs_def same_object_def)
  have safe: "safe_trace pv (run_Events r @ [GotConfigMap ?name x])" for x using r by (simp add: safe_trace_snoc evs_def)
  show "ends (\<lambda>_. evs pv (\<lambda>l. safe_trace pv l \<and> configmap_cleared pv l)) (\<lambda>_. evs pv (safe_trace pv)) (evs pv (safe_trace pv))
      (verify_ConfigMap ke r)"
  proof (cases ?x)
    case (Ok cm)
    then have nm: "om_Name (cmo_Meta cm) = ?name" using assms by (auto simp: reads_by_name_def)
    show ?thesis
      using Ok so safe [of ?x] verifyExistingTargetObject_Ok [OF nm, of "run_Provider r"] owned_by_same [OF so(1), of "cmo_Meta cm"]
      by (cases "owned_by pv (cmo_Meta cm)"; cases "verifyExistingTargetObject (cmo_Meta cm) ?name (run_Provider r)")
        (simp_all add: verify_ConfigMap_def existing_target_def kube_def Let_def evs_def configmap_cleared_def free_answer_def owned_answer_def)
  qed (use so safe [of ?x] in \<open>auto simp: verify_ConfigMap_def existing_target_def kube_def Let_def evs_def
      configmap_cleared_def free_answer_def\<close>)
qed

lemma reading_configmap:
  assumes "name = ct_ConfigMapName (spec_Target (pv_Spec pv))" and "reading pv (configmap_cleared pv) es names l"
  shows "reading pv (configmap_cleared pv) es names (l @ [WroteConfigMap name x])"
  using assms by (simp add: reading_def safe_trace_snoc collected_def cleared_def configmap_cleared_def)

lemma triple_createOrUpdateConfigMap:
  "triple (evs pv (reading pv (configmap_cleared pv) es names)) (createOrUpdateConfigMap ke cd cm settings)
     (\<lambda>_. evs pv (reading pv (configmap_cleared pv) es names)) (\<lambda>_. evs pv (reading pv (configmap_cleared pv) es names))
     (evs pv (reading pv (configmap_cleared pv) es names))"
proof -
  let ?G = "reading pv (configmap_cleared pv) es names" and ?name = "ct_ConfigMapName (spec_Target (pv_Spec pv))"
  have w: "triple (evs pv ?G) (handle (act_lift (ke_SetControllerReference ke provider meta)) (failed_write ke) (\<lambda>meta.
           act_bind (write_annotations ke) (\<lambda>annotations.
           handle (kube (request meta annotations) (WroteConfigMap ?name)) (failed_write ke) (\<lambda>obj. update_state key (f obj)))))
      (\<lambda>_. evs pv ?G) (\<lambda>_. evs pv ?G) (evs pv ?G)" for request provider meta key f
    by (rule triple_handle [OF silentD [OF silent_lift] triple_failed_write],
        rule triple_bind [OF silentD [OF silent_write_annotations]],
        rule triple_handle [OF triple_kube triple_failed_write silentD [OF silent_update_state]]) (rule reading_configmap [OF refl])
  show ?thesis
    unfolding triple_all
  proof (intro allI impI)
    fix r assume r: "evs pv ?G r"
    then have "pv_Spec (run_Provider r) = pv_Spec pv" by (simp add: evs_def same_object_def)
    then show "evs pv ?G (fst (createOrUpdateConfigMap ke cd cm settings r))"
      using r w silentD [OF silent_update_state, of pv ?G]
      by (simp add: createOrUpdateConfigMap_def triple_all Let_def)
  qed
qed

lemma silent_existing_none: "silent pv (\<lambda>r. (r, Ok []))"
  by (rule silentI) simp

text \<open>What is known when the reads are done.\<close>

abbreviation ready_to_write :: "Provider \<Rightarrow> (string, Secret) gomap \<Rightarrow> event list \<Rightarrow> bool" where
  "ready_to_write pv es \<equiv> reading pv (configmap_cleared pv) es {}"

lemma configmap_cleared_secret: "configmap_cleared pv l \<Longrightarrow> configmap_cleared pv (l @ [GotSecret n x])"
  by (simp add: configmap_cleared_def)

lemma triple_collect_ready:
  assumes "reads_by_name ke"
  shows "triple (evs pv (ready_to_write pv es)) (collect_secrets ke todo es)
    (\<lambda>es'. evs pv (reading pv (configmap_cleared pv) es' (set todo))) (\<lambda>_. evs pv (safe_trace pv)) (evs pv (safe_trace pv))"
  using triple_collect [where K = "configmap_cleared pv" and names = "{}", OF assms configmap_cleared_secret] by simp

lemma triple_existing_secrets:
  assumes "reads_by_name ke"
  shows "triple (evs pv (\<lambda>l. safe_trace pv l \<and> configmap_cleared pv l)) (existing_secrets ke req)
    (\<lambda>es. evs pv (ready_to_write pv es)) (\<lambda>_. evs pv (safe_trace pv)) (evs pv (safe_trace pv))"
proof (rule tripleI)
  fix r assume r: "evs pv (\<lambda>l. safe_trace pv l \<and> configmap_cleared pv l) r"
  then have start: "evs pv (ready_to_write pv []) r" by (simp add: evs_def reading_def collected_def cleared_def)
  let ?E = "\<lambda>_. evs pv (safe_trace pv)" and ?F = "evs pv (safe_trace pv)"
  have get: "triple (evs pv (ready_to_write pv [])) (get_state req) (\<lambda>_. evs pv (ready_to_write pv [])) ?E ?F"
    by (rule triple_conseq [OF silentD [OF silent_get_state, where G = "ready_to_write pv []"]]) (auto simp: evs_def reading_def)
  have "triple (evs pv (ready_to_write pv [])) (act_bind (get_state req) (\<lambda>st.
            collect_secrets ke (name # gokeys (rc_ExistingK8sSecrets st)) []))
      (\<lambda>es. evs pv (ready_to_write pv es)) ?E ?F" for name
    by (rule triple_bind [OF get], rule triple_conseq [OF triple_collect_ready [OF assms]])
      (auto simp: evs_def reading_def cleared_def)
  from tripleD [OF this start] start
  show "ends (\<lambda>es. evs pv (ready_to_write pv es)) ?E ?F (existing_secrets ke req r)"
    by (simp add: existing_secrets_def split: option.split)
qed

lemma triple_write_targets:
  assumes "reads_by_name (re_kube re)"
  shows "triple (evs pv (ready_to_write pv es)) (write_targets re req cm es p)
    (\<lambda>_. evs pv (safe_trace pv)) (\<lambda>_. evs pv (safe_trace pv)) (evs pv (safe_trace pv))"
proof -
  let ?E = "\<lambda>_. evs pv (safe_trace pv)" and ?F = "evs pv (safe_trace pv)"
  let ?ke = "re_kube re" and ?cd = "lc_codec (re_ctx re)"
  have cm: "triple (evs pv (ready_to_write pv es)) (if b then createOrUpdateConfigMap ?ke ?cd cm s else act_return ())
      (\<lambda>_. evs pv (ready_to_write pv es)) ?E ?F" for b s
    by (rule triple_conseq [OF triple_if [OF triple_createOrUpdateConfigMap silentD [OF silent_return]]])
      (auto simp: evs_def reading_def)
  have loop: "triple (evs pv (reading pv (configmap_cleared pv) es' (set (gokeys (tg_SecretSettings (pr_Settings p))))))
      (createOrUpdateSecrets ?ke ?cd req p es') (\<lambda>_. evs pv (writing pv es' {})) ?E ?F" for es'
    unfolding createOrUpdateSecrets_def
  proof (rule triple_bind)
    show "triple (evs pv (reading pv (configmap_cleared pv) es' (set (gokeys (tg_SecretSettings (pr_Settings p))))))
      (secrets_loop ?ke ?cd req (pr_SharedSecrets p) (tg_SecretSettings (pr_Settings p)) es'
         (tg_SecretSettings (pr_Settings p)) (tg_K8sSecrets (pr_Settings p))) (\<lambda>_. evs pv (writing pv es' {})) ?E ?F"
      by (rule triple_conseq [OF triple_secrets_loop [where names = "set (gokeys (tg_SecretSettings (pr_Settings p)))" and es = es' and pv = pv]])
        (auto simp: evs_def reading_def writing_def cleared_def gokeys_def)
  qed (rule triple_return)
  have secrets: "triple (evs pv (ready_to_write pv es))
      (if b then act_bind (collect_secrets ?ke (gokeys (tg_SecretSettings (pr_Settings p))) es) (\<lambda>es'.
                 act_bind (createOrUpdateSecrets ?ke ?cd req p es') (\<lambda>p'. act_return (es', p')))
       else act_return (es, p)) (\<lambda>x. evs pv (writing pv (fst x) {})) ?E ?F" for b
  proof (rule triple_if)
    show "triple (evs pv (ready_to_write pv es)) (act_bind (collect_secrets ?ke (gokeys (tg_SecretSettings (pr_Settings p))) es) (\<lambda>es'.
                 act_bind (createOrUpdateSecrets ?ke ?cd req p es') (\<lambda>p'. act_return (es', p'))))
       (\<lambda>x. evs pv (writing pv (fst x) {})) ?E ?F"
      by (rule triple_bind [OF triple_collect_ready [OF assms]], rule triple_bind [OF loop], rule triple_return) simp
    show "triple (evs pv (ready_to_write pv es)) (act_return (es, p)) (\<lambda>x. evs pv (writing pv (fst x) {})) ?E ?F"
      by (rule triple_return) (simp add: evs_def reading_def writing_def)
  qed
  have expel: "triple (evs pv (writing pv es' {}))
      (\<lambda>r. if spec_Secret (pv_Spec (run_Provider r)) = None \<or> b then expelRemovedSecrets ?ke es' refs r else (r, Ok ())) ?E ?E ?F" for es' b refs
  proof (rule tripleI)
    fix r assume r: "evs pv (writing pv es' {}) r"
    have "fst ` set es' \<subseteq> {name. golookup es' name \<noteq> None}" by (auto simp: map_of_eq_None_iff)
    from tripleD [OF triple_expel [OF this] r] have "ends ?E ?E ?F (expelRemovedSecrets ?ke es' refs r)" .
    then show "ends ?E ?E ?F (if spec_Secret (pv_Spec (run_Provider r)) = None \<or> b then expelRemovedSecrets ?ke es' refs r else (r, Ok ()))"
      using r by (simp add: evs_def writing_def)
  qed
  show ?thesis
    unfolding write_targets_def Let_def
  proof (rule triple_bind [OF cm], rule triple_bind [OF secrets])
    fix x :: "(string, Secret) gomap \<times> loader processor"
    show "triple (evs pv (writing pv (fst x) {})) (case x of (es', p') \<Rightarrow>
         act_bind (\<lambda>r. if spec_Secret (pv_Spec (run_Provider r)) = None \<or> ro_SecretSettingPopulated (pr_Options p')
                       then expelRemovedSecrets ?ke es' (tg_K8sSecrets (pr_Settings p')) r else (r, Ok ())) (\<lambda>_. act_return p')) ?E ?E ?F"
      by (cases x) (simp, rule triple_bind [OF expel silentD [OF silent_return]])
  qed
qed

section \<open>The whole reconciliation\<close>

lemma triple_conj:
  assumes "triple P m Q E F" and "\<And>s s' x. P s \<Longrightarrow> m s = (s', Ok x) \<Longrightarrow> C x"
  shows "triple P m (\<lambda>x s. Q x s \<and> C x) E F"
proof (rule tripleI)
  fix s assume s: "P s"
  obtain s' res where m: "m s = (s', res)" by fastforce
  then show "ends (\<lambda>x s. Q x s \<and> C x) E F (m s)"
    using tripleD [OF assms(1) s] assms(2) [OF s] by (cases res) auto
qed

lemma populate_Ok:
  assumes "populate re req cm es l r = (r', Ok p)"
  obtains rt st now where "PopulateSettings rt cm es (new_processor l (run_Provider r) st now) = (p, Ok ())"
proof -
  from assms obtain st now rt where
    "case PopulateSettings rt cm es (new_processor l (run_Provider r) st now) of (q, result) \<Rightarrow> q = p \<and> result = Ok ()"
    by (auto simp: populate_def act_bind_eq_Ok get_state_def clock_def Let_def res_map_def split: prod.splits) blast
  then show ?thesis using that by auto
qed

text \<open>
  The composition of the reconciliation for a condition \<open>S\<close> on the events: \<open>A\<close> holds when the
  ConfigMap was read, \<open>B es\<close> when the secrets \<open>es\<close> were, and \<open>C\<close> of the processor when the
  settings are populated.
\<close>

lemma triple_reconcile_provider:
  assumes checked: "triple (evs pv S) (verify_ConfigMap (re_kube re)) (\<lambda>_. evs pv A) (\<lambda>_. evs pv S) (evs pv S)"
    and existing: "triple (evs pv A) (existing_secrets (re_kube re) req) (\<lambda>es. evs pv (B es)) (\<lambda>_. evs pv S) (evs pv S)"
    and weaker: "\<And>l. A l \<Longrightarrow> S l" "\<And>es l. B es l \<Longrightarrow> S l"
    and populated: "\<And>provider rt cm es l st now p. same_object pv provider \<Longrightarrow>
      PopulateSettings rt cm es (new_processor l provider st now) = (p, Ok ()) \<Longrightarrow> C p"
    and targets: "\<And>p cm es. C p \<Longrightarrow>
      triple (evs pv (B es)) (write_targets re req cm es p) (\<lambda>_. evs pv S) (\<lambda>_. evs pv S) (evs pv S)"
  shows "triple (evs pv S) (reconcile_provider re req) (\<lambda>_. evs pv S) (\<lambda>_. evs pv S) (evs pv S)"
proof -
  have bs: "evs pv (B es) r \<Longrightarrow> evs pv S r" for es r by (rule evs_mono [OF _ weaker(2)])
  have init: "triple (evs pv A) (act_modify (init_state req)) (\<lambda>_. evs pv A) (\<lambda>_. evs pv S) (evs pv S)"
    by (rule triple_modify) (simp add: init_state_def evs_def)
  have ended: "triple (evs pv (B es)) (act_bind (logAndSetFailStatus ke e) (\<lambda>_. act_return result))
      (\<lambda>_. evs pv S) (\<lambda>_. evs pv S) (evs pv S)" for es ke e result
    by (rule triple_conseq [OF silentD [OF silent_bind [OF silent_fail_status silent_return], where G = "B es"]]) (auto intro: bs)
  have quiet: "triple (evs pv (B es)) m (\<lambda>_. evs pv (B es)) (\<lambda>_. evs pv (B es)) (evs pv S)"
    if "silent pv m" for es and m :: "(run, 'x) act"
    by (rule triple_conseq [OF silentD [OF that, where G = "B es"]]) (auto intro: bs)
  have step: "triple (evs pv (B es)) m (\<lambda>_. evs pv (B es)) (\<lambda>_. evs pv S) (evs pv S)"
    if "silent pv m" for es and m :: "(run, 'x) act"
    by (rule triple_conseq [OF silentD [OF that, where G = "B es"]]) (auto intro: bs)
  have requeue: "triple (evs pv (B es)) (requeueWhenGetSettingsFailed ke e) (\<lambda>_. evs pv S) (\<lambda>_. evs pv S) (evs pv S)" for es ke e
    by (rule triple_conseq [OF silentD [OF silent_requeue, where G = "B es"]]) (auto intro: bs)
  have pop: "triple (evs pv (B es)) (populate re req cm es l) (\<lambda>p r. evs pv (B es) r \<and> C p) (\<lambda>_. evs pv (B es)) (evs pv S)" for cm es l
    by (rule triple_conj [OF quiet [OF silent_populate]]) (metis evs_def populate_Ok populated)
  have wr: "triple (\<lambda>r. evs pv (B es) r \<and> C p) (write_targets re req cm es p) (\<lambda>_. evs pv S) (\<lambda>_. evs pv S) (evs pv S)" for p cm es
    using targets by (cases "C p") (auto simp: triple_def)
  have verified: "triple (evs pv A) (reconcile_verified re req found) (\<lambda>_. evs pv S) (\<lambda>_. evs pv S) (evs pv S)" for found
    unfolding reconcile_verified_def Let_def
    by (rule triple_bind [OF init], rule triple_handle [OF existing silentD [OF silent_return]],
        rule triple_bind [OF step [OF silent_get]], rule triple_bind [OF step [OF silent_update_state]],
        rule triple_handle [OF quiet [OF silent_ensure_client_manager] ended], rule triple_bind [OF step [OF silent_get]],
        rule triple_handle [OF quiet [OF silent_lift] ended], rule triple_handle [OF pop requeue],
        rule triple_handle [OF wr silentD [OF silent_return]], rule silentD [OF silent_finish])
  have fail: "triple (evs pv S) (act_bind (logAndSetFailStatus ke e) (\<lambda>_. act_return result))
      (\<lambda>_. evs pv S) (\<lambda>_. evs pv S) (evs pv S)" for ke e result
    by (rule silentD [OF silent_bind [OF silent_fail_status silent_return]])
  have "triple (evs pv S) (act_bind (set_status (re_kube re) PhaseRunning SyncRunningMessage None) (\<lambda>_.
           act_bind (act_get (\<lambda>r. pv_Spec (run_Provider r))) (\<lambda>spec.
           handle (act_lift (verifyObject (re_env re) spec)) (\<lambda>e. act_bind (logAndSetFailStatus (re_kube re) e) (\<lambda>_. act_return no_requeue)) (\<lambda>_.
           handle (verify_ConfigMap (re_kube re)) (\<lambda>e. act_bind (logAndSetFailStatus (re_kube re) e) (\<lambda>_. act_return requeue_later)) (reconcile_verified re req)))))
     (\<lambda>_. evs pv S) (\<lambda>_. evs pv S) (evs pv S)"
    by (rule triple_bind [OF silentD [OF silent_set_status]], rule triple_bind [OF silentD [OF silent_get]],
        rule triple_handle [OF silentD [OF silent_lift] fail], rule triple_handle [OF checked fail verified])
  then show ?thesis by (simp add: triple_all reconcile_provider_def Let_def)
qed

lemma patch_status_keeps:
  assumes "\<And>l st x. S l \<Longrightarrow> S (l @ [PatchedStatus st x])" and "S (run_Events r)"
  shows "S (run_Events (patch_status ke n r))"
  using assms(2) by (induction ke n r rule: patch_status.induct) (auto simp: Let_def assms(1))

lemma Reconcile_keeps:
  assumes "triple (evs provider S) (reconcile_provider re req) (\<lambda>_. evs provider S) (\<lambda>_. evs provider S) (evs provider S)"
    and "\<And>l st x. S l \<Longrightarrow> S (l @ [PatchedStatus st x])"
    and "ke_GetProvider (re_kube re) (run_Calls r) req = Ok provider" and "S (run_Events r)"
  shows "S (run_Events (fst (Reconcile re req r)))"
proof -
  let ?r = "\<lambda>p. r\<lparr> run_Calls := Suc (run_Calls r), run_Provider := p \<rparr>"
  have "S (run_Events (fst (reconcile_provider re req (?r p))))" if "same_object provider p" for p
    using assms(1) [unfolded triple_all] assms(4) that by (simp add: evs_def)
  moreover have "same_object provider provider" "same_object provider (provider\<lparr> pv_Status := s \<rparr>)" for s
    by (simp_all add: same_object_def)
  ultimately show ?thesis
    using assms(3) patch_status_keeps [of S, OF assms(2)]
    by (simp add: Reconcile_def Let_def split: prod.split) (metis fst_conv)
qed

lemma ready_safe: "ready_to_write pv es l \<Longrightarrow> safe_trace pv l"
  by (simp add: reading_def)

section \<open>Properties\<close>

text \<open>
  C1. The controller never touches what it does not own.  In every reconciliation, whatever the
  cluster, the store and the vaults answer and however it ends, each write of a ConfigMap or
  secret comes after a read of the same name whose last answer was that there is no such
  object or that the provider owns it, and each deletion after a read that found a secret the
  provider owns.
\<close>

theorem only_owned_objects_touched:
  assumes "reads_by_name (re_kube re)" and "ke_GetProvider (re_kube re) (run_Calls r) req = Ok provider"
    and "run_Events r = []"
  shows "safe_trace provider (run_Events (fst (Reconcile re req r)))"
proof (rule Reconcile_keeps [OF _ _ assms(2)])
  show "triple (evs provider (safe_trace provider)) (reconcile_provider re req)
      (\<lambda>_. evs provider (safe_trace provider)) (\<lambda>_. evs provider (safe_trace provider)) (evs provider (safe_trace provider))"
    by (rule triple_reconcile_provider [where C = "\<lambda>_. True", OF triple_verify_ConfigMap [OF assms(1)]
          triple_existing_secrets [OF assms(1)] _ ready_safe _ triple_write_targets [OF assms(1)]]) simp_all
qed (simp_all add: assms(3) safe_trace_snoc, simp add: safe_trace_def)

section \<open>Witnesses\<close>

text \<open>An empty cluster with one provider.\<close>

definition test_kube :: "Provider \<Rightarrow> kube_env" where
  "test_kube provider =
     \<lparr> ke_GetProvider = (\<lambda>n req. Ok provider), ke_GetConfigMap = (\<lambda>n ns name. Err KubeNotFound),
       ke_GetSecret = (\<lambda>n ns name. Err KubeNotFound), ke_SetControllerReference = (\<lambda>p meta. Ok meta),
       ke_CreateOrUpdateConfigMap = (\<lambda>n obj f. Ok (f obj)), ke_CreateOrUpdateSecret = (\<lambda>n obj f. Ok (f obj)),
       ke_DeleteSecret = (\<lambda>n ns name. Ok ()), ke_PatchStatus = (\<lambda>n p. None), ke_Now = (\<lambda>n. int n), ke_time_text = (\<lambda>t. []) \<rparr>"

definition test_env :: "Provider \<Rightarrow> string reconcile_env" where
  "test_env provider =
     \<lparr> re_kube = test_kube provider, re_ctx = test_ctx, re_env = uuid_env, re_addr = 0, re_Retriever = None \<rparr>"

definition test_run :: run where
  "test_run = \<lparr> run_States = [], run_Provider = sample_provider, run_Events = [], run_Calls = 0 \<rparr>"

lemma test_env_simps [simp]:
  "ke_GetProvider (re_kube (test_env provider)) n req = Ok provider" "run_Events test_run = []"
  "reads_by_name (re_kube (test_env provider))"
  by (simp_all add: test_env_def test_kube_def test_run_def reads_by_name_def)

theorem only_owned_objects_touched_witness:
  "safe_trace (sample_provider\<lparr> pv_Spec := checked_spec \<rparr>)
     (run_Events (fst (Reconcile (test_env (sample_provider\<lparr> pv_Spec := checked_spec \<rparr>)) (''default'', ''provider'') test_run)))"
  by (rule only_owned_objects_touched) simp_all

end
