(* ===== verification/Reconcile_Outcome.thy ===== *)
theory Reconcile_Outcome
  imports Reconcile_Safety
begin

text \<open>
  How a reconciliation ends: the status it reports, whether the provider is queued again, and
  what becomes of the secrets of a provider that has no secret section any more.
\<close>

section \<open>Errors are reported\<close>

definition failed_run :: "run \<Rightarrow> bool" where
  "failed_run r \<longleftrightarrow> st_Phase (pv_Status (run_Provider r)) \<in> {PhaseFailed, PhaseUpdateFailed}"

text \<open>An action whose errors leave a failure in the status.\<close>

abbreviation reports :: "(run, 'a) act \<Rightarrow> bool" where
  "reports \<equiv> errs (\<lambda>_. failed_run)"

lemma reports_update_state: "reports (update_state key f)"
  by (rule errs_none) (simp add: update_state_def split: option.split)

lemma reports_get_state: "reports (get_state key)"
  by (rule errs_none) (simp add: get_state_def deref_def split: option.split)

lemma reports_deref: "reports (act_lift (deref x))"
  by (rule errs_none) (simp add: deref_def split: option.split)

lemma reports_panic: "reports (act_lift (Panic p))"
  by (rule errs_none) simp

lemma reports_write_annotations: "reports (write_annotations ke)"
  by (rule errs_none) (simp add: write_annotations_def clock_def act_bind_def)

lemma fail_status_failed:
  "logAndSetFailStatus ke e r = (r', res) \<Longrightarrow> res = Ok () \<and> failed_run r'"
  by (auto simp: logAndSetFailStatus_def set_status_def clock_def act_bind_def Let_def newProviderStatus_def failed_run_def
      split: if_splits)

lemma triple_fail_status:
  "triple (\<lambda>_. True) (logAndSetFailStatus ke e) (\<lambda>_. failed_run) (\<lambda>_ _. False) (\<lambda>_. False)"
proof (rule tripleI)
  fix r
  obtain r' res where "logAndSetFailStatus ke e r = (r', res)" by fastforce
  then show "ends (\<lambda>_. failed_run) (\<lambda>_ _. False) (\<lambda>_. False) (logAndSetFailStatus ke e r)"
    using fail_status_failed [of ke e r r' res] by simp
qed

lemma reports_failed_write: "reports (failed_write ke e)"
  unfolding errs_def failed_write_def
  by (rule triple_bind [OF triple_conseq [OF triple_fail_status, where Q' = "\<lambda>_. failed_run"]]) (auto simp: triple_def)

lemma reports_record_version: "reports (record_version key shared name v k8s)"
  unfolding record_version_def
  by (auto simp: Let_def split: option.split intro!: errs_bind reports_update_state errs_return reports_panic)

lemma reports_write_secret: "reports (write_secret ke name content)"
  unfolding write_secret_def Let_def
  by (rule errs_state)
    (intro errs_handle reports_failed_write errs_bind reports_write_annotations errs_return)

lemma reports_createOrUpdateConfigMap: "reports (createOrUpdateConfigMap ke cd cm settings)"
proof -
  have w: "reports (handle m (failed_write ke) (\<lambda>x. act_bind (write_annotations ke) (\<lambda>y.
        handle (m' x y) (failed_write ke) (\<lambda>z. update_state key (g z)))))" for m :: "(run, ObjectMeta) act" and m' :: "_ \<Rightarrow> _ \<Rightarrow> (run, ConfigMap) act" and key g
    by (intro errs_handle reports_failed_write errs_bind reports_write_annotations reports_update_state)
  show ?thesis
    unfolding errs_def
    by (rule tripleI) (simp add: createOrUpdateConfigMap_def Let_def tripleD [OF errsD [OF w]] tripleD [OF errsD [OF reports_update_state]])
qed

lemma reports_collect_one: "reports (collectExistingSecret ke name es)"
  unfolding collectExistingSecret_def by (intro errs_handle reports_failed_write errs_return)

lemma reports_collect: "reports (collect_secrets ke names es)"
  by (induction names arbitrary: es) (auto intro!: errs_return errs_bind reports_collect_one)

lemma reports_existing_secrets: "reports (existing_secrets ke req)"
proof -
  have w: "reports (act_bind (get_state req) (\<lambda>st. collect_secrets ke (name # gokeys (rc_ExistingK8sSecrets st)) []))" for name
    by (intro errs_bind reports_get_state reports_collect)
  show ?thesis
    unfolding errs_def
    by (rule tripleI) (simp add: existing_secrets_def tripleD [OF errsD [OF w]] del: collect_secrets.simps split: option.split)
qed

lemma reports_secrets_loop: "reports (secrets_loop ke cd key shared settings existing rest k8s)"
proof (induction rest arbitrary: k8s)
  case (Cons e rest)
  obtain name secret where e: "e = (name, secret)" by fastforce
  have "reports (\<lambda>r. (r, shouldCreateOrUpdateSecret cd (pv_Spec (run_Provider r)) settings name existing))"
    by (rule errs_none) (auto simp: shouldCreateOrUpdateSecret_def deref_def res_bind_eq_Err Let_def split: option.split)
  then show ?case
    unfolding e secrets_loop.simps
    by (rule errs_bind)
      (auto intro!: errs_bind reports_deref reports_record_version reports_write_secret Cons.IH)
qed (simp add: errs_return)

lemma reports_expel: "reports (expelRemovedSecrets ke es refs)"
proof (induction es)
  case Nil
  show ?case by (rule errs_none) simp
next
  case (Cons e es)
  then show ?case by (cases e) (auto intro!: errs_bind errs_get errs_handle reports_failed_write)
qed

lemma reports_write_targets: "reports (write_targets re req cm es p)"
proof -
  have "reports (\<lambda>r. if c r then expelRemovedSecrets ke es refs r else (r, Ok ()))" for c ke es refs
    using reports_expel [of ke es refs] by (simp add: errs_def triple_def)
  then show ?thesis
    unfolding write_targets_def Let_def createOrUpdateSecrets_def
    by (auto intro!: errs_bind reports_createOrUpdateConfigMap errs_return reports_collect reports_secrets_loop
        split: prod.split)
qed

section \<open>Outcomes\<close>

text \<open>
  A postcondition \<open>Q\<close> of the result that covers complete runs and failed runs that are queued
  again after the usual pause; \<open>E\<close> is what is known of the errors of loading.
\<close>

definition covers :: "(Result \<Rightarrow> run \<Rightarrow> bool) \<Rightarrow> bool" where
  "covers Q \<longleftrightarrow>
     (\<forall>r result. st_Phase (pv_Status (run_Provider r)) = PhaseComplete \<longrightarrow> Q result r) \<and> (\<forall>r. failed_run r \<longrightarrow> Q requeue_later r)"

lemma triple_fail_later:
  assumes "covers Q"
  shows "triple (\<lambda>_. True) (act_bind (logAndSetFailStatus ke e) (\<lambda>_. act_return requeue_later)) Q (\<lambda>_ _. False) (\<lambda>_. True)"
  using assms
  by (intro triple_bind [OF triple_conseq [OF triple_fail_status, where Q' = "\<lambda>_. failed_run"]])
    (auto simp: covers_def intro: triple_return)

lemma triple_requeue:
  assumes "covers Q" and "\<And>h n r. e = ResponseError 429 (Some h) \<Longrightarrow> Atoi h = Some n \<Longrightarrow> failed_run r
    \<Longrightarrow> Q \<lparr> rr_Requeue = True, rr_RequeueAfter = wrap64 (n * second) \<rparr> r"
  shows "triple (\<lambda>_. True) (requeueWhenGetSettingsFailed ke e) Q (\<lambda>_ _. False) (\<lambda>_. True)"
  unfolding requeueWhenGetSettingsFailed_def
proof (rule triple_bind [OF triple_conseq [OF triple_fail_status, where Q' = "\<lambda>_. failed_run"]])
  have nil: "Atoi [] = None" by (simp add: Atoi_def)
  fix u :: unit
  show "triple failed_run (if is_new_ArgumentError e then act_return no_requeue
       else case as_response_error e of
              Some (code, retryAfter) \<Rightarrow>
                (if code = 429 then
                   (case Atoi (case retryAfter of None \<Rightarrow> [] | Some s \<Rightarrow> s) of
                      Some n \<Rightarrow>
                        act_bind (act_get (\<lambda>r. spec_Endpoint (pv_Spec (run_Provider r)))) (\<lambda>endpoint.
                        act_bind (act_lift (deref endpoint)) (\<lambda>_.
                          act_return \<lparr> rr_Requeue = True, rr_RequeueAfter = wrap64 (n * second) \<rparr>))
                    | None \<Rightarrow> act_return requeue_later)
                 else act_return requeue_later)
            | None \<Rightarrow> act_return requeue_later) Q (\<lambda>_ _. False) (\<lambda>_. True)"
    using assms
    by (cases e) (auto simp: is_new_ArgumentError_def act_bind_def deref_def covers_def nil triple_def
        split: option.split)
qed auto

lemma triple_finish: "covers Q \<Longrightarrow> triple (\<lambda>_. True) (finish ke req p) Q (\<lambda>_ _. False) (\<lambda>_. True)"
  by (rule tripleI)
    (auto simp: finish_def clock_def set_status_def get_state_def update_state_def act_bind_def deref_def Let_def
      newProviderStatus_def Finish_def with_state_def covers_def split: option.split)

lemma noerr: "(\<And>r e. snd (m r) \<noteq> Err e) \<Longrightarrow> triple (\<lambda>_. True) m (\<lambda>_ _. True) (\<lambda>_ _. False) (\<lambda>_. True)"
  by (rule errsD [OF errs_none])

lemma triple_verified:
  assumes "covers Q" and "\<And>cm es l. errs (\<lambda>e _. E e) (populate re req cm es l)"
    and "\<And>e. E e \<Longrightarrow> triple (\<lambda>_. True) (requeueWhenGetSettingsFailed (re_kube re) e) Q (\<lambda>_ _. False) (\<lambda>_. True)"
  shows "triple (\<lambda>_. True) (reconcile_verified re req found) Q (\<lambda>_ _. False) (\<lambda>_. True)"
proof -
  have later: "failed_run r \<Longrightarrow> Q requeue_later r" for r using assms(1) by (simp add: covers_def)
  have requeue: "triple (\<lambda>_. E e) (requeueWhenGetSettingsFailed (re_kube re) e) Q (\<lambda>_ _. False) (\<lambda>_. True)" for e
    using assms(3) [of e] by (simp add: triple_def)
  show ?thesis
    unfolding reconcile_verified_def Let_def
  proof (rule triple_bind [OF noerr], simp, rule triple_handle [OF errsD [OF reports_existing_secrets]],
      rule triple_return, erule later, rule triple_bind [OF noerr], simp, rule triple_bind [OF noerr])
    show "snd (update_state req f r) \<noteq> Err e" for f r e by (simp add: update_state_def split: option.split)
  qed (rule triple_handle [OF triple_True triple_fail_later [OF assms(1)]], rule triple_bind [OF noerr], simp,
      rule triple_handle [OF triple_True triple_fail_later [OF assms(1)]], rule triple_handle [OF errsD [OF assms(2)] requeue],
      rule triple_handle [OF errsD [OF reports_write_targets]], rule triple_return, erule later, rule triple_finish [OF assms(1)])
qed

lemma verifyObject_checked:
  assumes "verifyObject env (pv_Spec (run_Provider r)) = Ok ()" and "st_Phase (pv_Status (run_Provider r)) \<noteq> PhaseRunning"
    and "re_env re = env" and "reconcile_provider re req r = (r', res)"
    and "covers Q" and "\<And>found. triple (\<lambda>_. True) (reconcile_verified re req found) Q (\<lambda>_ _. False) (\<lambda>_. True)"
  shows "(\<forall>e. res \<noteq> Err e) \<and> (\<forall>result. res = Ok result \<longrightarrow> Q result r')"
proof -
  have "triple (\<lambda>_. True) (handle (verify_ConfigMap (re_kube re))
      (\<lambda>e. act_bind (logAndSetFailStatus (re_kube re) e) (\<lambda>_. act_return requeue_later)) (reconcile_verified re req)) Q (\<lambda>_ _. False) (\<lambda>_. True)"
    by (rule triple_handle [OF triple_True triple_fail_later [OF assms(5)] assms(6)])
  note t = tripleD [OF this TrueI]
  obtain r1 where r1: "set_status (re_kube re) PhaseRunning SyncRunningMessage None r = (r1, Ok ())"
      "pv_Spec (run_Provider r1) = pv_Spec (run_Provider r)"
    by (simp add: set_status_def clock_def act_bind_def Let_def)
  have "handle (verify_ConfigMap (re_kube re))
      (\<lambda>e. act_bind (logAndSetFailStatus (re_kube re) e) (\<lambda>_. act_return requeue_later)) (reconcile_verified re req) r1 = (r', res)"
    using assms(1-4) r1 by (simp add: reconcile_provider_def Let_def act_bind_Ok [where m = "set_status _ _ _ _"])
  then show ?thesis using t [of r1] by (cases res) auto
qed

lemma verifyObject_rejected:
  assumes "verifyObject env (pv_Spec (run_Provider r)) = Err e" and "st_Phase (pv_Status (run_Provider r)) \<noteq> PhaseRunning"
    and "re_env re = env" and "reconcile_provider re req r = (r', res)"
  shows "res = Ok no_requeue \<and> failed_run r'"
proof -
  obtain r1 where r1: "set_status (re_kube re) PhaseRunning SyncRunningMessage None r = (r1, Ok ())"
      "pv_Spec (run_Provider r1) = pv_Spec (run_Provider r)"
    by (simp add: set_status_def clock_def act_bind_def Let_def)
  obtain r2 where r2: "logAndSetFailStatus (re_kube re) e r1 = (r2, Ok ())" "failed_run r2"
    using fail_status_failed by (metis surj_pair)
  show ?thesis
    using assms r1 r2 by (simp add: reconcile_provider_def Let_def act_bind_Ok)
qed

lemma verifyObject_panicked:
  assumes "verifyObject env (pv_Spec (run_Provider r)) = Panic p" and "st_Phase (pv_Status (run_Provider r)) \<noteq> PhaseRunning"
    and "re_env re = env" and "reconcile_provider re req r = (r', res)"
  shows "res = Panic p"
proof -
  obtain r1 where r1: "set_status (re_kube re) PhaseRunning SyncRunningMessage None r = (r1, Ok ())"
      "pv_Spec (run_Provider r1) = pv_Spec (run_Provider r)"
    by (simp add: set_status_def clock_def act_bind_def Let_def)
  then show ?thesis
    using assms by (simp add: reconcile_provider_def Let_def act_bind_Ok handle_def [where m = "act_lift _"])
qed

lemma patch_status_last:
  assumes "n \<noteq> 0"
  shows "run_Provider (patch_status ke n r) = run_Provider r
    \<and> (\<exists>before answer. run_Events (patch_status ke n r) = before @ [PatchedStatus (pv_Status (run_Provider r)) answer])"
  using assms
proof (induction ke n r rule: patch_status.induct)
  case (2 ke retry r)
  then show ?case by (cases retry) (auto simp: Let_def)
qed simp

text \<open>From the verified part to the whole reconciliation.\<close>

lemma Reconcile_result:
  assumes "ke_GetProvider (re_kube re) (run_Calls r) req = Ok provider"
    and "st_Phase (pv_Status provider) \<noteq> PhaseRunning" and "Reconcile re req r = (r', res)"
    and "covers Q" and "\<And>found. triple (\<lambda>_. True) (reconcile_verified re req found) Q (\<lambda>_ _. False) (\<lambda>_. True)"
  shows "(\<forall>e. res \<noteq> Err e)
    \<and> (\<forall>result. res = Ok result \<longrightarrow> (\<exists>r2. run_Provider r' = run_Provider r2
        \<and> (\<exists>before answer. run_Events r' = before @ [PatchedStatus (pv_Status (run_Provider r')) answer])
        \<and> (if is_Ok (verifyObject (re_env re) (pv_Spec provider)) then Q result r2 else result = no_requeue \<and> failed_run r2)))"
proof -
  define p where "p = (if st_Phase (pv_Status provider) = PhaseUnset
      then provider\<lparr> pv_Status := (pv_Status provider)\<lparr> st_Phase := PhasePending \<rparr> \<rparr> else provider)"
  let ?r = "r\<lparr> run_Calls := Suc (run_Calls r), run_Provider := p \<rparr>"
  obtain r2 where r2: "reconcile_provider re req ?r = (r2, res)" and r': "r' = patch_status (re_kube re) RetryAttempt r2"
    using assms(1,3) unfolding p_def by (auto simp: Reconcile_def Let_def split: prod.splits)
  have ph: "st_Phase (pv_Status (run_Provider ?r)) \<noteq> PhaseRunning" and spec: "pv_Spec (run_Provider ?r) = pv_Spec provider"
    using assms(2) by (auto simp: p_def)
  have patched: "run_Provider r' = run_Provider r2
      \<and> (\<exists>before answer. run_Events r' = before @ [PatchedStatus (pv_Status (run_Provider r')) answer])"
    using patch_status_last [of RetryAttempt "re_kube re" r2, folded r'] by (simp add: RetryAttempt_def)
  show ?thesis
  proof (cases "verifyObject (re_env re) (pv_Spec provider)")
    case (Ok u)
    then show ?thesis
      using verifyObject_checked [OF _ ph refl r2 assms(4,5)] spec patched by auto
  next
    case (Err e)
    then show ?thesis
      using verifyObject_rejected [OF _ ph refl r2] spec patched by auto
  next
    case (Panic q)
    then show ?thesis
      using verifyObject_panicked [OF _ ph refl r2] spec by auto
  qed
qed

section \<open>Providers without a secret section\<close>

fun about_secrets :: "event \<Rightarrow> bool" where
  "about_secrets (GotSecret name x) = True"
| "about_secrets (WroteSecret name x) = True"
| "about_secrets (DeletedSecret name x) = True"
| "about_secrets _ = False"

definition no_secrets :: "event list \<Rightarrow> bool" where
  "no_secrets l = list_all (\<lambda>e. \<not> about_secrets e) l"

lemma no_secrets_snoc [simp]: "no_secrets (l @ [e]) \<longleftrightarrow> no_secrets l \<and> \<not> about_secrets e"
  by (auto simp: no_secrets_def)

lemma secretless_pass:
  assumes "PopulateSettings rt cm es p = (p', Ok ())" and "pr_Options p = NewRefreshOptions"
    and "spec_Secret (pv_Spec (pr_Provider p)) = None"
  shows "\<not> ro_SecretSettingPopulated (pr_Options p')"
proof -
  obtain p0 p1 p2 where
    full: "if shouldReconcile p cm es then processFullReconciliation rt (p\<lparr> pr_ShouldReconcile := True \<rparr>) = (p0, Ok ())
     else p0 = p\<lparr> pr_ShouldReconcile := False \<rparr>"
    and ff: "processFeatureFlagRefresh rt cm p0 = (p1, Ok ())" and kv: "processKeyValueRefresh rt cm p1 = (p2, Ok ())"
    and se: "processSecretReferenceRefresh rt es p2 = (p', Ok ())"
    using assms(1) by (rule PopulateSettings_steps)
  have s0: "\<not> ro_SecretSettingPopulated (pr_Options p0) \<and> pr_Provider p0 = pr_Provider p
      \<and> \<not> ro_secretReferenceRefreshEnabled (pr_Options p0)"
    using full assms(2,3) full_frame [of rt "p\<lparr> pr_ShouldReconcile := True \<rparr>" p0]
    by (auto simp: processFullReconciliation_def refresh_simps NewRefreshOptions_def split: refresh_splits)
  have s1: "ro_SecretSettingPopulated (pr_Options p1) = ro_SecretSettingPopulated (pr_Options p0)"
    using ff by (auto simp: processFeatureFlagRefresh_def refresh_simps split: refresh_splits)
  have s2: "\<not> ro_SecretSettingPopulated (pr_Options p2)"
    using kv s0 s1 feature_flag_gate.frame [OF ff] assms(3)
    by (auto simp: processKeyValueRefresh_def check_key_values_def load_key_values_def refresh_simps split: refresh_splits)
  have "secret_interval (pv_Spec (pr_Provider p2)) = None" "\<not> ro_secretReferenceRefreshEnabled (pr_Options p2)"
    using s0 feature_flag_gate.frame [OF ff] key_value_gate.frame [OF kv] feature_flag_frame(2) [OF ff] key_value_frame(2) [OF kv] assms(3)
    by (simp_all add: secret_interval_def)
  then show ?thesis
    using se s2 by (auto simp: processSecretReferenceRefresh_def with_options_def with_state_def)
qed

text \<open>The condition on the events with the secrets that were collected.\<close>

definition no_secrets_with :: "(string, Secret) gomap \<Rightarrow> event list \<Rightarrow> bool" where
  "no_secrets_with es l \<longleftrightarrow> no_secrets l \<and> es = []"

lemma triple_secretless_targets:
  assumes "spec_Secret (pv_Spec pv) = None" and "\<not> ro_SecretSettingPopulated (pr_Options p)"
  shows "triple (evs pv (no_secrets_with es)) (write_targets re req cm es p)
    (\<lambda>_. evs pv no_secrets) (\<lambda>_. evs pv no_secrets) (evs pv no_secrets)"
proof -
  let ?G = no_secrets and ?ke = "re_kube re"
  have w: "triple (evs pv ?G) (handle (act_lift x) (failed_write ?ke) (\<lambda>meta.
           act_bind (write_annotations ?ke) (\<lambda>annotations.
           handle (kube (request meta annotations) (WroteConfigMap name)) (failed_write ?ke) (\<lambda>obj. update_state key (f obj)))))
      (\<lambda>_. evs pv ?G) (\<lambda>_. evs pv ?G) (evs pv ?G)" for request and x :: "ObjectMeta res" and name key f
    by (rule triple_handle [OF silentD [OF silent_lift] triple_failed_write],
        rule triple_bind [OF silentD [OF silent_write_annotations]],
        rule triple_handle [OF triple_kube triple_failed_write silentD [OF silent_update_state]]) simp
  have cm: "triple (evs pv ?G) (createOrUpdateConfigMap ?ke cd cm s) (\<lambda>_. evs pv ?G) (\<lambda>_. evs pv ?G) (evs pv ?G)" for cd s
    using w silentD [OF silent_update_state, of pv ?G]
    by (simp add: createOrUpdateConfigMap_def triple_all Let_def)
  have "triple (evs pv ?G) (write_targets re req cm [] p) (\<lambda>_. evs pv ?G) (\<lambda>_. evs pv ?G) (evs pv ?G)"
    unfolding write_targets_def Let_def
    by (rule triple_bind [OF triple_if [OF cm silentD [OF silent_return]]]) (simp add: triple_def assms(2) act_bind_def)
  then show ?thesis
    by (cases "es = []") (auto simp: triple_def evs_def no_secrets_with_def)
qed

section \<open>Properties\<close>

lemma patch_status_frame:
  "run_States (patch_status ke n q) = run_States q \<and> run_Provider (patch_status ke n q) = run_Provider q"
  by (induction ke n q rule: patch_status.induct) (auto simp: Let_def)

text \<open>
  C2. Every reconciliation reports how it ended, if it reads a provider to report it to.  A
  provider that is gone is forgotten, and no other error but that of reading the provider is
  returned; in these cases nothing is written.  With a provider, a reconciliation that
  returns has patched its status last.  A provider that is being reconciled already keeps its
  status and is not queued again.  Any other ends complete or failed, and a failed one is
  queued again exactly when its specification is valid.
\<close>

theorem outcome_reported:
  assumes "Reconcile re req r = (r', res)"
  shows "case ke_GetProvider (re_kube re) (run_Calls r) req of
      Err e \<Rightarrow>
        if e = KubeNotFound
        then res = Ok no_requeue \<and> run_States r' = godelete req (run_States r) \<and> run_Events r' = run_Events r
        else res = Err e \<and> run_States r' = run_States r \<and> run_Events r' = run_Events r
    | Panic q \<Rightarrow> res = Panic q \<and> run_Events r' = run_Events r
    | Ok provider \<Rightarrow>
        (\<forall>e. res \<noteq> Err e)
      \<and> (\<forall>result. res = Ok result \<longrightarrow>
          (\<exists>before answer. run_Events r' = before @ [PatchedStatus (pv_Status (run_Provider r')) answer])
        \<and> (if st_Phase (pv_Status provider) = PhaseRunning
           then result = no_requeue \<and> run_Provider r' = provider \<and> run_States r' = run_States r
           else st_Phase (pv_Status (run_Provider r')) = PhaseComplete
             \<or> st_Phase (pv_Status (run_Provider r')) \<in> {PhaseFailed, PhaseUpdateFailed}
               \<and> rr_Requeue result = is_Ok (verifyObject (re_env re) (pv_Spec provider))))"
proof (cases "ke_GetProvider (re_kube re) (run_Calls r) req")
  case (Ok provider)
  have reported: "(\<forall>e. res \<noteq> Err e)
    \<and> (\<forall>result. res = Ok result \<longrightarrow>
        (\<exists>before answer. run_Events r' = before @ [PatchedStatus (pv_Status (run_Provider r')) answer])
        \<and> (st_Phase (pv_Status (run_Provider r')) = PhaseComplete
           \<or> st_Phase (pv_Status (run_Provider r')) \<in> {PhaseFailed, PhaseUpdateFailed}
             \<and> rr_Requeue result = is_Ok (verifyObject (re_env re) (pv_Spec provider))))"
    if "st_Phase (pv_Status provider) \<noteq> PhaseRunning"
  proof -
    let ?Q = "\<lambda>result r. st_Phase (pv_Status (run_Provider r)) = PhaseComplete \<or> failed_run r \<and> rr_Requeue result"
    have c: "covers ?Q" by (simp add: covers_def requeue_later_def)
    have "triple (\<lambda>_. True) (reconcile_verified re req found) ?Q (\<lambda>_ _. False) (\<lambda>_. True)" for found
      by (rule triple_verified [OF c, where E = "\<lambda>_. True"]) (auto simp: errs_iff intro: triple_requeue [OF c])
    note res = Reconcile_result [OF Ok that assms c this]
    then show ?thesis
      by (cases res) (auto simp: failed_run_def no_requeue_def split: if_splits)
  qed
  have skipped: "res = Ok no_requeue \<and> run_Provider r' = provider \<and> run_States r' = run_States r
      \<and> (\<exists>before answer. run_Events r' = before @ [PatchedStatus (pv_Status (run_Provider r')) answer])"
    if "st_Phase (pv_Status provider) = PhaseRunning"
  proof -
    let ?r = "r\<lparr> run_Calls := Suc (run_Calls r), run_Provider := provider \<rparr>"
    have "res = Ok no_requeue" "r' = patch_status (re_kube re) RetryAttempt ?r"
      using assms Ok that by (simp_all add: Reconcile_def reconcile_provider_def Let_def)
    then show ?thesis
      using patch_status_last [of RetryAttempt "re_kube re" ?r] patch_status_frame [of "re_kube re" RetryAttempt ?r]
      by (simp add: RetryAttempt_def)
  qed
  show ?thesis using reported skipped Ok by (cases "st_Phase (pv_Status provider) = PhaseRunning") auto
qed (use assms in \<open>auto simp: Reconcile_def Let_def split: if_splits\<close>)

text \<open>
  A provider whose status says that it is being reconciled is left alone: no object is read
  or written, no state changes, and it is not queued again.  So a reconciliation that panics
  before it sets another status blocks the provider.
\<close>

theorem running_provider_skipped:
  assumes "ke_GetProvider (re_kube re) (run_Calls r) req = Ok provider"
    and "st_Phase (pv_Status provider) = PhaseRunning"
  shows "\<exists>r'. Reconcile re req r = (r', Ok no_requeue) \<and> run_States r' = run_States r
    \<and> run_Provider r' = provider"
  using assms by (simp add: Reconcile_def reconcile_provider_def Let_def patch_status_frame)

text \<open>
  C39. Removing the secret section of a provider leaves its secrets in the cluster: without the
  section a reconciliation neither reads, writes nor deletes any secret.
\<close>

theorem removed_secret_section_keeps_secrets:
  assumes "ke_GetProvider (re_kube re) (run_Calls r) req = Ok provider"
    and "spec_Secret (pv_Spec provider) = None" and "run_Events r = []"
  shows "list_all (\<lambda>e. \<not> about_secrets e) (run_Events (fst (Reconcile re req r)))"
proof -
  have "no_secrets (run_Events (fst (Reconcile re req r)))"
  proof (rule Reconcile_keeps [OF _ _ assms(1)])
    have v: "triple (evs provider no_secrets) (verify_ConfigMap (re_kube re)) (\<lambda>_. evs provider no_secrets) (\<lambda>_. evs provider no_secrets) (evs provider no_secrets)"
      unfolding triple_all
      by (auto simp: verify_ConfigMap_def existing_target_def kube_def Let_def evs_def split: res.split)
    have x: "triple (evs provider no_secrets) (existing_secrets (re_kube re) req) (\<lambda>es. evs provider (no_secrets_with es))
        (\<lambda>_. evs provider no_secrets) (evs provider no_secrets)"
      by (rule tripleI) (simp add: existing_secrets_def evs_def same_object_def assms(2) no_secrets_with_def)
    show "triple (evs provider no_secrets) (reconcile_provider re req) (\<lambda>_. evs provider no_secrets) (\<lambda>_. evs provider no_secrets) (evs provider no_secrets)"
    proof (rule triple_reconcile_provider [OF v x])
      show "\<not> ro_SecretSettingPopulated (pr_Options p)"
        if "same_object provider provider'" "PopulateSettings rt cm es (new_processor l provider' st now) = (p, Ok ())" for provider' rt cm es l st now p
        using secretless_pass [OF that(2)] that(1) assms(2) by (simp add: new_processor_def same_object_def)
    qed (auto simp: no_secrets_with_def intro: triple_secretless_targets [OF assms(2)])
  qed (use assms(3) in \<open>simp_all add: no_secrets_def\<close>)
  then show ?thesis by (simp add: no_secrets_def)
qed

section \<open>Witnesses\<close>

theorem outcome_reported_witness:
  "\<forall>e. snd (Reconcile (test_env (sample_provider\<lparr> pv_Spec := checked_spec \<rparr>)) (''default'', ''provider'') test_run) \<noteq> Err e"
proof -
  let ?re = "test_env (sample_provider\<lparr> pv_Spec := checked_spec \<rparr>)"
  obtain r' res where r: "Reconcile ?re (''default'', ''provider'') test_run = (r', res)" by fastforce
  from outcome_reported [OF r] r show ?thesis by simp
qed

theorem running_provider_skipped_witness:
  "\<exists>r'. Reconcile (test_env (sample_provider\<lparr> pv_Status := (pv_Status sample_provider)\<lparr> st_Phase := PhaseRunning \<rparr> \<rparr>))
      (''default'', ''provider'') test_run = (r', Ok no_requeue)"
  using running_provider_skipped [of "test_env (sample_provider\<lparr> pv_Status := (pv_Status sample_provider)\<lparr> st_Phase := PhaseRunning \<rparr> \<rparr>)"
      test_run "(''default'', ''provider'')"] by auto

theorem removed_secret_section_keeps_secrets_witness:
  "list_all (\<lambda>e. \<not> about_secrets e)
     (run_Events (fst (Reconcile (test_env sample_provider) (''default'', ''provider'') test_run)))"
  by (rule removed_secret_section_keeps_secrets) (simp_all, simp add: sample_provider_def sample_spec_def)

end
