(* ===== verification/Throttling.thy ===== *)
theory Throttling
  imports Reconcile_Outcome
begin

text \<open>
  Throttled requests.  \<^verbatim>\<open>requeueWhenGetSettingsFailed\<close> honours the \<^verbatim>\<open>Retry-After\<close> header of a
  response with status 429.  No such response reaches it from the loader: the failover policy
  takes it for a failed client and reports only its text, and the errors of the vaults and of
  the snapshots are reported by their text too.
\<close>

section \<open>Errors that are not throttling\<close>

definition throttled :: "go_error \<Rightarrow> bool" where
  "throttled e \<longleftrightarrow> (case as_response_error e of Some (code, h) \<Rightarrow> code = 429 | None \<Rightarrow> False)"

definition unthrottled :: "'a res \<Rightarrow> bool" where
  "unthrottled r \<longleftrightarrow> (\<forall>e. r = Err e \<longrightarrow> \<not> throttled e)"

lemma throttled_simps [simp]:
  "\<not> throttled (Errorf f a es)" "\<not> throttled (LibError s)" "\<not> throttled KubeNotFound"
  "\<not> throttled (KubeError s)" "\<not> throttled (DNSError b)" "\<not> throttled (NetError s)" "\<not> throttled (ArgumentError s e)"
  by (simp_all add: throttled_def)

lemma throttled_failoverable: "throttled e \<Longrightarrow> IsFailoverable e"
  by (cases e) (auto simp: throttled_def IsFailoverable_def)

lemma unthrottled_simps [simp]:
  "unthrottled (Ok x)" "unthrottled (Panic p)" "unthrottled (Err e) \<longleftrightarrow> \<not> throttled e"
  by (simp_all add: unthrottled_def)

lemma unthrottled_bind [intro!]:
  "unthrottled r \<Longrightarrow> (\<And>x. r = Ok x \<Longrightarrow> unthrottled (f x)) \<Longrightarrow> unthrottled (res_bind r f)"
  by (cases r) auto

lemma unthrottled_map [simp]: "unthrottled (res_map f r) = unthrottled r"
  by (cases r) auto

lemma unthrottled_wrap [simp]: "unthrottled (wrap_error f a r)"
  by (cases r) (simp_all add: wrap_error_def)

lemma unthrottled_deref [simp]: "unthrottled (deref x)"
  by (cases x) (simp_all add: deref_def)

lemma unthrottled_host_of [simp]: "unthrottled (host_of e)"
  by (simp add: host_of_def split: option.split)

lemma unthrottled_list: "(\<And>x. x \<in> set xs \<Longrightarrow> unthrottled (f x)) \<Longrightarrow> unthrottled (res_list f xs)"
  by (induction xs) auto

section \<open>What the libraries promise\<close>

text \<open>
  Only requests to the store and to the vaults are answered with a status: making credentials
  and clients, reading a service account and decoding documents fail with other errors.
\<close>

definition local_env :: "loader_env \<Rightarrow> bool" where
  "local_env env \<longleftrightarrow>
     (\<forall>c e. env_NewCredential env c = Some e \<longrightarrow> \<not> throttled e) \<and>
     (\<forall>ns n. unthrottled (env_GetServiceAccount env ns n))"

definition local_libraries :: "'k loader_ctx \<Rightarrow> bool" where
  "local_libraries lc \<longleftrightarrow>
     (\<forall>n. local_env (ce_env (lc_calls lc n))) \<and>
     (\<forall>url cred e. vault_NewClient (lc_vault lc) url cred = Some e \<longrightarrow> \<not> throttled e) \<and>
     (\<forall>s. unthrottled (json_Unmarshal (lc_codec lc) s)) \<and> (\<forall>s. unthrottled (yaml_Unmarshal (lc_codec lc) s))"

section \<open>Pure parts of the loader\<close>

lemma unthrottled_as_object [simp]: "unthrottled (as_object v)"
  by (cases v) simp_all

lemma unthrottled_struct_members: "unthrottled (struct_members field m acc)"
  by (induction field m acc rule: struct_members.induct) (auto split: go_value.split)

lemma unthrottled_struct_string [simp]: "unthrottled (struct_string field v)"
  by (cases v) (simp_all add: unthrottled_struct_members)

lemma unthrottled_new_credential: "local_env env \<Longrightarrow> unthrottled (new_credential env c)"
  by (simp add: new_credential_def local_env_def split: option.split)

lemma unthrottled_assertion_credential:
  assumes "local_env env"
  shows "unthrottled (newClientAssertionCredential env sa ns)"
proof -
  have "unthrottled (env_GetServiceAccount env ns sa)" using assms by (simp add: local_env_def)
  then show ?thesis
    unfolding newClientAssertionCredential_def
    by (rule unthrottled_bind) (auto simp: unthrottled_new_credential [OF assms] split: option.split)
qed

lemma unthrottled_CreateTokenCredential:
  assumes "local_env env"
  shows "unthrottled (CreateTokenCredential env au ns)"
  using unthrottled_new_credential [OF assms] unthrottled_assertion_credential [OF assms]
  by (auto simp: CreateTokenCredential_def split: option.split)

lemma unthrottled_secret_clients_loop:
  assumes "local_env env" and "\<And>url cred e. vault_NewClient ve url cred = Some e \<Longrightarrow> \<not> throttled e"
  shows "unthrottled (secret_clients_loop env ve ns kvs clients)"
proof (induction kvs arbitrary: clients)
  case (Cons kv kvs)
  have "unthrottled (new_secret_client ve url cred)" for url cred
    using assms(2) by (simp add: new_secret_client_def split: option.split)
  then show ?case
    using Cons.IH by (auto simp: unthrottled_CreateTokenCredential [OF assms(1)])
qed simp

lemma unthrottled_new_resolver:
  assumes "local_libraries lc" and "local_env env"
  shows "unthrottled (new_resolver lc env provider)"
proof -
  have v: "vault_NewClient (lc_vault lc) url cred = Some e \<Longrightarrow> \<not> throttled e" for url cred e
    using assms(1) by (auto simp: local_libraries_def)
  have "unthrottled (createSecretClients env (lc_vault lc) provider)"
    using unthrottled_secret_clients_loop [OF assms(2) v]
    by (simp add: createSecretClients_def split: option.split)
  then show ?thesis
    by (auto simp: new_resolver_def createSecretReferenceResolver_def Let_def unthrottled_CreateTokenCredential [OF assms(2)])
qed

lemma unthrottled_parse: "local_libraries lc \<Longrightarrow> unthrottled (parse (lc_codec lc) s)"
  unfolding parse_def
  by (intro unthrottled_bind) (auto simp: local_libraries_def Let_def split: option.split)

text \<open>Building the hierarchy panics or succeeds.\<close>

lemma unthrottled_assemble:
  assumes "list_all (\<lambda>(k, r). unthrottled r) rs"
  shows "unthrottled (assemble rs)"
proof (cases "fill_array (length rs) rs (replicate (length rs) None)")
  case None
  then show ?thesis
    using assms by (auto simp: assemble_def list_all_iff intro!: unthrottled_list)
next
  case (Some slots)
  have "unthrottled (slot_result x)" if "x \<in> set slots" for x
    using fill_array_members [OF Some] that assms by (cases x) (force simp: list_all_iff)+
  then show ?thesis
    using Some by (auto simp: assemble_def intro!: unthrottled_list)
qed

lemma unthrottled_unflatten: "unthrottled (unflatten t)"
proof (induction t rule: unflatten.induct)
  case (1 cs tv)
  then show ?case by (auto intro!: unthrottled_assemble simp: list_all_iff)
qed

lemma unthrottled_parsed [simp]: "unthrottled (parsed_settings kvs sep)"
  by (auto simp: parsed_settings_def build_def unthrottled_unflatten split: option.split intro!: unthrottled_list)

lemma unthrottled_marshal [simp]: "unthrottled (marshalJsonYaml cd m opts)"
  by (simp add: marshalJsonYaml_def split: DataType.split res.split)

lemma unthrottled_typed [simp]:
  "unthrottled (createTypedSettings cd raw opts)" "unthrottled (createTypedSecrets cd secrets opts)"
  by (auto simp: createTypedSettings_def createTypedSecrets_def Let_def split: option.split)

lemma unthrottled_unmarshal: "local_libraries lc \<Longrightarrow> unthrottled (unmarshalConfigMap (lc_codec lc) m opts)"
  unfolding unmarshalConfigMap_def
  by (auto simp: local_libraries_def Let_def split: option.split DataType.split go_value.split intro!: unthrottled_bind)

lemma unthrottled_resolve_opaque [simp]: "unthrottled (resolve_opaque resolve m)"
  by (induction resolve m rule: resolve_opaque.induct) auto

lemma unthrottled_resolve_tls [simp]: "unthrottled (resolve_tls cr resolve name m)"
  by (auto simp: resolve_tls_def split: option.split)

lemma unthrottled_resolve_all: "unthrottled (resolve_all cd cr spec resolve refs)"
proof (induction refs)
  case (Cons r refs)
  have "unthrottled (resolve_secret cd cr spec resolve name ref)" for name ref
    by (auto simp: resolve_secret_def)
  with Cons show ?case by (cases r) auto
qed simp

lemma unthrottled_resolve_references:
  "unthrottled create \<Longrightarrow> unthrottled (ResolveSecretReferences cd cr spec create refs resolver)"
  by (auto simp: ResolveSecretReferences_def unthrottled_resolve_all split: option.split)

lemma unthrottled_merge_data [simp]: "unthrottled (merge_data a b)"
  by (simp add: merge_data_def split: option.split)

lemma unthrottled_MergeSecret [simp]: "unthrottled (MergeSecret a b)"
  by (induction a b rule: MergeSecret.induct) (auto split: option.split)

lemma unthrottled_update_secrets [simp]: "unthrottled (update_secrets a b)"
  by (induction a b rule: update_secrets.induct) (auto split: option.split)

lemma unthrottled_feature_flags [simp]: "unthrottled (feature_flag_loop cd endpoint settings n seen flags)"
proof (induction n arbitrary: seen flags)
  case (Suc n)
  have "unthrottled (populateTelemetryMetadata flag setting endpoint)" for flag setting
    by (auto simp: populateTelemetryMetadata_def Let_def split: option.split go_value.split)
  then have "unthrottled (feature_flag_value cd endpoint s)" for s
    by (auto simp: feature_flag_value_def split: option.split)
  with Suc show ?case by auto
qed simp

section \<open>The loader\<close>

abbreviation calm :: "('s, 'a) act \<Rightarrow> bool" where
  "calm \<equiv> errs (\<lambda>e _. \<not> throttled e)"

lemma calm_lift [intro]: "unthrottled r \<Longrightarrow> calm (act_lift r)"
  by (auto simp: errs_iff unthrottled_def)

lemma calm_pure [intro]: "(\<And>s. unthrottled (r s)) \<Longrightarrow> calm (\<lambda>s. (s, r s))"
  by (auto simp: errs_iff unthrottled_def)

lemma calm_get_clients: "calm (get_clients ce)"
proof -
  have "unthrottled (GetClients env ds now m)" for env ds now m
    by (auto simp: GetClients_def Let_def discover_def)
  then show ?thesis
    by (auto simp: errs_iff get_clients_def unthrottled_def split: res.splits)
qed

lemma calm_refresh_clients: "calm (refresh_clients ce)"
proof -
  have "unthrottled (RefreshClients env ds now m)" for env ds now m
    by (auto simp: RefreshClients_def discover_def)
  then show ?thesis
    by (auto simp: errs_iff refresh_clients_def unthrottled_def split: res.splits)
qed

lemma failover_loop_calm:
  "failover_loop ce request i rs errors l = (l', Some r, errors') \<Longrightarrow> unthrottled r"
proof (induction rs arbitrary: i errors l)
  case (Cons w rs)
  let ?answer = "request (cw_Client (wrapper_at (ldr_Manager l) w))"
  show ?case
  proof (cases ?answer)
    case (Err e)
    show ?thesis
    proof (cases "IsFailoverable e")
      case True
      then show ?thesis using Cons.prems Err by (simp add: Let_def) (rule Cons.IH)
    next
      case False
      then have "\<not> throttled e" using throttled_failoverable by blast
      moreover have "r = Err e" using Cons.prems Err False by (simp add: Let_def)
      ultimately show ?thesis by simp
    qed
  qed (use Cons.prems in \<open>auto simp: Let_def dest!: sym [of "Ok _"] sym [of "Panic _"]\<close>)
qed simp

lemma calm_try_clients: "calm (try_clients ce request clients)"
proof -
  have r: "calm (act_bind (refresh_clients ce) (\<lambda>_. act_lift (Err (Errorf f a es))))" for f a es
    by (intro errs_bind calm_refresh_clients) auto
  show ?thesis
    by (auto simp: try_clients_def errs_iff Let_def split: prod.splits option.splits if_splits
        dest: failover_loop_calm [unfolded unthrottled_def] r [unfolded errs_iff, rule_format])
qed

lemma calm_execute: "calm (execute lc client)"
proof -
  have "calm (ExecuteFailoverPolicy ce request)" for ce request
    unfolding ExecuteFailoverPolicy_def by (intro errs_bind calm_get_clients calm_try_clients)
  then show ?thesis by (auto simp: execute_def errs_iff)
qed

lemma calm_process_reference:
  assumes "local_libraries lc"
  shows "calm (process_reference lc key setting)"
proof -
  have resolver: "calm (\<lambda>st. case ps_resolver st of Some r \<Rightarrow> (st, Ok ())
      | None \<Rightarrow> (case new_resolver lc (ce_env (lc_calls lc (ldr_calls (ps_loader st)))) provider of
           Ok r \<Rightarrow> (st\<lparr> ps_resolver := Some r \<rparr>, Ok ()) | Err e \<Rightarrow> (st, Err e) | Panic p \<Rightarrow> (st, Panic p)))" for provider
    using unthrottled_new_resolver [OF assms] assms
    by (auto simp: errs_iff local_libraries_def unthrottled_def split: option.splits res.splits)
  have ty: "unthrottled (parseSecretType s)" for s
    by (simp add: parseSecretType_def split: option.split)
  have store: "calm (act_bind (act_lift r) (\<lambda>ty. act_bind (\<lambda>st. case ps_resolver st of Some r \<Rightarrow> (st, Ok ())
      | None \<Rightarrow> (case new_resolver lc (ce_env (lc_calls lc (ldr_calls (ps_loader st)))) provider of
           Ok r \<Rightarrow> (st\<lparr> ps_resolver := Some r \<rparr>, Ok ()) | Err e \<Rightarrow> (st, Err e) | Panic p \<Rightarrow> (st, Panic p)))
      (\<lambda>_. act_bind (act_lift (parse (lc_codec lc) url)) (\<lambda>md. act_modify (f ty md)))))"
    if "unthrottled r" for r :: "SecretType res" and provider url f
    using that by (intro errs_bind errs_modify resolver calm_lift unthrottled_parse [OF assms])
  show ?thesis
    unfolding errs_iff
  proof (intro allI impI)
    fix st st' e assume eq: "process_reference lc key setting st = (st', Err e)"
    show "\<not> throttled e"
    proof (cases "set_Value setting")
      case (Some url)
      note v = this
      show ?thesis
      proof (cases "spec_Secret (pv_Spec (ldr_Provider (ps_loader st)))")
        case (Some sr)
        show ?thesis
          by (rule store [unfolded errs_iff, rule_format, OF _ eq [unfolded process_reference_def v Some Let_def option.case]])
            (auto simp: ty split: option.split)
      qed (use eq v in \<open>auto simp: process_reference_def Let_def\<close>)
    qed (use eq in \<open>auto simp: process_reference_def Let_def\<close>)
  qed
qed

lemma calm_snapshot_client: "calm (snapshot_client lc)"
  using calm_get_clients
  by (auto simp: snapshot_client_def errs_iff Let_def split: option.splits prod.splits res.splits list.splits)

lemma calm_process_snapshot:
  assumes "\<And>settings. calm (nested settings)"
  shows "calm (process_snapshot lc nested key ref)"
  unfolding process_snapshot_def
  by (intro errs_bind errs_modify errs_get calm_snapshot_client)
    (auto split: prod.split intro!: errs_bind errs_modify assms calm_lift)

lemma calm_process_setting:
  assumes "local_libraries lc" and "\<And>settings. calm (nested settings)"
  shows "calm (process_setting lc b nested setting)"
proof -
  have "calm (process_plain key v ct)" for key v ct
    unfolding process_plain_def by (rule errs_modify)
  then show ?thesis
    by (auto simp: process_setting_def errs_iff Let_def split: option.splits if_splits
        dest: calm_process_reference [OF assms(1), unfolded errs_iff, rule_format]
          calm_process_snapshot [of nested, OF assms(2), unfolded errs_iff, rule_format])
qed

lemma calm_processSettings: "local_libraries lc \<Longrightarrow> calm (processSettings lc settings)"
  unfolding processSettings_def processNestedSettings_def
  by (intro errs_iter calm_process_setting errs_return)

lemma calm_run_process: "local_libraries lc \<Longrightarrow> calm (run_process lc settings raw resolver)"
  using calm_processSettings [of lc settings]
  by (auto simp: run_process_def errs_iff split: prod.splits res.splits)

lemma calm_CreateKeyValueSettings:
  assumes "local_libraries lc"
  shows "calm (CreateKeyValueSettings lc resolver)"
  unfolding CreateKeyValueSettings_def
  using assms
  by (auto intro!: errs_bind errs_get errs_modify errs_return calm_execute calm_lift calm_run_process calm_pure
      unthrottled_resolve_references unthrottled_new_resolver simp: local_libraries_def)

lemma calm_sentinel_loop: "calm (sentinel_loop lc interval eTags changed refreshed)"
proof (induction eTags arbitrary: changed refreshed)
  case (Cons s eTags)
  then show ?case
    by (cases s) (auto split: option.split list.split intro!: errs_bind calm_execute calm_lift)
qed (simp add: errs_return)

lemma calm_CheckAndRefreshSentinels: "calm (CheckAndRefreshSentinels lc provider eTags)"
  by (auto simp: CheckAndRefreshSentinels_def intro!: errs_bind errs_return calm_lift calm_sentinel_loop)

lemma calm_CheckPageETags: "calm (CheckPageETags lc eTags)"
  by (auto simp: CheckPageETags_def intro!: errs_bind errs_return calm_lift calm_execute)

lemma calm_getFeatureFlagSettings: "calm (getFeatureFlagSettings lc)"
  unfolding getFeatureFlagSettings_def
  by (auto intro!: errs_bind errs_get errs_return calm_execute calm_lift calm_pure split: list.split)

lemma calm_CreateTargetSettings: "local_libraries lc \<Longrightarrow> calm (CreateTargetSettings lc addr resolver)"
  unfolding CreateTargetSettings_def
  by (auto intro!: errs_bind errs_get errs_return calm_CreateKeyValueSettings calm_CheckAndRefreshSentinels
      calm_getFeatureFlagSettings calm_lift split: option.split)

lemma calm_RefreshKeyValueSettings: "local_libraries lc \<Longrightarrow> calm (RefreshKeyValueSettings lc existing resolver)"
  unfolding RefreshKeyValueSettings_def
  by (auto intro!: errs_bind errs_get errs_return calm_CreateKeyValueSettings calm_lift unthrottled_unmarshal)

lemma calm_RefreshFeatureFlagSettings: "local_libraries lc \<Longrightarrow> calm (RefreshFeatureFlagSettings lc existing)"
  unfolding RefreshFeatureFlagSettings_def
  by (auto intro!: errs_bind errs_get errs_return calm_getFeatureFlagSettings calm_lift unthrottled_unmarshal)

section \<open>The pass and the reconciliation\<close>

text \<open>
  The loader as the retriever of a reconciliation, whatever the clock says and whether its
  requests are marked as start-up requests.
\<close>

lemma calm_retriever:
  assumes "local_libraries lc"
  shows "calm (rt_CreateTargetSettings (loader_retriever lc addr) resolver)"
    "calm (rt_CheckAndRefreshSentinels (loader_retriever lc addr) provider eTags)"
    "calm (rt_CheckPageETags (loader_retriever lc addr) pages)"
    "calm (rt_RefreshKeyValueSettings (loader_retriever lc addr) existing resolver)"
    "calm (rt_RefreshFeatureFlagSettings (loader_retriever lc addr) existing)"
    "calm (rt_ResolveSecretReferences (loader_retriever lc addr) refs resolver)"
  using assms
  by (auto simp: loader_retriever_def local_libraries_def
      intro!: calm_CreateTargetSettings calm_CheckAndRefreshSentinels calm_CheckPageETags calm_RefreshKeyValueSettings
        calm_RefreshFeatureFlagSettings calm_pure unthrottled_resolve_references unthrottled_new_resolver)

lemma calm_PopulateSettings:
  assumes "local_libraries lc"
  shows "calm (PopulateSettings (loader_retriever lc addr) cm es)"
proof -
  note calls = calm_retriever [OF assms, unfolded errs_iff, rule_format]
  have full: "calm (processFullReconciliation (loader_retriever lc addr))"
    by (auto simp: errs_iff processFullReconciliation_def refresh_simps split: refresh_splits dest: calls)
  have flags: "calm (processFeatureFlagRefresh (loader_retriever lc addr) cm)"
    by (auto simp: errs_iff processFeatureFlagRefresh_def refresh_simps split: refresh_splits dest: calls)
  have keys: "calm (processKeyValueRefresh (loader_retriever lc addr) cm)"
    by (auto simp: errs_iff processKeyValueRefresh_def check_key_values_def load_key_values_def refresh_simps
        split: refresh_splits dest: calls)
  have secrets: "calm (processSecretReferenceRefresh (loader_retriever lc addr) es)"
    using unthrottled_update_secrets
    by (auto simp: errs_iff processSecretReferenceRefresh_def resolve_unversioned_def deref_def refresh_simps unthrottled_def
        split: refresh_splits dest: calls)
  have "calm (\<lambda>p. if pr_ShouldReconcile p then processFullReconciliation (loader_retriever lc addr) p else (p, Ok ()))"
    using full by (auto simp: errs_iff)
  then show ?thesis
    unfolding PopulateSettings_def by (intro errs_bind errs_modify flags keys secrets)
qed

text \<open>The clock and the start-up mark do not matter for the libraries.\<close>

lemma local_libraries_startup [simp]: "local_libraries (with_startup b lc) = local_libraries lc"
  by (simp add: local_libraries_def with_startup_def)

lemma calm_populate:
  assumes "local_libraries (re_ctx re)" and "re_Retriever re = None"
  shows "calm (populate re req cm es l)"
proof -
  have upd: "calm (update_state req f)" for f
    by (rule errs_none) (simp add: update_state_def split: option.split)
  have pass: "unthrottled (snd (PopulateSettings (loader_retriever (with_startup b (re_ctx re)) addr) cm es p))" for b addr p
    using calm_PopulateSettings [of "with_startup b (re_ctx re)" addr cm es, unfolded errs_iff] assms(1)
    by (metis local_libraries_startup prod.collapse unthrottled_def)
  have "calm (get_state req)" "calm (clock (re_kube re))"
    by (rule errs_none, simp add: get_state_def clock_def deref_def split: option.split)+
  then show ?thesis
    unfolding populate_def using pass
    by (intro errs_bind errs_get)
      (auto simp: assms(2) Let_def split: prod.split intro!: errs_bind upd calm_lift, metis snd_conv)
qed

section \<open>Properties\<close>

text \<open>
  C14. The \<^verbatim>\<open>Retry-After\<close> header of the store is never honoured.  With the loader as retriever, every
  reconciliation that fails with a valid specification is queued again after exactly the fixed
  pause of thirty seconds, whatever status and header the store answered with.
\<close>

theorem retry_after_never_honoured:
  assumes "local_libraries (re_ctx re)" and "re_Retriever re = None"
    and "ke_GetProvider (re_kube re) (run_Calls r) req = Ok provider" and "st_Phase (pv_Status provider) \<noteq> PhaseRunning"
    and "Reconcile re req r = (r', Ok result)" and "st_Phase (pv_Status (run_Provider r')) \<noteq> PhaseComplete"
  shows "result = (if is_Ok (verifyObject (re_env re) (pv_Spec provider)) then requeue_later else no_requeue)"
proof -
  let ?Q = "\<lambda>result r. st_Phase (pv_Status (run_Provider r)) = PhaseComplete \<or> failed_run r \<and> result = requeue_later"
  have c: "covers ?Q" by (simp add: covers_def)
  have "triple (\<lambda>_. True) (requeueWhenGetSettingsFailed (re_kube re) e) ?Q (\<lambda>_ _. False) (\<lambda>_. True)" if "\<not> throttled e" for e
    by (rule triple_requeue [OF c]) (use that in \<open>auto simp: throttled_def\<close>)
  then have "triple (\<lambda>_. True) (reconcile_verified re req found) ?Q (\<lambda>_ _. False) (\<lambda>_. True)" for found
    by (rule triple_verified [OF c calm_populate [OF assms(1,2)]])
  from Reconcile_result [OF assms(3-5) c this] assms(6) show ?thesis
    by (auto split: if_splits)
qed

section \<open>Witness\<close>

text \<open>A store that answers every request with status 429 and asks to wait five seconds.\<close>

definition busy_store :: az_client where
  "busy_store = (client_of (\<lambda>q. []))\<lparr> ListSettings := (\<lambda>q etags. [Err (ResponseError 429 (Some ''5''))]) \<rparr>"

definition busy_provider :: Provider where
  "busy_provider = sample_provider\<lparr> pv_Spec := sample_spec\<lparr> spec_FeatureFlag := None \<rparr> \<rparr>"

definition busy_env :: "string reconcile_env" where
  "busy_env = (test_env busy_provider)\<lparr> re_env := uuid_env\<lparr> env_NewClient := (\<lambda>e c opts. Ok busy_store) \<rparr> \<rparr>"

lemma busy_run:
  "st_Phase (pv_Status (run_Provider (fst (Reconcile busy_env (''default'', ''provider'') test_run)))) = PhaseFailed"
  "is_Ok (snd (Reconcile busy_env (''default'', ''provider'') test_run))"
  "is_Ok (verifyObject (re_env busy_env) (pv_Spec busy_provider))"
  by code_simp+

lemma local_test_ctx: "local_libraries test_ctx"
proof -
  have "unthrottled (json_decode canon s)" for canon s
    by (simp add: json_decode_def split: option.split prod.split)
  then show ?thesis
    by (simp add: local_libraries_def local_env_def test_ctx_def test_codec_def go_codec_def sample_call_def
        sample_env_def sample_vault_env_def)
qed

theorem retry_after_never_honoured_witness:
  "snd (Reconcile busy_env (''default'', ''provider'') test_run) = Ok requeue_later"
proof -
  obtain r' result where r: "Reconcile busy_env (''default'', ''provider'') test_run = (r', Ok result)"
    using busy_run(2) by (metis is_Ok_iff prod.collapse)
  have "result = (if is_Ok (verifyObject (re_env busy_env) (pv_Spec busy_provider)) then requeue_later else no_requeue)"
    by (rule retry_after_never_honoured [OF _ _ _ _ r])
      (use busy_run(1) r in \<open>simp_all add: busy_env_def test_env_def test_kube_def local_test_ctx busy_provider_def sample_provider_def\<close>)
  then show ?thesis using r busy_run(3) by simp
qed

end
