(* ===== verification/Definedness.thy ===== *)
theory Definedness
  imports Action_Logic Setting_Tree
begin

text \<open>
  Code that does not panic.  \<open>returns\<close> says it of a result; \<open>safely I Q m\<close> is the judgement for
  an action: from a state with \<open>I\<close> it ends with a value that satisfies \<open>Q\<close> or with an error, and
  in both cases in a state with \<open>I\<close>.
\<close>

section \<open>Results\<close>

definition returns :: "'a res \<Rightarrow> bool" where
  "returns r \<longleftrightarrow> (\<forall>p. r \<noteq> Panic p)"

lemma returns_simps [simp]: "returns (Ok x)" "returns (Err e)" "\<not> returns (Panic p)"
  by (simp_all add: returns_def)

lemma returns_bind [intro!]: "returns r \<Longrightarrow> (\<And>x. r = Ok x \<Longrightarrow> returns (f x)) \<Longrightarrow> returns (res_bind r f)"
  by (cases r) auto

lemma returns_map [simp]: "returns (res_map f r) = returns r"
  by (cases r) auto

lemma returns_is_Ok: "is_Ok r \<Longrightarrow> returns r"
  by (cases r) auto

lemma returns_list: "(\<And>x. x \<in> set xs \<Longrightarrow> returns (f x)) \<Longrightarrow> returns (res_list f xs)"
  by (induction xs) auto

text \<open>A result that is an error or a value with \<open>Q\<close>.\<close>

definition gives :: "('a \<Rightarrow> bool) \<Rightarrow> 'a res \<Rightarrow> bool" where
  "gives Q r \<longleftrightarrow> (case r of Ok x \<Rightarrow> Q x | Err e \<Rightarrow> True | Panic p \<Rightarrow> False)"

lemma gives_simps [simp]: "gives Q (Ok x) = Q x" "gives Q (Err e)" "\<not> gives Q (Panic p)"
  by (simp_all add: gives_def)

lemma gives_iff: "gives Q r \<longleftrightarrow> returns r \<and> (\<forall>x. r = Ok x \<longrightarrow> Q x)"
  by (cases r) auto

lemma gives_True [simp]: "gives (\<lambda>_. True) r = returns r"
  by (simp add: gives_iff)

lemma gives_bind: "gives R r \<Longrightarrow> (\<And>x. R x \<Longrightarrow> gives Q (f x)) \<Longrightarrow> gives Q (res_bind r f)"
  by (cases r) auto

lemma gives_map [simp]: "gives Q (res_map f r) = gives (\<lambda>x. Q (f x)) r"
  by (cases r) auto

lemma gives_mono: "gives R r \<Longrightarrow> (\<And>x. R x \<Longrightarrow> Q x) \<Longrightarrow> gives Q r"
  by (cases r) auto

section \<open>Actions\<close>

definition safely :: "('s \<Rightarrow> bool) \<Rightarrow> ('a \<Rightarrow> bool) \<Rightarrow> ('s, 'a) act \<Rightarrow> bool" where
  "safely I Q m \<longleftrightarrow> triple I m (\<lambda>x s. I s \<and> Q x) (\<lambda>_. I) (\<lambda>_. False)"

abbreviation safe :: "('s \<Rightarrow> bool) \<Rightarrow> ('s, 'a) act \<Rightarrow> bool" where
  "safe I \<equiv> safely I (\<lambda>_. True)"

lemma safely_iff: "safely I Q m \<longleftrightarrow> (\<forall>s s' r. I s \<and> m s = (s', r) \<longrightarrow> I s' \<and> gives Q r)"
proof -
  have "ends (\<lambda>x s. I s \<and> Q x) (\<lambda>_. I) (\<lambda>_. False) (s', r) \<longleftrightarrow> I s' \<and> gives Q r" for s' r
    by (cases r) auto
  then show ?thesis unfolding safely_def triple_def by (metis prod.collapse)
qed

lemma safelyI: "(\<And>s s' r. I s \<Longrightarrow> m s = (s', r) \<Longrightarrow> I s' \<and> gives Q r) \<Longrightarrow> safely I Q m"
  unfolding safely_iff by blast

lemma safelyD:
  assumes "safely I Q m" and "I s" and "m s = (s', r)"
  shows "I s'" "gives Q r"
  using assms unfolding safely_iff by blast+

lemma safely_triple: "safely I Q m \<Longrightarrow> triple I m (\<lambda>x s. I s \<and> Q x) (\<lambda>_. I) D"
  unfolding safely_def by (erule triple_conseq) simp_all

lemma safely_mono: "safely I Q m \<Longrightarrow> (\<And>x. Q x \<Longrightarrow> Q' x) \<Longrightarrow> safely I Q' m"
  by (rule safelyI) (blast intro: gives_mono dest: safelyD)

lemma safely_bind: "safely I R m \<Longrightarrow> (\<And>x. R x \<Longrightarrow> safely I Q (f x)) \<Longrightarrow> safely I Q (act_bind m f)"
  unfolding safely_def by (rule triple_bind) (auto simp: triple_def)

lemma safely_handle:
  "safely I R m \<Longrightarrow> (\<And>e. safely I Q (h e)) \<Longrightarrow> (\<And>x. R x \<Longrightarrow> safely I Q (f x)) \<Longrightarrow> safely I Q (handle m h f)"
  unfolding safely_def by (rule triple_handle) (auto simp: triple_def)

lemma safely_return: "Q x \<Longrightarrow> safely I Q (act_return x)"
  by (simp add: safely_iff)

lemma safely_lift: "gives Q r \<Longrightarrow> safely I Q (act_lift r)"
  by (simp add: safely_iff)

lemma safely_pure: "(\<And>s. I s \<Longrightarrow> gives Q (r s)) \<Longrightarrow> safely I Q (\<lambda>s. (s, r s))"
  by (simp add: safely_iff)

lemma safely_get: "(\<And>s. I s \<Longrightarrow> Q (f s)) \<Longrightarrow> safely I Q (act_get f)"
  by (simp add: safely_iff)

lemma safely_modify: "(\<And>s. I s \<Longrightarrow> I (f s)) \<Longrightarrow> Q () \<Longrightarrow> safely I Q (act_modify f)"
  by (simp add: safely_iff)

lemma safely_iter: "(\<And>x. x \<in> set xs \<Longrightarrow> safely I Q (f x)) \<Longrightarrow> Q () \<Longrightarrow> safely I Q (act_iter f xs)"
  by (induction xs) (auto intro: safely_bind safely_return)

lemmas safely_intros = safely_bind safely_return safely_get safely_modify safely_lift safely_pure

section \<open>Hierarchies\<close>

text \<open>
  A hierarchy can be built when every number among the parts of the keys is written the way
  \<^verbatim>\<open>strconv.Itoa\<close> writes it, and so are the keys of the objects among the values.
\<close>

fun canonical_value :: "go_value \<Rightarrow> bool" where
  "canonical_value (VMap m) \<longleftrightarrow> list_all (\<lambda>(k, v). canonical_part k \<and> canonical_value v) m"
| "canonical_value (VList vs) \<longleftrightarrow> list_all canonical_value vs"
| "canonical_value _ \<longleftrightarrow> True"

lemma canonical_child_of:
  "list_all (\<lambda>(k, c). canonical_part k \<and> canonical_tree c) cs \<Longrightarrow> canonical_tree (child_of cs p)"
  by (auto simp: child_of_def empty_tree_def list_all_iff dest!: map_of_SomeD split: option.splits)

lemma canonical_Itoa: "canonical_part (Itoa n)"
proof (cases "int n < 2 ^ 63")
  case True
  then show ?thesis by (simp add: canonical_part_def Atoi_Itoa)
next
  case False
  have "digit_val (hd (Itoa n)) \<noteq> None"
    by (intro Itoa_digits [of _ n]) simp
  then have "hd (Itoa n) \<noteq> CHR ''-''" "hd (Itoa n) \<noteq> CHR ''+''"
    by (auto simp: digit_val_def less_eq_char_def)
  with False have "Atoi (Itoa n) = None" by (simp add: Atoi_def digits_val_Itoa Let_def)
  then show ?thesis by (simp add: canonical_part_def)
qed

lemma canonical_insert_put:
  "canonical_tree t \<Longrightarrow> list_all canonical_part ps \<Longrightarrow> canonical_value v \<Longrightarrow> canonical_tree (tree_insert ps v t)"
  "canonical_tree t \<Longrightarrow> canonical_value v \<Longrightarrow> canonical_tree (tree_put v t)"
proof (induction ps v t and v t rule: tree_insert_tree_put.induct)
  case (2 p ps v cs tv)
  have c: "canonical_tree (child_of cs p)"
    using "2.prems" by (intro canonical_child_of) simp
  then have "canonical_tree (if ps = [] then tree_put v (child_of cs p) else tree_insert ps v (child_of cs p))"
    using "2.IH" "2.prems" by auto
  with "2.prems" show ?case
    by (auto simp: Let_def list_all_iff dest!: set_gostore)
next
  case (3 obj t)
  have "canonical_tree (fold (\<lambda>(k, v). tree_insert [k] v) xs t)"
    if "set xs \<subseteq> set obj" "canonical_tree t" for xs t
    using that
  proof (induction xs arbitrary: t)
    case (Cons x xs)
    then show ?case using "3.IH" "3.prems"(2) by (cases x) (auto simp: list_all_iff)
  qed simp
  with "3.prems" show ?case by simp
next
  case (4 obj t)
  have "canonical_tree (fold (\<lambda>(k, v). tree_insert [Itoa k] v) xs t)"
    if "set xs \<subseteq> set (enumerate 0 obj)" "canonical_tree t" for xs t
    using that
  proof (induction xs arbitrary: t)
    case (Cons x xs)
    obtain k v where x: "x = (k, v)" by fastforce
    then have "canonical_value v"
      using Cons.prems(1) "4.prems"(2) by (auto simp: in_set_enumerate_eq list_all_length)
    then show ?case using "4.IH" Cons x canonical_Itoa by auto
  qed simp
  with "4.prems" show ?case by simp
qed auto

lemma canonical_insert_values:
  "canonical_tree t \<Longrightarrow> list_all (\<lambda>(ps, v). list_all canonical_part ps \<and> canonical_value v) kvs
   \<Longrightarrow> canonical_tree (insert_all kvs t)"
  unfolding insert_all_def
  by (induction kvs arbitrary: t) (auto simp: canonical_insert_put)

lemma build_returns:
  assumes "list_all (\<lambda>(ps, v). list_all canonical_part ps \<and> canonical_value v) kvs"
  shows "returns (build (insert_all kvs empty_tree))"
proof -
  let ?t = "insert_all kvs empty_tree"
  have "tree_ok ?t" by (simp add: tree_ok_insert_all)
  moreover have "canonical_tree ?t" by (rule canonical_insert_values [OF _ assms]) (simp add: empty_tree_def)
  ultimately have "returns (unflatten c)" if "(k, c) \<in> set (children ?t)" for k c
    using that by (cases ?t) (force simp: list_all_iff intro!: returns_is_Ok unflatten_Ok)
  then show ?thesis
    by (auto simp: build_def intro!: returns_list)
qed

end
