(* ===== verification/Sound_Stores.thy ===== *)
theory Sound_Stores
  imports Definedness Spec_Validation Loader_Refresh
begin

text \<open>
  What the loader needs of the stores, and what it then gets from them.  The requests that a
  verified specification leads to are answered by a value or an error, and the settings in the
  answers can be processed.
\<close>

section \<open>Settings that can be processed\<close>

definition separator_of :: "DataOptions option \<Rightarrow> string option" where
  "separator_of opts = (case opts of None \<Rightarrow> None | Some o' \<Rightarrow> do_Separator o')"

definition canonical_key :: "string option \<Rightarrow> string \<Rightarrow> bool" where
  "canonical_key sep key \<longleftrightarrow> (case sep of None \<Rightarrow> True | Some s \<Rightarrow> list_all canonical_part (Split key s))"

text \<open>
  A key-value that can be placed in the hierarchies the specification asks for: numbers in its
  key and in its JSON value are written in the canonical way.
\<close>

definition well_placed :: "codec \<Rightarrow> ProviderSpec \<Rightarrow> Setting \<Rightarrow> bool" where
  "well_placed cd spec s \<longleftrightarrow>
     (\<forall>key. set_Key s = Some key \<longrightarrow>
        canonical_key (separator_of (ct_ConfigMapData (spec_Target spec))) (trimPrefix key (kvo_TrimKeyPrefixes (spec_Configuration spec))) \<and>
        (\<forall>sr. spec_Secret spec = Some sr \<longrightarrow>
           canonical_key (separator_of (sg_SecretData (sr_Target sr))) (trimPrefix key (kvo_TrimKeyPrefixes (spec_Configuration spec))))) \<and>
     (\<forall>v out. isJsonContentType (set_ContentType s) \<and> set_Value s = Some v \<and> json_Unmarshal cd v = Ok out \<longrightarrow> canonical_value out)"

text \<open>A feature flag as the service stores it: with a key, a value and an ETag.\<close>

definition whole_flag :: "Setting \<Rightarrow> bool" where
  "whole_flag s \<longleftrightarrow> set_Key s \<noteq> None \<and> set_Value s \<noteq> None \<and> set_ETag s \<noteq> None"

definition good_pages :: "(Setting \<Rightarrow> bool) \<Rightarrow> ListPage res list \<Rightarrow> bool" where
  "good_pages Q pages \<longleftrightarrow>
     (\<forall>r \<in> set pages. returns r \<and> (\<forall>page. r = Ok page \<longrightarrow> (\<forall>s \<in> set (slice (pg_Settings page)). Q s)))"

text \<open>The pages of a selector: of its query or of its snapshot.\<close>

definition listed :: "az_client \<Rightarrow> Selector \<Rightarrow> ListPage res list" where
  "listed c f =
     (if sel_KeyFilter f \<noteq> None then ListSettings c (selector_query f) []
      else ListSnapshotSettings c (case sel_SnapshotName f of None \<Rightarrow> [] | Some n \<Rightarrow> n))"

definition sound_client :: "codec \<Rightarrow> ProviderSpec \<Rightarrow> az_client \<Rightarrow> bool" where
  "sound_client cd spec c \<longleftrightarrow>
     (\<forall>q conds. good_pages (\<lambda>_. True) (ListSettings c q conds)) \<and>
     (\<forall>n. returns (GetSnapshot c n) \<and> good_pages (well_placed cd spec) (ListSnapshotSettings c n)) \<and>
     (\<forall>f \<in> set (GetKeyValueFilters spec). good_pages (well_placed cd spec) (listed c f)) \<and>
     (\<forall>f \<in> set (GetFeatureFlagFilters spec). good_pages whole_flag (listed c f))"

section \<open>Selectors of a verified specification\<close>

definition named :: "Selector \<Rightarrow> bool" where
  "named f \<longleftrightarrow> sel_KeyFilter f \<noteq> None \<or> sel_SnapshotName f \<noteq> None"

lemma verified_named: "verifySelectorObject f = Ok () \<Longrightarrow> named f"
  by (auto simp: verifySelectorObject_def named_def split: if_splits)

lemma normalize_named: "\<forall>f \<in> set fs. named f \<Longrightarrow> \<forall>f \<in> set (normalizeFilter fs). named f"
  by (auto simp: normalizeFilter_def named_def)

lemma deduplicate_named: "\<forall>f \<in> set fs. named f \<Longrightarrow> \<forall>f \<in> set (deduplicateFilters fs). named f"
proof (cases "fs = []")
  case True
  then show ?thesis by (simp add: deduplicateFilters_def wildcard_selector_def named_def)
next
  case False
  then show "\<forall>f \<in> set fs. named f \<Longrightarrow> ?thesis"
    using selectors.set_keep_last [of fs] by (auto simp: deduplicateFilters_keep_last)
qed

lemma filters_named:
  assumes "verifyObject env spec = Ok ()"
  shows "\<forall>f \<in> set (GetKeyValueFilters spec). named f" and "\<forall>f \<in> set (GetFeatureFlagFilters spec). named f"
proof -
  have "\<forall>s \<in> set (kvo_Selectors (spec_Configuration spec)). named s"
    and ff: "\<forall>ff. spec_FeatureFlag spec = Some ff \<longrightarrow> verify_feature_flag spec ff = Ok ()"
    using assms verified_named by (auto simp: verifyObject_def verify_Ok)
  then show "\<forall>f \<in> set (GetKeyValueFilters spec). named f"
    unfolding GetKeyValueFilters_def by (intro deduplicate_named normalize_named)
  have "\<forall>f \<in> set (map prefix_key_filter (deduplicateFilters (normalizeFilter (ff_Selectors ff)))). named f"
    if "spec_FeatureFlag spec = Some ff" for ff
  proof -
    have "\<forall>s \<in> set (ff_Selectors ff). named s"
      using ff [rule_format, OF that] verified_named by (auto simp: verify_feature_flag_def verify_Ok split: if_splits)
    then have "\<forall>f \<in> set (deduplicateFilters (normalizeFilter (ff_Selectors ff))). named f"
      by (intro deduplicate_named normalize_named)
    then show ?thesis by (auto simp: prefix_key_filter_def named_def split: option.split)
  qed
  then show "\<forall>f \<in> set (GetFeatureFlagFilters spec). named f"
    by (cases "spec_FeatureFlag spec") (auto simp: GetFeatureFlagFilters_def)
qed

section \<open>Answers of one client\<close>

lemma read_pages_good: "good_pages Q ps \<Longrightarrow> gives (\<lambda>(ss, etags). \<forall>s \<in> set ss. Q s) (read_pages ps)"
proof (induction ps)
  case (Cons p ps)
  then have ps: "gives (\<lambda>(ss, etags). \<forall>s \<in> set ss. Q s) (read_pages ps)"
    and p: "gives (\<lambda>page. \<forall>s \<in> set (slice (pg_Settings page)). Q s) p"
    by (auto simp: good_pages_def gives_iff)
  show ?case
    by (simp, rule gives_bind [OF p gives_bind [OF ps]]) (auto split: option.split)
qed simp

lemma snapshot_good:
  assumes "returns (GetSnapshot c n)" and "good_pages Q (ListSnapshotSettings c n)"
  shows "gives (\<lambda>ss. \<forall>s \<in> set ss. Q s) (loadSnapshotSettings c n)"
proof (cases "GetSnapshot c n")
  case (Ok ty)
  then show ?thesis
    using read_pages_good [OF assms(2)] by (auto simp: loadSnapshotSettings_def case_prod_unfold)
next
  case (Err e)
  then show ?thesis by (auto simp: loadSnapshotSettings_def split: option.split)
next
  case (Panic q)
  then show ?thesis using assms(1) by simp
qed

lemma load_selectors_good:
  assumes "\<forall>n. returns (GetSnapshot c n)" and "\<forall>f \<in> set fs. named f \<and> good_pages Q (listed c f)" and "\<forall>s \<in> set settings. Q s"
  shows "gives (\<lambda>(ss, etags). \<forall>s \<in> set ss. Q s) (load_selectors cd c fs (settings, etags))"
  using assms(2,3)
proof (induction fs arbitrary: settings etags)
  case (Cons f fs)
  show ?case
  proof (cases "sel_KeyFilter f")
    case (Some k)
    then have "good_pages Q (ListSettings c (selector_query f) [])" using Cons.prems(1) by (simp add: listed_def)
    then show ?thesis
      using Some Cons.prems by (auto intro!: Cons.IH gives_bind [OF read_pages_good])
  next
    case None
    then obtain n where n: "sel_SnapshotName f = Some n" using Cons.prems(1) by (auto simp: named_def)
    then have "good_pages Q (ListSnapshotSettings c n)" using Cons.prems(1) None by (simp add: listed_def)
    then show ?thesis
      using None n Cons.prems by (auto intro!: Cons.IH gives_bind [OF snapshot_good [OF assms(1) [rule_format]]])
  qed
qed simp

definition answered_with :: "(Setting \<Rightarrow> bool) \<Rightarrow> SettingsResponse option \<Rightarrow> bool" where
  "answered_with Q response \<longleftrightarrow> (\<exists>resp. response = Some resp \<and> (\<forall>s \<in> set (slice (rsp_Settings resp)). Q s))"

lemma selector_answer:
  assumes "\<forall>n. returns (GetSnapshot c n)" and "\<forall>f \<in> set fs. named f \<and> good_pages Q (listed c f)"
  shows "gives (answered_with Q) (GetSettings cd (SelectorSettingsClient fs) c)"
  using load_selectors_good [OF assms, of "[]" cd "[]"]
  by (auto simp: GetSettings_def selector_GetSettings_def answered_with_def case_prod_unfold)

lemma sentinel_client_answer:
  "gives (\<lambda>r. \<forall>resp. r = Some resp \<longrightarrow> rsp_Settings resp \<noteq> Some []) (GetSettings cd (SentinelSettingsClient s e i) c)"
  by (auto simp: GetSettings_def sentinel_GetSettings_def split: option.splits prod.splits)

lemma check_pages_returns: "good_pages Q ps \<Longrightarrow> returns (check_pages ps n)"
proof (induction ps arbitrary: n)
  case (Cons p ps)
  then have "returns p" "good_pages Q ps" by (simp_all add: good_pages_def)
  then show ?case using Cons.IH by auto
qed simp

lemma etag_answer:
  assumes "\<forall>q conds. good_pages (\<lambda>_. True) (ListSettings c q conds)"
  shows "gives (answered_with (\<lambda>_. True)) (GetSettings cd (EtagSettingsClient etags) c)"
proof -
  have "returns (etags_changed cd c etags)"
    using assms
  proof (induction cd c etags rule: etags_changed.induct)
    case (2 cd c f pages m)
    have "returns (check_pages (ListSettings c q pages) 0)" for q
      by (rule check_pages_returns [where Q = "\<lambda>_. True"]) (use "2.prems" in blast)
    then show ?case using 2 by (auto simp: Let_def split: option.split)
  qed simp
  then show ?thesis
    by (simp add: GetSettings_def etag_GetSettings_def answered_with_def)
qed

section \<open>Requests\<close>

definition fine_manager :: "(az_client \<Rightarrow> bool) \<Rightarrow> ConfigurationClientManager \<Rightarrow> bool" where
  "fine_manager P m \<longleftrightarrow> holds P m \<and> manager_ok m"

definition fine_loader :: "(az_client \<Rightarrow> bool) \<Rightarrow> ProviderSpec \<Rightarrow> loader \<Rightarrow> bool" where
  "fine_loader P spec l \<longleftrightarrow>
     fine_manager P (ldr_Manager l) \<and> ldr_SettingsClient l = None \<and> pv_Spec (ldr_Provider l) = spec"

lemma fine_discover_returns: "manager_ok m \<Longrightarrow> returns (discover env ds t m)"
  by (cases "host_of (cm_endpoint m)") (simp_all add: discover_def manager_ok_def getValidDomain_def)

lemma safely_get_clients:
  assumes "builds P (ce_env ce)"
  shows "safely (fine_loader P spec) (\<lambda>_. True) (get_clients ce)"
proof (rule safelyI)
  fix l l' r assume l: "fine_loader P spec l" "get_clients ce l = (l', r)"
  then have "returns (GetClients (ce_env ce) (ce_discovery ce) (ce_now ce) (ldr_Manager l))"
    by (auto simp: GetClients_def Let_def fine_loader_def fine_manager_def fine_discover_returns)
  then have "returns r" using l(2) by (auto simp: get_clients_def split: res.splits)
  moreover have "in_store P l l'" using get_clients_in_store [OF assms, of l] l(2) by simp
  moreover have "manager_ok (ldr_Manager l')"
    using get_clients_manager_ok [of l ce] l by (simp add: fine_loader_def fine_manager_def)
  ultimately show "fine_loader P spec l' \<and> gives (\<lambda>_. True) r"
    using l(1) by (auto simp: fine_loader_def fine_manager_def in_store_def)
qed

lemma failover_loop_good:
  "fine_manager P (ldr_Manager l) \<Longrightarrow> \<forall>r \<in> set rs. valid_ref (ldr_Manager l) r \<Longrightarrow>
   (\<And>c. P c \<Longrightarrow> gives Q (request c)) \<Longrightarrow>
   failover_loop ce request i rs errors l = (l', Some r, errors') \<Longrightarrow> gives Q r"
proof (induction ce request i rs errors l rule: failover_loop.induct)
  case (2 ce request i w rs errors l)
  let ?t = "trace_attempt ce (errors \<noteq> []) l"
  have "P (cw_Client (wrapper_at (ldr_Manager ?t) w))"
    using holds_wrapper_at [of P "ldr_Manager l" w] "2.prems"(1,2) by (simp add: fine_manager_def)
  then have good: "gives Q (request (cw_Client (wrapper_at (ldr_Manager ?t) w)))" by (rule "2.prems"(3))
  show ?case
  proof (cases "request (cw_Client (wrapper_at (ldr_Manager ?t) w))")
    case (Err e)
    have h: "fine_manager P (ldr_Manager (mark_attempt ce i False w ?t))"
      using "2.prems"(1) by (simp add: fine_manager_def holds_update_status manager_ok_update_status)
    show ?thesis
    proof (cases "IsFailoverable e")
      case True
      then show ?thesis
        using "2.IH" [OF refl Err refl True h] "2.prems"(2-4) Err by (simp add: Let_def)
    next
      case False
      then have "r = Err e" using Err "2.prems"(4) by (simp add: Let_def)
      then show ?thesis by simp
    qed
  next
    case (Ok x)
    then have "r = Ok x" using "2.prems"(4) by (simp add: Let_def)
    then show ?thesis using good Ok by simp
  next
    case (Panic q)
    then show ?thesis using good by simp
  qed
qed simp

lemma refresh_clients_returns: "manager_ok (ldr_Manager l) \<Longrightarrow> returns (snd (refresh_clients ce l))"
  using fine_discover_returns [of "ldr_Manager l" "ce_env ce" "ce_refresh_discovery ce" "ce_refresh_now ce"]
  by (auto simp: refresh_clients_def RefreshClients_def split: res.split)


lemma safely_refresh_clients:
  assumes "builds P (ce_env ce)"
  shows "safely (fine_loader P spec) (\<lambda>_. True) (refresh_clients ce)"
proof (rule safelyI)
  fix l l' r assume l: "fine_loader P spec l" "refresh_clients ce l = (l', r)"
  then have "returns r" using refresh_clients_returns [of l ce] by (simp add: fine_loader_def fine_manager_def)
  moreover have "in_store P l l'" using refresh_clients_in_store [OF assms, of l] l(2) by simp
  moreover have "manager_ok (ldr_Manager l')"
    using refresh_clients_manager_ok [of l ce] l by (simp add: fine_loader_def fine_manager_def)
  ultimately show "fine_loader P spec l' \<and> gives (\<lambda>_. True) r"
    using l(1) by (auto simp: fine_loader_def fine_manager_def in_store_def)
qed

text \<open>The policy passes on the answer of a client, or reports that every client failed.\<close>

lemma safely_policy:
  assumes "builds P (ce_env ce)" and "\<And>c. P c \<Longrightarrow> gives Q (request c)"
  shows "safely (fine_loader P spec) Q (ExecuteFailoverPolicy ce request)"
proof (rule safelyI)
  fix l l' r assume l: "fine_loader P spec l" "ExecuteFailoverPolicy ce request l = (l', r)"
  have "in_store P l l'" using ExecuteFailoverPolicy_in_store [OF assms(1), of l request] l(2) by simp
  moreover have "manager_ok (ldr_Manager l')"
    using ExecuteFailoverPolicy_manager_ok [of l ce request] l by (simp add: fine_loader_def fine_manager_def)
  ultimately have "fine_loader P spec l'" using l(1) by (auto simp: fine_loader_def fine_manager_def in_store_def)
  moreover have "gives Q r"
  proof (cases "get_clients ce l")
    case (Pair l1 r1)
    note one = safelyD [OF safely_get_clients [OF assms(1)] l(1) Pair]
    have failed: "safely (fine_loader P spec) Q (act_bind (refresh_clients ce) (\<lambda>_. act_lift (Err e)))" for e
      by (rule safely_bind [OF safely_refresh_clients [OF assms(1)] safely_lift]) simp
    show ?thesis
    proof (cases r1)
      case (Ok clients)
      let ?rs = "client_order (pv_Spec (ldr_Provider l1)) (ldr_Manager l1) clients"
      have v: "\<forall>r \<in> set ?rs. valid_ref (ldr_Manager l1) r"
        using Pair Ok GetClients_refs(2) mset_eq_setD [OF mset_client_order]
        by (fastforce simp: get_clients_def split: res.splits)
      obtain l2 r2 errors where f: "failover_loop ce request 0 ?rs [] l1 = (l2, r2, errors)" by (metis prod_cases3)
      have fine: "fine_loader P spec l2"
        using failover_loop_in_store [of P l1 ce request 0 ?rs "[]"] failover_loop_manager_ok [of l1 ce request 0 ?rs "[]"] f one(1)
        by (simp add: fine_loader_def fine_manager_def in_store_def)
      have r: "(if clients = [] then act_bind (refresh_clients ce) (\<lambda>_. act_lift
            (Err (Errorf ''no client is available to connect to the target App Configuration store'' [] []))) l1
          else case r2 of Some r \<Rightarrow> (l2, r)
            | None \<Rightarrow> act_bind (refresh_clients ce) (\<lambda>_. act_lift
                (Err (Errorf ''all app configuration clients failed to get settings: %v'' [] errors))) l2) = (l', r)"
        using l(2) Pair Ok f
        by (cases "clients = []"; cases r2) (simp_all add: ExecuteFailoverPolicy_def act_bind_Ok try_clients_def Let_def)
      show ?thesis
      proof (cases "clients = [] \<or> r2 = None")
        case True
        then show ?thesis
          using r safelyD(2) [OF failed one(1)] safelyD(2) [OF failed fine] by (auto split: if_splits)
      next
        case False
        then have "failover_loop ce request 0 ?rs [] l1 = (l2, Some r, errors)" using f r by auto
        moreover have "fine_manager P (ldr_Manager l1)" using one(1) by (simp add: fine_loader_def)
        ultimately show ?thesis by (intro failover_loop_good [where P = P, OF _ v assms(2)])
      qed
    qed (use l(2) Pair one(2) in \<open>auto simp: ExecuteFailoverPolicy_def act_bind_def\<close>)
  qed
  ultimately show "fine_loader P spec l' \<and> gives Q r" by simp
qed

lemma safely_execute:
  assumes "builds_all P lc" and "\<And>c. P c \<Longrightarrow> gives Q (GetSettings (lc_codec lc) sc c)"
  shows "safely (fine_loader P spec) Q (execute lc sc)"
proof (rule safelyI)
  fix l l' r assume l: "fine_loader P spec l" "execute lc sc l = (l', r)"
  have b: "builds P (ce_env (lc_calls lc (ldr_calls l)))" using assms(1) by (simp add: builds_all_def)
  have "fine_loader P spec (l\<lparr> ldr_calls := Suc (ldr_calls l) \<rparr>)" using l(1) by (simp add: fine_loader_def)
  from safelyD [OF safely_policy [OF b assms(2)] this] l show "fine_loader P spec l' \<and> gives Q r"
    by (simp add: execute_def fine_loader_def)
qed

end
