(* ===== verification/Loader_Returns.thy ===== *)
theory Loader_Returns
  imports Sound_Stores
begin

text \<open>
  The operations of the loader do not panic.  The libraries return, the specification is
  verified, and the clients of the stores are sound; then everything the loader does ends with
  a value or an error, and its state stays as it was found: with a manager that can be used.
\<close>

section \<open>What the libraries promise\<close>

definition sound_codec :: "codec \<Rightarrow> bool" where
  "sound_codec cd \<longleftrightarrow>
     (\<forall>s. returns (json_Unmarshal cd s) \<and> returns (yaml_Unmarshal cd s)) \<and>
     (\<forall>v. returns (json_Marshal cd v) \<and> returns (yaml_Marshal cd v))"

definition sound_crypto :: "'k crypto \<Rightarrow> bool" where
  "sound_crypto cr \<longleftrightarrow>
     (\<forall>s. returns (base64_Decode cr s)) \<and> (\<forall>s t. returns (pkcs12_ToPEM cr s t)) \<and> (\<forall>k. returns (x509_MarshalPKCS8 cr k))"

text \<open>A vault answers with the value of the secret or with an error.\<close>

definition whole_secret :: "SecretResponse \<Rightarrow> bool" where
  "whole_secret r \<longleftrightarrow> sec_Value r \<noteq> None"

definition sound_vault :: "vault_env \<Rightarrow> bool" where
  "sound_vault ve \<longleftrightarrow> (\<forall>c n v. gives whole_secret (vault_GetSecret ve c n v))"

definition sound_context :: "(az_client \<Rightarrow> bool) \<Rightarrow> ProviderSpec \<Rightarrow> 'k loader_ctx \<Rightarrow> bool" where
  "sound_context P spec lc \<longleftrightarrow>
     builds_all P lc \<and> (\<forall>c. P c \<longrightarrow> sound_client (lc_codec lc) spec c) \<and>
     (\<forall>n. library_calm (ce_env (lc_calls lc n)) \<and> verifyObject (ce_env (lc_calls lc n)) spec = Ok ()) \<and>
     sound_codec (lc_codec lc) \<and> sound_crypto (lc_crypto lc) \<and> sound_vault (lc_vault lc)"

section \<open>Pure parts\<close>

lemma returns_wrap [simp]: "returns (wrap_error f a r) = returns r"
  by (cases r) (simp_all add: wrap_error_def)

lemma gives_wrap [simp]: "gives Q (wrap_error f a r) = gives Q r"
  by (cases r) (simp_all add: wrap_error_def)

lemma gives_deref [simp]: "gives Q (deref x) \<longleftrightarrow> (\<exists>y. x = Some y \<and> Q y)"
  by (cases x) (simp_all add: deref_def)

lemma returns_deref [simp]: "returns (deref x) \<longleftrightarrow> x \<noteq> None"
  by (cases x) (simp_all add: deref_def)

lemma returns_as_object [simp]: "returns (as_object v)"
  by (cases v) simp_all

lemma returns_struct_members: "returns (struct_members field m acc)"
  by (induction field m acc rule: struct_members.induct) (auto split: go_value.split)

lemma returns_struct_string [simp]: "returns (struct_string field v)"
  by (cases v) (simp_all add: returns_struct_members)

lemma returns_parse: "sound_codec cd \<Longrightarrow> returns (parse cd s)"
  unfolding parse_def
  by (intro returns_bind) (auto simp: sound_codec_def Let_def split: option.split)

lemma returns_parseSnapshotReference:
  assumes "sound_codec cd"
  shows "returns (parseSnapshotReference cd ref)"
proof -
  have "returns (res_bind (json_Unmarshal cd ref) (struct_string ''snapshot_name''))"
    using assms by (auto simp: sound_codec_def)
  then show ?thesis
    by (cases "res_bind (json_Unmarshal cd ref) (struct_string ''snapshot_name'')") (auto simp: parseSnapshotReference_def)
qed

lemma returns_marshal:
  assumes "sound_codec cd"
  shows "returns (marshalJsonYaml cd m opts)"
proof -
  have "returns (case r of Err e \<Rightarrow> Err e' | _ \<Rightarrow> r)" if "returns r" for r :: "string res" and e'
    using that by (cases r) auto
  moreover have "returns (yaml_Marshal cd (VMap m))" "returns (json_Marshal cd (VMap m))"
    using assms by (auto simp: sound_codec_def)
  ultimately show ?thesis
    by (cases "yaml_Marshal cd (VMap m)"; cases "json_Marshal cd (VMap m)") (auto simp: marshalJsonYaml_def split: DataType.split)
qed

text \<open>Key-values that can be placed in a hierarchy can be rendered.\<close>

definition placed :: "string option \<Rightarrow> (string \<times> go_value) list \<Rightarrow> bool" where
  "placed sep kvs \<longleftrightarrow> (\<forall>(k, v) \<in> set kvs. canonical_key sep k \<and> canonical_value v)"

lemma returns_parsed:
  assumes "placed sep kvs"
  shows "returns (parsed_settings kvs sep)"
proof (cases sep)
  case (Some s)
  have "list_all (\<lambda>(ps, v). list_all canonical_part ps \<and> canonical_value v) (map (\<lambda>(k, v). (Split k s, v)) kvs)"
    using assms Some by (auto simp: placed_def canonical_key_def list_all_iff)
  from build_returns [OF this] show ?thesis by (simp add: parsed_settings_def Some)
qed (simp add: parsed_settings_def)

lemma returns_createTypedSettings:
  assumes "sound_codec cd"
    and "placed (separator_of opts) (map (\<lambda>(k, v). (k, setting_value cd (is_json_key raw k) v)) (rw_KeyValueSettings raw))"
  shows "returns (createTypedSettings cd raw opts)"
  using returns_parsed [OF assms(2)]
  by (auto simp: createTypedSettings_def separator_of_def Let_def returns_marshal [OF assms(1)] split: option.split)

lemma returns_createTypedSecrets:
  assumes "sound_codec cd" and "\<forall>(k, v) \<in> set secrets. canonical_key (separator_of opts) k"
  shows "returns (createTypedSecrets cd secrets opts)"
proof -
  have "placed (separator_of opts) (map (\<lambda>(k, v). (k, VStr v)) secrets)"
    using assms(2) by (auto simp: placed_def)
  from returns_parsed [OF this] show ?thesis
    by (auto simp: createTypedSecrets_def separator_of_def returns_marshal [OF assms(1)] split: option.split)
qed

lemma returns_unmarshal:
  assumes "sound_codec cd" and "opts \<noteq> None"
  shows "returns (unmarshalConfigMap cd existing opts)"
proof -
  have "returns (yaml_Unmarshal cd s)" "returns (json_Unmarshal cd s)" for s
    using assms(1) by (auto simp: sound_codec_def)
  then show ?thesis
    using assms(2)
    by (auto simp: unmarshalConfigMap_def Let_def split: option.split DataType.split go_value.split)
qed

section \<open>Key Vault references\<close>

lemma returns_parsePrivateKey [simp]: "returns (parsePrivateKey cr block)"
  by (simp add: parsePrivateKey_def split: res.split)

lemma returns_parsePemBlock: "sound_crypto cr \<Longrightarrow> returns (parsePemBlock cr bs acc)"
proof (induction cr bs acc rule: parsePemBlock.induct)
  case (2 cr b bs k c)
  then show ?case by (auto simp: Let_def sound_crypto_def)
qed simp

lemma returns_decode:
  assumes "sound_crypto cr"
  shows "returns (decodePkcs12 cr v)" "returns (decodePem cr v)"
  using assms returns_parsePemBlock [OF assms]
  by (auto simp: decodePkcs12_def decodePem_def Let_def sound_crypto_def)

definition sound_resolver :: "resolver \<Rightarrow> bool" where
  "sound_resolver resolve \<longleftrightarrow> (\<forall>md. gives whole_secret (resolve md))"

lemma opaque_good:
  assumes "sound_resolver resolve"
  shows "gives (\<lambda>m. set (gokeys m) \<subseteq> set (gokeys mds)) (resolve_opaque resolve mds)"
proof (induction mds)
  case (Cons entry mds)
  obtain key md where entry: "entry = (key, md)" by fastforce
  have r: "gives (\<lambda>_. True) (wrap_error f a (resolve md))" for f a
    using assms by (simp add: sound_resolver_def gives_iff)
  have "gives (\<lambda>m. set (gokeys m) \<subseteq> set (gokeys (entry # mds)))
      (res_bind (resolve_opaque resolve mds) (\<lambda>m. Ok (case sec_Value x of None \<Rightarrow> m | Some v \<Rightarrow> (key, v) # m)))" for x
    by (rule gives_bind [OF Cons.IH]) (auto simp: entry gokeys_def split: option.split)
  then show ?case
    unfolding entry resolve_opaque.simps by (rule gives_bind [OF r])
qed simp

lemma tls_returns:
  assumes "sound_crypto cr" and "sound_resolver resolve"
  shows "returns (resolve_tls cr resolve name mds)"
proof -
  have "gives whole_secret (resolve md)" for md using assms(2) by (simp add: sound_resolver_def)
  then show ?thesis
    unfolding resolve_tls_def gives_True [symmetric]
    by (intro gives_bind [where R = whole_secret])
      (auto simp: whole_secret_def returns_decode [OF assms(1)] split: option.split)
qed

text \<open>The references of a specification: with a place for their keys when there is a secret section.\<close>

definition refs_placed :: "ProviderSpec \<Rightarrow> k8s_secrets \<Rightarrow> bool" where
  "refs_placed spec secrets \<longleftrightarrow>
     (spec_Secret spec = None \<longrightarrow> secrets = []) \<and>
     (\<forall>sr name t key md. spec_Secret spec = Some sr \<and> (name, t) \<in> set secrets \<and> (key, md) \<in> set (tk_SecretsKeyVaultMetadata t)
        \<longrightarrow> canonical_key (separator_of (sg_SecretData (sr_Target sr))) key)"

definition all_filled :: "secret_settings \<Rightarrow> bool" where
  "all_filled secrets \<longleftrightarrow> (\<forall>(name, content) \<in> set secrets. sc_Data content \<noteq> None)"

lemma resolve_secret_good:
  assumes "sound_codec cd" and "sound_crypto cr" and "sound_resolver resolve" and "spec_Secret spec = Some sr"
    and "\<forall>(key, md) \<in> set (tk_SecretsKeyVaultMetadata ref). canonical_key (separator_of (sg_SecretData (sr_Target sr))) key"
  shows "gives (\<lambda>c. sc_Data c \<noteq> None) (resolve_secret cd cr spec resolve name ref)"
proof -
  have typed: "returns (createTypedSecrets cd m (sg_SecretData (sr_Target sr)))"
    if "set (gokeys m) \<subseteq> set (gokeys (tk_SecretsKeyVaultMetadata ref))" for m
    by (rule returns_createTypedSecrets [OF assms(1)]) (use assms(5) that in \<open>fastforce simp: gokeys_def\<close>)
  have "returns (res_bind (resolve_opaque resolve (tk_SecretsKeyVaultMetadata ref)) (\<lambda>secretsMap.
               res_bind (deref (spec_Secret spec)) (\<lambda>sr.
                 res_bind (createTypedSecrets cd secretsMap (sg_SecretData (sr_Target sr))) (\<lambda>typed.
                   Ok (gostore_all typed [])))))"
    unfolding gives_True [symmetric] assms(4)
    by (rule gives_bind [OF opaque_good [OF assms(3)]])
      (auto simp: deref_def typed)
  then show ?thesis
    unfolding resolve_secret_def
    by (intro gives_bind [where R = "\<lambda>_. True"]) (auto simp: tls_returns [OF assms(2,3)])
qed

lemma resolve_all_good:
  assumes "sound_codec cd" and "sound_crypto cr" and "sound_resolver resolve" and "refs_placed spec refs"
  shows "gives all_filled (resolve_all cd cr spec resolve refs)"
proof (cases "spec_Secret spec")
  case None
  then show ?thesis using assms(4) by (simp add: refs_placed_def all_filled_def)
next
  case (Some sr)
  have "\<forall>(name, t) \<in> set refs. \<forall>(key, md) \<in> set (tk_SecretsKeyVaultMetadata t).
      canonical_key (separator_of (sg_SecretData (sr_Target sr))) key"
    using assms(4) Some by (auto simp: refs_placed_def)
  then show ?thesis
  proof (induction refs)
    case (Cons r refs)
    obtain name ref where r: "r = (name, ref)" by fastforce
    have one: "gives (\<lambda>c. sc_Data c \<noteq> None) (resolve_secret cd cr spec resolve name ref)"
      by (rule resolve_secret_good [OF assms(1-3) Some]) (use Cons.prems r in auto)
    have rest: "gives all_filled (resolve_all cd cr spec resolve refs)"
      by (rule Cons.IH) (use Cons.prems in auto)
    show ?case
      unfolding r by (simp, rule gives_bind [OF one gives_bind [OF rest]]) (auto simp: all_filled_def)
  qed (simp add: all_filled_def)
qed

lemma returns_resolve_references:
  assumes "sound_codec cd" and "sound_crypto cr" and "gives sound_resolver create"
    and "\<forall>r. resolver = Some r \<longrightarrow> sound_resolver r" and "refs_placed spec refs"
  shows "gives (\<lambda>t. all_filled (tg_SecretSettings t)) (ResolveSecretReferences cd cr spec create refs resolver)"
proof -
  have "gives sound_resolver (case resolver of None \<Rightarrow> create | Some r \<Rightarrow> Ok r)"
    using assms(3,4) by (simp split: option.split)
  then show ?thesis
    unfolding ResolveSecretReferences_def
    by (rule gives_bind) (auto intro!: gives_bind [OF resolve_all_good [OF assms(1,2) _ assms(5)]] simp: empty_target_def)
qed

lemma new_resolver_good:
  assumes "library_calm env" and "verifyObject env (pv_Spec provider) = Ok ()" and "sound_vault (lc_vault lc)"
  shows "gives sound_resolver (new_resolver lc env provider)"
proof -
  have "returns (createSecretReferenceResolver env (lc_vault lc) provider)"
    using resolver_no_panic [OF assms(2,1)] by (simp add: returns_def)
  moreover have "sound_resolver (\<lambda>md. snd (Resolve (lc_vault lc) kvc md))" for kvc
    using assms(3)
    by (auto simp: sound_resolver_def Resolve_def sound_vault_def new_secret_client_def split: option.split res.split)
  ultimately show ?thesis
    by (cases "createSecretReferenceResolver env (lc_vault lc) provider") (auto simp: new_resolver_def)
qed

section \<open>Processing settings\<close>

text \<open>The raw settings so far: they can be rendered, and no secret data is there yet.\<close>

definition entry_placed :: "codec \<Rightarrow> ProviderSpec \<Rightarrow> bool \<Rightarrow> string \<Rightarrow> string option \<Rightarrow> bool" where
  "entry_placed cd spec isJson key v \<longleftrightarrow>
     canonical_key (separator_of (ct_ConfigMapData (spec_Target spec))) key \<and>
     (\<forall>s out. isJson \<and> v = Some s \<and> json_Unmarshal cd s = Ok out \<longrightarrow> canonical_value out)"

definition raw_placed :: "codec \<Rightarrow> ProviderSpec \<Rightarrow> RawSettings \<Rightarrow> bool" where
  "raw_placed cd spec raw \<longleftrightarrow>
     gomap_ok (rw_KeyValueSettings raw) \<and>
     (\<forall>key v. golookup (rw_KeyValueSettings raw) key = Some v \<longrightarrow> entry_placed cd spec (is_json_key raw key) key v) \<and>
     refs_placed spec (rw_K8sSecrets raw) \<and> rw_SecretSettings raw = []"

definition fine_process :: "codec \<Rightarrow> (az_client \<Rightarrow> bool) \<Rightarrow> ProviderSpec \<Rightarrow> process_state \<Rightarrow> bool" where
  "fine_process cd P spec st \<longleftrightarrow>
     fine_loader P spec (ps_loader st) \<and> (\<forall>c. ps_snapshotClient st = Some c \<longrightarrow> P c) \<and>
     (\<forall>r. ps_resolver st = Some r \<longrightarrow> sound_resolver r) \<and> raw_placed cd spec (ps_raw st)"

lemma raw_placed_store:
  "raw_placed cd spec raw \<Longrightarrow> entry_placed cd spec isJson key v \<Longrightarrow> raw_placed cd spec (store_setting key v isJson raw)"
  by (auto simp: raw_placed_def store_setting_def is_json_key_def)

lemma refs_placed_store:
  assumes "refs_placed spec (rw_K8sSecrets raw)" and "spec_Secret spec = Some sr"
    and "canonical_key (separator_of (sg_SecretData (sr_Target sr))) key"
  shows "refs_placed spec (rw_K8sSecrets (store_reference sn ty key md raw))"
  using assms
  by (auto simp: refs_placed_def store_reference_def Let_def split: option.splits dest!: set_gostore map_of_SomeD) blast

lemma raw_placed_reference:
  assumes "raw_placed cd spec raw" and "spec_Secret spec = Some sr"
    and "canonical_key (separator_of (sg_SecretData (sr_Target sr))) key"
  shows "raw_placed cd spec (store_reference sn ty key md raw)"
proof -
  have "rw_IsJsonContentTypeMap (store_reference sn ty key md raw) = rw_IsJsonContentTypeMap raw"
    by (simp add: store_reference_def Let_def)
  moreover have "rw_SecretSettings (store_reference sn ty key md raw) = rw_SecretSettings raw"
    by (simp add: store_reference_def Let_def)
  ultimately show ?thesis
    using assms refs_placed_store [of spec raw sr key] by (simp add: raw_placed_def is_json_key_def)
qed

lemma initial_raw_placed: "raw_placed cd spec (initial_raw spec etags)"
  by (auto simp: raw_placed_def initial_raw_def empty_raw_def refs_placed_def split: option.split)

lemma safely_process_reference:
  assumes "sound_context P spec lc" and "well_placed (lc_codec lc) spec setting" and "set_Key setting = Some k"
    and "key = trimPrefix k (kvo_TrimKeyPrefixes (spec_Configuration spec))"
  shows "safe (fine_process (lc_codec lc) P spec) (process_reference lc key setting)"
proof (rule safelyI)
  let ?I = "fine_process (lc_codec lc) P spec"
  fix st st' r assume st: "?I st" "process_reference lc key setting st = (st', r)"
  have spec: "pv_Spec (ldr_Provider (ps_loader st)) = spec" using st(1) by (simp add: fine_process_def fine_loader_def)
  have new: "gives sound_resolver (new_resolver lc (ce_env (lc_calls lc n)) provider)" if "pv_Spec provider = spec" for n provider
    using assms(1) that by (intro new_resolver_good) (auto simp: sound_context_def)
  have resolver: "safe ?I (\<lambda>st. case ps_resolver st of Some r \<Rightarrow> (st, Ok ())
      | None \<Rightarrow> (case new_resolver lc (ce_env (lc_calls lc (ldr_calls (ps_loader st)))) (ldr_Provider (ps_loader st0)) of
           Ok r \<Rightarrow> (st\<lparr> ps_resolver := Some r \<rparr>, Ok ()) | Err e \<Rightarrow> (st, Err e) | Panic p \<Rightarrow> (st, Panic p)))"
    if "pv_Spec (ldr_Provider (ps_loader st0)) = spec" for st0
  proof (rule safelyI)
    fix s s' r
    assume s: "?I s" and e: "(case ps_resolver s of Some r \<Rightarrow> (s, Ok ())
      | None \<Rightarrow> (case new_resolver lc (ce_env (lc_calls lc (ldr_calls (ps_loader s)))) (ldr_Provider (ps_loader st0)) of
           Ok r \<Rightarrow> (s\<lparr> ps_resolver := Some r \<rparr>, Ok ()) | Err e \<Rightarrow> (s, Err e) | Panic p \<Rightarrow> (s, Panic p))) = (s', r)"
    show "?I s' \<and> gives (\<lambda>_. True) r"
      using new [OF that, of "ldr_calls (ps_loader s)"] s e
      by (cases "ps_resolver s"; cases "new_resolver lc (ce_env (lc_calls lc (ldr_calls (ps_loader s)))) (ldr_Provider (ps_loader st0))")
        (auto simp: fine_process_def)
  qed
  have codec: "sound_codec (lc_codec lc)" using assms(1) by (simp add: sound_context_def)
  show "?I st' \<and> gives (\<lambda>_. True) r"
  proof (cases "set_Value setting")
    case None
    then show ?thesis using st by (auto simp: process_reference_def Let_def)
  next
    case (Some url)
    note v = this
    show ?thesis
    proof (cases "spec_Secret spec")
      case None
      then show ?thesis using st v spec by (auto simp: process_reference_def Let_def)
    next
      case (Some sr)
      have key: "canonical_key (separator_of (sg_SecretData (sr_Target sr))) key"
        using assms(2-4) Some by (auto simp: well_placed_def)
      have store: "safe ?I (act_modify (\<lambda>st. st\<lparr> ps_raw := store_reference sn ty key md (ps_raw st) \<rparr>))" for sn ty md
        by (rule safely_modify) (auto simp: fine_process_def intro: raw_placed_reference [OF _ Some key])
      have ty: "returns (parseSecretType s)" for s
        by (simp add: parseSecretType_def split: option.split)
      have "safe ?I (act_bind (act_lift (case golookup (set_Tags setting) PreservedSecretTypeTag of
                          None \<Rightarrow> Ok SecretTypeOpaque
                        | Some None \<Rightarrow> Err (Errorf ''the secret type tag '%s' for setting '%s' is invalid'' [PreservedSecretTypeTag, k] [])
                        | Some (Some tag) \<Rightarrow> parseSecretType tag))
                    (\<lambda>secretType.
                       act_bind
                         (\<lambda>st. case ps_resolver st of
                            Some r \<Rightarrow> (st, Ok ())
                          | None \<Rightarrow>
                              (case new_resolver lc (ce_env (lc_calls lc (ldr_calls (ps_loader st)))) (ldr_Provider (ps_loader st0)) of
                                 Ok r \<Rightarrow> (st\<lparr> ps_resolver := Some r \<rparr>, Ok ())
                               | Err e \<Rightarrow> (st, Err e)
                               | Panic p \<Rightarrow> (st, Panic p)))
                         (\<lambda>_. act_bind (act_lift (parse (lc_codec lc) url)) (\<lambda>md.
                            let secretName = (if secretType = SecretTypeOpaque then sg_SecretName (sr_Target sr) else key)
                            in act_modify (\<lambda>st. st\<lparr> ps_raw := store_reference secretName secretType key md (ps_raw st) \<rparr>)))))"
        if "pv_Spec (ldr_Provider (ps_loader st0)) = spec" for st0
        unfolding Let_def
        by (rule safely_bind [where R = "\<lambda>_. True"], rule safely_lift, simp add: ty split: option.split,
            rule safely_bind [OF resolver [OF that]], rule safely_bind [where R = "\<lambda>_. True"],
            rule safely_lift, simp add: returns_parse [OF codec], rule store)
      from safelyD [OF this [OF spec] st(1)] show ?thesis
        using st(2) v Some assms(3) spec by (auto simp: process_reference_def Let_def)
    qed
  qed
qed

lemma safely_snapshot_client:
  assumes "sound_context P spec lc"
  shows "safely (fine_process (lc_codec lc) P spec) P (snapshot_client lc)"
proof (rule safelyI)
  let ?I = "fine_process (lc_codec lc) P spec"
  fix st st' r assume st: "?I st" "snapshot_client lc st = (st', r)"
  show "?I st' \<and> gives P r"
  proof (cases "ps_snapshotClient st")
    case (Some c)
    then show ?thesis using st by (auto simp: snapshot_client_def fine_process_def)
  next
    case None
    let ?l = "(ps_loader st)\<lparr> ldr_calls := Suc (ldr_calls (ps_loader st)) \<rparr>" and ?ce = "lc_calls lc (ldr_calls (ps_loader st))"
    obtain l1 r1 where g: "get_clients ?ce ?l = (l1, r1)" by fastforce
    have b: "builds P (ce_env ?ce)" using assms by (simp add: sound_context_def builds_all_def)
    have l: "fine_loader P spec ?l" using st(1) by (simp add: fine_process_def fine_loader_def)
    note one = safelyD [OF safely_get_clients [OF b] l g]
    have "P (cw_Client (wrapper_at (ldr_Manager l1) c))" if "r1 = Ok (c # cs)" for c cs
    proof (rule holds_wrapper_at)
      show "holds P (ldr_Manager l1)" using one(1) by (simp add: fine_loader_def fine_manager_def)
      show "valid_ref (ldr_Manager l1) c"
        using g that GetClients_refs(2) by (fastforce simp: get_clients_def split: res.splits)
    qed
    then show ?thesis
      using st None g one
      by (auto simp: snapshot_client_def fine_process_def Let_def split: res.splits list.splits)
  qed
qed

lemma safely_process_plain:
  assumes "entry_placed cd spec (isJsonContentType (Some contentType)) key v"
  shows "safe (fine_process cd P spec) (process_plain key v contentType)"
  unfolding process_plain_def
  by (rule safely_modify) (use assms in \<open>auto simp: fine_process_def Let_def intro: raw_placed_store\<close>)

lemma safely_process_snapshot:
  assumes "sound_context P spec lc"
    and "\<And>settings. \<forall>s \<in> set settings. well_placed (lc_codec lc) spec s \<Longrightarrow> safe (fine_process (lc_codec lc) P spec) (nested settings)"
  shows "safe (fine_process (lc_codec lc) P spec) (process_snapshot lc nested key ref)"
proof -
  let ?I = "fine_process (lc_codec lc) P spec"
  have codec: "sound_codec (lc_codec lc)" using assms(1) by (simp add: sound_context_def)
  have load: "gives (\<lambda>ss. \<forall>s \<in> set ss. well_placed (lc_codec lc) spec s) (loadSnapshotSettings c n)" if "P c" for c n
    using assms(1) that by (intro snapshot_good) (auto simp: sound_context_def sound_client_def)
  have mark: "safe ?I (act_modify (\<lambda>st. st\<lparr> ps_loader := (ps_loader st)\<lparr> ldr_Tracing := f st \<rparr> \<rparr>))" for f
    by (rule safely_modify) (auto simp: fine_process_def fine_loader_def)
  have ai: "safe ?I (act_modify (\<lambda>st. st\<lparr> ps_useAI := f st, ps_useAIChat := g st \<rparr>))" for f g
    by (rule safely_modify) (auto simp: fine_process_def)
  have got: "safe ?I (act_get f)" for f :: "process_state \<Rightarrow> bool \<times> bool" by (rule safely_get) simp
  show ?thesis
    unfolding process_snapshot_def
    by (rule safely_bind [OF mark], rule safely_bind [where R = "\<lambda>_. True"], rule safely_lift,
        simp add: returns_parseSnapshotReference [OF codec], rule safely_bind [OF safely_snapshot_client [OF assms(1)]],
        rule safely_bind [OF safely_lift], simp, rule load, assumption, rule safely_bind [OF got])
      (auto split: prod.split intro!: safely_bind [OF ai] safely_bind [OF assms(2)] ai)
qed

lemma safely_process_setting:
  assumes "sound_context P spec lc" and "well_placed (lc_codec lc) spec setting"
    and "\<And>settings. allow \<Longrightarrow> \<forall>s \<in> set settings. well_placed (lc_codec lc) spec s \<Longrightarrow> safe (fine_process (lc_codec lc) P spec) (nested settings)"
  shows "safe (fine_process (lc_codec lc) P spec) (process_setting lc allow nested setting)"
proof (rule safelyI)
  let ?I = "fine_process (lc_codec lc) P spec"
  fix st st' r assume st: "?I st" "process_setting lc allow nested setting st = (st', r)"
  show "?I st' \<and> gives (\<lambda>_. True) r"
  proof (cases "set_Key setting")
    case None
    then show ?thesis using st by (auto simp: process_setting_def)
  next
    case (Some k)
    define key where "key = trimPrefix k (kvo_TrimKeyPrefixes (spec_Configuration spec))"
    have spec: "pv_Spec (ldr_Provider (ps_loader st)) = spec" using st(1) by (simp add: fine_process_def fine_loader_def)
    have eq: "process_setting lc allow nested setting st =
        (if length key = 0 then (st, Ok ())
         else (case set_ContentType setting of
            None \<Rightarrow> (st\<lparr> ps_raw := store_setting key (set_Value setting) False (ps_raw st) \<rparr>, Ok ())
          | Some contentType \<Rightarrow>
              (let ct = TrimSpace (ToLower contentType)
               in if ct = FeatureFlagContentType then (st, Ok ())
                  else if ct = SecretReferenceContentType then process_reference lc key setting st
                  else if ct = SnapshotReferenceContentType then
                    (case set_Value setting of
                       Some ref \<Rightarrow> if allow then process_snapshot lc nested key ref st else (st, Ok ())
                     | None \<Rightarrow> (st, Ok ()))
                  else process_plain key (set_Value setting) contentType st)))"
      unfolding process_setting_def Some key_def spec by (simp add: Let_def)
    have plain: "entry_placed (lc_codec lc) spec (isJsonContentType (set_ContentType setting)) key (set_Value setting)"
      using assms(2) Some by (auto simp: well_placed_def entry_placed_def key_def)
    have "entry_placed (lc_codec lc) spec False key (set_Value setting)"
      using plain by (auto simp: entry_placed_def)
    then have untyped: "?I (st\<lparr> ps_raw := store_setting key (set_Value setting) False (ps_raw st) \<rparr>)"
      using st(1) by (auto simp: fine_process_def intro: raw_placed_store)
    have typed: "safe ?I (process_plain key (set_Value setting) contentType)" if "set_ContentType setting = Some contentType" for contentType
      by (rule safely_process_plain) (use plain that in simp)
    have reference: "safe ?I (process_reference lc key setting)"
      by (rule safely_process_reference [OF assms(1,2) Some key_def])
    have snapshot: "safe ?I (process_snapshot lc nested key ref)" if allow for ref
      by (rule safely_process_snapshot [OF assms(1)]) (rule assms(3) [OF that])
    show ?thesis
      using st(2) untyped safelyD [OF typed st(1)] safelyD [OF reference st(1)] safelyD [OF snapshot st(1)] st(1)
      unfolding eq by (auto simp: Let_def split: if_splits option.splits)
  qed
qed

lemma safely_processSettings:
  assumes "sound_context P spec lc" and "\<forall>s \<in> set settings. well_placed (lc_codec lc) spec s"
  shows "safe (fine_process (lc_codec lc) P spec) (processSettings lc settings)"
proof -
  have nested: "safe (fine_process (lc_codec lc) P spec) (processNestedSettings lc ss)"
    if "\<forall>s \<in> set ss. well_placed (lc_codec lc) spec s" for ss
    unfolding processNestedSettings_def
    by (rule safely_iter) (use that in \<open>auto intro!: safely_process_setting [OF assms(1)]\<close>)
  show ?thesis
    unfolding processSettings_def
    by (rule safely_iter) (use assms(2) in \<open>auto intro!: safely_process_setting [OF assms(1)] nested\<close>)
qed

lemma safely_run_process:
  assumes "sound_context P spec lc" and "\<forall>s \<in> set settings. well_placed (lc_codec lc) spec s"
    and "raw_placed (lc_codec lc) spec raw" and "\<forall>r. resolver = Some r \<longrightarrow> sound_resolver r"
  shows "safely (fine_loader P spec)
     (\<lambda>st. raw_placed (lc_codec lc) spec (ps_raw st) \<and> (\<forall>r. ps_resolver st = Some r \<longrightarrow> sound_resolver r))
     (run_process lc settings raw resolver)"
proof (rule safelyI)
  fix l l' r assume l: "fine_loader P spec l" "run_process lc settings raw resolver l = (l', r)"
  let ?st = "\<lparr> ps_loader = l, ps_raw = raw, ps_resolver = resolver, ps_snapshotClient = None, ps_useAI = False, ps_useAIChat = False \<rparr>"
  obtain st res where p: "processSettings lc settings ?st = (st, res)" by fastforce
  have "fine_process (lc_codec lc) P spec ?st" using l(1) assms(3,4) by (simp add: fine_process_def)
  note ended = safelyD [OF safely_processSettings [OF assms(1,2)] this p]
  show "fine_loader P spec l' \<and> gives (\<lambda>st. raw_placed (lc_codec lc) spec (ps_raw st) \<and> (\<forall>r. ps_resolver st = Some r \<longrightarrow> sound_resolver r)) r"
    using l(2) p ended by (cases res) (auto simp: run_process_def fine_process_def)
qed

section \<open>Loading key-values\<close>

lemma all_filled_Cons [simp]: "all_filled ((k, c) # m) \<longleftrightarrow> sc_Data c \<noteq> None \<and> all_filled m"
  by (simp add: all_filled_def)

lemma all_filled_store: "all_filled m \<Longrightarrow> sc_Data c \<noteq> None \<Longrightarrow> all_filled (gostore k c m)"
  by (auto simp: all_filled_def dest!: set_gostore)

lemma all_filled_lookup: "all_filled m \<Longrightarrow> golookup m k = Some c \<Longrightarrow> \<exists>d. sc_Data c = Some d"
  by (force simp: all_filled_def dest: map_of_SomeD)

lemma merge_filled: "all_filled secret \<Longrightarrow> all_filled new \<Longrightarrow> returns (MergeSecret secret new)"
proof (induction secret new rule: MergeSecret.induct)
  case (2 secret k v new)
  show ?case
  proof (cases "golookup secret k")
    case None
    then show ?thesis using 2 by (simp add: all_filled_store)
  next
    case (Some existing)
    then obtain d where d: "sc_Data existing = Some d"
      using "2.prems"(1) all_filled_lookup by blast
    then show ?thesis using 2 Some by (auto simp: merge_data_def all_filled_store)
  qed
qed simp

text \<open>Raw settings that can be rendered as the ConfigMap data of the specification.\<close>

definition renderable :: "codec \<Rightarrow> ProviderSpec \<Rightarrow> RawSettings \<Rightarrow> bool" where
  "renderable cd spec raw \<longleftrightarrow>
     placed (separator_of (ct_ConfigMapData (spec_Target spec)))
       (map (\<lambda>(k, v). (k, setting_value cd (is_json_key raw k) v)) (rw_KeyValueSettings raw))"

lemma renderable_update [simp]:
  "renderable cd spec (raw\<lparr> rw_K8sSecrets := a, rw_SecretSettings := b \<rparr>) = renderable cd spec raw"
  "renderable cd spec (raw\<lparr> rw_FeatureFlagSettings := f \<rparr>) = renderable cd spec raw"
  "renderable cd spec (raw\<lparr> rw_FeatureFlagSettings := f, rw_FeatureFlagETags := e \<rparr>) = renderable cd spec raw"
  by (simp_all add: renderable_def is_json_key_def)

lemma raw_placed_renderable: "raw_placed cd spec raw \<Longrightarrow> renderable cd spec raw"
proof -
  assume raw: "raw_placed cd spec raw"
  have "canonical_key (separator_of (ct_ConfigMapData (spec_Target spec))) k \<and> canonical_value (setting_value cd (is_json_key raw k) v)"
    if "(k, v) \<in> set (rw_KeyValueSettings raw)" for k v
  proof -
    have "entry_placed cd spec (is_json_key raw k) k v"
      using raw that golookup_in_set [of "rw_KeyValueSettings raw" k v] by (simp add: raw_placed_def)
    then show ?thesis by (auto simp: entry_placed_def setting_value_def split: option.split res.split)
  qed
  then show ?thesis by (auto simp: renderable_def placed_def)
qed

lemma key_value_answer:
  assumes "sound_context P spec lc" and "P c"
  shows "gives (answered_with (well_placed (lc_codec lc) spec)) (GetSettings (lc_codec lc) (SelectorSettingsClient (GetKeyValueFilters spec)) c)"
proof (rule selector_answer)
  have "sound_client (lc_codec lc) spec c" "verifyObject (ce_env (lc_calls lc 0)) spec = Ok ()"
    using assms by (auto simp: sound_context_def)
  then show "\<forall>n. returns (GetSnapshot c n)"
    and "\<forall>f \<in> set (GetKeyValueFilters spec). named f \<and> good_pages (well_placed (lc_codec lc) spec) (listed c f)"
    using filters_named(1) by (auto simp: sound_client_def)
qed

lemma flag_answer:
  assumes "sound_context P spec lc" and "P c"
  shows "gives (answered_with whole_flag) (GetSettings (lc_codec lc) (SelectorSettingsClient (GetFeatureFlagFilters spec)) c)"
proof (rule selector_answer)
  have "sound_client (lc_codec lc) spec c" "verifyObject (ce_env (lc_calls lc 0)) spec = Ok ()"
    using assms by (auto simp: sound_context_def)
  then show "\<forall>n. returns (GetSnapshot c n)" and "\<forall>f \<in> set (GetFeatureFlagFilters spec). named f \<and> good_pages whole_flag (listed c f)"
    using filters_named(2) by (auto simp: sound_client_def)
qed

lemma page_answer:
  "sound_context P spec lc \<Longrightarrow> P c \<Longrightarrow> gives (answered_with (\<lambda>_. True)) (GetSettings (lc_codec lc) (EtagSettingsClient etags) c)"
  by (rule etag_answer) (auto simp: sound_context_def sound_client_def)

lemma context_builds: "sound_context P spec lc \<Longrightarrow> builds_all P lc"
  by (simp add: sound_context_def)

lemmas safely_request = safely_execute [OF context_builds]

lemma safely_spec: "safely (fine_loader P spec) (\<lambda>s. s = spec) (act_get (\<lambda>l. pv_Spec (ldr_Provider l)))"
  by (rule safely_get) (simp add: fine_loader_def)

lemma safely_resolve_loader:
  assumes "sound_context P spec lc" and "\<forall>r. resolver = Some r \<longrightarrow> sound_resolver r" and "refs_placed spec refs"
  shows "safely (fine_loader P spec) (\<lambda>t. all_filled (tg_SecretSettings t))
     (\<lambda>l. (l, ResolveSecretReferences (lc_codec lc) (lc_crypto lc) spec
         (new_resolver lc (ce_env (lc_calls lc (ldr_calls l))) (ldr_Provider l)) refs resolver))"
proof (rule safely_pure)
  fix l assume "fine_loader P spec l"
  then have "gives sound_resolver (new_resolver lc (ce_env (lc_calls lc (ldr_calls l))) (ldr_Provider l))"
    using assms(1) by (intro new_resolver_good) (auto simp: sound_context_def fine_loader_def)
  then show "gives (\<lambda>t. all_filled (tg_SecretSettings t)) (ResolveSecretReferences (lc_codec lc) (lc_crypto lc) spec
         (new_resolver lc (ce_env (lc_calls lc (ldr_calls l))) (ldr_Provider l)) refs resolver)"
    using assms by (intro returns_resolve_references) (auto simp: sound_context_def)
qed

lemma safely_CreateKeyValueSettings:
  assumes "sound_context P spec lc" and "\<forall>r. resolver = Some r \<longrightarrow> sound_resolver r"
  shows "safely (fine_loader P spec) (renderable (lc_codec lc) spec) (CreateKeyValueSettings lc resolver)"
proof -
  let ?I = "fine_loader P spec" and ?cd = "lc_codec lc"
  have mark: "safe ?I (act_modify (\<lambda>l. l\<lparr> ldr_Tracing := f l \<rparr>))" for f
    by (rule safely_modify) (auto simp: fine_loader_def)
  have merge: "safely ?I (\<lambda>_. True) (act_lift (MergeSecret [] new))" if "all_filled new" for new
    by (rule safely_lift) (simp add: merge_filled that all_filled_def [of "[]"])
  have process: "safely ?I (\<lambda>st. raw_placed ?cd spec (ps_raw st) \<and> (\<forall>r. ps_resolver st = Some r \<longrightarrow> sound_resolver r))
      (run_process lc (slice (rsp_Settings resp)) (initial_raw spec (rsp_Etags resp)) resolver)"
    if "\<forall>s \<in> set (slice (rsp_Settings resp)). well_placed ?cd spec s" for resp
    by (rule safely_run_process [OF assms(1) that initial_raw_placed assms(2)])
  have rest: "safely ?I (renderable ?cd spec) (act_bind (\<lambda>l. (l, ResolveSecretReferences ?cd (lc_crypto lc) spec
         (new_resolver lc (ce_env (lc_calls lc (ldr_calls l))) (ldr_Provider l)) (rw_K8sSecrets (ps_raw st)) (ps_resolver st))) (\<lambda>resolved.
     act_bind (act_lift (MergeSecret (rw_SecretSettings (ps_raw st)) (tg_SecretSettings resolved))) (\<lambda>secrets.
     act_return ((ps_raw st)\<lparr> rw_K8sSecrets := tg_K8sSecrets resolved, rw_SecretSettings := secrets \<rparr>))))"
    if "raw_placed ?cd spec (ps_raw st)" "\<forall>r. ps_resolver st = Some r \<longrightarrow> sound_resolver r" for st
  proof (rule safely_bind [OF safely_resolve_loader [OF assms(1) that(2)]])
    show "refs_placed spec (rw_K8sSecrets (ps_raw st))" using that(1) by (simp add: raw_placed_def)
    have "rw_SecretSettings (ps_raw st) = []" using that(1) by (simp add: raw_placed_def)
    then show "safely ?I (renderable ?cd spec) (act_bind (act_lift (MergeSecret (rw_SecretSettings (ps_raw st)) (tg_SecretSettings resolved))) (\<lambda>secrets.
         act_return ((ps_raw st)\<lparr> rw_K8sSecrets := tg_K8sSecrets resolved, rw_SecretSettings := secrets \<rparr>)))"
      if "all_filled (tg_SecretSettings resolved)" for resolved
      using merge [OF that] raw_placed_renderable [OF \<open>raw_placed ?cd spec (ps_raw st)\<close>]
      by (auto intro!: safely_bind [where R = "\<lambda>_. True"] safely_return)
  qed
  show ?thesis
    unfolding CreateKeyValueSettings_def
  proof (rule safely_bind [OF safely_spec], hypsubst, rule safely_bind [OF safely_request [OF assms(1) key_value_answer [OF assms(1)]]],
      assumption, rule safely_bind [where R = "\<lambda>resp. \<forall>s \<in> set (slice (rsp_Settings resp)). well_placed ?cd spec s"])
    fix response assume "answered_with (well_placed ?cd spec) response"
    then show "safely ?I (\<lambda>resp. \<forall>s \<in> set (slice (rsp_Settings resp)). well_placed ?cd spec s) (act_lift (deref response))"
      by (intro safely_lift) (auto simp: answered_with_def)
  qed (rule safely_bind [OF process], assumption, rule safely_bind [OF mark], rule rest, simp_all)
qed

section \<open>Sentinels and page ETags\<close>

lemma safely_sentinel_loop:
  assumes "sound_context P spec lc"
  shows "safe (fine_loader P spec) (sentinel_loop lc interval eTags changed refreshed)"
proof (induction eTags arbitrary: changed refreshed)
  case (Cons e eTags)
  obtain s etag where e: "e = (s, etag)" by fastforce
  have "safe (fine_loader P spec) (case response of
         None \<Rightarrow> sentinel_loop lc interval eTags changed (gostore s etag refreshed)
       | Some resp \<Rightarrow>
           (case rsp_Settings resp of
              None \<Rightarrow> sentinel_loop lc interval eTags changed (gostore s etag refreshed)
            | Some [] \<Rightarrow> act_lift (Panic ''index out of range'')
            | Some (t # _) \<Rightarrow>
                (case set_ETag t of
                   None \<Rightarrow> sentinel_loop lc interval eTags changed (gostore s etag refreshed)
                 | Some e \<Rightarrow> sentinel_loop lc interval eTags True (gostore s (Some e) refreshed))))"
    if "\<forall>resp. response = Some resp \<longrightarrow> rsp_Settings resp \<noteq> Some []" for response
    using that Cons.IH by (auto split: option.split list.split)
  then show ?case
    unfolding e sentinel_loop.simps by (rule safely_bind [OF safely_request [OF assms sentinel_client_answer]])
qed (simp add: safely_return)

lemma safely_CheckAndRefreshSentinels:
  assumes "sound_context P spec lc" and "kvo_Refresh (spec_Configuration (pv_Spec provider)) \<noteq> None"
  shows "safe (fine_loader P spec) (CheckAndRefreshSentinels lc provider eTags)"
  using assms(2) safely_sentinel_loop [OF assms(1)]
  by (auto simp: CheckAndRefreshSentinels_def deref_def intro!: safely_bind [where R = "\<lambda>_. True"] safely_return safely_lift)

lemma safely_CheckPageETags:
  assumes "sound_context P spec lc"
  shows "safe (fine_loader P spec) (CheckPageETags lc eTags)"
  unfolding CheckPageETags_def
  by (rule safely_bind [OF safely_request [OF assms page_answer [OF assms]]], assumption)
    (auto simp: answered_with_def deref_def intro!: safely_bind [where R = "\<lambda>_. True"] safely_return safely_lift)

section \<open>Feature flags\<close>

lemma feature_flag_value_returns:
  assumes "sound_codec cd" and "whole_flag s"
  shows "returns (feature_flag_value cd endpoint s)"
proof -
  have "returns (populateTelemetryMetadata flag s endpoint)" for flag
    using assms(2)
    by (auto simp: populateTelemetryMetadata_def whole_flag_def Let_def split: option.split go_value.split)
  moreover have "returns (res_bind (json_Unmarshal cd v) as_object)" for v
    using assms(1) by (auto simp: sound_codec_def)
  ultimately show ?thesis
    using assms(2) by (auto simp: feature_flag_value_def whole_flag_def split: option.split)
qed

lemma feature_flag_loop_returns:
  assumes "sound_codec cd" and "\<forall>s \<in> set settings. whole_flag s"
  shows "n \<le> length settings \<Longrightarrow> returns (feature_flag_loop cd endpoint settings n seen flags)"
proof (induction n arbitrary: seen flags)
  case (Suc n)
  then have "whole_flag (settings ! n)" using assms(2) by simp
  moreover from this have "set_Key (settings ! n) \<noteq> None" by (simp add: whole_flag_def)
  ultimately show ?case
    using Suc feature_flag_value_returns [OF assms(1)] by auto
qed simp

lemma safely_getFeatureFlagSettings:
  assumes "sound_context P spec lc"
  shows "safe (fine_loader P spec) (getFeatureFlagSettings lc)"
proof -
  let ?I = "fine_loader P spec"
  have codec: "sound_codec (lc_codec lc)" using assms by (simp add: sound_context_def)
  have endpoint: "safe ?I (\<lambda>l. (l, case cm_StaticClientWrappers (ldr_Manager l) of
                         [] \<Rightarrow> Panic ''index out of range''
                       | w # _ \<Rightarrow> Ok (cw_Endpoint w)))"
  proof (rule safely_pure)
    fix l assume "?I l"
    then have "cm_StaticClientWrappers (ldr_Manager l) \<noteq> []" by (auto simp: fine_loader_def fine_manager_def manager_ok_def)
    then show "gives (\<lambda>_. True) (case cm_StaticClientWrappers (ldr_Manager l) of [] \<Rightarrow> Panic ''index out of range'' | w # _ \<Rightarrow> Ok (cw_Endpoint w))"
      by (cases "cm_StaticClientWrappers (ldr_Manager l)") simp_all
  qed
  show ?thesis
    unfolding getFeatureFlagSettings_def
  proof (rule safely_bind [OF safely_spec], hypsubst, rule safely_bind [OF safely_request [OF assms flag_answer [OF assms]]],
      assumption, rule safely_bind [where R = "\<lambda>resp. \<forall>s \<in> set (slice (rsp_Settings resp)). whole_flag s"])
    fix response assume "answered_with whole_flag response"
    then show "safely ?I (\<lambda>resp. \<forall>s \<in> set (slice (rsp_Settings resp)). whole_flag s) (act_lift (deref response))"
      by (intro safely_lift) (auto simp: answered_with_def)
  qed (auto intro!: safely_bind [OF endpoint] safely_bind [where R = "\<lambda>_. True"] safely_lift safely_return
      simp: feature_flag_loop_returns [OF codec])
qed

section \<open>Target settings\<close>

lemma initial_sentinels_refresh: "initial_sentinels addr spec = Some eTags \<Longrightarrow> kvo_Refresh (spec_Configuration spec) \<noteq> None"
  by (auto simp: initial_sentinels_def split: option.splits)

lemma safely_typed:
  assumes "sound_context P spec lc" and "renderable (lc_codec lc) spec raw"
  shows "safe (fine_loader P spec) (act_lift (createTypedSettings (lc_codec lc) raw (ct_ConfigMapData (spec_Target spec))))"
  using assms by (intro safely_lift) (simp add: sound_context_def renderable_def returns_createTypedSettings)

lemma safely_provider: "safely (fine_loader P spec) (\<lambda>provider. pv_Spec provider = spec) (act_get ldr_Provider)"
  by (rule safely_get) (simp add: fine_loader_def)

lemma safely_CreateTargetSettings:
  assumes "sound_context P spec lc" and "\<forall>r. resolver = Some r \<longrightarrow> sound_resolver r"
  shows "safe (fine_loader P spec) (CreateTargetSettings lc addr resolver)"
proof -
  let ?I = "fine_loader P spec" and ?R = "renderable (lc_codec lc) spec"
  have sentinels: "safe ?I (case initial_sentinels addr (pv_Spec provider) of
                 None \<Rightarrow> act_return []
               | Some eTags \<Rightarrow>
                   act_bind (CheckAndRefreshSentinels lc provider eTags) (\<lambda>(_, refreshed). act_return refreshed))" for provider
    by (auto split: option.split intro!: safely_return
        safely_bind [OF safely_CheckAndRefreshSentinels [OF assms(1) initial_sentinels_refresh]])
  have flags: "safely ?I ?R (if b then act_bind (getFeatureFlagSettings lc) (\<lambda>(section, etags).
                   act_return (raw0\<lparr> rw_FeatureFlagSettings := Some section, rw_FeatureFlagETags := etags \<rparr>))
               else act_return raw0)" if "?R raw0" for b raw0
    using that by (auto intro!: safely_bind [OF safely_getFeatureFlagSettings [OF assms(1)]] safely_return)
  show ?thesis
    unfolding CreateTargetSettings_def
    by (rule safely_bind [OF safely_CreateKeyValueSettings [OF assms]], rule safely_bind [OF safely_provider],
        rule safely_bind [OF sentinels], rule safely_bind [OF flags], assumption, hypsubst, rule safely_bind [OF safely_typed])
      (use assms(1) in \<open>simp_all add: safely_return\<close>)
qed

lemma verified_flags_typed:
  "sound_context P spec lc \<Longrightarrow> spec_FeatureFlag spec \<noteq> None \<Longrightarrow> ct_ConfigMapData (spec_Target spec) \<noteq> None"
  by (auto simp: sound_context_def verifyObject_def verify_Ok verify_feature_flag_def split: if_splits option.splits)

lemma safely_RefreshKeyValueSettings:
  assumes "sound_context P spec lc" and "\<forall>r. resolver = Some r \<longrightarrow> sound_resolver r"
  shows "safe (fine_loader P spec) (RefreshKeyValueSettings lc existing resolver)"
proof -
  let ?I = "fine_loader P spec" and ?R = "renderable (lc_codec lc) spec"
  have codec: "sound_codec (lc_codec lc)" using assms(1) by (simp add: sound_context_def)
  have flags: "safely ?I ?R (if spec_FeatureFlag spec \<noteq> None then
                 act_bind (act_lift (unmarshalConfigMap (lc_codec lc) existing (ct_ConfigMapData (spec_Target spec))))
                   (\<lambda>(flags, _). act_return (raw0\<lparr> rw_FeatureFlagSettings := Some flags \<rparr>))
               else act_return raw0)" if "?R raw0" for raw0
    using that verified_flags_typed [OF assms(1)]
    by (auto intro!: safely_bind [where R = "\<lambda>_. True"] safely_return safely_lift simp: returns_unmarshal [OF codec])
  show ?thesis
    unfolding RefreshKeyValueSettings_def
    by (rule safely_bind [OF safely_CreateKeyValueSettings [OF assms]], rule safely_bind [OF safely_spec], hypsubst,
        rule safely_bind [OF flags], assumption)
      (auto intro!: safely_bind [OF safely_typed [OF assms(1)]] safely_return)
qed

lemma safely_RefreshFeatureFlagSettings:
  assumes "sound_context P spec lc" and "spec_FeatureFlag spec \<noteq> None"
  shows "safe (fine_loader P spec) (RefreshFeatureFlagSettings lc existing)"
proof -
  let ?I = "fine_loader P spec"
  have codec: "sound_codec (lc_codec lc)" using assms(1) by (simp add: sound_context_def)
  obtain opts where opts: "ct_ConfigMapData (spec_Target spec) = Some opts"
    using verified_flags_typed [OF assms] by blast
  have data: "safely ?I (\<lambda>d. d = Some opts) (act_get (\<lambda>l. ct_ConfigMapData (spec_Target (pv_Spec (ldr_Provider l)))))"
    by (rule safely_get) (simp add: fine_loader_def opts)
  show ?thesis
    unfolding RefreshFeatureFlagSettings_def
    by (rule safely_bind [OF safely_getFeatureFlagSettings [OF assms(1)]])
      (auto intro!: safely_bind [OF data] safely_bind [where R = "\<lambda>_. True"] safely_return safely_lift
        simp: returns_unmarshal [OF codec] returns_marshal [OF codec])
qed

end
