(* ===== verification/Pass_Returns.thy ===== *)
theory Pass_Returns
  imports Loader_Returns Processor
begin

text \<open>
  A pass of the processor does not panic.  The locale \<open>returning_source\<close> is what the processor
  needs of its retriever for this, the interface \<^verbatim>\<open>ConfigurationSettingsRetriever\<close> once more; the
  loader satisfies it in a sound context.
\<close>

section \<open>The contract\<close>

text \<open>
  \<open>I\<close> holds of the retriever between its calls, \<open>spec\<close> is the specification, and \<open>placeable\<close> are the
  references it can resolve.
\<close>

definition fine_pass :: "('s \<Rightarrow> bool) \<Rightarrow> ProviderSpec \<Rightarrow> (k8s_secrets \<Rightarrow> bool) \<Rightarrow> 's processor \<Rightarrow> bool" where
  "fine_pass I spec placeable p \<longleftrightarrow>
     I (pr_Retriever p) \<and> pr_Resolver p = None \<and> pv_Spec (pr_Provider p) = spec \<and>
     \<not> ro_secretReferenceRefreshEnabled (pr_Options p) \<and>
     (secret_interval spec \<noteq> None \<longrightarrow> placeable (solve_secrets (rc_ExistingK8sSecrets (pr_State p)) []))"

locale returning_source =
  fixes rt :: "'s retriever" and I :: "'s \<Rightarrow> bool" and spec :: ProviderSpec and placeable :: "k8s_secrets \<Rightarrow> bool"
  assumes create_returns: "safe I (rt_CreateTargetSettings rt None)"
    and sentinels_return: "pv_Spec provider = spec \<Longrightarrow> kvo_Refresh (spec_Configuration spec) \<noteq> None
      \<Longrightarrow> safe I (rt_CheckAndRefreshSentinels rt provider eTags)"
    and pages_return: "safe I (rt_CheckPageETags rt pages)"
    and key_values_return: "safe I (rt_RefreshKeyValueSettings rt existing None)"
    and flags_return: "spec_FeatureFlag spec \<noteq> None \<Longrightarrow> safe I (rt_RefreshFeatureFlagSettings rt existing)"
    and references_return: "placeable refs \<Longrightarrow> safely I (\<lambda>t. all_filled (tg_SecretSettings t)) (rt_ResolveSecretReferences rt refs None)"
begin

abbreviation fine :: "'s processor \<Rightarrow> bool" where
  "fine \<equiv> fine_pass I spec placeable"

lemma safely_call:
  assumes "safely I Q m"
  shows "safely fine Q (call m)"
proof (rule safelyI)
  fix p p' r assume p: "fine p" "call m p = (p', r)"
  obtain s where s: "m (pr_Retriever p) = (s, r)" "p' = p\<lparr> pr_Retriever := s \<rparr>"
    using call_frame [OF p(2)] by blast
  from safelyD [OF assms _ s(1)] p(1) show "fine p' \<and> gives Q r"
    by (simp add: fine_pass_def s(2))
qed

text \<open>An action that depends on the processor it starts from.\<close>

lemma safely_on: "(\<And>p0. fine p0 \<Longrightarrow> safely fine Q (m p0)) \<Longrightarrow> safely fine Q (\<lambda>p. m p p)"
  by (rule safelyI) (blast dest: safelyD)

lemma safely_done: "(\<And>p. fine p \<Longrightarrow> fine (f p)) \<Longrightarrow> safe fine (\<lambda>p. (f p, Ok ()))"
  by (simp add: safely_iff)

text \<open>The steps of a pass, each from any processor that is fine.\<close>

lemma fine_step:
  assumes "safely fine Q m" and "fine p" and "m p = (p', r)"
  shows "fine p' \<and> gives Q r"
  using safelyD [OF assms] by simp

lemma fine_update:
  "fine p \<Longrightarrow> (\<And>ro. ro_secretReferenceRefreshEnabled (f ro) = ro_secretReferenceRefreshEnabled ro) \<Longrightarrow> fine (with_options f p)"
  "fine p \<Longrightarrow> (\<And>st. rc_ExistingK8sSecrets (g st) = rc_ExistingK8sSecrets st) \<Longrightarrow> fine (with_state g p)"
  "fine p \<Longrightarrow> fine (p\<lparr> pr_Settings := t \<rparr>)"
  "fine p \<Longrightarrow> fine (p\<lparr> pr_ShouldReconcile := b \<rparr>)"
  by (simp_all add: fine_pass_def with_options_def with_state_def)

lemma safely_full: "safe fine (processFullReconciliation rt)"
proof (rule safelyI)
  fix p p' r assume p: "fine p" "processFullReconciliation rt p = (p', r)"
  have none: "pr_Resolver p = None" using p(1) by (simp add: fine_pass_def)
  have "safe fine (act_bind (call (rt_CreateTargetSettings rt None)) (\<lambda>t. act_modify (\<lambda>p. with_options (f t p) (p\<lparr> pr_Settings := t \<rparr>))))"
    if "\<And>t p ro. ro_secretReferenceRefreshEnabled (f t p ro) = ro_secretReferenceRefreshEnabled ro" for f
    by (auto intro!: safely_bind [OF safely_call [OF create_returns]] safely_modify fine_update that)
  note step = fine_step [OF this p(1)]
  show "fine p' \<and> gives (\<lambda>_. True) r"
    by (rule step [OF _ p(2) [unfolded processFullReconciliation_def none]]) simp
qed

lemma safely_flag_refresh: "safe fine (processFeatureFlagRefresh rt cm)"
proof (rule safelyI)
  fix p p' r assume p: "fine p" "processFeatureFlagRefresh rt cm p = (p', r)"
  show "fine p' \<and> gives (\<lambda>_. True) r"
  proof (cases "feature_flag_interval spec")
    case None
    then show ?thesis using p by (auto simp: processFeatureFlagRefresh_def fine_pass_def with_state_def)
  next
    case (Some interval)
    then have ff: "spec_FeatureFlag spec \<noteq> None" by (auto simp: feature_flag_interval_def split: option.splits)
    let ?p1 = "with_options (\<lambda>ro. ro\<lparr> ro_featureFlagRefreshEnabled := True \<rparr>) p"
      and ?advance = "with_state (\<lambda>st. st\<lparr> rc_NextFeatureFlagRefreshReconcileTime := pr_CurrentTime p + duration_or_zero interval \<rparr>)"
    have fine: "fine ?p1" using p(1) by (intro fine_update) simp_all
    then have advanced: "fine (?advance ?p1)" by (rule fine_update(2)) simp
    have check: "safe fine (act_bind (call (rt_CheckPageETags rt pages)) (\<lambda>needed.
                act_bind (act_modify (with_options (\<lambda>ro. ro\<lparr> ro_featureFlagRefreshNeeded := needed \<rparr>))) (\<lambda>_.
                if \<not> needed then act_modify ?advance
                else
                  act_bind (call (rt_RefreshFeatureFlagSettings rt existing)) (\<lambda>refreshed.
                    act_modify (\<lambda>p. ?advance (with_options
                      (\<lambda>ro. ro\<lparr> ro_updatedFeatureFlagETags := tg_FeatureFlagETags refreshed,
                                ro_ConfigMapSettingPopulated := True \<rparr>)
                      (p\<lparr> pr_Settings := refreshed \<rparr>)))))))" for pages existing
      by (auto intro!: safely_bind [OF safely_call [OF pages_return]] safely_bind [OF safely_call [OF flags_return [OF ff]]]
          safely_bind [where R = "\<lambda>_. True"] safely_modify fine_update)
    have spec: "pv_Spec (pr_Provider p) = spec" using p(1) by (simp add: fine_pass_def)
    show ?thesis
      using p(2) fine advanced fine_step [OF check fine] unfolding processFeatureFlagRefresh_def spec Some
      by (auto simp: Let_def split: if_splits)
  qed
qed

lemma safely_key_value_refresh: "safe fine (processKeyValueRefresh rt cm)"
proof (rule safelyI)
  fix p p' r assume p: "fine p" "processKeyValueRefresh rt cm p = (p', r)"
  have spec: "pv_Spec (pr_Provider p) = spec" using p(1) by (simp add: fine_pass_def)
  show "fine p' \<and> gives (\<lambda>_. True) r"
  proof (cases "key_value_refresh spec")
    case None
    then show ?thesis using p by (auto simp: processKeyValueRefresh_def fine_pass_def with_state_def)
  next
    case (Some refresh)
    then have kvo: "kvo_Refresh (spec_Configuration spec) \<noteq> None" by (auto simp: key_value_refresh_def split: option.splits)
    let ?p1 = "with_options (\<lambda>ro. ro\<lparr> ro_keyValueRefreshEnabled := True \<rparr>) p"
      and ?advance = "with_state (\<lambda>st. st\<lparr> rc_NextKeyValueRefreshReconcileTime := pr_CurrentTime p + duration_or_zero (dr_Interval refresh) \<rparr>)"
    have fine: "fine ?p1" using p(1) by (intro fine_update) simp_all
    then have advanced: "fine (?advance ?p1)" by (rule fine_update(2)) simp
    have check: "safe fine (check_key_values rt refresh)"
    proof (rule safelyI)
      fix q q' r assume q: "fine q" "check_key_values rt refresh q = (q', r)"
      then have "pv_Spec (pr_Provider q) = spec" by (simp add: fine_pass_def)
      note s = sentinels_return [OF this kvo]
      have by_sentinels: "safe fine (act_bind (call (rt_CheckAndRefreshSentinels rt (pr_Provider q) eTags))
          (\<lambda>(changed, eTags). act_modify (with_options (\<lambda>ro. ro\<lparr> ro_sentinelChanged := changed, ro_updatedSentinelETags := eTags \<rparr>))))" for eTags
        by (auto intro!: safely_bind [OF safely_call [OF s]] safely_modify fine_update)
      have by_pages: "safe fine (act_bind (call (rt_CheckPageETags rt pages))
          (\<lambda>changed. act_modify (with_options (\<lambda>ro. ro\<lparr> ro_keyValuePageETagsChanged := changed \<rparr>))))" for pages
        by (auto intro!: safely_bind [OF safely_call [OF pages_return]] safely_modify fine_update)
      show "fine q' \<and> gives (\<lambda>_. True) r"
        using q(2) fine_step [OF by_sentinels q(1)] fine_step [OF by_pages q(1)]
        by (auto simp: check_key_values_def split: if_splits)
    qed
    have load: "safe fine (load_key_values rt cm ?advance)"
    proof (rule safelyI)
      fix q q' r assume q: "fine q" "load_key_values rt cm ?advance q = (q', r)"
      have none: "pr_Resolver q = None" using q(1) by (simp add: fine_pass_def)
      have "safe fine (act_bind (call (rt_RefreshKeyValueSettings rt existing None)) (\<lambda>refreshed. act_modify (\<lambda>p. ?advance (with_options
             (f refreshed p) (p\<lparr> pr_Settings := refreshed \<rparr>)))))"
        if "\<And>t p ro. ro_secretReferenceRefreshEnabled (f t p ro) = ro_secretReferenceRefreshEnabled ro" for existing f
        by (auto intro!: safely_bind [OF safely_call [OF key_values_return]] safely_modify fine_update that)
      note step = fine_step [OF this q(1)]
      show "fine q' \<and> gives (\<lambda>_. True) r"
      proof (cases "\<not> ro_sentinelChanged (pr_Options q) \<and> \<not> ro_keyValuePageETagsChanged (pr_Options q)")
        case True
        moreover have "fine (?advance q)" using q(1) by (intro fine_update) simp_all
        ultimately show ?thesis using q(2) by (auto simp: load_key_values_def)
      next
        case False
        show ?thesis
          by (rule step [OF _ q(2) [unfolded load_key_values_def none if_not_P [OF False]]]) simp
      qed
    qed
    have both: "safe fine (act_bind (check_key_values rt refresh) (\<lambda>_. load_key_values rt cm ?advance))"
      by (rule safely_bind [OF check load])
    show ?thesis
      using p(2) fine advanced fine_step [OF both fine] unfolding processKeyValueRefresh_def spec Some
      by (auto simp: Let_def split: if_splits)
  qed
qed

lemma update_filled: "all_filled secrets \<Longrightarrow> all_filled new \<Longrightarrow> returns (update_secrets secrets new)"
proof (induction secrets new rule: update_secrets.induct)
  case (2 secrets name resolved m)
  show ?case
  proof (cases "golookup secrets name")
    case (Some existing)
    then obtain d where "sc_Data existing = Some d" using "2.prems"(1) all_filled_lookup by blast
    then show ?thesis using 2 Some by (auto simp: merge_data_def all_filled_store)
  qed (use 2 in auto)
qed simp

lemma secret_refresh_returns:
  assumes "fine p" and "secret_interval spec \<noteq> None \<Longrightarrow> all_filled (secret_contents es)"
  shows "returns (snd (processSecretReferenceRefresh rt es p))"
proof (cases "secret_interval spec")
  case None
  then show ?thesis
    using assms(1) by (simp add: processSecretReferenceRefresh_def fine_pass_def with_options_def Let_def)
next
  case (Some interval)
  then obtain sr refresh where sr: "spec_Secret spec = Some sr" "sr_Refresh sr = Some refresh"
    by (auto simp: secret_interval_def split: option.splits)
  have spec: "pv_Spec (pr_Provider p) = spec" and refs: "placeable (solve_secrets (rc_ExistingK8sSecrets (pr_State p)) [])"
    using assms(1) Some by (simp_all add: fine_pass_def)
  let ?I = "\<lambda>q :: 's processor. I (pr_Retriever q) \<and> pr_Resolver q = None \<and> pr_State q = pr_State p"
  have resolved: "triple ?I (resolve_unversioned rt es advance) (\<lambda>_ _. True) (\<lambda>_ _. True) (\<lambda>_. False)" for advance
  proof (rule tripleI)
    fix q assume q: "?I q"
    obtain s r where c: "rt_ResolveSecretReferences rt (solve_secrets (rc_ExistingK8sSecrets (pr_State p)) []) None (pr_Retriever q) = (s, r)"
      by fastforce
    have good: "gives (\<lambda>t. all_filled (tg_SecretSettings t)) r"
      using safelyD(2) [OF references_return [OF refs] _ c] q by blast
    show "ends (\<lambda>_ _. True) (\<lambda>_ _. True) (\<lambda>_. False) (resolve_unversioned rt es advance q)"
    proof (cases r)
      case (Ok t)
      then have "returns (update_secrets (secret_contents es) (tg_SecretSettings t))"
        using good update_filled [OF assms(2)] Some by simp
      then show ?thesis
        using q c Ok by (cases "update_secrets (secret_contents es) (tg_SecretSettings t)")
          (simp_all add: resolve_unversioned_def call_def act_bind_def)
    qed (use q c good in \<open>simp_all add: resolve_unversioned_def call_def act_bind_def\<close>)
  qed
  have "ends (\<lambda>_ _. True) (\<lambda>_ _. True) (\<lambda>_. False) (processSecretReferenceRefresh rt es p)"
    using assms(1) tripleD [OF resolved]
    by (auto simp: processSecretReferenceRefresh_def spec Some sr deref_def fine_pass_def with_options_def with_state_def Let_def)
  then show ?thesis
    by (cases "processSecretReferenceRefresh rt es p"; cases "snd (processSecretReferenceRefresh rt es p)") auto
qed

lemma pass_returns:
  assumes "fine p" and "secret_interval spec \<noteq> None \<Longrightarrow> all_filled (secret_contents es)"
  shows "returns (snd (PopulateSettings rt cm es p))"
proof -
  let ?T = "\<lambda>_ _. True"
  have last: "triple fine (processSecretReferenceRefresh rt es) ?T ?T (\<lambda>_. False)"
  proof (rule tripleI)
    fix q assume "fine q"
    from secret_refresh_returns [OF this assms(2)]
    show "ends ?T ?T (\<lambda>_. False) (processSecretReferenceRefresh rt es q)"
      by (cases "processSecretReferenceRefresh rt es q"; cases "snd (processSecretReferenceRefresh rt es q)") auto
  qed
  have step: "triple fine (act_bind m f) ?T ?T (\<lambda>_. False)"
    if "safe fine m" "\<And>x. triple fine (f x) ?T ?T (\<lambda>_. False)" for m :: "('s processor, unit) act" and f :: "unit \<Rightarrow> ('s processor, unit) act"
    by (rule triple_bind [OF triple_conseq [OF safely_triple [OF that(1)]] that(2)]) simp_all
  have full: "safe fine (\<lambda>p. if pr_ShouldReconcile p then processFullReconciliation rt p else (p, Ok ()))"
    using safely_full by (auto simp: safely_iff)
  have "triple fine (PopulateSettings rt cm es) ?T ?T (\<lambda>_. False)"
    unfolding PopulateSettings_def
    by (intro step full safely_flag_refresh safely_key_value_refresh last safely_modify fine_update) simp_all
  from tripleD [OF this assms(1)] show ?thesis
    by (cases "PopulateSettings rt cm es p"; cases "snd (PopulateSettings rt cm es p)") auto
qed

end

section \<open>The loader\<close>

text \<open>In a context that is not sound nothing is promised.\<close>

lemma safely_guarded: "(b \<Longrightarrow> safely I Q m) \<Longrightarrow> safely (\<lambda>s. b \<and> I s) Q m"
  unfolding safely_iff by blast

interpretation returning_loader: returning_source "loader_retriever lc addr" "\<lambda>l. sound_context P spec lc \<and> fine_loader P spec l"
  spec "refs_placed spec" for lc addr P spec
proof (unfold_locales, goal_cases)
  case 1
  show ?case
    by (rule safely_guarded) (simp add: loader_retriever_def safely_CreateTargetSettings)
next
  case (2 provider eTags)
  then show ?case
    by (intro safely_guarded) (simp add: loader_retriever_def safely_CheckAndRefreshSentinels)
next
  case (3 pages)
  show ?case
    by (rule safely_guarded) (simp add: loader_retriever_def safely_CheckPageETags)
next
  case (4 existing)
  show ?case
    by (rule safely_guarded) (simp add: loader_retriever_def safely_RefreshKeyValueSettings)
next
  case (5 existing)
  then show ?case
    by (intro safely_guarded) (simp add: loader_retriever_def safely_RefreshFeatureFlagSettings)
next
  case (6 refs)
  show ?case
  proof (rule safely_guarded)
    assume "sound_context P spec lc"
    from safely_resolve_loader [OF this _ 6, of None]
    show "safely (fine_loader P spec) (\<lambda>t. all_filled (tg_SecretSettings t)) (rt_ResolveSecretReferences (loader_retriever lc addr) refs None)"
      by (simp add: loader_retriever_def safely_iff fine_loader_def)
  qed
qed

end
