(* ===== verification/Retriever_Contract.thy ===== *)
theory Retriever_Contract
  imports Processor Action_Logic
begin

text \<open>
  What the processor relies on when it writes the secrets that a retriever delivers: every
  secret with data is recorded in \<^verbatim>\<open>K8sSecrets\<close>, and so is the target secret of the
  specification.  The locale \<open>settings_source\<close> is this contract of the interface
  \<^verbatim>\<open>ConfigurationSettingsRetriever\<close>; the loader satisfies it.
\<close>

section \<open>The contract\<close>

definition target_secret :: "ProviderSpec \<Rightarrow> string option" where
  "target_secret spec = map_option (\<lambda>sr. sg_SecretName (sr_Target sr)) (spec_Secret spec)"

definition recorded :: "ProviderSpec \<Rightarrow> TargetKeyValueSettings \<Rightarrow> bool" where
  "recorded spec t \<longleftrightarrow>
     set (gokeys (tg_SecretSettings t)) \<subseteq> set (gokeys (tg_K8sSecrets t)) \<and>
     (\<forall>name. target_secret spec = Some name \<longrightarrow> name \<in> set (gokeys (tg_K8sSecrets t)))"

text \<open>The secrets of a state, empty or with the target secret.\<close>

definition secrets_known :: "ProviderSpec \<Rightarrow> k8s_secrets \<Rightarrow> bool" where
  "secrets_known spec secrets \<longleftrightarrow>
     secrets = [] \<or> (\<forall>name. target_secret spec = Some name \<longrightarrow> name \<in> set (gokeys secrets))"

lemma recorded_known: "recorded spec t \<Longrightarrow> secrets_known spec (tg_K8sSecrets t)"
  by (simp add: recorded_def secrets_known_def)

lemma golookup_key: "golookup m k = Some v \<Longrightarrow> k \<in> set (gokeys m)"
  by (metis gokeys_def map_of_eq_None_iff list.set_map option.distinct(1))

lemma update_secrets_keys: "update_secrets secrets new = Ok out \<Longrightarrow> set (gokeys out) = set (gokeys secrets)"
proof (induction secrets new rule: update_secrets.induct)
  case (2 secrets secretName resolved m)
  then show ?case
    using golookup_key [of secrets secretName] by (auto split: option.splits simp: insert_absorb)
qed simp

lemma gokeys_secret_contents [simp]: "gokeys (secret_contents es) = gokeys es"
  by (auto simp: gokeys_def secret_contents_def)

text \<open>\<open>spec_of\<close> is the specification that the retriever works with.\<close>

locale settings_source =
  fixes rt :: "'s retriever" and spec_of :: "'s \<Rightarrow> ProviderSpec"
  assumes created: "rt_CreateTargetSettings rt resolver s = (s', Ok t) \<Longrightarrow> recorded (spec_of s) t"
    and refreshed: "rt_RefreshKeyValueSettings rt existing resolver s = (s', Ok t) \<Longrightarrow> recorded (spec_of s) t"
    and same_spec: "spec_of (fst (rt_CheckPageETags rt pages s)) = spec_of s"
      "spec_of (fst (rt_RefreshFeatureFlagSettings rt existing s)) = spec_of s"
      "spec_of (fst (rt_CheckAndRefreshSentinels rt provider eTags s)) = spec_of s"
begin

lemma spec_kept:
  "rt_CheckPageETags rt pages s = (s', r1) \<Longrightarrow> spec_of s' = spec_of s"
  "rt_RefreshFeatureFlagSettings rt existing s = (s', r2) \<Longrightarrow> spec_of s' = spec_of s"
  "rt_CheckAndRefreshSentinels rt provider eTags s = (s', r3) \<Longrightarrow> spec_of s' = spec_of s"
  by (metis same_spec(1) fst_conv, metis same_spec(2) fst_conv, metis same_spec(3) fst_conv)

lemma flag_step:
  assumes "processFeatureFlagRefresh rt cm p = (p', Ok ())"
  shows "ro_SecretSettingPopulated (pr_Options p') = ro_SecretSettingPopulated (pr_Options p)
    \<and> pr_SharedSecrets p' = pr_SharedSecrets p \<and> (pr_ShouldReconcile p \<longrightarrow> pr_Settings p' = pr_Settings p)
    \<and> spec_of (pr_Retriever p') = spec_of (pr_Retriever p)"
  using assms by (auto simp: processFeatureFlagRefresh_def refresh_simps spec_kept split: refresh_splits)

lemma check_step:
  assumes "check_key_values rt r p = (p', Ok ())"
  shows "ro_SecretSettingPopulated (pr_Options p') = ro_SecretSettingPopulated (pr_Options p)
    \<and> pr_SharedSecrets p' = pr_SharedSecrets p \<and> pr_Settings p' = pr_Settings p \<and> pr_Provider p' = pr_Provider p
    \<and> spec_of (pr_Retriever p') = spec_of (pr_Retriever p)"
  using assms by (auto simp: check_key_values_def refresh_simps spec_kept split: refresh_splits)

text \<open>After the key-value refresh the secrets are recorded, or they are those from before.\<close>

lemma key_value_step:
  assumes "processKeyValueRefresh rt cm p = (p', Ok ())"
  shows "pr_SharedSecrets p' = pr_SharedSecrets p
    \<and> (pr_ShouldReconcile p \<longrightarrow>
        pr_Settings p' = pr_Settings p \<and> ro_SecretSettingPopulated (pr_Options p') = ro_SecretSettingPopulated (pr_Options p))
    \<and> (recorded (spec_of (pr_Retriever p)) (pr_Settings p')
       \<or> pr_Settings p' = pr_Settings p \<and> ro_SecretSettingPopulated (pr_Options p') = ro_SecretSettingPopulated (pr_Options p))"
proof (cases "key_value_refresh (pv_Spec (pr_Provider p))")
  case None
  then show ?thesis using assms by (auto simp: processKeyValueRefresh_def with_state_def)
next
  case (Some r)
  show ?thesis
  proof (cases "pr_ShouldReconcile p \<or> \<not> rc_NextKeyValueRefreshReconcileTime (pr_State p) < pr_CurrentTime p")
    case True
    then show ?thesis using assms Some by (auto simp: processKeyValueRefresh_def with_state_def with_options_def Let_def split: if_splits)
  next
    case False
    let ?p1 = "with_options (\<lambda>ro. ro\<lparr> ro_keyValueRefreshEnabled := True \<rparr>) p"
    obtain p2 where c: "check_key_values rt r ?p1 = (p2, Ok ())"
      and l: "load_key_values rt cm (with_state (\<lambda>st. st\<lparr> rc_NextKeyValueRefreshReconcileTime :=
          pr_CurrentTime p + duration_or_zero (dr_Interval r) \<rparr>)) p2 = (p', Ok ())"
      using assms Some False by (auto simp: processKeyValueRefresh_def act_bind_eq_Ok)
    show ?thesis
      using check_step [OF c] l False
      by (auto simp: load_key_values_def refresh_simps split: refresh_splits dest!: refreshed)
  qed
qed

lemma secret_step:
  assumes "processSecretReferenceRefresh rt es p = (p', Ok ())"
    and "set (gokeys es) \<subseteq> set (gokeys (rc_ExistingK8sSecrets (pr_State p)))"
    and "\<And>name. target_secret spec = Some name \<Longrightarrow> name \<in> set (gokeys (rc_ExistingK8sSecrets (pr_State p)))"
  shows "pr_Settings p' = pr_Settings p \<and> pr_SharedSecrets p' = pr_SharedSecrets p
      \<and> ro_SecretSettingPopulated (pr_Options p') = ro_SecretSettingPopulated (pr_Options p)
    \<or> recorded spec (pr_Settings p') \<and> tg_K8sSecrets (pr_Settings p') = rc_ExistingK8sSecrets (pr_State p)"
  using assms update_secrets_keys [of "secret_contents es"]
  by (auto simp: processSecretReferenceRefresh_def resolve_unversioned_def deref_def refresh_simps recorded_def
      split: refresh_splits)

text \<open>
  After a pass that populates the secrets they are recorded; a pass that does not populate them
  leaves a state that the generation vouches for.
\<close>

lemma pass_records:
  assumes "PopulateSettings rt cm es p = (p', Ok ())" and "pr_Options p = NewRefreshOptions" and "\<not> pr_SharedSecrets p"
    and "spec = pv_Spec (pr_Provider p)" and "spec_of (pr_Retriever p) = spec"
    and "pv_Generation (pr_Provider p) = rc_Generation (pr_State p) \<Longrightarrow> secrets_known spec (rc_ExistingK8sSecrets (pr_State p))"
    and "set (gokeys es) \<subseteq> set_option (target_secret spec) \<union> set (gokeys (rc_ExistingK8sSecrets (pr_State p)))"
  shows "(ro_SecretSettingPopulated (pr_Options p') \<longrightarrow> recorded spec (pr_Settings p'))
    \<and> (pr_SharedSecrets p' \<longrightarrow> tg_K8sSecrets (pr_Settings p') = rc_ExistingK8sSecrets (pr_State p))
    \<and> (\<not> ro_SecretSettingPopulated (pr_Options p') \<longrightarrow> spec_Secret spec = None
        \<or> pv_Generation (pr_Provider p) = rc_Generation (pr_State p))"
proof -
  obtain p0 p1 p2 where
    full: "if shouldReconcile p cm es then processFullReconciliation rt (p\<lparr> pr_ShouldReconcile := True \<rparr>) = (p0, Ok ())
     else p0 = p\<lparr> pr_ShouldReconcile := False \<rparr>"
    and ff: "processFeatureFlagRefresh rt cm p0 = (p1, Ok ())" and kv: "processKeyValueRefresh rt cm p1 = (p2, Ok ())"
    and se: "processSecretReferenceRefresh rt es p2 = (p', Ok ())"
    using assms(1) by (rule PopulateSettings_steps)
  note frames = feature_flag_gate.frame [OF ff] key_value_gate.frame [OF kv] feature_flag_frame [OF ff] key_value_frame [OF kv]
  have off: "\<not> ro_SecretSettingPopulated (pr_Options p)" "\<not> ro_secretReferenceRefreshEnabled (pr_Options p)"
    using assms(2) by (simp_all add: NewRefreshOptions_def)
  show ?thesis
  proof (cases "shouldReconcile p cm es")
    case True
    then have p0: "recorded spec (pr_Settings p0)" "\<not> pr_SharedSecrets p0" "pr_ShouldReconcile p0" "pr_Provider p0 = pr_Provider p"
      "ro_SecretSettingPopulated (pr_Options p0) = (spec_Secret spec \<noteq> None)" "\<not> ro_secretReferenceRefreshEnabled (pr_Options p0)"
      using full assms(3-5) off
      by (auto simp: processFullReconciliation_def refresh_simps split: refresh_splits dest!: created)
    then have p2: "recorded spec (pr_Settings p2)" "\<not> pr_SharedSecrets p2"
      "ro_SecretSettingPopulated (pr_Options p2) = (spec_Secret spec \<noteq> None)" "pr_Provider p2 = pr_Provider p"
      "\<not> ro_secretReferenceRefreshEnabled (pr_Options p2)"
      using flag_step [OF ff] key_value_step [OF kv] frames by auto
    then have "secret_interval spec = None \<or> ro_SecretSettingPopulated (pr_Options p2)"
      by (auto simp: secret_interval_def)
    then show ?thesis
      using se p2 assms(4) by (auto simp: processSecretReferenceRefresh_def deref_def refresh_simps split: refresh_splits)
  next
    case False
    then have gen: "pv_Generation (pr_Provider p) = rc_Generation (pr_State p)"
      and nonempty: "spec_Secret spec \<noteq> None \<Longrightarrow> rc_ExistingK8sSecrets (pr_State p) \<noteq> []"
      using assms(4) by (auto simp: shouldReconcile_def Let_def split: if_splits)
    have p0: "p0 = p\<lparr> pr_ShouldReconcile := False \<rparr>" using full False by simp
    have p1: "\<not> ro_SecretSettingPopulated (pr_Options p1)" "\<not> pr_SharedSecrets p1" "spec_of (pr_Retriever p1) = spec"
      using flag_step [OF ff] off(1) assms(3,5) by (auto simp: p0)
    have p2: "\<not> pr_SharedSecrets p2" "ro_SecretSettingPopulated (pr_Options p2) \<longrightarrow> recorded spec (pr_Settings p2)"
      using key_value_step [OF kv] p1 by auto
    have st: "rc_ExistingK8sSecrets (pr_State p2) = rc_ExistingK8sSecrets (pr_State p)" using frames by (auto simp: p0)
    have known: "name \<in> set (gokeys (rc_ExistingK8sSecrets (pr_State p)))" if "target_secret spec = Some name" for name
      using assms(6) [OF gen] nonempty that by (auto simp: secrets_known_def target_secret_def)
    then have "set (gokeys es) \<subseteq> set (gokeys (rc_ExistingK8sSecrets (pr_State p2)))"
      using assms(7) st by (auto simp: elem_set)
    from secret_step [OF se this, of spec] known show ?thesis
      using p2 gen st by auto
  qed
qed

end

section \<open>The loader satisfies the contract\<close>

text \<open>What holds while settings are processed: no data yet, and the target secret is there.\<close>

definition references_only :: "ProviderSpec \<Rightarrow> process_state \<Rightarrow> bool" where
  "references_only spec st \<longleftrightarrow>
     rw_SecretSettings (ps_raw st) = [] \<and>
     (\<forall>name. target_secret spec = Some name \<longrightarrow> name \<in> set (gokeys (rw_K8sSecrets (ps_raw st))))"

lemma store_reference_keys [simp]:
  "set (gokeys (rw_K8sSecrets (store_reference sn ty k md raw))) = insert sn (set (gokeys (rw_K8sSecrets raw)))"
  "rw_SecretSettings (store_reference sn ty k md raw) = rw_SecretSettings raw"
  by (simp_all add: store_reference_def Let_def)

lemma keeps_process_reference: "keeps (references_only spec) (process_reference lc key setting)"
  by (auto simp: keeps_def process_reference_def Let_def act_bind_lift act_bind_def references_only_def
      split: option.splits res.splits prod.splits)

lemma keeps_snapshot_client: "keeps (references_only spec) (snapshot_client lc)"
  by (auto simp: keeps_def snapshot_client_def Let_def references_only_def split: option.splits prod.splits res.splits list.splits)

lemma keeps_process_setting:
  assumes "\<And>settings. keeps (references_only spec) (nested settings)"
  shows "keeps (references_only spec) (process_setting lc b nested setting)"
proof -
  have snap: "keeps (references_only spec) (process_snapshot lc nested key ref)" for key ref
    unfolding process_snapshot_def
    by (intro keeps_bind keeps_lift keeps_get keeps_snapshot_client)
      (auto split: prod.split intro!: keeps_bind keeps_modify assms simp: references_only_def)
  show ?thesis
    using snap keeps_process_reference [of spec lc]
    by (auto simp: keeps_def process_setting_def process_plain_def store_setting_def Let_def references_only_def
        split: option.splits)
qed

lemma run_process_references:
  assumes "run_process lc settings (initial_raw spec etags) resolver l = (l', Ok st)"
  shows "references_only spec st"
proof -
  let ?s = "\<lparr> ps_loader = l, ps_raw = initial_raw spec etags, ps_resolver = resolver, ps_snapshotClient = None,
      ps_useAI = False, ps_useAIChat = False \<rparr>"
  have "keeps (references_only spec) (processSettings lc settings)"
    unfolding processSettings_def processNestedSettings_def
    by (intro keeps_iter keeps_process_setting keeps_return)
  moreover have "references_only spec ?s"
    by (auto simp: references_only_def initial_raw_def empty_raw_def target_secret_def gokeys_def split: option.split)
  ultimately have "references_only spec (fst (processSettings lc settings ?s))" by (simp add: keeps_def)
  then show ?thesis
    using assms by (auto simp: run_process_def split: prod.splits res.splits)
qed

lemma MergeSecret_keys:
  "MergeSecret secret new = Ok out \<Longrightarrow> set (gokeys out) = set (gokeys secret) \<union> set (gokeys new)"
proof (induction new arbitrary: secret)
  case (Cons kv new)
  obtain k v where kv: "kv = (k, v)" by fastforce
  obtain content where "MergeSecret (gostore k content secret) new = Ok out"
    using MergeSecret_step Cons.prems kv by blast
  from Cons.IH [OF this] show ?case by (simp add: kv gokeys_def AList.dom_update)
qed simp

definition raw_recorded :: "ProviderSpec \<Rightarrow> RawSettings \<Rightarrow> bool" where
  "raw_recorded spec raw \<longleftrightarrow>
     set (gokeys (rw_SecretSettings raw)) \<subseteq> set (gokeys (rw_K8sSecrets raw)) \<and>
     (\<forall>name. target_secret spec = Some name \<longrightarrow> name \<in> set (gokeys (rw_K8sSecrets raw)))"

lemma key_values_recorded:
  assumes "CreateKeyValueSettings lc resolver l = (l', Ok raw)"
  shows "raw_recorded (pv_Spec (ldr_Provider l)) raw"
proof -
  let ?spec = "pv_Spec (ldr_Provider l)"
  from assms obtain l1 settings etags l2 st create resolved secrets where
    st: "run_process lc settings (initial_raw ?spec etags) resolver l1 = (l2, Ok st)"
    and r: "ResolveSecretReferences (lc_codec lc) (lc_crypto lc) ?spec create (rw_K8sSecrets (ps_raw st)) (ps_resolver st) = Ok resolved"
    and m: "MergeSecret (rw_SecretSettings (ps_raw st)) (tg_SecretSettings resolved) = Ok secrets"
    and raw: "raw = (ps_raw st)\<lparr> rw_K8sSecrets := tg_K8sSecrets resolved, rw_SecretSettings := secrets \<rparr>"
    by (auto simp: CreateKeyValueSettings_def act_bind_eq_Ok)
  from r have keys: "gokeys (tg_SecretSettings resolved) = gokeys (rw_K8sSecrets (ps_raw st))"
    "tg_K8sSecrets resolved = rw_K8sSecrets (ps_raw st)"
    using list_all2_keys [OF resolve_all_entries] by (auto simp: ResolveSecretReferences_def)
  show ?thesis
    using run_process_references [OF st] MergeSecret_keys [OF m] keys
    by (simp add: raw_recorded_def raw references_only_def)
qed

lemma created_from:
  assumes "CreateTargetSettings lc addr resolver l = (l', Ok t)"
  obtains l1 raw where "CreateKeyValueSettings lc resolver l = (l1, Ok raw)" "tg_SecretSettings t = rw_SecretSettings raw"
    "tg_K8sSecrets t = rw_K8sSecrets raw"
proof -
  obtain l1 raw where raw: "CreateKeyValueSettings lc resolver l = (l1, Ok raw)"
    using assms unfolding CreateTargetSettings_def by (auto simp: act_bind_eq_Ok)
  then show thesis
    using assms that [OF raw] by (simp add: CreateTargetSettings_def act_bind_Ok)
      (auto simp: act_bind_eq_Ok simp del: split_paired_Ex split: if_splits prod.splits)
qed

lemma refreshed_from:
  assumes "RefreshKeyValueSettings lc existing resolver l = (l', Ok t)"
  obtains l1 raw where "CreateKeyValueSettings lc resolver l = (l1, Ok raw)" "tg_SecretSettings t = rw_SecretSettings raw"
    "tg_K8sSecrets t = rw_K8sSecrets raw"
proof -
  obtain l1 raw where raw: "CreateKeyValueSettings lc resolver l = (l1, Ok raw)"
    using assms unfolding RefreshKeyValueSettings_def by (auto simp: act_bind_eq_Ok)
  then show thesis
    using assms that [OF raw] by (simp add: RefreshKeyValueSettings_def act_bind_Ok)
      (auto simp: act_bind_eq_Ok split: if_splits prod.splits)
qed

text \<open>The provider of the loader is never changed.\<close>

abbreviation same_provider :: "Provider \<Rightarrow> loader \<Rightarrow> bool" where
  "same_provider provider l \<equiv> ldr_Provider l = provider"

lemma keeps_execute: "keeps (same_provider pv) (execute lc client)"
  by (simp add: keeps_def execute_provider)

lemma keeps_sentinel_loop: "keeps (same_provider pv) (sentinel_loop lc interval eTags changed refreshed)"
proof (induction eTags arbitrary: changed refreshed)
  case (Cons e eTags)
  then show ?case
    by (cases e) (auto intro!: keeps_bind keeps_execute keeps_lift split: option.split list.split)
qed (simp add: keeps_return)

lemma loader_frames:
  "keeps (same_provider pv) (CheckPageETags lc pages)"
  "keeps (same_provider pv) (CheckAndRefreshSentinels lc provider eTags)"
  "keeps (same_provider pv) (RefreshFeatureFlagSettings lc existing)"
  unfolding CheckPageETags_def CheckAndRefreshSentinels_def RefreshFeatureFlagSettings_def getFeatureFlagSettings_def
  by (auto intro!: keeps_bind keeps_execute keeps_lift keeps_get keeps_return keeps_sentinel_loop keeps_pure split: prod.split)

interpretation loader: settings_source "loader_retriever lc addr" "\<lambda>l. pv_Spec (ldr_Provider l)" for lc addr
proof
  fix l l' t resolver existing pages provider eTags
  show "recorded (pv_Spec (ldr_Provider l)) t" if "rt_CreateTargetSettings (loader_retriever lc addr) resolver l = (l', Ok t)"
    using that by (auto simp: loader_retriever_def recorded_def raw_recorded_def elim!: created_from dest!: key_values_recorded)
  show "recorded (pv_Spec (ldr_Provider l)) t" if "rt_RefreshKeyValueSettings (loader_retriever lc addr) existing resolver l = (l', Ok t)"
    using that by (auto simp: loader_retriever_def recorded_def raw_recorded_def elim!: refreshed_from dest!: key_values_recorded)
qed (simp_all add: loader_retriever_def loader_frames [unfolded keeps_def, rule_format, OF refl])

end
