(* ===== verification/Manager_Upkeep.thy ===== *)
theory Manager_Upkeep
  imports Pass_Returns Retriever_Contract
begin

text \<open>
  Whatever a pass does and however it ends, it leaves a client manager that can be used again:
  its clients talk to the stores they should talk to, and its invariant holds.
\<close>

abbreviation managed :: "(az_client \<Rightarrow> bool) \<Rightarrow> loader \<Rightarrow> bool" where
  "managed P l \<equiv> fine_manager P (ldr_Manager l)"

lemma keeps_managed_execute: "builds_all P lc \<Longrightarrow> keeps (managed P) (execute lc sc)"
proof -
  assume b: "builds_all P lc"
  show ?thesis
    unfolding keeps_def
  proof (intro allI impI)
    fix l assume l: "managed P l"
    let ?l = "l\<lparr> ldr_calls := Suc (ldr_calls l) \<rparr>" and ?ce = "lc_calls lc (ldr_calls l)"
    have "builds P (ce_env ?ce)" using b by (simp add: builds_all_def)
    then show "managed P (fst (execute lc sc l))"
      using l ExecuteFailoverPolicy_in_store [of P ?ce ?l] ExecuteFailoverPolicy_manager_ok [of ?l ?ce]
      by (simp add: execute_def fine_manager_def in_store_def)
  qed
qed

lemma managed_get_clients: "builds P (ce_env ce) \<Longrightarrow> managed P l \<Longrightarrow> get_clients ce l = (l', r) \<Longrightarrow> managed P l'"
  using get_clients_in_store [of P ce l] get_clients_manager_ok [of l ce]
  by (simp add: fine_manager_def in_store_def)

section \<open>Processing settings\<close>

abbreviation managed_process :: "(az_client \<Rightarrow> bool) \<Rightarrow> process_state \<Rightarrow> bool" where
  "managed_process P st \<equiv> managed P (ps_loader st)"

lemma keeps_managed_reference: "keeps (managed_process P) (process_reference lc key setting)"
  by (auto simp: keeps_def process_reference_def Let_def act_bind_lift act_bind_def
      split: option.splits res.splits prod.splits)

lemma keeps_managed_client: "builds_all P lc \<Longrightarrow> keeps (managed_process P) (snapshot_client lc)"
proof -
  assume "builds_all P lc"
  then have "managed P l'" if "get_clients (lc_calls lc (ldr_calls l)) (l\<lparr> ldr_calls := Suc (ldr_calls l) \<rparr>) = (l', r)" "managed P l" for l l' r
    using managed_get_clients [OF _ _ that(1), of P] that(2) by (simp add: builds_all_def)
  then show ?thesis
    by (auto simp: keeps_def snapshot_client_def Let_def split: option.splits prod.splits res.splits list.splits)
qed

lemma keeps_managed_setting:
  assumes "builds_all P lc" and "\<And>settings. keeps (managed_process P) (nested settings)"
  shows "keeps (managed_process P) (process_setting lc b nested setting)"
proof -
  have snap: "keeps (managed_process P) (process_snapshot lc nested key ref)" for key ref
    unfolding process_snapshot_def
    by (intro keeps_bind keeps_lift keeps_get keeps_managed_client [OF assms(1)])
      (auto split: prod.split intro!: keeps_bind keeps_modify assms(2))
  show ?thesis
    using snap keeps_managed_reference [of P lc]
    by (auto simp: keeps_def process_setting_def process_plain_def Let_def split: option.splits)
qed

lemma keeps_managed_process:
  assumes "builds_all P lc"
  shows "keeps (managed P) (run_process lc settings raw resolver)"
proof -
  have "keeps (managed_process P) (processSettings lc settings)"
    unfolding processSettings_def processNestedSettings_def
    by (intro keeps_iter keeps_managed_setting assms keeps_return)
  then show ?thesis
    by (auto simp: keeps_def run_process_def split: prod.split res.split) (metis fst_conv process_state.select_convs(1))+
qed

section \<open>The loader and the pass\<close>

lemma keeps_managed_sentinels: "builds_all P lc \<Longrightarrow> keeps (managed P) (sentinel_loop lc interval eTags changed refreshed)"
proof (induction eTags arbitrary: changed refreshed)
  case (Cons e eTags)
  then show ?case
    by (cases e) (auto intro!: keeps_bind keeps_managed_execute keeps_lift split: option.split list.split)
qed (simp add: keeps_return)

lemma keeps_managed_loading:
  assumes "builds_all P lc"
  shows "keeps (managed P) (CreateKeyValueSettings lc resolver)"
    "keeps (managed P) (CheckPageETags lc pages)"
    "keeps (managed P) (CheckAndRefreshSentinels lc provider eTags)"
    "keeps (managed P) (getFeatureFlagSettings lc)"
proof -
  have mark: "keeps (managed P) (act_modify (\<lambda>l. l\<lparr> ldr_Tracing := f l \<rparr>))" for f
    by (rule keeps_modify) simp
  show "keeps (managed P) (CreateKeyValueSettings lc resolver)"
    unfolding CreateKeyValueSettings_def
    by (intro keeps_intros keeps_managed_execute keeps_managed_process mark assms)
  show "keeps (managed P) (CheckPageETags lc pages)"
    unfolding CheckPageETags_def by (intro keeps_intros keeps_managed_execute assms)
  show "keeps (managed P) (CheckAndRefreshSentinels lc provider eTags)"
    by (auto simp: CheckAndRefreshSentinels_def intro!: keeps_intros keeps_managed_sentinels assms)
  show "keeps (managed P) (getFeatureFlagSettings lc)"
    unfolding getFeatureFlagSettings_def by (intro keeps_intros keeps_managed_execute assms)
qed

lemma keeps_managed_retriever:
  assumes "builds_all P lc"
  shows "keeps (managed P) (rt_CreateTargetSettings (loader_retriever lc addr) resolver)"
    "keeps (managed P) (rt_CheckAndRefreshSentinels (loader_retriever lc addr) provider eTags)"
    "keeps (managed P) (rt_CheckPageETags (loader_retriever lc addr) pages)"
    "keeps (managed P) (rt_RefreshKeyValueSettings (loader_retriever lc addr) existing resolver)"
    "keeps (managed P) (rt_RefreshFeatureFlagSettings (loader_retriever lc addr) existing)"
    "keeps (managed P) (rt_ResolveSecretReferences (loader_retriever lc addr) refs resolver)"
  unfolding loader_retriever_def CreateTargetSettings_def RefreshKeyValueSettings_def RefreshFeatureFlagSettings_def
  by (auto intro!: keeps_intros keeps_managed_loading assms split: option.split prod.split)

lemma pass_keeps_manager:
  assumes "builds_all P lc" and "managed P (pr_Retriever p)" and "PopulateSettings (loader_retriever lc addr) cm es p = (p', r)"
  shows "managed P (pr_Retriever p')"
proof -
  let ?rt = "loader_retriever lc addr" and ?I = "\<lambda>p. managed P (pr_Retriever p)"
  note calls = keeps_managed_retriever [OF assms(1), where addr = addr, THEN keeps_result, rotated]
  have full: "keeps ?I (\<lambda>p. if pr_ShouldReconcile p then processFullReconciliation ?rt p else (p, Ok ()))"
    by (auto simp: keeps_def processFullReconciliation_def refresh_simps split: refresh_splits dest: calls)
  have flags: "keeps ?I (processFeatureFlagRefresh ?rt cm)"
    by (auto simp: keeps_def processFeatureFlagRefresh_def refresh_simps split: refresh_splits dest: calls)
  have check: "keeps ?I (check_key_values ?rt r)" for r
    by (auto simp: keeps_def check_key_values_def refresh_simps split: refresh_splits dest: calls)
  have load: "keeps ?I (load_key_values ?rt cm advance)" if "\<And>p. pr_Retriever (advance p) = pr_Retriever p" for advance
    by (auto simp: keeps_def load_key_values_def refresh_simps that split: refresh_splits dest: calls)
  have "keeps ?I (act_bind (check_key_values ?rt r) (\<lambda>_. load_key_values ?rt cm (with_state g)))" for r g
    by (intro keeps_bind check load) (simp add: with_state_def)
  then have keys: "keeps ?I (processKeyValueRefresh ?rt cm)"
    by (simp add: keeps_def processKeyValueRefresh_def with_options_def with_state_def Let_def split: option.split)
  have secrets: "keeps ?I (processSecretReferenceRefresh ?rt es)"
    by (auto simp: keeps_def processSecretReferenceRefresh_def resolve_unversioned_def deref_def refresh_simps
        split: refresh_splits dest: calls)
  have "keeps ?I (PopulateSettings ?rt cm es)"
    unfolding PopulateSettings_def by (intro keeps_bind keeps_modify full flags keys secrets) simp
  from keeps_result [OF this assms(2,3)] show ?thesis .
qed

end
