(* ===== verification/Reconcile_States.thy ===== *)
theory Reconcile_States
  imports Throttling Manager_Upkeep
begin

text \<open>
  What a reconciliation does to the states the controller keeps, and where it may panic.  The
  secrets in a state stay known: empty, or with the target secret of the specification that
  the state was made from.  This is enough to show that nothing but loading settings panics.
\<close>

section \<open>Validation does not panic\<close>

lemma returns_each: "(\<And>x. returns (f x)) \<Longrightarrow> returns (verify_each f xs)"
  by (induction xs) auto

lemma returns_argument_error [simp]: "returns (argument_error field r) = returns r"
  by (cases r) (simp_all add: argument_error_def)

lemma returns_some: "(\<And>y. returns (f y)) \<Longrightarrow> returns (on_some f x)"
  by (simp add: on_some_def split: option.split)

lemma returns_if: "returns x \<Longrightarrow> returns y \<Longrightarrow> returns (if b then x else y)"
  by simp

lemma verify_returns [simp]:
  "returns (verifySelectorObject s)" "returns (verifyDataOptions opts path)" "returns (verifyEndpoint e)"
  "returns (verify_connection spec)"
  by (auto simp: verifySelectorObject_def verifyDataOptions_def verifyEndpoint_def verify_connection_def split: option.split)

lemma verifyWorkload_returns [simp]: "returns (verifyWorkloadIdentityParameters env wi)"
  unfolding verifyWorkloadIdentityParameters_def global_account_error_def Let_def
  by (intro returns_if returns_simps) (simp split: option.split)

lemma verifyAuthObject_returns [simp]: "returns (verifyAuthObject env au)"
  by (auto simp: verifyAuthObject_def split: option.split)

lemma verifyRefreshInterval_returns [simp]: "returns (verifyRefreshInterval i m arg)"
  using ParseDuration_no_panic [of i] by (auto simp: verifyRefreshInterval_def split: res.split)

lemma verify_sentinels_returns [simp]: "returns (verify_sentinels m ss)"
  by (induction m ss rule: verify_sentinels.induct) auto

lemma verifyObject_returns: "returns (verifyObject env spec)"
proof -
  have "returns (verify_feature_flag spec ff)" for ff
    by (auto simp: verify_feature_flag_def returns_each split: option.split)
  moreover have "returns (verify_vault env v)" for v
    by (auto simp: verify_vault_def)
  then have "returns (verify_secret env sr)" for sr
    by (auto simp: verify_secret_def returns_each split: option.split)
  moreover have "returns (verify_refresh r)" for r
    by (auto simp: verify_refresh_def split: option.split)
  ultimately show ?thesis
    by (auto simp: verifyObject_def returns_each intro!: returns_some)
qed

section \<open>States between reconciliations\<close>

text \<open>
  What the world around the controller promises: \<open>pm_Spec w req n\<close> is the specification of the
  provider \<open>req\<close> in its generation \<open>n\<close>, since the API server counts the generation up whenever the
  specification changes, and \<open>pm_Client w req\<close> holds of the clients that are made for this provider.
\<close>

record promises =
  pm_Spec :: "NamespacedName \<Rightarrow> int \<Rightarrow> ProviderSpec"
  pm_Client :: "NamespacedName \<Rightarrow> az_client \<Rightarrow> bool"

text \<open>A state that can be used again: its secrets are known, and so is its client manager.\<close>

definition state_ok :: "promises \<Rightarrow> NamespacedName \<Rightarrow> ReconciliationState \<Rightarrow> bool" where
  "state_ok w req st \<longleftrightarrow>
     secrets_known (pm_Spec w req (rc_Generation st)) (rc_ExistingK8sSecrets st) \<and>
     (\<forall>m. rc_ClientManager st = Some m \<longrightarrow> fine_manager (pm_Client w req) m)"

definition states_ok :: "promises \<Rightarrow> (NamespacedName, ReconciliationState) gomap \<Rightarrow> bool" where
  "states_ok w states \<longleftrightarrow> (\<forall>req st. golookup states req = Some st \<longrightarrow> state_ok w req st)"

lemma states_okD: "states_ok w states \<Longrightarrow> golookup states req = Some st \<Longrightarrow> state_ok w req st"
  unfolding states_ok_def by blast

lemma states_ok_store: "states_ok w states \<Longrightarrow> state_ok w req st \<Longrightarrow> states_ok w (gostore req st states)"
  by (simp add: states_ok_def)

lemma state_okD:
  assumes "state_ok w req st"
  shows "secrets_known (pm_Spec w req (rc_Generation st)) (rc_ExistingK8sSecrets st)"
    "rc_ClientManager st = Some m \<Longrightarrow> fine_manager (pm_Client w req) m"
  using assms by (simp_all add: state_ok_def)

text \<open>The state of the provider at hand, while its reconciliation runs.\<close>

definition at_hand :: "promises \<Rightarrow> NamespacedName \<Rightarrow> Provider \<Rightarrow> (ReconciliationState \<Rightarrow> bool) \<Rightarrow> run \<Rightarrow> bool" where
  "at_hand w req pv S r \<longleftrightarrow>
     same_object pv (run_Provider r) \<and> states_ok w (run_States r) \<and>
     (\<exists>st. golookup (run_States r) req = Some st \<and> S st)"

abbreviation anyhow :: "promises \<Rightarrow> NamespacedName \<Rightarrow> Provider \<Rightarrow> run \<Rightarrow> bool" where
  "anyhow w req pv \<equiv> at_hand w req pv (\<lambda>_. True)"

lemma at_hand_mono: "at_hand w req pv S r \<Longrightarrow> (\<And>st. S st \<Longrightarrow> S' st) \<Longrightarrow> at_hand w req pv S' r"
  by (auto simp: at_hand_def)

text \<open>
  An action that reads or changes nothing of the state and never panics; \<open>D\<close> is the panic the
  reconciliation may have had.
\<close>

definition still :: "Provider \<Rightarrow> (run, 'a) act \<Rightarrow> bool" where
  "still pv m \<longleftrightarrow> (\<forall>r. same_object pv (run_Provider r) \<longrightarrow>
     same_object pv (run_Provider (fst (m r))) \<and> run_States (fst (m r)) = run_States r \<and> returns (snd (m r)))"

lemma stillD:
  assumes "still pv m"
  shows "triple (at_hand w req pv S) m (\<lambda>_. at_hand w req pv S) (\<lambda>_. at_hand w req pv S) D"
proof (rule tripleI)
  fix r assume r: "at_hand w req pv S r"
  then have "at_hand w req pv S (fst (m r)) \<and> returns (snd (m r))"
    using assms by (auto simp: still_def at_hand_def)
  then show "ends (\<lambda>_. at_hand w req pv S) (\<lambda>_. at_hand w req pv S) D (m r)"
    by (cases "m r"; cases "snd (m r)") auto
qed

lemma triple_still:
  assumes "still pv m"
  shows "triple (at_hand w req pv S) m (\<lambda>_. at_hand w req pv S) (\<lambda>_. anyhow w req pv) D"
  by (rule triple_conseq [OF stillD [OF assms, where S = S]]) (auto intro: at_hand_mono)

lemma still_bind: "still pv m \<Longrightarrow> (\<And>x. still pv (f x)) \<Longrightarrow> still pv (act_bind m f)"
  unfolding still_def act_bind_def
  by (clarsimp split: prod.split res.split) (metis fst_conv snd_conv returns_simps(3))

lemma still_handle: "still pv m \<Longrightarrow> (\<And>e. still pv (h e)) \<Longrightarrow> (\<And>x. still pv (f x)) \<Longrightarrow> still pv (handle m h f)"
  unfolding still_def handle_def
  by (clarsimp split: prod.split res.split) (metis fst_conv snd_conv returns_simps(3))

lemma still_pure: "(\<And>r. same_object pv (run_Provider r) \<Longrightarrow> returns (x r)) \<Longrightarrow> still pv (\<lambda>r. (r, x r))"
  by (simp add: still_def)

lemma still_return: "still pv (act_return x)"
  by (simp add: still_def)

lemma still_get: "still pv (act_get f)"
  by (simp add: still_def)

lemma still_lift: "returns x \<Longrightarrow> still pv (act_lift x)"
  by (simp add: still_def)

lemma still_clock: "still pv (clock ke)"
  by (simp add: still_def clock_def)

lemma still_set_status: "still pv (set_status ke phase msg t)"
  by (simp add: still_def set_status_def clock_def act_bind_def Let_def same_object_def)

lemma still_fail_status: "still pv (logAndSetFailStatus ke e)"
  using still_set_status [of pv ke] by (simp add: still_def logAndSetFailStatus_def)

lemma still_failed_write: "still pv (failed_write ke e)"
  unfolding failed_write_def by (intro still_bind still_fail_status still_lift) simp

lemma still_write_annotations: "still pv (write_annotations ke)"
  unfolding write_annotations_def by (intro still_bind still_clock still_get)

lemma still_kube: "(\<And>n. returns (request n)) \<Longrightarrow> still pv (kube request event)"
  by (simp add: still_def kube_def Let_def)

section \<open>Reading objects\<close>

text \<open>The Kubernetes client answers with a value or an error.\<close>

definition kube_calm :: "kube_env \<Rightarrow> bool" where
  "kube_calm ke \<longleftrightarrow>
     (\<forall>n req. returns (ke_GetProvider ke n req)) \<and> (\<forall>n ns name. returns (ke_GetConfigMap ke n ns name)) \<and>
     (\<forall>n ns name. returns (ke_GetSecret ke n ns name)) \<and> (\<forall>p meta. returns (ke_SetControllerReference ke p meta)) \<and>
     (\<forall>n obj f. returns (ke_CreateOrUpdateConfigMap ke n obj f)) \<and> (\<forall>n obj f. returns (ke_CreateOrUpdateSecret ke n obj f)) \<and>
     (\<forall>n ns name. returns (ke_DeleteSecret ke n ns name))"

lemma verifyExistingTargetObject_returns [simp]: "returns (verifyExistingTargetObject meta name provider)"
  by (simp add: verifyExistingTargetObject_def)

lemma still_existing_target: "(\<And>n. returns (get n)) \<Longrightarrow> still pv (existing_target event get meta name)"
  by (auto simp: still_def existing_target_def kube_def Let_def split: res.split) (metis returns_simps(3))

lemma still_verify:
  assumes "kube_calm ke"
  shows "still pv (verify_ConfigMap ke)" "still pv (verify_Secret ke name)"
proof -
  have "still pv (existing_target e (\<lambda>n. ke_GetConfigMap ke n ns nm) cmo_Meta nm)"
    "still pv (existing_target e' (\<lambda>n. ke_GetSecret ke n ns nm) sco_Meta nm)" for e e' ns nm
    using assms by (auto simp: kube_calm_def intro: still_existing_target)
  then show "still pv (verify_ConfigMap ke)" "still pv (verify_Secret ke name)"
    by (simp_all add: still_def verify_ConfigMap_def verify_Secret_def Let_def)
qed

lemma still_collect:
  assumes "kube_calm ke"
  shows "still pv (collect_secrets ke names es)"
proof (induction names arbitrary: es)
  case (Cons name names)
  have "still pv (collectExistingSecret ke name es)"
    unfolding collectExistingSecret_def by (intro still_handle still_verify [OF assms] still_failed_write still_return)
  then show ?case using Cons.IH by (auto intro: still_bind)
qed (simp add: still_return)

lemma collect_keys:
  "collect_secrets ke names es r = (r', Ok es') \<Longrightarrow> set (gokeys es') \<subseteq> set (gokeys es) \<union> set names"
proof (induction names arbitrary: es r)
  case (Cons name names)
  show ?case
  proof (cases "golookup es name = None")
    case True
    then obtain r1 es1 where c: "collectExistingSecret ke name es r = (r1, Ok es1)" "collect_secrets ke names es1 r1 = (r', Ok es')"
      using Cons.prems by (auto simp: act_bind_eq_Ok)
    have "set (gokeys es1) \<subseteq> insert name (set (gokeys es))"
      using c(1) by (auto simp: collectExistingSecret_def handle_def failed_write_def act_bind_def
          split: prod.splits res.splits option.splits)
    then show ?thesis using Cons.IH [OF c(2)] by auto
  next
    case False
    then show ?thesis using Cons.prems Cons.IH [of es r] by auto
  qed
qed simp

text \<open>Every secret that was read is an answer of the API server.\<close>

definition answered :: "kube_env \<Rightarrow> (string, Secret) gomap \<Rightarrow> bool" where
  "answered ke es \<longleftrightarrow> (\<forall>(key, secret) \<in> set es. \<exists>n ns name. ke_GetSecret ke n ns name = Ok secret)"

lemma answered_collect: "collect_secrets ke names es r = (r', Ok es') \<Longrightarrow> answered ke es \<Longrightarrow> answered ke es'"
proof (induction names arbitrary: es r)
  case (Cons name names)
  show ?case
  proof (cases "golookup es name = None")
    case True
    then obtain r1 es1 where c: "collectExistingSecret ke name es r = (r1, Ok es1)" "collect_secrets ke names es1 r1 = (r', Ok es')"
      using Cons.prems by (auto simp: act_bind_eq_Ok)
    then obtain found where found: "verify_Secret ke name r = (r1, Ok found)"
      and es1: "es1 = (case found of None \<Rightarrow> es | Some secret \<Rightarrow> gostore name secret es)"
      by (auto simp: collectExistingSecret_def handle_def failed_write_def act_bind_def split: prod.splits res.splits)
    have "\<exists>n ns nm. ke_GetSecret ke n ns nm = Ok secret" if "found = Some secret" for secret
      using found that by (auto simp: verify_Secret_def existing_target_def kube_def Let_def split: res.splits if_splits)
    then have "answered ke es1"
      using Cons.prems(2) by (auto simp: answered_def es1 split: option.split dest!: set_gostore)
    then show ?thesis using Cons.IH [OF c(2)] by simp
  next
    case False
    then show ?thesis using Cons.prems Cons.IH [of es r] by auto
  qed
qed simp

lemma collected:
  "collect_secrets ke names [] r = (r', Ok es) \<Longrightarrow> set (gokeys es) \<subseteq> set names \<and> answered ke es"
  using collect_keys [of ke names "[]"] answered_collect [of ke names "[]"] by (auto simp: answered_def)

text \<open>The secrets that were read are known by their names.\<close>

definition read_names :: "kube_env \<Rightarrow> ProviderSpec \<Rightarrow> (string, Secret) gomap \<Rightarrow> ReconciliationState \<Rightarrow> bool" where
  "read_names ke spec es st \<longleftrightarrow>
     answered ke es \<and>
     set (gokeys es) \<subseteq> set_option (target_secret spec) \<union> set (gokeys (rc_ExistingK8sSecrets st)) \<and>
     (spec_Secret spec = None \<longrightarrow> es = [])"

lemma triple_get_state:
  "triple (at_hand w req pv S) (get_state req)
     (\<lambda>st r. at_hand w req pv S r \<and> golookup (run_States r) req = Some st) E D"
  by (rule tripleI) (auto simp: get_state_def at_hand_def deref_def)

lemma triple_existing_secrets_known:
  assumes "kube_calm ke"
  shows "triple (anyhow w req pv) (existing_secrets ke req)
     (\<lambda>es. at_hand w req pv (read_names ke (pv_Spec pv) es)) (\<lambda>_. anyhow w req pv) D"
proof (rule tripleI)
  fix r assume r: "anyhow w req pv r"
  then have spec: "pv_Spec (run_Provider r) = pv_Spec pv" by (simp add: at_hand_def same_object_def)
  show "ends (\<lambda>es. at_hand w req pv (read_names ke (pv_Spec pv) es)) (\<lambda>_. anyhow w req pv) D (existing_secrets ke req r)"
  proof (cases "spec_Secret (pv_Spec pv)")
    case None
    then show ?thesis
      using r spec by (auto simp: existing_secrets_def at_hand_def read_names_def gokeys_def answered_def)
  next
    case (Some sr)
    let ?names = "\<lambda>st. sg_SecretName (sr_Target sr) # gokeys (rc_ExistingK8sSecrets st)"
    have "triple (anyhow w req pv) (act_bind (get_state req) (\<lambda>st. collect_secrets ke (?names st) []))
        (\<lambda>es. at_hand w req pv (read_names ke (pv_Spec pv) es)) (\<lambda>_. anyhow w req pv) D"
    proof (rule triple_bind [OF triple_get_state])
      fix st
      have keep: "triple (at_hand w req pv (\<lambda>s. s = st)) (collect_secrets ke (?names st) [])
          (\<lambda>_. at_hand w req pv (\<lambda>s. s = st)) (\<lambda>_. at_hand w req pv (\<lambda>s. s = st)) D"
        by (rule stillD [OF still_collect [OF assms]])
      have "triple (at_hand w req pv (\<lambda>s. s = st)) (collect_secrets ke (?names st) [])
          (\<lambda>es r. at_hand w req pv (\<lambda>s. s = st) r \<and> set (gokeys es) \<subseteq> set (?names st) \<and> answered ke es) (\<lambda>_. at_hand w req pv (\<lambda>s. s = st)) D"
        by (rule triple_conj [OF keep collected])
      then show "triple (\<lambda>r. anyhow w req pv r \<and> golookup (run_States r) req = Some st) (collect_secrets ke (?names st) [])
          (\<lambda>es. at_hand w req pv (read_names ke (pv_Spec pv) es)) (\<lambda>_. anyhow w req pv) D"
        by (rule triple_conseq) (auto simp: at_hand_def read_names_def target_secret_def Some)
    qed
    from tripleD [OF this r] show ?thesis by (simp add: existing_secrets_def spec Some)
  qed
qed

section \<open>Changing the state\<close>

lemma triple_update_state:
  assumes "\<And>st. S st \<Longrightarrow> S' (f st)" and "\<And>st. S st \<Longrightarrow> state_ok w req st \<Longrightarrow> state_ok w req (f st)"
  shows "triple (at_hand w req pv S) (update_state req f) (\<lambda>_. at_hand w req pv S') E D"
proof (rule tripleI)
  fix r assume r: "at_hand w req pv S r"
  then obtain st where st: "golookup (run_States r) req = Some st" "S st" and ok: "states_ok w (run_States r)" by (auto simp: at_hand_def)
  have "states_ok w (gostore req (f st) (run_States r))"
    by (rule states_ok_store [OF ok assms(2) [OF st(2) states_okD [OF ok st(1)]]])
  then show "ends (\<lambda>_. at_hand w req pv S') E D (update_state req f r)"
    using r st assms(1) by (simp add: update_state_def at_hand_def)
qed

text \<open>Forgetting versions keeps the names.\<close>

lemma reset_versions_kept:
  "rc_Generation (reset_versions spec found es st) = rc_Generation st"
  "gokeys (rc_ExistingK8sSecrets (reset_versions spec found es st)) =
     (if spec_Secret spec = None then [] else gokeys (rc_ExistingK8sSecrets st))"
  by (auto simp: reset_versions_def Let_def gokeys_def)

lemma secrets_known_keys: "gokeys a = gokeys b \<Longrightarrow> secrets_known spec a = secrets_known spec b"
  by (cases a; cases b) (auto simp: secrets_known_def gokeys_def)

lemma secrets_known_Nil [simp]: "secrets_known spec []"
  by (simp add: secrets_known_def)

lemma triple_reset_versions:
  "triple (at_hand w req pv (read_names ke (pv_Spec pv) es)) (update_state req (reset_versions (pv_Spec pv) found es))
     (\<lambda>_. at_hand w req pv (read_names ke (pv_Spec pv) es)) E D"
proof (rule triple_update_state)
  fix st
  let ?st = "reset_versions (pv_Spec pv) found es st"
  show "read_names ke (pv_Spec pv) es ?st" if "read_names ke (pv_Spec pv) es st"
    using that by (auto simp: read_names_def reset_versions_kept)
  show "state_ok w req ?st" if st: "state_ok w req st"
  proof -
    have "secrets_known (pm_Spec w req (rc_Generation ?st)) (rc_ExistingK8sSecrets ?st)"
    proof (cases "spec_Secret (pv_Spec pv) = None")
      case True
      then have "rc_ExistingK8sSecrets ?st = []" using reset_versions_kept(2) [of "pv_Spec pv" found es st] by (simp add: gokeys_def)
      then show ?thesis by simp
    next
      case False
      then have "gokeys (rc_ExistingK8sSecrets ?st) = gokeys (rc_ExistingK8sSecrets st)" by (auto simp: reset_versions_kept)
      from secrets_known_keys [OF this] show ?thesis using state_okD(1) [OF st] by (simp add: reset_versions_kept)
    qed
    then show ?thesis using st by (auto simp: state_ok_def reset_versions_def Let_def)
  qed
qed

lemma new_manager_fine:
  assumes "builds P env" and "NewConfigurationClientManager env provider = Ok m"
  shows "fine_manager P m"
  using assms NewConfigurationClientManager_ok [OF assms(2)]
  by (auto simp: fine_manager_def holds_def builds_def NewConfigurationClientManager_def fresh_wrapper_def Let_def
      split: option.splits)

lemma triple_ensure_client_manager:
  assumes "verifyObject env (pv_Spec pv) = Ok ()" and "library_calm env" and "builds (pm_Client w req) env"
    and "\<And>st m. S st \<Longrightarrow> S (st\<lparr> rc_ClientManager := m \<rparr>)"
  shows "triple (at_hand w req pv S) (ensure_client_manager env req)
     (\<lambda>m r. at_hand w req pv S r \<and> fine_manager (pm_Client w req) m) (\<lambda>_. at_hand w req pv S) D"
  unfolding ensure_client_manager_def
proof (rule triple_bind [OF triple_get_state], rule triple_bind)
  fix st
  let ?P = "\<lambda>r. at_hand w req pv S r \<and> golookup (run_States r) req = Some st"
    and ?Q = "\<lambda>m r. at_hand w req pv S r \<and> fine_manager (pm_Client w req) m" and ?E = "\<lambda>_. at_hand w req pv S"
  show "triple ?P (act_get run_Provider) (\<lambda>provider r. ?P r \<and> same_object pv provider) ?E D"
    by (rule triple_get) (auto simp: at_hand_def)
  fix provider
  have new: "triple (at_hand w req pv S) (act_lift (NewConfigurationClientManager env provider))
      (\<lambda>m r. at_hand w req pv S r \<and> fine_manager (pm_Client w req) m) ?E D" if "same_object pv provider"
    using manager_no_panic [of env provider] new_manager_fine [OF assms(3), of provider] that assms(1,2)
    by (intro triple_lift) (auto simp: same_object_def)
  have upd: "triple (\<lambda>r. at_hand w req pv S r \<and> fine_manager (pm_Client w req) m)
      (act_bind (update_state req (\<lambda>st. st\<lparr> rc_ClientManager := Some m \<rparr>)) (\<lambda>_. act_return m)) ?Q ?E D" for m
  proof (cases "fine_manager (pm_Client w req) m")
    case True
    have "triple (at_hand w req pv S) (update_state req (\<lambda>st. st\<lparr> rc_ClientManager := Some m \<rparr>)) (\<lambda>_. at_hand w req pv S) ?E D"
      by (rule triple_update_state) (use assms(4) True in \<open>auto simp: state_ok_def\<close>)
    then have "triple (at_hand w req pv S) (act_bind (update_state req (\<lambda>st. st\<lparr> rc_ClientManager := Some m \<rparr>)) (\<lambda>_. act_return m)) ?Q ?E D"
      by (rule triple_bind [OF _ triple_return]) (simp add: True)
    then show ?thesis by (rule triple_pre) simp
  qed (simp add: triple_def)
  have "triple ?P (act_lift (deref (rc_ClientManager st))) ?Q ?E D" if old: "rc_ClientManager st \<noteq> None"
  proof -
    obtain m where m: "rc_ClientManager st = Some m" using old by blast
    then have "fine_manager (pm_Client w req) m" if "at_hand w req pv S r" "golookup (run_States r) req = Some st" for r
      using that state_okD(2) [OF states_okD, of w "run_States r" req st m] by (simp add: at_hand_def)
    then show ?thesis by (auto simp: triple_def deref_def m)
  qed
  then show "triple (\<lambda>r. ?P r \<and> same_object pv provider)
      (if rc_ClientManager st = None \<or> rc_Generation st \<noteq> pv_Generation provider
       then act_bind (act_lift (NewConfigurationClientManager env provider)) (\<lambda>manager.
         act_bind (update_state req (\<lambda>st. st\<lparr> rc_ClientManager := Some manager \<rparr>)) (\<lambda>_. act_return manager))
       else act_lift (deref (rc_ClientManager st))) ?Q ?E D"
    using triple_bind [OF new upd] by (cases "same_object pv provider") (auto simp: triple_def)
qed

section \<open>Loading\<close>

text \<open>A pass over the provider panics, with the loader in some state.\<close>

definition loading_panics :: "(az_client \<Rightarrow> bool) \<Rightarrow> 'k reconcile_env \<Rightarrow> Provider \<Rightarrow> bool" where
  "loading_panics P re pv \<longleftrightarrow>
     (\<exists>startUp provider cm es l st now p q. same_object pv provider \<and> same_object pv (ldr_Provider l) \<and>
        fine_manager P (ldr_Manager l) \<and> ldr_SettingsClient l = None \<and>
        verifyObject (re_env re) (pv_Spec pv) = Ok () \<and> answered (re_kube re) es \<and>
        PopulateSettings (loader_retriever (with_startup startUp (re_ctx re)) (re_addr re)) cm es (new_processor l provider st now)
          = (p, Panic q))"

lemma keeps_stepI: "(\<And>s s' r. m s = (s', r) \<Longrightarrow> P s \<Longrightarrow> P s') \<Longrightarrow> keeps P m"
  by (metis keeps_def prod.collapse)

text \<open>A pass changes only the timers of the state.\<close>

lemma pass_keeps_secrets:
  assumes "PopulateSettings rt cm es p = (p', r)"
  shows "rc_Generation (pr_State p') = rc_Generation (pr_State p)
    \<and> rc_ExistingK8sSecrets (pr_State p') = rc_ExistingK8sSecrets (pr_State p)"
proof -
  let ?I = "\<lambda>q. rc_Generation (pr_State q) = rc_Generation (pr_State p)
    \<and> rc_ExistingK8sSecrets (pr_State q) = rc_ExistingK8sSecrets (pr_State p)"
  have full: "keeps ?I (\<lambda>p. if pr_ShouldReconcile p then processFullReconciliation rt p else (p, Ok ()))"
    by (rule keeps_stepI) (auto dest!: full_frame split: if_splits)
  have ff: "keeps ?I (processFeatureFlagRefresh rt cm)"
    by (rule keeps_stepI) (auto dest!: feature_flag_frame(1))
  have kv: "keeps ?I (processKeyValueRefresh rt cm)"
    by (rule keeps_stepI) (auto dest!: key_value_frame(1))
  have se: "keeps ?I (processSecretReferenceRefresh rt es)"
    by (rule keeps_stepI) (auto dest!: secret_frame(1))
  have "keeps ?I (PopulateSettings rt cm es)"
    unfolding PopulateSettings_def by (intro keeps_bind keeps_modify full ff kv se) simp
  from keeps_result [OF this _ assms] show ?thesis by simp
qed

definition populated :: "Provider \<Rightarrow> loader processor \<Rightarrow> ReconciliationState \<Rightarrow> bool" where
  "populated pv p st \<longleftrightarrow>
     (ro_SecretSettingPopulated (pr_Options p) \<longrightarrow> spec_Secret (pv_Spec pv) \<noteq> None \<and> recorded (pv_Spec pv) (pr_Settings p)) \<and>
     (pr_SharedSecrets p \<longrightarrow> tg_K8sSecrets (pr_Settings p) = rc_ExistingK8sSecrets st) \<and>
     (\<not> ro_SecretSettingPopulated (pr_Options p) \<longrightarrow> spec_Secret (pv_Spec pv) = None \<or> pv_Generation pv = rc_Generation st)"

lemma populate_eq:
  assumes "golookup (run_States r) req = Some st" and "re_Retriever re = None"
  obtains startUp now p result where
    "PopulateSettings (loader_retriever (with_startup startUp (re_ctx re)) (re_addr re)) cm es (new_processor l (run_Provider r) st now)
       = (p, result)"
    "populate re req cm es l r = (r\<lparr> run_Calls := Suc (run_Calls r),
       run_States := gostore req ((pr_State p)\<lparr> rc_ClientManager := Some (ldr_Manager (pr_Retriever p)) \<rparr>) (run_States r) \<rparr>,
       res_map (\<lambda>_. p) result)"
proof -
  let ?lc = "with_startup (rc_ConfigMapResourceVersion st = None) (re_ctx re)" and ?now = "ke_Now (re_kube re) (run_Calls r)"
  obtain p result where pass: "PopulateSettings (loader_retriever ?lc (re_addr re)) cm es (new_processor l (run_Provider r) st ?now) = (p, result)"
    by fastforce
  show thesis
    by (rule that [OF pass])
      (use pass assms in \<open>simp add: populate_def get_state_def clock_def act_bind_def deref_def update_state_def\<close>)
qed

text \<open>What the libraries and the API server promise for a reconciliation.\<close>

definition sound_env :: "'k reconcile_env \<Rightarrow> bool" where
  "sound_env re \<longleftrightarrow> re_Retriever re = None \<and> local_libraries (re_ctx re) \<and> library_calm (re_env re) \<and> kube_calm (re_kube re)"

definition builds_promised :: "promises \<Rightarrow> 'k reconcile_env \<Rightarrow> NamespacedName \<Rightarrow> bool" where
  "builds_promised w re req \<longleftrightarrow> builds (pm_Client w req) (re_env re) \<and> builds_all (pm_Client w req) (re_ctx re)"

lemma builds_all_startup [simp]: "builds_all P (with_startup b lc) = builds_all P lc"
  by (simp add: builds_all_def with_startup_def)

text \<open>The pass at hand has a loader that can be used, and reads nothing but answers.\<close>

definition loadable :: "promises \<Rightarrow> 'k reconcile_env \<Rightarrow> NamespacedName \<Rightarrow> Provider \<Rightarrow> loader \<Rightarrow> bool" where
  "loadable w re req pv l \<longleftrightarrow>
     same_object pv (ldr_Provider l) \<and> fine_manager (pm_Client w req) (ldr_Manager l) \<and> ldr_SettingsClient l = None \<and>
     verifyObject (re_env re) (pv_Spec pv) = Ok ()"

lemma triple_populate:
  assumes "sound_env re" and "builds_promised w re req" and "loadable w re req pv l" and "pm_Spec w req (pv_Generation pv) = pv_Spec pv"
  shows "triple (at_hand w req pv (read_names (re_kube re) (pv_Spec pv) es)) (populate re req cm es l)
     (\<lambda>p. at_hand w req pv (populated pv p)) (\<lambda>e r. anyhow w req pv r \<and> \<not> throttled e)
     (\<lambda>r. anyhow w req pv r \<and> loading_panics (pm_Client w req) re pv)"
proof (rule tripleI)
  fix r assume r: "at_hand w req pv (read_names (re_kube re) (pv_Spec pv) es) r"
  then obtain st where st: "golookup (run_States r) req = Some st" "read_names (re_kube re) (pv_Spec pv) es st"
    and so: "same_object pv (run_Provider r)" and ok: "states_ok w (run_States r)"
    by (auto simp: at_hand_def)
  have env: "re_Retriever re = None" "local_libraries (re_ctx re)" using assms(1) by (simp_all add: sound_env_def)
  obtain startUp now p result where
    pass: "PopulateSettings (loader_retriever (with_startup startUp (re_ctx re)) (re_addr re)) cm es (new_processor l (run_Provider r) st now)
       = (p, result)"
    and pop: "populate re req cm es l r = (r\<lparr> run_Calls := Suc (run_Calls r),
       run_States := gostore req ((pr_State p)\<lparr> rc_ClientManager := Some (ldr_Manager (pr_Retriever p)) \<rparr>) (run_States r) \<rparr>,
       res_map (\<lambda>_. p) result)"
    using populate_eq [OF st(1) env(1)] .
  let ?r = "fst (populate re req cm es l r)"
  have kept: "rc_Generation (pr_State p) = rc_Generation st" "rc_ExistingK8sSecrets (pr_State p) = rc_ExistingK8sSecrets st"
    using pass_keeps_secrets [OF pass] by (simp_all add: new_processor_def)
  have managed: "fine_manager (pm_Client w req) (ldr_Manager (pr_Retriever p))"
    by (rule pass_keeps_manager [OF _ _ pass]) (use assms(2,3) in \<open>simp_all add: builds_promised_def loadable_def new_processor_def\<close>)
  have known: "secrets_known (pm_Spec w req (rc_Generation st)) (rc_ExistingK8sSecrets st)"
    by (rule state_okD [OF states_okD [OF ok st(1)]])
  then have "state_ok w req ((pr_State p)\<lparr> rc_ClientManager := Some (ldr_Manager (pr_Retriever p)) \<rparr>)"
    using kept managed by (simp add: state_ok_def)
  then have at: "at_hand w req pv S ?r" if "S ((pr_State p)\<lparr> rc_ClientManager := Some (ldr_Manager (pr_Retriever p)) \<rparr>)" for S
    using that so ok by (auto simp: pop at_hand_def intro!: states_ok_store)
  have spec: "pv_Spec (run_Provider r) = pv_Spec pv" "pv_Generation (run_Provider r) = pv_Generation pv"
    using so by (simp_all add: same_object_def)
  show "ends (\<lambda>p. at_hand w req pv (populated pv p)) (\<lambda>e r. anyhow w req pv r \<and> \<not> throttled e)
     (\<lambda>r. anyhow w req pv r \<and> loading_panics (pm_Client w req) re pv) (populate re req cm es l r)"
  proof (cases result)
    case (Ok u)
    let ?p = "new_processor l (run_Provider r) st now"
    have vouch: "secrets_known (pv_Spec pv) (rc_ExistingK8sSecrets (pr_State ?p))" if "pv_Generation (pr_Provider ?p) = rc_Generation (pr_State ?p)"
      using that known assms(4) spec(2) by (simp add: new_processor_def)
    note records = loader.pass_records [OF pass [unfolded Ok, simplified] _ _ _ _ vouch]
    have "ro_SecretSettingPopulated (pr_Options p) \<Longrightarrow> spec_Secret (pv_Spec pv) \<noteq> None"
      using secretless_pass [OF pass [unfolded Ok, simplified]] spec(1) by (auto simp: new_processor_def)
    then have "populated pv p st"
      using records st(2) assms(3) [unfolded loadable_def same_object_def] spec by (simp add: populated_def new_processor_def read_names_def)
    then show ?thesis
      using at [of "populated pv p"] kept pop Ok by (simp add: populated_def)
  next
    case (Err e)
    then show ?thesis
      using at [of "\<lambda>_. True"] pop calm_populate [OF env(2,1), of req cm es l] by (auto simp: errs_iff)
  next
    case (Panic q)
    have "loading_panics (pm_Client w req) re pv"
      unfolding loading_panics_def
      by (intro exI conjI, rule so, use assms(3) st(2) pass Panic in \<open>auto simp: loadable_def read_names_def\<close>)
    then show ?thesis
      using at [of "\<lambda>_. True"] pop Panic by simp
  qed
qed

section \<open>Writing\<close>

text \<open>Recording versions changes no name, and a shared map stays shared.\<close>

definition writes :: "Provider \<Rightarrow> loader processor \<Rightarrow> string set \<Rightarrow> k8s_secrets \<Rightarrow> ReconciliationState \<Rightarrow> bool" where
  "writes pv p names secrets st \<longleftrightarrow>
     set (gokeys secrets) = names \<and> (pr_SharedSecrets p \<longrightarrow> secrets = rc_ExistingK8sSecrets st) \<and>
     populated pv (p\<lparr> pr_Settings := (pr_Settings p)\<lparr> tg_K8sSecrets := secrets \<rparr> \<rparr>) st"

lemma secrets_known_same_set:
  "set (gokeys a) = set (gokeys b) \<Longrightarrow> secrets_known spec a = secrets_known spec b"
  by (cases a; cases b) (auto simp: secrets_known_def gokeys_def)

lemma triple_record_version:
  assumes "name \<in> names"
  shows "triple (at_hand w req pv (writes pv p names secrets)) (record_version req (pr_SharedSecrets p) name version secrets)
     (\<lambda>secrets'. at_hand w req pv (writes pv p names secrets')) E D"
proof (cases "golookup secrets name")
  case None
  then have "name \<notin> set (gokeys secrets)" by (simp add: gokeys_def map_of_eq_None_iff)
  then show ?thesis using assms by (auto simp: triple_def at_hand_def writes_def)
next
  case (Some md)
  let ?secrets = "gostore name (md\<lparr> tk_SecretResourceVersion := version \<rparr>) secrets"
  have keys: "set (gokeys ?secrets) = set (gokeys secrets)"
    using golookup_key [OF Some] by (auto simp: insert_absorb)
  have rec: "recorded spec (t\<lparr> tg_K8sSecrets := ?secrets \<rparr>) = recorded spec (t\<lparr> tg_K8sSecrets := secrets \<rparr>)" for spec t
    using keys by (simp add: recorded_def)
  show ?thesis
  proof (cases "pr_SharedSecrets p")
    case True
    have "triple (at_hand w req pv (writes pv p names secrets)) (update_state req (\<lambda>st. st\<lparr> rc_ExistingK8sSecrets := ?secrets \<rparr>))
        (\<lambda>_. at_hand w req pv (writes pv p names ?secrets)) E D"
      by (rule triple_update_state)
        (use True keys rec secrets_known_same_set [OF keys] in \<open>auto simp: writes_def populated_def state_ok_def\<close>)
    from triple_bind [OF this triple_return] show ?thesis
      using True by (simp add: record_version_def Some Let_def)
  next
    case False
    then show ?thesis
      using keys rec by (auto simp: record_version_def Some Let_def triple_def at_hand_def writes_def populated_def)
  qed
qed

lemma still_write_secret: "kube_calm ke \<Longrightarrow> still pv (write_secret ke name content)"
proof -
  assume "kube_calm ke"
  then have "still pv (handle (act_lift (ke_SetControllerReference ke provider m)) (failed_write ke) (\<lambda>meta.
      act_bind (write_annotations ke) (\<lambda>annotations.
      handle (kube (\<lambda>n. ke_CreateOrUpdateSecret ke n (obj meta) (f annotations)) (WroteSecret name)) (failed_write ke) act_return)))" for provider m obj f
    by (intro still_handle still_bind still_lift still_failed_write still_write_annotations still_kube still_return)
      (auto simp: kube_calm_def)
  then show ?thesis by (simp add: still_def write_secret_def Let_def)
qed

lemma shouldCreateOrUpdateSecret_returns:
  "spec_Secret spec \<noteq> None \<Longrightarrow> returns (shouldCreateOrUpdateSecret cd spec settings name es)"
  by (auto simp: shouldCreateOrUpdateSecret_def deref_def Let_def split: option.split)

lemma skipped_secret_exists:
  "shouldCreateOrUpdateSecret cd spec settings name es = Ok False \<Longrightarrow> golookup es name \<noteq> None"
  by (cases "golookup es name") (simp_all add: shouldCreateOrUpdateSecret_def)

lemma triple_versions_recorded:
  assumes "kube_calm ke" and "spec_Secret (pv_Spec pv) \<noteq> None" and "set (gokeys rest) \<subseteq> names"
  shows "triple (at_hand w req pv (writes pv p names secrets))
     (secrets_loop ke cd req (pr_SharedSecrets p) settings es rest secrets)
     (\<lambda>secrets'. at_hand w req pv (writes pv p names secrets')) (\<lambda>_. anyhow w req pv) D"
  using assms(3)
proof (induction rest arbitrary: secrets)
  case Nil
  show ?case by (simp add: triple_def)
next
  case (Cons kv rest)
  obtain name secret where kv: "kv = (name, secret)" by fastforce
  let ?P = "\<lambda>secrets. at_hand w req pv (writes pv p names secrets)" and ?E = "\<lambda>_. anyhow w req pv"
  have name: "name \<in> names" and rest: "set (gokeys rest) \<subseteq> names" using Cons.prems by (auto simp: kv gokeys_def)
  have decide: "triple (?P secrets) (\<lambda>r. (r, shouldCreateOrUpdateSecret cd (pv_Spec (run_Provider r)) settings name es))
      (\<lambda>write r. ?P secrets r \<and> (\<not> write \<longrightarrow> golookup es name \<noteq> None)) ?E D"
    by (rule triple_conj [OF triple_still [OF still_pure]])
      (use assms(2) in \<open>auto simp: same_object_def intro!: shouldCreateOrUpdateSecret_returns dest!: skipped_secret_exists\<close>)
  have old: "triple (\<lambda>r. ?P secrets r \<and> golookup es name \<noteq> None) (act_bind (act_lift (deref (golookup es name))) (\<lambda>existing.
      record_version req (pr_SharedSecrets p) name (om_ResourceVersion (sco_Meta existing)) secrets)) ?P ?E D"
    using triple_record_version [OF name, of w req pv p secrets]
    by (auto simp: triple_def deref_def act_bind_lift)
  have new: "triple (?P secrets) (act_bind (write_secret ke name secret) (\<lambda>obj.
      record_version req (pr_SharedSecrets p) name (om_ResourceVersion (sco_Meta obj)) secrets)) ?P ?E D"
    by (rule triple_bind [OF triple_still [OF still_write_secret [OF assms(1)]] triple_record_version [OF name]])
  show ?case
    unfolding kv secrets_loop.simps
    by (rule triple_bind [OF decide], rule triple_bind [OF triple_if Cons.IH [OF rest]])
      (rule triple_pre [OF old], blast, rule triple_pre [OF new], blast)
qed

lemma still_expel: "kube_calm ke \<Longrightarrow> still pv (expelRemovedSecrets ke es refs)"
proof (induction es)
  case (Cons kv es)
  then show ?case
    by (cases kv) (auto simp: kube_calm_def intro!: still_bind still_get still_handle still_kube still_failed_write)
qed (simp add: still_return)

lemma triple_write_failed:
  "triple (at_hand w req pv S) (failed_write ke e) Q (\<lambda>_. at_hand w req pv S) D"
  unfolding failed_write_def
  by (rule triple_bind [OF stillD [OF still_fail_status]]) (simp add: triple_def)

lemma triple_configmap_written:
  assumes "kube_calm ke" and "provider_key pv = req" and "\<And>st v. S st \<Longrightarrow> S (st\<lparr> rc_ConfigMapResourceVersion := v \<rparr>)"
  shows "triple (at_hand w req pv S) (createOrUpdateConfigMap ke cd cm settings)
     (\<lambda>_. at_hand w req pv S) (\<lambda>_. anyhow w req pv) D"
proof -
  let ?P = "at_hand w req pv S" and ?E = "\<lambda>_. anyhow w req pv"
  have upd: "triple ?P (update_state req (\<lambda>st. st\<lparr> rc_ConfigMapResourceVersion := v \<rparr>)) (\<lambda>_. ?P) ?E D" for v
    by (rule triple_update_state) (use assms(3) in \<open>auto simp: state_ok_def\<close>)
  have written: "triple ?P (handle (act_lift (ke_SetControllerReference ke provider m)) (failed_write ke) (\<lambda>meta.
      act_bind (write_annotations ke) (\<lambda>annotations.
      handle (kube (\<lambda>n. ke_CreateOrUpdateConfigMap ke n (obj meta) (f annotations)) event) (failed_write ke)
        (\<lambda>x. update_state req (\<lambda>st. st\<lparr> rc_ConfigMapResourceVersion := g x \<rparr>))))) (\<lambda>_. ?P) ?E D" for provider m obj f g event
  proof (rule triple_handle [OF triple_still [OF still_lift]])
    show "returns (ke_SetControllerReference ke provider m)" using assms(1) by (simp add: kube_calm_def)
    show "triple (anyhow w req pv) (failed_write ke e) (\<lambda>_. ?P) ?E D" for e
      by (rule triple_write_failed)
    show "triple ?P (act_bind (write_annotations ke) (\<lambda>annotations.
        handle (kube (\<lambda>n. ke_CreateOrUpdateConfigMap ke n (obj meta) (f annotations)) event) (failed_write ke)
          (\<lambda>x. update_state req (\<lambda>st. st\<lparr> rc_ConfigMapResourceVersion := g x \<rparr>)))) (\<lambda>_. ?P) ?E D" for meta
      by (rule triple_bind [OF triple_still [OF still_write_annotations] triple_handle [OF triple_still [OF still_kube] triple_write_failed upd]])
        (use assms(1) in \<open>simp add: kube_calm_def\<close>)
  qed
  have key: "provider_key (run_Provider r) = req" if "?P r" for r
    using that assms(2) by (auto simp: at_hand_def same_object_def provider_key_def)
  show ?thesis
    by (rule tripleI) (simp add: createOrUpdateConfigMap_def Let_def key tripleD [OF written] tripleD [OF upd])
qed

lemma triple_targets_written:
  assumes "kube_calm (re_kube re)" and "provider_key pv = req"
  shows "triple (at_hand w req pv (populated pv p)) (write_targets re req cm es p)
     (\<lambda>p'. at_hand w req pv (populated pv p')) (\<lambda>_. anyhow w req pv) D"
proof -
  let ?P = "\<lambda>p. at_hand w req pv (populated pv p)" and ?E = "\<lambda>_. anyhow w req pv"
    and ?ke = "re_kube re" and ?cd = "lc_codec (re_ctx re)"
  let ?names = "set (gokeys (tg_K8sSecrets (pr_Settings p)))"
  let ?with = "\<lambda>secrets. p\<lparr> pr_Settings := (pr_Settings p)\<lparr> tg_K8sSecrets := secrets \<rparr> \<rparr>"
  have cm: "triple (?P p) (if ro_ConfigMapSettingPopulated (pr_Options p)
      then createOrUpdateConfigMap ?ke ?cd cm (pr_Settings p) else act_return ()) (\<lambda>_. ?P p) ?E D"
    by (rule triple_if [OF triple_configmap_written [OF assms] triple_return]) (auto simp: populated_def)
  have loop: "triple (?P p) (createOrUpdateSecrets ?ke ?cd req p es') ?P ?E D" if pop: "ro_SecretSettingPopulated (pr_Options p)" for es'
  proof (cases "spec_Secret (pv_Spec pv) \<noteq> None \<and> recorded (pv_Spec pv) (pr_Settings p)")
    case True
    have "triple (?P p) (secrets_loop ?ke ?cd req (pr_SharedSecrets p) (tg_SecretSettings (pr_Settings p)) es'
        (tg_SecretSettings (pr_Settings p)) (tg_K8sSecrets (pr_Settings p)))
        (\<lambda>secrets. at_hand w req pv (writes pv p ?names secrets)) ?E D"
      by (rule triple_pre [OF triple_versions_recorded [OF assms(1)]])
        (use True in \<open>auto simp: recorded_def writes_def populated_def elim!: at_hand_mono\<close>)
    then show ?thesis
      unfolding createOrUpdateSecrets_def
      by (rule triple_bind) (auto intro!: triple_return elim!: at_hand_mono simp: writes_def)
  next
    case False
    then show ?thesis using pop by (auto simp: triple_def at_hand_def populated_def)
  qed
  have secrets: "triple (?P p) (if ro_SecretSettingPopulated (pr_Options p) then
         act_bind (collect_secrets ?ke (gokeys (tg_SecretSettings (pr_Settings p))) es) (\<lambda>es.
         act_bind (createOrUpdateSecrets ?ke ?cd req p es) (\<lambda>p'. act_return (es, p')))
       else act_return (es, p)) (\<lambda>(es, p'). ?P p') ?E D"
    by (rule triple_if [OF triple_bind [OF triple_still [OF still_collect [OF assms(1)]] triple_bind [OF loop triple_return]] triple_return])
      simp_all
  have expel: "still pv (\<lambda>r. if c r then expelRemovedSecrets ?ke es refs r else (r, Ok ()))" for c es refs
    using still_expel [OF assms(1), of pv es refs] by (simp add: still_def)
  show ?thesis
    unfolding write_targets_def Let_def
    by (rule triple_bind [OF cm], rule triple_bind [OF secrets])
      (auto split: prod.split intro!: triple_bind [OF triple_still [OF expel]] triple_return)
qed

section \<open>The end of a reconciliation\<close>

lemma triple_finish_known:
  assumes "pm_Spec w req (pv_Generation pv) = pv_Spec pv"
  shows "triple (at_hand w req pv (populated pv p)) (finish ke req p) (\<lambda>_. anyhow w req pv) E D"
proof (rule tripleI)
  fix r assume r: "at_hand w req pv (populated pv p) r"
  then obtain st where st: "golookup (run_States r) req = Some st" "populated pv p st"
    and so: "same_object pv (run_Provider r)" and ok: "states_ok w (run_States r)"
    by (auto simp: at_hand_def)
  have gen: "pv_Generation (run_Provider r) = pv_Generation pv" using so by (simp add: same_object_def)
  note old = state_okD [OF states_okD [OF ok st(1)]]
  have known: "secrets_known (pv_Spec pv)
      (if ro_SecretSettingPopulated (pr_Options p) then tg_K8sSecrets (pr_Settings p) else rc_ExistingK8sSecrets st)"
    using old(1) st(2) assms by (auto simp: populated_def recorded_known) (auto simp: secrets_known_def target_secret_def)
  show "ends (\<lambda>_. anyhow w req pv) E D (finish ke req p r)"
    using so ok st(1) known assms gen old(2)
    by (auto simp: finish_def state_ok_def clock_def set_status_def get_state_def update_state_def act_bind_def deref_def Let_def
        Finish_def with_state_def finish_state_def at_hand_def same_object_def intro!: states_ok_store)
qed

lemma still_requeue:
  assumes "\<not> throttled e"
  shows "still pv (requeueWhenGetSettingsFailed ke e)"
  unfolding requeueWhenGetSettingsFailed_def
  by (rule still_bind [OF still_fail_status])
    (use assms in \<open>auto simp: is_new_ArgumentError_def throttled_def still_return split: option.split prod.split\<close>)

lemma still_fail: "still pv (act_bind (logAndSetFailStatus ke e) (\<lambda>_. act_return result))"
  by (intro still_bind still_fail_status still_return)

section \<open>The whole reconciliation\<close>

definition tidy :: "promises \<Rightarrow> Provider \<Rightarrow> run \<Rightarrow> bool" where
  "tidy w pv r \<longleftrightarrow> same_object pv (run_Provider r) \<and> states_ok w (run_States r)"

lemma tidy_at_hand: "at_hand w req pv S r \<Longrightarrow> tidy w pv r"
  by (simp add: at_hand_def tidy_def)

lemma triple_tidy:
  assumes "still pv m"
  shows "triple (tidy w pv) m (\<lambda>_. tidy w pv) (\<lambda>_. tidy w pv) D"
proof (rule tripleI)
  fix r assume r: "tidy w pv r"
  then have "tidy w pv (fst (m r)) \<and> returns (snd (m r))"
    using assms by (auto simp: still_def tidy_def)
  then show "ends (\<lambda>_. tidy w pv) (\<lambda>_. tidy w pv) D (m r)"
    by (cases "m r"; cases "snd (m r)") auto
qed

lemma triple_init_state:
  "triple (tidy w pv) (act_modify (init_state req)) (\<lambda>_. anyhow w req pv) E D"
  by (rule triple_modify)
    (auto simp: tidy_def init_state_def at_hand_def initial_state_def state_ok_def intro!: states_ok_store)

text \<open>A provider as the API server gives it: under its name, with the specification of its generation.\<close>

definition proper :: "promises \<Rightarrow> NamespacedName \<Rightarrow> Provider \<Rightarrow> bool" where
  "proper w req pv \<longleftrightarrow> provider_key pv = req \<and> pm_Spec w req (pv_Generation pv) = pv_Spec pv"

lemma triple_reconcile_verified:
  assumes "sound_env re" and "builds_promised w re req" and "proper w req pv" and "verifyObject (re_env re) (pv_Spec pv) = Ok ()"
  shows "triple (tidy w pv) (reconcile_verified re req found) (\<lambda>_. anyhow w req pv) (\<lambda>_. anyhow w req pv)
     (\<lambda>r. anyhow w req pv r \<and> loading_panics (pm_Client w req) re pv)"
proof -
  let ?A = "anyhow w req pv" and ?D = "\<lambda>r. anyhow w req pv r \<and> loading_panics (pm_Client w req) re pv"
  have env: "re_Retriever re = None" "local_libraries (re_ctx re)" "library_calm (re_env re)" "kube_calm (re_kube re)"
    using assms(1) by (simp_all add: sound_env_def)
  have pv: "provider_key pv = req" "pm_Spec w req (pv_Generation pv) = pv_Spec pv"
    using assms(3) by (simp_all add: proper_def)
  have fail: "triple ?A (act_bind (logAndSetFailStatus (re_kube re) e) (\<lambda>_. act_return result)) (\<lambda>_. ?A) (\<lambda>_. ?A) ?D" for e result
    by (rule triple_still [OF still_fail])
  have requeue: "triple (\<lambda>r. ?A r \<and> \<not> throttled e) (requeueWhenGetSettingsFailed (re_kube re) e) (\<lambda>_. ?A) (\<lambda>_. ?A) ?D" for e
    using triple_still [OF still_requeue] by (cases "throttled e") (auto simp: triple_def)
  have later: "triple ?A (act_return requeue_later) (\<lambda>_. ?A) (\<lambda>_. ?A) ?D" by (rule triple_return)
  let ?R = "\<lambda>es. at_hand w req pv (read_names (re_kube re) (pv_Spec pv) es)"
    and ?fail = "\<lambda>e. act_bind (logAndSetFailStatus (re_kube re) e) (\<lambda>_. act_return requeue_later)"
  have load: "triple (?R es) (handle (populate re req cm es l) (requeueWhenGetSettingsFailed (re_kube re)) (\<lambda>p.
         handle (write_targets re req cm es p) (\<lambda>_. act_return requeue_later) (\<lambda>p'. finish (re_kube re) req p')))
      (\<lambda>_. ?A) (\<lambda>_. ?A) ?D" if "loadable w re req pv l" for es cm l
    by (rule triple_handle [OF triple_populate [OF assms(1,2) that pv(2)] requeue
          triple_handle [OF triple_targets_written [OF env(4) pv(1)] later triple_finish_known [where w = w and req = req and pv = pv, OF pv(2)]]])
  have loaded: "triple (\<lambda>r. ?R es r \<and> fine_manager (pm_Client w req) manager) (act_bind (act_get run_Provider) (\<lambda>provider.
         handle (act_lift (NewConfigurationSettingLoader provider manager None)) ?fail (\<lambda>l.
         handle (populate re req cm es l) (requeueWhenGetSettingsFailed (re_kube re)) (\<lambda>p.
         handle (write_targets re req cm es p) (\<lambda>_. act_return requeue_later) (\<lambda>p'. finish (re_kube re) req p')))))
      (\<lambda>_. ?A) (\<lambda>_. ?A) ?D" for es manager cm
    by (rule tripleI, simp only: act_bind_get NewConfigurationSettingLoader_def handle_lift, rule tripleD [OF load])
      (use assms(4) in \<open>simp_all add: at_hand_def loadable_def\<close>)
  have ensured: "triple (?R es) (ensure_client_manager (re_env re) req)
      (\<lambda>m r. ?R es r \<and> fine_manager (pm_Client w req) m) (\<lambda>_. ?R es) ?D" for es
    by (rule triple_ensure_client_manager [OF assms(4) env(3)])
      (use assms(2) in \<open>simp_all add: read_names_def builds_promised_def\<close>)
  have failed: "triple (?R es) (?fail e) (\<lambda>_. ?A) (\<lambda>_. ?A) ?D" for es e
    by (rule triple_pre [OF fail]) (auto elim: at_hand_mono)
  have spec: "triple (?R es) (act_get (\<lambda>r. pv_Spec (run_Provider r))) (\<lambda>spec r. ?R es r \<and> spec = pv_Spec pv) (\<lambda>_. ?A) ?D" for es
    by (rule triple_get) (auto simp: at_hand_def same_object_def)
  have reset: "triple (\<lambda>r. ?R es r \<and> spec = pv_Spec pv) (update_state req (reset_versions spec found es)) (\<lambda>_. ?R es) (\<lambda>_. ?A) ?D" for es spec
    using triple_reset_versions [of w req pv "re_kube re" es found] by (auto simp: triple_def)
  show ?thesis
    unfolding reconcile_verified_def Let_def
    by (rule triple_bind [OF triple_init_state], rule triple_handle [OF triple_existing_secrets_known [OF env(4)] later],
        rule triple_bind [OF spec], rule triple_bind [OF reset], rule triple_handle [OF ensured failed loaded])
qed

lemma triple_reconcile_provider_known:
  assumes "sound_env re" and "builds_promised w re req" and "proper w req pv"
  shows "triple (tidy w pv) (reconcile_provider re req) (\<lambda>_. tidy w pv) (\<lambda>_. tidy w pv)
     (\<lambda>r. tidy w pv r \<and> loading_panics (pm_Client w req) re pv)"
proof -
  let ?T = "tidy w pv" and ?D = "\<lambda>r. tidy w pv r \<and> loading_panics (pm_Client w req) re pv" and ?ke = "re_kube re"
  let ?fail = "\<lambda>result e. act_bind (logAndSetFailStatus ?ke e) (\<lambda>_. act_return result)"
  have calm: "kube_calm ?ke" using assms(1) by (simp add: sound_env_def)
  have verified: "triple ?T (reconcile_verified re req found) (\<lambda>_. ?T) (\<lambda>_. ?T) ?D"
    if "verifyObject (re_env re) (pv_Spec pv) = Ok ()" for found
    by (rule triple_conseq [OF triple_reconcile_verified [OF assms that]]) (auto intro: tidy_at_hand)
  have checked: "triple (\<lambda>r. ?T r \<and> spec = pv_Spec pv) (handle (act_lift (verifyObject (re_env re) spec)) (?fail no_requeue) (\<lambda>_.
      handle (verify_ConfigMap ?ke) (?fail requeue_later) (reconcile_verified re req))) (\<lambda>_. ?T) (\<lambda>_. ?T) ?D" for spec
  proof (cases "verifyObject (re_env re) spec")
    case (Ok u)
    then show ?thesis
      using triple_handle [OF triple_tidy [OF still_verify(1) [OF calm]] triple_tidy [OF still_fail] verified]
      by (auto simp: triple_def)
  next
    case (Err e)
    have "triple ?T (?fail no_requeue e) (\<lambda>_. ?T) (\<lambda>_. ?T) ?D" by (rule triple_tidy [OF still_fail])
    then show ?thesis using Err by (simp add: triple_def)
  next
    case (Panic q)
    then show ?thesis using verifyObject_returns [of "re_env re" spec] by simp
  qed
  have spec: "triple ?T (act_get (\<lambda>r. pv_Spec (run_Provider r))) (\<lambda>spec r. ?T r \<and> spec = pv_Spec pv) (\<lambda>_. ?T) ?D"
    by (rule triple_get) (auto simp: tidy_def same_object_def)
  have "triple ?T (act_bind (set_status ?ke PhaseRunning SyncRunningMessage None) (\<lambda>_.
      act_bind (act_get (\<lambda>r. pv_Spec (run_Provider r))) (\<lambda>spec.
      handle (act_lift (verifyObject (re_env re) spec)) (?fail no_requeue) (\<lambda>_.
      handle (verify_ConfigMap ?ke) (?fail requeue_later) (reconcile_verified re req))))) (\<lambda>_. ?T) (\<lambda>_. ?T) ?D"
    by (rule triple_bind [OF triple_tidy [OF still_set_status] triple_bind [OF spec checked]])
  then show ?thesis
    by (simp add: triple_def reconcile_provider_def Let_def)
qed

lemma patch_status_states: "run_States (patch_status ke n r) = run_States r"
  by (induction ke n r rule: patch_status.induct) (auto simp: Let_def)

lemma states_ok_delete: "states_ok w states \<Longrightarrow> states_ok w (godelete req states)"
  unfolding states_ok_def by (metis delete_conv' fun_upd_apply option.distinct(1))

lemma Reconcile_known:
  assumes "sound_env re" and "builds_promised w re req" and "states_ok w (run_States r)"
    and "\<And>provider. ke_GetProvider (re_kube re) (run_Calls r) req = Ok provider \<Longrightarrow> proper w req provider"
    and "Reconcile re req r = (r', res)"
  shows "states_ok w (run_States r')
    \<and> (\<forall>q. res = Panic q \<longrightarrow> (\<exists>provider. ke_GetProvider (re_kube re) (run_Calls r) req = Ok provider \<and> loading_panics (pm_Client w req) re provider))"
proof (cases "ke_GetProvider (re_kube re) (run_Calls r) req")
  case (Ok provider)
  define p where "p = (if st_Phase (pv_Status provider) = PhaseUnset
      then provider\<lparr> pv_Status := (pv_Status provider)\<lparr> st_Phase := PhasePending \<rparr> \<rparr> else provider)"
  let ?r = "r\<lparr> run_Calls := Suc (run_Calls r), run_Provider := p \<rparr>"
  obtain r2 where r2: "reconcile_provider re req ?r = (r2, res)" and r': "r' = patch_status (re_kube re) RetryAttempt r2"
    using assms(5) Ok unfolding p_def by (auto simp: Reconcile_def Let_def split: prod.splits)
  have "tidy w provider ?r" using assms(3) by (simp add: tidy_def same_object_def p_def)
  from tripleD [OF triple_reconcile_provider_known [OF assms(1,2) assms(4) [OF Ok]] this] show ?thesis
    using Ok by (cases res) (auto simp: r2 r' patch_status_states tidy_def)
next
  case (Err e)
  then show ?thesis using assms(3,5) by (auto simp: Reconcile_def Let_def states_ok_delete split: if_splits)
next
  case (Panic q)
  then show ?thesis using assms(1) by (metis sound_env_def kube_calm_def returns_simps(3))
qed

end
