(* ===== verification/Controller_History.thy ===== *)
theory Controller_History
  imports Reconcile_States
begin

text \<open>
  The controller over time: the reconciliations of all providers, one after the other, from
  the start of the controller on.  The secrets it keeps between them stay known, and a
  reconciliation that panics, which it does only while it loads settings, leaves its provider
  with a status that blocks every later reconciliation.
\<close>

section \<open>Where a panic leaves the provider\<close>

definition running :: "run \<Rightarrow> bool" where
  "running r \<longleftrightarrow> st_Phase (pv_Status (run_Provider r)) = PhaseRunning"

definition under_way :: "NamespacedName \<Rightarrow> run \<Rightarrow> bool" where
  "under_way req r \<longleftrightarrow> running r \<and> golookup (run_States r) req \<noteq> None"

text \<open>An action that changes the status only when it gives an error, and keeps the state.\<close>

definition steady :: "NamespacedName \<Rightarrow> (run, 'a) act \<Rightarrow> bool" where
  "steady req m \<longleftrightarrow> triple (under_way req) m (\<lambda>_. under_way req) (\<lambda>_ _. True) (under_way req)"

lemma steadyD: "steady req m \<Longrightarrow> triple (under_way req) m (\<lambda>_. under_way req) (\<lambda>_ _. True) running"
  unfolding steady_def by (erule triple_conseq) (auto simp: under_way_def)

lemma steadyI: "keeps (under_way req) m \<Longrightarrow> steady req m"
  unfolding steady_def by (rule triple_conseq [OF keepsD]) auto

lemma steady_bind: "steady req m \<Longrightarrow> (\<And>x. steady req (f x)) \<Longrightarrow> steady req (act_bind m f)"
  unfolding steady_def by (rule triple_bind)

lemma triple_ends_in_error: "triple (\<lambda>_. True) (failed_write ke e) Q (\<lambda>_ _. True) D"
  by (auto simp: triple_def failed_write_def logAndSetFailStatus_def set_status_def clock_def act_bind_def)

lemma steady_handle: "steady req m \<Longrightarrow> (\<And>x. steady req (f x)) \<Longrightarrow> steady req (handle m (failed_write ke) f)"
  unfolding steady_def by (rule triple_handle [OF _ triple_ends_in_error])

lemma steady_update_state: "steady req (update_state key f)"
  by (rule steadyI) (auto simp: keeps_def update_state_def under_way_def running_def split: option.split)

lemma steady_get_state: "steady req (get_state key)"
  by (rule steadyI) (simp add: keeps_def get_state_def)

lemma steady_kube: "steady req (kube request event)" "steady req (clock ke)" "steady req (write_annotations ke)"
  by (rule steadyI, simp add: keeps_def kube_def clock_def write_annotations_def act_bind_def under_way_def running_def Let_def)+

lemma steady_return: "steady req (act_return x)"
  by (rule steadyI) (rule keeps_return)

lemma steady_get: "steady req (act_get f)"
  by (rule steadyI) (rule keeps_get)

lemma steady_lift: "steady req (act_lift x)"
  by (rule steadyI) (rule keeps_lift)

lemma existing_target_frame:
  "run_Provider (fst (existing_target event get meta name r)) = run_Provider r"
  "run_States (fst (existing_target event get meta name r)) = run_States r"
  by (auto simp: existing_target_def kube_def Let_def split: res.split)

lemma steady_verify_Secret: "steady req (verify_Secret ke name)"
  by (rule steadyI) (simp add: keeps_def verify_Secret_def existing_target_frame under_way_def running_def)

lemmas steady_intros = steady_bind steady_handle steady_update_state steady_get_state steady_kube steady_return steady_get steady_lift

lemma steady_collect: "steady req (collect_secrets ke names es)"
proof (induction names arbitrary: es)
  case (Cons name names)
  then show ?case
    by (auto simp: collectExistingSecret_def intro!: steady_intros steady_verify_Secret)
qed (simp add: steady_return)

lemma steady_existing_secrets: "steady req (existing_secrets ke key)"
proof -
  have "steady req (act_bind (get_state key) (\<lambda>st. collect_secrets ke (name # gokeys (rc_ExistingK8sSecrets st)) []))" for name
    by (intro steady_intros steady_collect)
  then show ?thesis
    by (simp add: steady_def triple_def existing_secrets_def del: collect_secrets.simps split: option.split)
qed

lemma steady_ensure_client_manager: "steady req (ensure_client_manager env key)"
  unfolding ensure_client_manager_def by (auto intro!: steady_intros)

lemma steady_populate: "steady req (populate re key cm es l)"
  unfolding populate_def by (auto simp: Let_def intro!: steady_intros split: prod.split)

lemma steady_state: "(\<And>r0. steady req (m r0)) \<Longrightarrow> steady req (\<lambda>r. m r r)"
  by (simp add: steady_def triple_def)

lemma steady_createOrUpdateConfigMap: "steady req (createOrUpdateConfigMap ke cd cm settings)"
proof -
  have w: "steady req (handle (act_lift m) (failed_write ke) (\<lambda>x. act_bind (write_annotations ke) (\<lambda>y.
        handle (kube (g x y) event) (failed_write ke) (\<lambda>z. update_state key (h z)))))" for m :: "ObjectMeta res" and g event key h
    by (intro steady_intros)
  show ?thesis
    unfolding steady_def
    by (rule tripleI) (simp add: createOrUpdateConfigMap_def Let_def tripleD [OF w [unfolded steady_def]]
        tripleD [OF steady_update_state [unfolded steady_def]])
qed

lemma steady_write_secret: "steady req (write_secret ke name content)"
  unfolding write_secret_def Let_def by (rule steady_state) (intro steady_intros)

lemma steady_record_version: "steady req (record_version key shared name version k8sSecrets)"
  unfolding record_version_def by (auto simp: Let_def intro!: steady_intros split: option.split)

lemma steady_secrets_loop: "steady req (secrets_loop ke cd key shared settings es rest k8sSecrets)"
proof (induction rest arbitrary: k8sSecrets)
  case (Cons kv rest)
  have "steady req (\<lambda>r. (r, shouldCreateOrUpdateSecret cd (pv_Spec (run_Provider r)) settings name es))" for name
    by (rule steadyI) (rule keeps_pure)
  then show ?case
    using Cons.IH by (cases kv) (auto intro!: steady_intros steady_record_version steady_write_secret)
qed (simp add: steady_return)

lemma steady_expel: "steady req (expelRemovedSecrets ke es refs)"
proof (induction es)
  case (Cons kv es)
  then show ?case by (cases kv) (auto intro!: steady_intros)
qed (simp add: steadyI keeps_def)

lemma steady_write_targets: "steady req (write_targets re key cm es p)"
proof -
  have "steady req (\<lambda>r. if c r then expelRemovedSecrets ke es refs r else (r, Ok ()))" for c ke es refs
    using steady_expel [of req ke es refs] by (simp add: steady_def triple_def)
  then show ?thesis
    unfolding write_targets_def Let_def createOrUpdateSecrets_def
    by (auto intro!: steady_intros steady_createOrUpdateConfigMap steady_collect steady_secrets_loop split: prod.split)
qed

text \<open>Errors of loading are not throttling, so they are handled without a panic.\<close>

lemma triple_errs: "triple P m Q E F \<Longrightarrow> errs E' m \<Longrightarrow> triple P m Q E' F"
proof (rule tripleI)
  fix s assume m: "triple P m Q E F" "errs E' m" "P s"
  obtain s' x where "m s = (s', x)" by fastforce
  then show "ends Q E' F (m s)" using tripleD [OF m(1,3)] m(2) by (cases x) (auto simp: errs_iff)
qed

lemma triple_returns: "(\<And>pv. still pv m) \<Longrightarrow> triple P m (\<lambda>_ _. True) (\<lambda>_ _. True) D"
proof (rule tripleI)
  fix r assume "\<And>pv. still pv m"
  then have "returns (snd (m r))" by (metis still_def same_object_def)
  then show "ends (\<lambda>_ _. True) (\<lambda>_ _. True) D (m r)" by (cases "m r"; cases "snd (m r)") auto
qed

lemma triple_finish_returns: "triple (under_way req) (finish ke req p) (\<lambda>_ _. True) (\<lambda>_ _. True) D"
  by (rule tripleI)
    (auto simp: finish_def clock_def set_status_def get_state_def update_state_def act_bind_def deref_def Let_def
      Finish_def with_state_def under_way_def)

lemma triple_verified_running:
  assumes "sound_env re"
  shows "triple running (reconcile_verified re req found) (\<lambda>_ _. True) (\<lambda>_ _. True) running"
proof -
  have init: "triple running (act_modify (init_state req)) (\<lambda>_. under_way req) (\<lambda>_ _. True) running"
    by (rule triple_modify) (auto simp: init_state_def under_way_def running_def)
  have later: "triple (\<lambda>_. True) (act_return requeue_later) (\<lambda>_ _. True) (\<lambda>_ _. True) running"
    by (rule triple_return) simp
  have fail: "triple (\<lambda>_. True) (act_bind (logAndSetFailStatus (re_kube re) e) (\<lambda>_. act_return requeue_later))
      (\<lambda>_ _. True) (\<lambda>_ _. True) running" for e
    by (rule triple_returns [OF still_fail])
  have requeue: "triple (\<lambda>_. \<not> throttled e) (requeueWhenGetSettingsFailed (re_kube re) e) (\<lambda>_ _. True) (\<lambda>_ _. True) running" for e
    using triple_returns [OF still_requeue, of e] by (cases "throttled e") (auto simp: triple_def)
  have load: "triple (under_way req) (populate re req cm es l) (\<lambda>_. under_way req) (\<lambda>e _. \<not> throttled e) running" for cm es l
    by (rule triple_errs [OF steadyD [OF steady_populate] calm_populate]) (use assms in \<open>simp_all add: sound_env_def\<close>)
  show ?thesis
    unfolding reconcile_verified_def Let_def
    by (rule triple_bind [OF init], rule triple_handle [OF steadyD [OF steady_existing_secrets] later],
        rule triple_bind [OF steadyD [OF steady_get]], rule triple_bind [OF steadyD [OF steady_update_state]],
        rule triple_handle [OF steadyD [OF steady_ensure_client_manager] fail], rule triple_bind [OF steadyD [OF steady_get]],
        rule triple_handle [OF steadyD [OF steady_lift] fail], rule triple_handle [OF load requeue],
        rule triple_handle [OF steadyD [OF steady_write_targets] later triple_finish_returns])
qed

lemma reconcile_provider_running:
  assumes "sound_env re" and "reconcile_provider re req r = (r', Panic q)"
  shows "running r'"
proof -
  let ?ke = "re_kube re" and ?T = "\<lambda>_ _. True"
  let ?fail = "\<lambda>result e. act_bind (logAndSetFailStatus ?ke e) (\<lambda>_. act_return result)"
  have fail: "triple (\<lambda>_. True) (?fail result e) ?T ?T running" for result e
    by (rule triple_returns [OF still_fail])
  have started: "triple (\<lambda>_. True) (set_status ?ke PhaseRunning SyncRunningMessage None) (\<lambda>_. running) ?T running"
    by (simp add: triple_def set_status_def clock_def act_bind_def Let_def newProviderStatus_def running_def)
  have read: "triple running (verify_ConfigMap ?ke) (\<lambda>_. running) ?T running"
    by (rule triple_conseq [OF keepsD [of running]])
      (auto simp: keeps_def verify_ConfigMap_def Let_def running_def existing_target_frame)
  have "triple (\<lambda>_. True) (act_bind (set_status ?ke PhaseRunning SyncRunningMessage None) (\<lambda>_.
      act_bind (act_get (\<lambda>r. pv_Spec (run_Provider r))) (\<lambda>spec.
      handle (act_lift (verifyObject (re_env re) spec)) (?fail no_requeue) (\<lambda>_.
      handle (verify_ConfigMap ?ke) (?fail requeue_later) (reconcile_verified re req))))) ?T ?T running"
    by (rule triple_bind [OF started], rule triple_bind [OF triple_get [where Q = "\<lambda>_. running"]], assumption,
        rule triple_handle [OF triple_lift [where Q = "\<lambda>_. running" and E = ?T] fail
          triple_handle [OF read fail triple_verified_running [OF assms(1)]]]) simp_all
  from tripleD [OF this, of r] show ?thesis
    using assms(2) by (auto simp: reconcile_provider_def Let_def split: if_splits)
qed

lemma panic_status:
  assumes "sound_env re" and "Reconcile re req r = (r', Panic q)"
  shows "running r' \<and> (\<exists>before answer. run_Events r' = before @ [PatchedStatus (pv_Status (run_Provider r')) answer])"
proof -
  have "returns (ke_GetProvider (re_kube re) (run_Calls r) req)" using assms(1) unfolding sound_env_def kube_calm_def by blast
  then obtain provider where "ke_GetProvider (re_kube re) (run_Calls r) req = Ok provider"
    using assms(2) by (cases "ke_GetProvider (re_kube re) (run_Calls r) req") (auto simp: Reconcile_def Let_def split: if_splits)
  then obtain r1 r2 where "reconcile_provider re req r1 = (r2, Panic q)" and r': "r' = patch_status (re_kube re) RetryAttempt r2"
    using assms(2) by (auto simp: Reconcile_def Let_def split: prod.splits)
  then have "running r2" using reconcile_provider_running [OF assms(1)] by blast
  then show ?thesis
    using patch_status_last [of RetryAttempt "re_kube re" r2] by (simp add: r' RetryAttempt_def running_def)
qed

section \<open>Histories\<close>

text \<open>
  A reconciliation with libraries that keep their promises, also about the clients they make,
  and an API server that gives each provider under its name, with the specification of its
  generation.
\<close>

definition step_ok :: "promises \<Rightarrow> 'k reconcile_env \<Rightarrow> NamespacedName \<Rightarrow> run \<Rightarrow> bool" where
  "step_ok w re req r \<longleftrightarrow>
     sound_env re \<and> builds_promised w re req \<and>
     (\<forall>provider. ke_GetProvider (re_kube re) (run_Calls r) req = Ok provider \<longrightarrow> proper w req provider)"

text \<open>
  A client answers alike while a reconciliation runs.  Between two reconciliations the store
  behind a client that is kept may change: the wrapper stays, and its client answers otherwise.
\<close>

definition restock :: "(ConfigurationClientWrapper \<Rightarrow> az_client) \<Rightarrow> ReconciliationState \<Rightarrow> ReconciliationState" where
  "restock f st = st\<lparr> rc_ClientManager := map_option (\<lambda>m. m\<lparr>
     cm_StaticClientWrappers := map (\<lambda>cw. cw\<lparr> cw_Client := f cw \<rparr>) (cm_StaticClientWrappers m),
     cm_DynamicClientWrappers := map_option (map (\<lambda>cw. cw\<lparr> cw_Client := f cw \<rparr>)) (cm_DynamicClientWrappers m) \<rparr>) (rc_ClientManager st) \<rparr>"

lemma restock_same: "restock cw_Client st = st"
  by (cases "rc_ClientManager st") (simp_all add: restock_def option.map_id0 [unfolded id_def])

lemma slice_map [simp]: "slice (map_option (map g) xs) = map g (slice xs)"
  by (cases xs) simp_all

lemma restock_ok:
  assumes "state_ok w req st" and "\<And>cw. pm_Client w req (cw_Client cw) \<Longrightarrow> pm_Client w req (f cw)"
  shows "state_ok w req (restock f st)"
  using assms by (auto simp: state_ok_def restock_def fine_manager_def holds_def manager_ok_def trusted_replica_def list_all_iff)

text \<open>
  The steps are the reconciliations since the start.  Between them everything outside the
  controller may change, the stores behind the clients it keeps as well, as long as the
  clients keep what is promised of them, and a provider that is gone from the states may come
  back under its name with any specifications and any stores.
\<close>

inductive history :: "promises \<Rightarrow> ('k reconcile_env \<times> NamespacedName) list \<Rightarrow> run \<Rightarrow> bool" where
  start: "run_States r = [] \<Longrightarrow> history w [] r"
| reconciled: "history w steps r \<Longrightarrow> step_ok w re req r \<Longrightarrow> history w (steps @ [(re, req)]) (fst (Reconcile re req r))"
| meanwhile: "history w steps r \<Longrightarrow> (\<And>req cw. pm_Client w req (cw_Client cw) \<Longrightarrow> pm_Client w req (f req cw)) \<Longrightarrow>
    run_States r' = map (\<lambda>(req, st). (req, restock (f req) st)) (run_States r) \<Longrightarrow> history w steps r'"
| recreated: "history w steps r \<Longrightarrow> golookup (run_States r) req = None \<Longrightarrow> history
    (w\<lparr> pm_Spec := (pm_Spec w)(req := spec), pm_Client := (pm_Client w)(req := P) \<rparr>) steps r"

lemma history_unchanged: "history w steps r \<Longrightarrow> run_States r' = run_States r \<Longrightarrow> history w steps r'"
  by (rule history.meanwhile [where f = "\<lambda>_. cw_Client"]) (simp_all add: restock_same)

lemma golookup_restocked:
  "golookup (map (\<lambda>(req, st). (req, restock (f req) st)) states) req = map_option (restock (f req)) (golookup states req)"
  by (induction states) auto

lemma history_states: "history w steps r \<Longrightarrow> states_ok w (run_States r)"
proof (induction rule: history.induct)
  case (reconciled w steps r re req)
  obtain r' res where r: "Reconcile re req r = (r', res)" by fastforce
  have "states_ok w (run_States r')"
    using Reconcile_known [OF _ _ reconciled.IH _ r] reconciled.hyps by (auto simp: step_ok_def)
  then show ?case by (simp add: r)
next
  case (meanwhile w steps r f r')
  then show ?case by (auto simp: states_ok_def golookup_restocked intro: restock_ok)
next
  case (recreated w steps r req spec P)
  then show ?case by (auto simp: states_ok_def state_ok_def)
qed (simp_all add: states_ok_def)

section \<open>Properties\<close>

text \<open>
  C15. The secrets that the controller remembers of a provider are none, or they include the target
  secret of the specification in the generation it remembers, in every history of the
  controller.  So the target secret of a provider that is only refreshed is always known.
\<close>

theorem remembered_secrets:
  assumes "history w steps r" and "golookup (run_States r) req = Some st"
    and "spec_Secret (pm_Spec w req (rc_Generation st)) = Some sr" and "rc_ExistingK8sSecrets st \<noteq> []"
  shows "sg_SecretName (sr_Target sr) \<in> set (gokeys (rc_ExistingK8sSecrets st))"
proof -
  have "secrets_known (pm_Spec w req (rc_Generation st)) (rc_ExistingK8sSecrets st)"
    by (rule state_okD [OF states_okD [OF history_states [OF assms(1)] assms(2)]])
  then show ?thesis using assms(3,4) by (simp add: secrets_known_def target_secret_def)
qed

text \<open>
  C3. A reconciliation panics only while it loads settings, and then it blocks its provider.  In
  every history of the controller, with libraries that return errors and do not panic, a panic
  comes from a pass of the processor; the last thing done is to patch the status of the
  provider, which says that it is being reconciled; and as long as it says so, every later
  reconciliation of the provider ends at once and is not queued again.
\<close>

theorem panic_blocks_provider:
  fixes re :: "'k reconcile_env"
  assumes "history w steps r" and "step_ok w re req r" and "Reconcile re req r = (r', Panic q)"
  shows "(\<exists>provider. ke_GetProvider (re_kube re) (run_Calls r) req = Ok provider \<and> loading_panics (pm_Client w req) re provider)
    \<and> st_Phase (pv_Status (run_Provider r')) = PhaseRunning
    \<and> (\<exists>before answer. run_Events r' = before @ [PatchedStatus (pv_Status (run_Provider r')) answer])
    \<and> (\<forall>(re' :: 'k reconcile_env) r2 provider'. ke_GetProvider (re_kube re') (run_Calls r2) req = Ok provider'
         \<and> pv_Status provider' = pv_Status (run_Provider r')
         \<longrightarrow> (\<exists>r3. Reconcile re' req r2 = (r3, Ok no_requeue) \<and> run_States r3 = run_States r2))"
proof -
  have sound: "sound_env re" using assms(2) by (simp add: step_ok_def)
  have "\<exists>provider. ke_GetProvider (re_kube re) (run_Calls r) req = Ok provider \<and> loading_panics (pm_Client w req) re provider"
    using Reconcile_known [OF sound _ history_states [OF assms(1)] _ assms(3)] assms(2) by (auto simp: step_ok_def)
  moreover note p = panic_status [OF sound assms(3)]
  moreover have "\<exists>r3. Reconcile re' req r2 = (r3, Ok no_requeue) \<and> run_States r3 = run_States r2"
    if "ke_GetProvider (re_kube re') (run_Calls r2) req = Ok provider'" "pv_Status provider' = pv_Status (run_Provider r')"
    for re' :: "'k reconcile_env" and r2 provider'
    using p that by (simp add: Reconcile_def reconcile_provider_def Let_def patch_status_states running_def)
  ultimately show ?thesis unfolding running_def by blast
qed

section \<open>Witnesses\<close>

text \<open>Two keys with the same index in an array, rendered as a document, make the loader panic.\<close>

definition twin_provider :: Provider where
  "twin_provider = sample_provider\<lparr> pv_Spec := sample_spec\<lparr> spec_FeatureFlag := None,
     spec_Target := \<lparr> ct_ConfigMapName = ''settings'',
       ct_ConfigMapData = Some \<lparr> do_Type = Json, do_Key = ''settings.json'', do_Separator = Some '':'' \<rparr> \<rparr> \<rparr> \<rparr>"

definition twin_store :: az_client where
  "twin_store = client_of (\<lambda>q. [([plain_setting ''a:1'' ''x'', plain_setting ''a:01'' ''y''], ''e'')])"

definition twin_env :: "string reconcile_env" where
  "twin_env = (test_env twin_provider)\<lparr> re_env := uuid_env\<lparr> env_NewClient := (\<lambda>e c opts. Ok twin_store) \<rparr> \<rparr>"

lemma twin_panics: "snd (Reconcile twin_env (''default'', ''provider'') test_run) = Panic ''nil pointer dereference''"
  by code_simp

lemma sound_test_env:
  "kube_calm (test_kube provider)" "library_calm (uuid_env\<lparr> env_NewClient := (\<lambda>e c opts. Ok store) \<rparr>)"
  by (simp_all add: kube_calm_def test_kube_def library_calm_def uuid_env_def sample_env_def)

abbreviation keeping :: "Provider \<Rightarrow> promises" where
  "keeping provider \<equiv> \<lparr> pm_Spec = (\<lambda>req n. pv_Spec provider), pm_Client = (\<lambda>req c. True) \<rparr>"

lemma builds_anything [simp]: "builds (\<lambda>c. True) env" "builds_all (\<lambda>c. True) lc"
  by (simp_all add: builds_def builds_all_def)

lemma twin_step: "step_ok (keeping twin_provider) twin_env (''default'', ''provider'') r"
  by (simp add: step_ok_def builds_promised_def sound_env_def twin_env_def test_env_def sound_test_env local_test_ctx proper_def provider_key_def)
    (simp add: test_kube_def twin_provider_def sample_provider_def)

lemma start_test_run: "history w [] test_run"
  by (rule history.start) (simp add: test_run_def)

theorem panic_blocks_provider_witness:
  "st_Phase (pv_Status (run_Provider (fst (Reconcile twin_env (''default'', ''provider'') test_run)))) = PhaseRunning"
proof -
  obtain r' where r: "Reconcile twin_env (''default'', ''provider'') test_run = (r', Panic ''nil pointer dereference'')"
    using twin_panics by (metis prod.collapse)
  show ?thesis
    using panic_blocks_provider [OF start_test_run twin_step r] by (auto simp: r)
qed

text \<open>A provider with a secret section and no references: its target secret is remembered.\<close>

definition vault_provider :: Provider where
  "vault_provider = sample_provider\<lparr> pv_Spec := sample_spec\<lparr> spec_FeatureFlag := None,
     spec_Secret := Some (sample_secret_options\<lparr> sr_Auth := None \<rparr>) \<rparr> \<rparr>"

abbreviation vault_run :: run where
  "vault_run \<equiv> fst (Reconcile (test_env vault_provider) (''default'', ''provider'') test_run)"

lemma vault_state:
  "map_option (\<lambda>st. gokeys (rc_ExistingK8sSecrets st)) (golookup (run_States vault_run) (''default'', ''provider''))
   = Some [''secrets'']"
  by code_simp

lemma vault_history: "history (keeping vault_provider) [(test_env vault_provider, (''default'', ''provider''))] vault_run"
proof (rule history.reconciled [where steps = "[]", simplified, OF start_test_run])
  show "step_ok (keeping vault_provider) (test_env vault_provider) (''default'', ''provider'') test_run"
    by (simp add: step_ok_def builds_promised_def sound_env_def test_env_def sound_test_env local_test_ctx proper_def provider_key_def)
      (simp add: test_kube_def vault_provider_def sample_provider_def library_calm_def uuid_env_def sample_env_def)
qed

theorem remembered_secrets_witness:
  "\<exists>st. golookup (run_States vault_run) (''default'', ''provider'') = Some st \<and> ''secrets'' \<in> set (gokeys (rc_ExistingK8sSecrets st))"
proof -
  obtain st where st: "golookup (run_States vault_run) (''default'', ''provider'') = Some st" "rc_ExistingK8sSecrets st \<noteq> []"
    using vault_state by (auto simp: gokeys_def)
  have "spec_Secret (pm_Spec (keeping vault_provider) (''default'', ''provider'') (rc_Generation st)) = Some (sample_secret_options\<lparr> sr_Auth := None \<rparr>)"
    by (simp add: vault_provider_def)
  from remembered_secrets [OF vault_history st(1) this st(2)] show ?thesis
    using st(1) by (simp add: sample_secret_options_def)
qed

end
