(* ===== verification/Start_Up.thy ===== *)
theory Start_Up
  imports Event_Handler Controller_History
begin

text \<open>
  \<^verbatim>\<open>cmd/main.go\<close>, the registration in \<^verbatim>\<open>api/v1\<close> and \<^verbatim>\<open>SetupWithManager\<close>: what the process does
  until the manager runs, and how it ends.  The controller runtime, the Kubernetes client
  libraries and the flags they add are the fields of \<open>runtime_lib\<close>.
\<close>

section \<open>Data\<close>

record main_flags =
  mf_metricsAddr :: string
  mf_probeAddr :: string
  mf_enableLeaderElection :: bool

definition default_flags :: main_flags where
  "default_flags = \<lparr> mf_metricsAddr = '':8080'', mf_probeAddr = '':8081'', mf_enableLeaderElection = False \<rparr>"

record 'scheme manager_options =
  mo_Scheme :: 'scheme
  mo_MetricsBindAddress :: string
  mo_HealthProbeBindAddress :: string
  mo_LeaderElection :: bool
  mo_LeaderElectionID :: string

text \<open>The reconciler as \<^verbatim>\<open>main\<close> makes it; \<open>rec_Retriever\<close> is set by tests only.\<close>

record reconciler =
  rec_Retriever :: "loader retriever option"
  rec_States :: "(NamespacedName, ReconciliationState) gomap"

text \<open>What the builder of the controller runtime is told: the kinds watched and their predicates.\<close>

record controller_setup =
  cs_For :: "string \<times> (watch_event \<Rightarrow> bool)"
  cs_Watches :: "(string \<times> (watch_event \<Rightarrow> NamespacedName list \<Rightarrow> NamespacedName list) \<times> (watch_event \<Rightarrow> bool)) list"
  cs_Reconciler :: reconciler

datatype exit = Exit nat | Crash string

datatype log_entry = LogInfo string | LogError go_error string

record ('cfg, 'mgr, 'scheme, 'builder) runtime_lib =
  rl_NewScheme :: 'scheme
  rl_ClientGoAddToScheme :: "'scheme \<Rightarrow> 'scheme res"
  rl_Register :: "string \<Rightarrow> string list \<Rightarrow> 'builder"
  rl_AddToScheme :: "'builder \<Rightarrow> 'scheme \<Rightarrow> 'scheme res"
  rl_Parse :: "main_flags \<Rightarrow> string list \<Rightarrow> nat + main_flags"
  rl_GetConfigOrDie :: "'cfg option"
  rl_NewManager :: "'cfg \<Rightarrow> 'scheme manager_options \<Rightarrow> 'mgr res"
  rl_Complete :: "'mgr \<Rightarrow> controller_setup \<Rightarrow> 'mgr res"
  rl_AddHealthzCheck :: "'mgr \<Rightarrow> string \<Rightarrow> 'mgr res"
  rl_AddReadyzCheck :: "'mgr \<Rightarrow> string \<Rightarrow> 'mgr res"
  rl_Start :: "'mgr \<Rightarrow> unit res"

section \<open>The program\<close>

text \<open>The objects that \<^verbatim>\<open>init\<close> in \<^verbatim>\<open>api/v1\<close> registers under \<^verbatim>\<open>GroupVersion\<close>.\<close>

definition registered_objects :: "string list" where
  "registered_objects = [ProviderName, ProviderName @ ''List'']"

text \<open>\<^verbatim>\<open>utilruntime.Must\<close>\<close>

definition must :: "'a res \<Rightarrow> 'a res" where
  "must r = (case r of Err e \<Rightarrow> Panic ''must'' | _ \<Rightarrow> r)"

definition init_scheme :: "('cfg, 'mgr, 'scheme, 'builder) runtime_lib \<Rightarrow> 'scheme res" where
  "init_scheme rl =
     res_bind (must (rl_ClientGoAddToScheme rl (rl_NewScheme rl))) (\<lambda>scheme.
       must (rl_AddToScheme rl (rl_Register rl GroupVersion registered_objects) scheme))"

definition SetupWithManager ::
    "('cfg, 'mgr, 'scheme, 'builder) runtime_lib \<Rightarrow> reconciler \<Rightarrow> 'mgr \<Rightarrow> 'mgr res" where
  "SetupWithManager rl r mgr =
     rl_Complete rl mgr
       \<lparr> cs_For = (ProviderName, newEventFilter),
         cs_Watches = [(''ConfigMap'', EnqueueRequestsFromWatchedObject, WatchedObjectPredicate),
                       (''Secret'', EnqueueRequestsFromWatchedObject, WatchedObjectPredicate)],
         cs_Reconciler = r \<rparr>"

text \<open>A step of \<^verbatim>\<open>main\<close> whose error is logged before the process exits with 1.\<close>

definition or_exit :: "'a res \<Rightarrow> string \<Rightarrow> ('a \<Rightarrow> log_entry list \<times> exit) \<Rightarrow> log_entry list \<times> exit" where
  "or_exit r msg next =
     (case r of Ok x \<Rightarrow> next x | Err e \<Rightarrow> ([LogError e msg], Exit 1) | Panic p \<Rightarrow> ([], Crash p))"

definition new_reconciler :: reconciler where
  "new_reconciler = \<lparr> rec_Retriever = None, rec_States = [] \<rparr>"

definition main_options :: "'scheme \<Rightarrow> main_flags \<Rightarrow> 'scheme manager_options" where
  "main_options scheme flags =
     \<lparr> mo_Scheme = scheme, mo_MetricsBindAddress = mf_metricsAddr flags,
       mo_HealthProbeBindAddress = mf_probeAddr flags, mo_LeaderElection = mf_enableLeaderElection flags,
       mo_LeaderElectionID = ''leader.elect.locker.azappconfig.io'' \<rparr>"

definition main :: "('cfg, 'mgr, 'scheme, 'builder) runtime_lib \<Rightarrow> string list \<Rightarrow> log_entry list \<times> exit" where
  "main rl args =
     (case init_scheme rl of
        Err e \<Rightarrow> ([], Crash ''must'')
      | Panic p \<Rightarrow> ([], Crash p)
      | Ok scheme \<Rightarrow>
     (case rl_Parse rl default_flags args of
        Inl code \<Rightarrow> ([], Exit code)
      | Inr flags \<Rightarrow>
     (case rl_GetConfigOrDie rl of
        None \<Rightarrow> ([], Exit 1)
      | Some cfg \<Rightarrow>
          or_exit (rl_NewManager rl cfg (main_options scheme flags)) ''unable to start manager'' (\<lambda>mgr.
          or_exit (SetupWithManager rl new_reconciler mgr) ''unable to create controller'' (\<lambda>mgr.
          or_exit (rl_AddHealthzCheck rl mgr ''healthz'') ''unable to set up health check'' (\<lambda>mgr.
          or_exit (rl_AddReadyzCheck rl mgr ''readyz'') ''unable to set up ready check'' (\<lambda>mgr.
            let (log, ending) = or_exit (rl_Start rl mgr) ''problem running manager'' (\<lambda>_. ([], Exit 0))
            in (LogInfo ''starting manager'' # log, ending))))))))"

section \<open>How the process ends\<close>

text \<open>Everything before the manager is started succeeds, and makes this manager.\<close>

definition prepared :: "('cfg, 'mgr, 'scheme, 'builder) runtime_lib \<Rightarrow> string list \<Rightarrow> 'mgr \<Rightarrow> bool" where
  "prepared rl args mgr \<longleftrightarrow>
     (\<exists>scheme flags cfg m0 m1 m2.
        init_scheme rl = Ok scheme \<and> rl_Parse rl default_flags args = Inr flags \<and> rl_GetConfigOrDie rl = Some cfg \<and>
        rl_NewManager rl cfg (main_options scheme flags) = Ok m0 \<and> SetupWithManager rl new_reconciler m0 = Ok m1 \<and>
        rl_AddHealthzCheck rl m1 ''healthz'' = Ok m2 \<and> rl_AddReadyzCheck rl m2 ''readyz'' = Ok mgr)"

lemma or_exit_simps [simp]:
  "or_exit (Ok x) msg next = next x" "or_exit (Err e) msg next = ([LogError e msg], Exit 1)"
  "or_exit (Panic p) msg next = ([], Crash p)"
  by (simp_all add: or_exit_def)

lemma or_exit_step:
  assumes "\<not> (fst out = [] \<or> (\<exists>e msg. out = ([LogError e msg], Exit 1)))" and "out = or_exit r msg rest"
  shows "\<exists>x. r = Ok x \<and> out = rest x"
  using assms by (cases r) auto

lemma main_prepared:
  assumes "prepared rl args mgr"
  shows "main rl args =
    (case rl_Start rl mgr of
       Ok u \<Rightarrow> ([LogInfo ''starting manager''], Exit 0)
     | Err e \<Rightarrow> ([LogInfo ''starting manager'', LogError e ''problem running manager''], Exit 1)
     | Panic p \<Rightarrow> ([LogInfo ''starting manager''], Crash p))"
  using assms by (auto simp: prepared_def main_def split: res.split)

text \<open>
  Without a prepared manager none is started: the process ends before, and if it has logged
  anything, this is the error of the step that failed, and it exits with 1.
\<close>

lemma main_unprepared:
  assumes "\<nexists>mgr. prepared rl args mgr"
  shows "fst (main rl args) = [] \<or> (\<exists>e msg. main rl args = ([LogError e msg], Exit 1))"
proof (rule ccontr)
  assume odd: "\<not> ?thesis"
  note step = or_exit_step [OF odd]
  obtain scheme where scheme: "init_scheme rl = Ok scheme" using odd by (cases "init_scheme rl") (auto simp: main_def)
  obtain flags where flags: "rl_Parse rl default_flags args = Inr flags"
    using odd scheme by (cases "rl_Parse rl default_flags args") (auto simp: main_def)
  obtain cfg where cfg: "rl_GetConfigOrDie rl = Some cfg"
    using odd scheme flags by (cases "rl_GetConfigOrDie rl") (auto simp: main_def)
  note main = main_def [of rl args, unfolded scheme flags cfg, simplified]
  from step [OF main] obtain m0 where m0: "rl_NewManager rl cfg (main_options scheme flags) = Ok m0" by blast
  note main = main [unfolded m0, simplified]
  from step [OF main] obtain m1 where m1: "SetupWithManager rl new_reconciler m0 = Ok m1" by blast
  note main = main [unfolded m1, simplified]
  from step [OF main] obtain m2 where m2: "rl_AddHealthzCheck rl m1 ''healthz'' = Ok m2" by blast
  note main = main [unfolded m2, simplified]
  from step [OF main] obtain m3 where "rl_AddReadyzCheck rl m2 ''readyz'' = Ok m3" by blast
  then show False
    using assms scheme flags cfg m0 m1 m2 unfolding prepared_def by blast
qed

text \<open>The states a controller starts with are those of an empty history, and it has no retriever of its own.\<close>

lemma new_reconciler_history:
  "run_States r = rec_States new_reconciler \<Longrightarrow> history w [] r" "rec_Retriever new_reconciler = None"
  by (auto simp: new_reconciler_def intro: history.start)

end
