(* ===== verification/Cluster_Access.thy ===== *)
theory Cluster_Access
  imports Spec_Validation Reconciler
begin

text \<open>
  How the loader package reads the cluster on its own: \<^verbatim>\<open>getConfigMap\<close> and \<^verbatim>\<open>GetSecret\<close> of
  \<^verbatim>\<open>internal/loader/configuration_setting_loader.go\<close> and the token callback of
  \<^verbatim>\<open>internal/loader/configuration_client_manager.go\<close>.  Each of them reads the configuration and
  makes a client anew; these are the library's, and so is what a client answers.
\<close>

record ('cfg, 'client, 'kube) cluster_access =
  ca_GetConfig :: "'cfg res"
  ca_New :: "'cfg \<Rightarrow> 'client res"
  ca_GetConfigMap :: "'client \<Rightarrow> NamespacedName \<Rightarrow> ConfigMap res"
  ca_GetSecret :: "'client \<Rightarrow> NamespacedName \<Rightarrow> Secret res"
  ca_NewForConfig :: "'cfg \<Rightarrow> 'kube res"
  ca_CreateToken :: "'kube \<Rightarrow> string \<Rightarrow> string \<Rightarrow> string list \<Rightarrow> string res"

definition getConfigMap :: "('cfg, 'client, 'kube) cluster_access \<Rightarrow> NamespacedName \<Rightarrow> ConfigMap res" where
  "getConfigMap ca namespacedConfigMapName =
     res_bind (ca_GetConfig ca) (\<lambda>cfg.
     res_bind (ca_New ca cfg) (\<lambda>client.
       ca_GetConfigMap ca client namespacedConfigMapName))"

definition GetSecret :: "('cfg, 'client, 'kube) cluster_access \<Rightarrow> NamespacedName \<Rightarrow> Secret res" where
  "GetSecret ca namespacedSecretName =
     res_bind (ca_GetConfig ca) (\<lambda>cfg.
     res_bind (ca_New ca cfg) (\<lambda>client.
       ca_GetSecret ca client namespacedSecretName))"

definition ApiTokenExchangeAudience :: string where
  "ApiTokenExchangeAudience = ''api://AzureADTokenExchange''"

definition newGetAssertionFunc :: "('cfg, 'client, 'kube) cluster_access \<Rightarrow> string \<Rightarrow> string \<Rightarrow> string res" where
  "newGetAssertionFunc ca serviceAccountNamespace serviceAccountName =
     (let audiences = [ApiTokenExchangeAudience]
      in res_bind (ca_GetConfig ca) (\<lambda>cfg.
         res_bind (ca_NewForConfig ca cfg) (\<lambda>kubeClient.
           ca_CreateToken ca kubeClient serviceAccountNamespace serviceAccountName audiences)))"

text \<open>
  The environment of the client manager with these reads: it uses the data of the objects
  only.
\<close>

definition cluster_env :: "('cfg, 'client, 'kube) cluster_access \<Rightarrow> loader_env \<Rightarrow> loader_env" where
  "cluster_env ca env = env\<lparr>
     env_GetConfigMap := (\<lambda>ns name. res_map (\<lambda>cm. slice (cmo_Data cm)) (getConfigMap ca (ns, name))),
     env_GetSecret := (\<lambda>ns name. res_map (\<lambda>s. slice (sc_Data (sco_Content s))) (GetSecret ca (ns, name))) \<rparr>"

section \<open>No panics of its own\<close>

definition access_calm :: "('cfg, 'client, 'kube) cluster_access \<Rightarrow> bool" where
  "access_calm ca \<longleftrightarrow>
     (\<forall>p. ca_GetConfig ca \<noteq> Panic p) \<and> (\<forall>cfg p. ca_New ca cfg \<noteq> Panic p) \<and>
     (\<forall>c n p. ca_GetConfigMap ca c n \<noteq> Panic p) \<and> (\<forall>c n p. ca_GetSecret ca c n \<noteq> Panic p)"

lemma access_no_panic:
  assumes "access_calm ca"
  shows "getConfigMap ca (ns, name) \<noteq> Panic p" and "GetSecret ca (ns, name) \<noteq> Panic p"
  using assms by (auto simp: access_calm_def getConfigMap_def GetSecret_def res_bind_eq_Panic split_paired_all)

text \<open>So a cluster that answers by values and errors keeps the promise the loader relies on.\<close>

lemma cluster_env_calm:
  assumes "access_calm ca" and "library_calm env"
  shows "library_calm (cluster_env ca env)"
  using assms(2) access_no_panic [OF assms(1)]
  by (simp add: library_calm_def cluster_env_def res_map_def res_bind_eq_Panic)

section \<open>The secret of a connection string\<close>

text \<open>
  A connection string is read from the key of a secret in the namespace of the provider, by the
  one request that \<^verbatim>\<open>GetSecret\<close> makes; every failure on the way is returned as it is.
\<close>

lemma connection_string_from_secret:
  "getConnectionStringParameter (cluster_env ca env) namespace name = Ok s \<longleftrightarrow>
     (\<exists>cfg client secret. ca_GetConfig ca = Ok cfg \<and> ca_New ca cfg = Ok client
        \<and> ca_GetSecret ca client (namespace, name) = Ok secret
        \<and> golookup (slice (sc_Data (sco_Content secret))) AzureAppConfigurationConnectionString = Some s)"
  "ca_GetSecret ca client (namespace, name) = Err e \<Longrightarrow> ca_GetConfig ca = Ok cfg \<Longrightarrow> ca_New ca cfg = Ok client
     \<Longrightarrow> getConnectionStringParameter (cluster_env ca env) namespace name = Err e"
  by (auto simp: getConnectionStringParameter_def cluster_env_def GetSecret_def res_map_def res_bind_eq_Ok split: option.splits)

end
