(* ===== verification/Reconcile_Returns.thy ===== *)
theory Reconcile_Returns
  imports Controller_History Reconcile_Outcome
begin

text \<open>
  Reconciliations that return.  A history may contain any reconciliations; the one at hand
  then ends with a result and a reported status, when the specification, once verified, meets
  stores whose answers can be processed and when the secrets in the cluster hold data.
\<close>

section \<open>What the stores and the cluster promise\<close>

text \<open>A secret that the API server returns has a data map: merging into a missing one panics.\<close>

definition whole_secrets :: "kube_env \<Rightarrow> bool" where
  "whole_secrets ke \<longleftrightarrow> (\<forall>n ns name secret. ke_GetSecret ke n ns name = Ok secret \<longrightarrow> sc_Data (sco_Content secret) \<noteq> None)"

text \<open>Secrets that are not put in a hierarchy, so that their keys are never split.\<close>

definition flat_secrets :: "ProviderSpec \<Rightarrow> bool" where
  "flat_secrets spec \<longleftrightarrow> (\<forall>sr. spec_Secret spec = Some sr \<longrightarrow> separator_of (sg_SecretData (sr_Target sr)) = None)"

text \<open>
  The conditions on the secrets are for a provider that refreshes them: a refresh merges into the
  secrets of the cluster and resolves the references that the state remembers.
\<close>

definition served :: "promises \<Rightarrow> NamespacedName \<Rightarrow> 'k reconcile_env \<Rightarrow> Provider \<Rightarrow> bool" where
  "served w req re provider \<longleftrightarrow>
     (secret_interval (pv_Spec provider) \<noteq> None \<longrightarrow> whole_secrets (re_kube re) \<and> flat_secrets (pv_Spec provider)) \<and>
     (verifyObject (re_env re) (pv_Spec provider) = Ok () \<longrightarrow>
        sound_context (pm_Client w req) (pv_Spec provider) (re_ctx re))"

section \<open>Loading\<close>

lemma sound_context_startup [simp]: "sound_context P spec (with_startup b lc) = sound_context P spec lc"
  by (simp add: sound_context_def with_startup_def builds_all_def)

lemma answered_filled: "answered ke es \<Longrightarrow> whole_secrets ke \<Longrightarrow> all_filled (secret_contents es)"
  by (fastforce simp: answered_def whole_secrets_def all_filled_def secret_contents_def)

lemma flat_secrets_placed:
  assumes "flat_secrets spec" and "secret_interval spec \<noteq> None"
  shows "refs_placed spec refs"
  using assms by (auto simp: flat_secrets_def refs_placed_def canonical_key_def secret_interval_def)

lemma served_loading_returns:
  assumes "served w req re pv"
  shows "\<not> loading_panics (pm_Client w req) re pv"
proof
  let ?P = "pm_Client w req" and ?spec = "pv_Spec pv"
  assume "loading_panics ?P re pv"
  then obtain startUp provider cm es l st now p q where
    so: "same_object pv provider" "same_object pv (ldr_Provider l)" and
    l: "fine_manager ?P (ldr_Manager l)" "ldr_SettingsClient l = None" and
    ok: "verifyObject (re_env re) ?spec = Ok ()" and es: "answered (re_kube re) es" and
    pass: "PopulateSettings (loader_retriever (with_startup startUp (re_ctx re)) (re_addr re)) cm es (new_processor l provider st now)
      = (p, Panic q)"
    unfolding loading_panics_def by blast
  have ctx: "sound_context ?P ?spec (with_startup startUp (re_ctx re))"
    using assms ok by (simp add: served_def)
  have flat: "flat_secrets ?spec" and filled: "all_filled (secret_contents es)" if "secret_interval ?spec \<noteq> None"
    using assms that answered_filled [OF es] by (simp_all add: served_def)
  have fine: "fine_pass (\<lambda>l. sound_context ?P ?spec (with_startup startUp (re_ctx re)) \<and> fine_loader ?P ?spec l) ?spec
      (refs_placed ?spec) (new_processor l provider st now)"
    using ctx so l flat_secrets_placed [OF flat]
    by (simp add: fine_pass_def new_processor_def NewRefreshOptions_def fine_loader_def same_object_def)
  show False
    using returning_loader.pass_returns [OF fine filled, of "re_addr re" cm] by (simp add: pass)
qed

text \<open>
  A promise that the code needs: it tests the value of a key-value before it reads it, but not
  the value of a feature flag, so a flag that is stored without one makes loading panic.
\<close>

lemma null_flag_panics:
  assumes "set_Key s = Some key" and "set_Value s = None"
  shows "feature_flag_loop cd endpoint (settings @ [s]) (Suc (length settings)) [] [] = Panic ''nil pointer dereference''"
  using assms by (simp add: feature_flag_value_def deref_def)

section \<open>What is reported\<close>

abbreviation settled :: "run \<Rightarrow> bool" where
  "settled r \<equiv> st_Phase (pv_Status (run_Provider r)) \<in> {PhaseComplete, PhaseFailed, PhaseUpdateFailed}"

lemma reconciliation_settles:
  assumes "ke_GetProvider (re_kube re) (run_Calls r) req = Ok provider"
    and "st_Phase (pv_Status provider) \<noteq> PhaseRunning" and "Reconcile re req r = (r', res)" and "returns res"
  obtains result before answer where "res = Ok result" "settled r'"
    "run_Events r' = before @ [PatchedStatus (pv_Status (run_Provider r')) answer]"
proof -
  let ?Q = "\<lambda>_. settled"
  have c: "covers ?Q" by (auto simp: covers_def failed_run_def)
  have "triple (\<lambda>_. True) (requeueWhenGetSettingsFailed (re_kube re) e) ?Q (\<lambda>_ _. False) (\<lambda>_. True)" for e
    by (rule triple_requeue [OF c]) (auto simp: failed_run_def)
  then have "triple (\<lambda>_. True) (reconcile_verified re req found) ?Q (\<lambda>_ _. False) (\<lambda>_. True)" for found
    by (intro triple_verified [OF c, where E = "\<lambda>_. True"]) (simp_all add: errs_iff)
  note res = Reconcile_result [OF assms(1-3) c this]
  obtain result where result: "res = Ok result" using res assms(4) by (cases res) auto
  obtain r2 before answer where r2: "run_Provider r' = run_Provider r2"
    "run_Events r' = before @ [PatchedStatus (pv_Status (run_Provider r')) answer]"
    "if is_Ok (verifyObject (re_env re) (pv_Spec provider)) then settled r2 else result = no_requeue \<and> failed_run r2"
    using res result by blast
  then have "settled r'" by (auto simp: failed_run_def split: if_splits)
  then show thesis by (rule that [OF result _ r2(2)])
qed

section \<open>Properties\<close>

text \<open>
  C4. A served provider is never blocked.  In every history of the controller, a reconciliation of
  a provider whose status does not say that it is being reconciled returns a result: it neither
  panics nor gives an error.  The last thing it does is to patch the status, which says that
  the reconciliation is complete or has failed, so the next reconciliation goes ahead.
\<close>

theorem served_reconciliation_returns:
  assumes "history w steps r" and "step_ok w re req r"
    and "ke_GetProvider (re_kube re) (run_Calls r) req = Ok provider" and "served w req re provider"
    and "st_Phase (pv_Status provider) \<noteq> PhaseRunning"
  shows "\<exists>r' result before answer. Reconcile re req r = (r', Ok result)
    \<and> run_Events r' = before @ [PatchedStatus (pv_Status (run_Provider r')) answer]
    \<and> st_Phase (pv_Status (run_Provider r')) \<in> {PhaseComplete, PhaseFailed, PhaseUpdateFailed}"
proof -
  obtain r' res where r: "Reconcile re req r = (r', res)" by fastforce
  have step: "sound_env re" "builds_promised w re req" "proper w req provider"
    using assms(2,3) by (simp_all add: step_ok_def)
  have "returns res"
  proof (cases res)
    case (Panic q)
    have given: "proper w req provider'" if "ke_GetProvider (re_kube re) (run_Calls r) req = Ok provider'" for provider'
      using that assms(3) step(3) by simp
    from Reconcile_known [OF step(1,2) history_states [OF assms(1)] given r] Panic
    show ?thesis using served_loading_returns [OF assms(4)] assms(3) by auto
  qed simp_all
  from reconciliation_settles [OF assms(3,5) r this] show ?thesis
    using r by metis
qed

section \<open>Witness\<close>

text \<open>The document of two keys with different indices in an array, written in the canonical way.\<close>

definition array_settings :: "Setting list" where
  "array_settings = [plain_setting ''a:1'' ''x'', plain_setting ''a:0'' ''y'']"

definition array_store :: az_client where
  "array_store = client_of (\<lambda>q. [(array_settings, ''e'')])"

definition array_libraries :: loader_env where
  "array_libraries = uuid_env\<lparr> env_NewClient := (\<lambda>e c opts. Ok array_store) \<rparr>"

definition array_env :: "string reconcile_env" where
  "array_env = (test_env twin_provider)\<lparr> re_env := array_libraries,
     re_ctx := test_ctx\<lparr> lc_calls := (\<lambda>n. sample_call\<lparr> ce_env := array_libraries \<rparr>) \<rparr> \<rparr>"

definition array_promises :: promises where
  "array_promises = \<lparr> pm_Spec = (\<lambda>req n. pv_Spec twin_provider), pm_Client = (\<lambda>req c. c = array_store \<or> c = silent_client) \<rparr>"

lemma twin_accepted: "verifyObject array_libraries (pv_Spec twin_provider) = Ok ()"
  by code_simp

lemma array_placed: "s \<in> set array_settings \<Longrightarrow> well_placed cd (pv_Spec twin_provider) s"
proof -
  have parts: "list_all canonical_part (Split ''a:1'' '':'')" "list_all canonical_part (Split ''a:0'' '':'')" "\<not> isJsonContentType None"
    by code_simp+
  have "spec_Secret (pv_Spec twin_provider) = None" "kvo_TrimKeyPrefixes (spec_Configuration (pv_Spec twin_provider)) = []"
    "separator_of (ct_ConfigMapData (spec_Target (pv_Spec twin_provider))) = Some '':''"
    by (simp_all add: twin_provider_def sample_spec_def separator_of_def)
  then show "s \<in> set array_settings \<Longrightarrow> ?thesis"
    using parts by (auto simp: array_settings_def plain_setting_def well_placed_def canonical_key_def)
qed

lemma array_clients_sound:
  "c = array_store \<or> c = silent_client \<Longrightarrow> sound_client test_codec (pv_Spec twin_provider) c"
proof -
  have pages: "good_pages (well_placed test_codec (pv_Spec twin_provider)) (ListSettings array_store q conds)" for q conds
    using array_placed by (auto simp: good_pages_def array_store_def client_of_def served_page_def)
  have "GetFeatureFlagFilters (pv_Spec twin_provider) = []"
    by (simp add: GetFeatureFlagFilters_def twin_provider_def)
  then show "c = array_store \<or> c = silent_client \<Longrightarrow> ?thesis"
    using pages
    by (auto simp: sound_client_def listed_def good_pages_def) (auto simp: array_store_def silent_client_def client_of_def)
qed

lemma array_served: "served array_promises (''default'', ''provider'') array_env twin_provider"
proof -
  have json: "returns (json_decode canon s)" for canon s
    by (simp add: json_decode_def split: option.split prod.split)
  have builds: "builds (\<lambda>c. c = array_store \<or> c = silent_client) array_libraries"
    by (simp add: builds_def array_libraries_def uuid_env_def sample_env_def silent_client_def)
  have calm: "library_calm array_libraries"
    unfolding array_libraries_def by (rule sound_test_env)
  have ctx: "sound_context (\<lambda>c. c = array_store \<or> c = silent_client) (pv_Spec twin_provider) (re_ctx array_env)"
    using builds calm array_clients_sound twin_accepted json
    by (simp add: sound_context_def builds_all_def array_env_def test_ctx_def sound_codec_def sound_crypto_def sound_vault_def
        test_codec_def go_codec_def sample_crypto_def sample_vault_env_def whole_secret_def)
  then show ?thesis
    by (simp add: served_def array_promises_def whole_secrets_def flat_secrets_def)
      (simp add: array_env_def test_env_def test_kube_def twin_provider_def secret_interval_def sample_spec_def)
qed

lemma array_step: "step_ok array_promises array_env (''default'', ''provider'') test_run"
proof -
  have calm: "library_calm array_libraries"
    unfolding array_libraries_def by (rule sound_test_env)
  have local: "local_libraries (re_ctx array_env)"
    using local_test_ctx by (simp add: local_libraries_def array_env_def test_ctx_def array_libraries_def uuid_env_def sample_env_def local_env_def)
  have builds: "builds (\<lambda>c. c = array_store \<or> c = silent_client) array_libraries"
    by (simp add: builds_def array_libraries_def uuid_env_def sample_env_def silent_client_def)
  show ?thesis
    using calm local builds sound_test_env(1) [of twin_provider]
    by (simp add: step_ok_def sound_env_def builds_promised_def builds_all_def array_promises_def array_env_def test_env_def
        proper_def provider_key_def) (simp add: test_kube_def twin_provider_def sample_provider_def)
qed

text \<open>This reconciliation loads the settings and completes.\<close>

lemma array_completes:
  "st_Phase (pv_Status (run_Provider (fst (Reconcile array_env (''default'', ''provider'') test_run)))) = PhaseComplete"
  by code_simp

theorem served_reconciliation_returns_witness:
  "\<exists>r' result. Reconcile array_env (''default'', ''provider'') test_run = (r', Ok result)
    \<and> st_Phase (pv_Status (run_Provider r')) = PhaseComplete"
proof -
  have "ke_GetProvider (re_kube array_env) (run_Calls test_run) (''default'', ''provider'') = Ok twin_provider"
    by (simp add: array_env_def)
  moreover have "st_Phase (pv_Status twin_provider) \<noteq> PhaseRunning"
    by (simp add: twin_provider_def sample_provider_def)
  ultimately show ?thesis
    using served_reconciliation_returns [OF start_test_run array_step _ array_served] array_completes by fastforce
qed

end
