(* ===== verification/Combined_Refresh.thy ===== *)
theory Combined_Refresh
  imports Retriever_Contract
begin

text \<open>
  One pass that refreshes the feature flags and the key-values: how the two refreshes of the
  processor and the loader's rendering work together on the document in the ConfigMap.
\<close>

section \<open>The loader keeps its provider\<close>

abbreviation for_provider :: "Provider \<Rightarrow> process_state \<Rightarrow> bool" where
  "for_provider pv st \<equiv> same_provider pv (ps_loader st)"

lemma keeps_snapshot_provider: "keeps (for_provider pv) (snapshot_client lc)"
proof -
  have "ldr_Provider l' = pv" if "get_clients ce (l\<lparr> ldr_calls := n \<rparr>) = (l', r)" "ldr_Provider l = pv" for ce l n l' r
    using ldr_Provider_get_clients [of ce "l\<lparr> ldr_calls := n \<rparr>"] that by simp
  then show ?thesis
    by (auto simp: keeps_def snapshot_client_def Let_def split: option.splits prod.splits res.splits list.splits)
qed

lemma process_reference_loader: "ps_loader (fst (process_reference lc key setting st)) = ps_loader st"
proof -
  have "keeps (\<lambda>s. ps_loader s = l) (act_bind (act_lift t) (\<lambda>ty. act_bind
      (\<lambda>st. case ps_resolver st of Some r \<Rightarrow> (st, Ok ()) | None \<Rightarrow>
         (case f st of Ok r \<Rightarrow> (st\<lparr> ps_resolver := Some r \<rparr>, Ok ()) | Err e \<Rightarrow> (st, Err e) | Panic p \<Rightarrow> (st, Panic p)))
      (\<lambda>_. act_bind (act_lift u) (\<lambda>md. act_modify (\<lambda>st. st\<lparr> ps_raw := g ty md (ps_raw st) \<rparr>)))))" for l t f u g
    by (intro keeps_bind keeps_lift keeps_modify) (auto simp: keeps_def split: option.split res.split)
  note w = this [unfolded keeps_def, rule_format, OF refl]
  show ?thesis
    by (cases "set_Value setting"; cases "spec_Secret (pv_Spec (ldr_Provider (ps_loader st)))")
      (simp_all add: process_reference_def Let_def, rule w)
qed

lemma keeps_setting_provider:
  assumes "\<And>settings. keeps (for_provider pv) (nested settings)"
  shows "keeps (for_provider pv) (process_setting lc b nested setting)"
proof -
  have "keeps (for_provider pv) (process_snapshot lc nested key ref)" for key ref
    unfolding process_snapshot_def
    by (intro keeps_bind keeps_lift keeps_get keeps_snapshot_provider)
      (auto split: prod.split intro!: keeps_bind keeps_modify assms)
  moreover have "keeps (for_provider pv) (process_reference lc key s)" for key s
    by (simp add: keeps_def process_reference_loader)
  ultimately show ?thesis
    by (auto simp: keeps_def process_setting_def process_plain_def Let_def split: option.splits)
qed

lemma run_process_loader:
  "fst (run_process lc settings raw resolver l) = ps_loader (fst (processSettings lc settings
     \<lparr> ps_loader = l, ps_raw = raw, ps_resolver = resolver, ps_snapshotClient = None, ps_useAI = False, ps_useAIChat = False \<rparr>))"
  by (simp add: run_process_def split: prod.split res.split)

lemma keeps_run_process: "keeps (same_provider pv) (run_process lc settings raw resolver)"
proof -
  have "keeps (for_provider pv) (processSettings lc settings)"
    unfolding processSettings_def processNestedSettings_def
    by (intro keeps_iter keeps_setting_provider keeps_return)
  then show ?thesis by (simp add: keeps_def run_process_loader)
qed

lemma keeps_CreateKeyValueSettings: "keeps (same_provider pv) (CreateKeyValueSettings lc resolver)"
  unfolding CreateKeyValueSettings_def
  by (auto intro!: keeps_bind keeps_execute keeps_lift keeps_get keeps_return keeps_run_process keeps_modify keeps_pure split: prod.split)

section \<open>The calls of a pass\<close>

text \<open>
  The check of the key-values, run on retriever state \<open>s\<close>, found a change and left \<open>s'\<close>: by the
  sentinels when the provider monitors some, else by the ETags of the pages.
\<close>

definition change_found :: "'s retriever \<Rightarrow> 's processor \<Rightarrow> 's \<Rightarrow> 's \<Rightarrow> bool" where
  "change_found rt p s s' \<longleftrightarrow>
     (case key_value_refresh (pv_Spec (pr_Provider p)) of
        None \<Rightarrow> False
      | Some r \<Rightarrow>
          if dr_Monitoring r \<noteq> None
          then \<exists>eTags. rt_CheckAndRefreshSentinels rt (pr_Provider p) (rc_SentinelETags (pr_State p)) s = (s', Ok (True, eTags))
          else rt_CheckPageETags rt (rc_KeyValueETags (pr_State p)) s = (s', Ok True))"

context settings_source
begin

lemma flags_called:
  assumes "processFeatureFlagRefresh rt cm p = (p', Ok ())" and "ro_featureFlagRefreshNeeded (pr_Options p')"
    and "\<not> ro_featureFlagRefreshNeeded (pr_Options p)"
  obtains s where "rt_CheckPageETags rt (rc_FeatureFlagETags (pr_State p)) (pr_Retriever p) = (s, Ok True)"
    "rt_RefreshFeatureFlagSettings rt (slice (cmo_Data cm)) s = (pr_Retriever p', Ok (pr_Settings p'))"
    "spec_of s = spec_of (pr_Retriever p)"
  using assms by (auto simp: processFeatureFlagRefresh_def refresh_simps spec_kept split: refresh_splits)

lemma key_values_called:
  assumes "processKeyValueRefresh rt cm p = (p', Ok ())"
    and "ro_sentinelChanged (pr_Options p') \<or> ro_keyValuePageETagsChanged (pr_Options p')"
    and "\<not> ro_sentinelChanged (pr_Options p)" "\<not> ro_keyValuePageETagsChanged (pr_Options p)"
  obtains s s' where "change_found rt p (pr_Retriever p) s"
    "rt_RefreshKeyValueSettings rt (existing_settings cm (pr_Settings p)) (pr_Resolver p) s = (s', Ok (pr_Settings p'))"
    "spec_of s = spec_of (pr_Retriever p)"
  using assms
  by (auto simp: processKeyValueRefresh_def check_key_values_def load_key_values_def change_found_def refresh_simps spec_kept
      split: refresh_splits)

end

text \<open>What the other steps leave alone.\<close>

lemma flag_step_options:
  assumes "processFeatureFlagRefresh rt cm p = (p', Ok ())"
  shows "ro_sentinelChanged (pr_Options p') = ro_sentinelChanged (pr_Options p)
    \<and> ro_keyValuePageETagsChanged (pr_Options p') = ro_keyValuePageETagsChanged (pr_Options p)
    \<and> pr_Provider p' = pr_Provider p \<and> pr_Resolver p' = pr_Resolver p
    \<and> rc_SentinelETags (pr_State p') = rc_SentinelETags (pr_State p)
    \<and> rc_KeyValueETags (pr_State p') = rc_KeyValueETags (pr_State p)"
  using assms by (auto simp: processFeatureFlagRefresh_def refresh_simps split: refresh_splits)

lemma key_value_step_options:
  assumes "processKeyValueRefresh rt cm p = (p', Ok ())"
  shows "ro_featureFlagRefreshNeeded (pr_Options p') = ro_featureFlagRefreshNeeded (pr_Options p)"
  using assms
  by (auto simp: processKeyValueRefresh_def check_key_values_def load_key_values_def refresh_simps split: refresh_splits)

lemma secret_step_frame:
  assumes "processSecretReferenceRefresh rt es p = (p', Ok ())"
  shows "tg_ConfigMapSettings (pr_Settings p') = tg_ConfigMapSettings (pr_Settings p)
    \<and> ro_featureFlagRefreshNeeded (pr_Options p') = ro_featureFlagRefreshNeeded (pr_Options p)
    \<and> ro_sentinelChanged (pr_Options p') = ro_sentinelChanged (pr_Options p)
    \<and> ro_keyValuePageETagsChanged (pr_Options p') = ro_keyValuePageETagsChanged (pr_Options p)"
  using assms
  by (auto simp: processSecretReferenceRefresh_def resolve_unversioned_def deref_def refresh_simps split: refresh_splits)

section \<open>Properties\<close>

lemma refreshed_hierarchy:
  assumes "RefreshKeyValueSettings lc existing resolver l = (l', Ok t)" and "spec_FeatureFlag (pv_Spec (ldr_Provider l)) \<noteq> None"
    and "ct_ConfigMapData (spec_Target (pv_Spec (ldr_Provider l))) = Some opts" and "do_Type opts = Json"
  obtains l1 raw parsed where "CreateKeyValueSettings lc resolver l = (l1, Ok raw)" "ldr_Provider l1 = ldr_Provider l"
    "parsed_settings (map (\<lambda>(k, v). (k, setting_value (lc_codec lc) (is_json_key raw k) v)) (rw_KeyValueSettings raw))
       (do_Separator opts) = Ok parsed"
proof -
  obtain l1 raw where raw: "CreateKeyValueSettings lc resolver l = (l1, Ok raw)"
    using assms(1) unfolding RefreshKeyValueSettings_def by (auto simp: act_bind_eq_Ok)
  have pv: "ldr_Provider l1 = ldr_Provider l"
    using keeps_result [OF keeps_CreateKeyValueSettings _ raw] by simp
  obtain flags typed where "createTypedSettings (lc_codec lc) (raw\<lparr> rw_FeatureFlagSettings := Some flags \<rparr>) (Some opts) = Ok typed"
    using assms pv by (auto simp: RefreshKeyValueSettings_def act_bind_Ok [where m = "CreateKeyValueSettings lc resolver"] raw act_bind_eq_Ok)
  then obtain parsed where "parsed_settings (map (\<lambda>(k, v). (k, setting_value (lc_codec lc) (is_json_key raw k) v)) (rw_KeyValueSettings raw))
      (do_Separator opts) = Ok parsed"
    using assms(4) by (auto simp: createTypedSettings_def Let_def is_json_key_def res_bind_eq_Ok)
  from that [OF raw pv this] show thesis .
qed

text \<open>
  In a pass that finds both kinds changed, the loader runs the check and the refresh of the
  flags and then those of the key-values, each from the state the one before left, and the
  key-value refresh works on the settings of the flag refresh.
\<close>

lemma both_called:
  assumes "PopulateSettings (loader_retriever lc addr) cm es p = (p', Ok ())"
    and "pr_Options p = NewRefreshOptions" and "\<not> shouldReconcile p cm es"
    and "ro_featureFlagRefreshNeeded (pr_Options p')"
    and "ro_sentinelChanged (pr_Options p') \<or> ro_keyValuePageETagsChanged (pr_Options p')"
  obtains l1 l2 t1 l3 l4 t2 where
    "CheckPageETags lc (rc_FeatureFlagETags (pr_State p)) (pr_Retriever p) = (l1, Ok True)"
    "RefreshFeatureFlagSettings lc (slice (cmo_Data cm)) l1 = (l2, Ok t1)"
    "change_found (loader_retriever lc addr) p l2 l3"
    "RefreshKeyValueSettings lc (existing_settings cm t1) (pr_Resolver p) l3 = (l4, Ok t2)"
    "tg_ConfigMapSettings (pr_Settings p') = tg_ConfigMapSettings t2"
    "pv_Spec (ldr_Provider l1) = pv_Spec (ldr_Provider (pr_Retriever p))"
    "pv_Spec (ldr_Provider l3) = pv_Spec (ldr_Provider (pr_Retriever p))"
proof -
  obtain p0 p1 p2 where p0: "p0 = p\<lparr> pr_ShouldReconcile := False \<rparr>"
    and ff: "processFeatureFlagRefresh (loader_retriever lc addr) cm p0 = (p1, Ok ())"
    and kv: "processKeyValueRefresh (loader_retriever lc addr) cm p1 = (p2, Ok ())"
    and se: "processSecretReferenceRefresh (loader_retriever lc addr) es p2 = (p', Ok ())"
    using assms(1) by (rule PopulateSettings_steps) (use assms(3) in auto)
  note frames = flag_step_options [OF ff] key_value_step_options [OF kv] secret_step_frame [OF se]
  have new: "\<not> ro_featureFlagRefreshNeeded (pr_Options p0)" "\<not> ro_sentinelChanged (pr_Options p0)"
    "\<not> ro_keyValuePageETagsChanged (pr_Options p0)"
    using assms(2) by (simp_all add: p0 NewRefreshOptions_def)
  have needed: "ro_featureFlagRefreshNeeded (pr_Options p1)" "ro_sentinelChanged (pr_Options p2) \<or> ro_keyValuePageETagsChanged (pr_Options p2)"
    "\<not> ro_sentinelChanged (pr_Options p1)" "\<not> ro_keyValuePageETagsChanged (pr_Options p1)"
    using frames new assms(4,5) by auto
  obtain l1 where check: "CheckPageETags lc (rc_FeatureFlagETags (pr_State p)) (pr_Retriever p) = (l1, Ok True)"
    and flags: "RefreshFeatureFlagSettings lc (slice (cmo_Data cm)) l1 = (pr_Retriever p1, Ok (pr_Settings p1))"
    and l1: "pv_Spec (ldr_Provider l1) = pv_Spec (ldr_Provider (pr_Retriever p))"
    by (rule loader.flags_called [OF ff needed(1) new(1)]) (simp add: loader_retriever_def p0)
  obtain l3 l4 where found: "change_found (loader_retriever lc addr) p1 (pr_Retriever p1) l3"
    and keys: "RefreshKeyValueSettings lc (existing_settings cm (pr_Settings p1)) (pr_Resolver p1) l3 = (l4, Ok (pr_Settings p2))"
    and l3: "pv_Spec (ldr_Provider l3) = pv_Spec (ldr_Provider (pr_Retriever p1))"
    by (rule loader.key_values_called [OF kv needed(2-4)]) (simp add: loader_retriever_def)
  have same: "pr_Provider p1 = pr_Provider p" "pr_Resolver p1 = pr_Resolver p"
    "rc_SentinelETags (pr_State p1) = rc_SentinelETags (pr_State p)" "rc_KeyValueETags (pr_State p1) = rc_KeyValueETags (pr_State p)"
    using frames(1) by (simp_all add: p0)
  have kept: "change_found (loader_retriever lc addr) p (pr_Retriever p1) l3"
    using found unfolding change_found_def same .
  have "ldr_Provider (pr_Retriever p1) = ldr_Provider l1" using keeps_result [OF loader_frames(3) refl flags] .
  then show thesis using that [OF check flags kept _ _ l1] keys same(2) l1 l3 frames by simp
qed

text \<open>
  C7. Refreshing feature flags and key-values in one pass loses neither.  From a ConfigMap that
  holds a written JSON document with a feature flag section, a pass that finds both changed and
  succeeds leaves one document for the ConfigMap: the hierarchy of the key-values it loaded,
  with the section of the feature flags it loaded.  The flags and the key-values are those the
  loader of the pass reads: the flags right after the check of their ETags, the key-values
  right after the check that follows, with the resolver of the pass.
\<close>

theorem both_refreshes_compose:
  assumes "canon_ok canon" and "lc_codec lc = go_codec canon ym yu yu2"
    and "PopulateSettings (loader_retriever lc addr) cm es p = (p', Ok ())"
    and "pr_Options p = NewRefreshOptions" and "\<not> shouldReconcile p cm es"
    and "spec = pv_Spec (ldr_Provider (pr_Retriever p))" and "spec_FeatureFlag spec \<noteq> None"
    and "ct_ConfigMapData (spec_Target spec) = Some opts" and "do_Type opts = Json"
    and "golookup (slice (cmo_Data cm)) (do_Key opts) = Some (json_encode (VMap doc))" and "json_plain canon (VMap doc)"
    and "golookup doc FeatureManagementSectionName = Some (VMap old)"
    and "ro_featureFlagRefreshNeeded (pr_Options p')"
    and "ro_sentinelChanged (pr_Options p') \<or> ro_keyValuePageETagsChanged (pr_Options p')"
  shows "\<exists>l1 l2 latest etags l3 l4 raw parsed s.
      CheckPageETags lc (rc_FeatureFlagETags (pr_State p)) (pr_Retriever p) = (l1, Ok True)
    \<and> getFeatureFlagSettings lc l1 = (l2, Ok (latest, etags))
    \<and> change_found (loader_retriever lc addr) p l2 l3
    \<and> CreateKeyValueSettings lc (pr_Resolver p) l3 = (l4, Ok raw)
    \<and> parsed_settings (map (\<lambda>(k, v). (k, setting_value (lc_codec lc) (is_json_key raw k) v)) (rw_KeyValueSettings raw))
        (do_Separator opts) = Ok parsed
    \<and> tg_ConfigMapSettings (pr_Settings p') = Some [(do_Key opts, s)]
    \<and> document_of canon s (gostore FeatureManagementSectionName (VMap latest) parsed)"
proof -
  obtain l1 l1' t1 l3 l' t2 where
    check: "CheckPageETags lc (rc_FeatureFlagETags (pr_State p)) (pr_Retriever p) = (l1, Ok True)"
    and flags: "RefreshFeatureFlagSettings lc (slice (cmo_Data cm)) l1 = (l1', Ok t1)"
    and found: "change_found (loader_retriever lc addr) p l1' l3"
    and keys: "RefreshKeyValueSettings lc (existing_settings cm t1) (pr_Resolver p) l3 = (l', Ok t2)"
    and t2: "tg_ConfigMapSettings (pr_Settings p') = tg_ConfigMapSettings t2"
    and l1: "pv_Spec (ldr_Provider l1) = spec" and spec3: "pv_Spec (ldr_Provider l3) = spec"
    using both_called [OF assms(3-5,13,14)] assms(6) by metis
  obtain latest etags l2 where latest: "getFeatureFlagSettings lc l1 = (l2, Ok (latest, etags))"
    using flags by (auto simp: RefreshFeatureFlagSettings_def act_bind_eq_Ok)
  obtain doc1 where "RefreshFeatureFlagSettings lc (slice (cmo_Data cm)) l1 = (l2, Ok (empty_target
      \<lparr> tg_ConfigMapSettings := Some [(do_Key opts, json_encode (VMap doc1))], tg_FeatureFlagETags := etags \<rparr>))"
    and plain: "json_plain canon (VMap doc1)" and sec: "golookup doc1 FeatureManagementSectionName = Some (VMap latest)"
    by (rule flags_refreshed [OF assms(1,2) _ assms(9-12) latest]) (simp add: l1 assms(8))
  then have doc1: "tg_ConfigMapSettings t1 = Some [(do_Key opts, json_encode (VMap doc1))]" and "l1' = l2"
    using flags by simp_all
  obtain l4 raw parsed where raw: "CreateKeyValueSettings lc (pr_Resolver p) l3 = (l4, Ok raw)" "ldr_Provider l4 = ldr_Provider l3"
    and parsed: "parsed_settings (map (\<lambda>(k, v). (k, setting_value (lc_codec lc) (is_json_key raw k) v)) (rw_KeyValueSettings raw))
      (do_Separator opts) = Ok parsed"
    by (rule refreshed_hierarchy [OF keys _ _ assms(9)]) (use spec3 assms(7,8) in simp_all)
  have ex: "golookup (existing_settings cm t1) (do_Key opts) = Some (json_encode (VMap doc1))"
    by (simp add: existing_settings_def doc1)
  obtain s where "RefreshKeyValueSettings lc (existing_settings cm t1) (pr_Resolver p) l3 = (l4, Ok (empty_target
      \<lparr> tg_ConfigMapSettings := Some [(do_Key opts, s)], tg_SecretSettings := rw_SecretSettings raw,
        tg_K8sSecrets := rw_K8sSecrets raw, tg_KeyValueETags := rw_KeyValueETags raw \<rparr>))"
    and s: "document_of canon s (gostore FeatureManagementSectionName (VMap latest) parsed)"
    by (rule key_values_refreshed [OF assms(1,2) raw(1) _ _ assms(9) ex plain sec parsed])
      (simp_all add: raw(2) spec3 assms(7,8))
  then have "tg_ConfigMapSettings (pr_Settings p') = Some [(do_Key opts, s)]"
    using keys t2 by simp
  with check latest found \<open>l1' = l2\<close> raw(1) parsed s show ?thesis by blast
qed

section \<open>Witness\<close>

text \<open>A store that answers every request with a key-value and a feature flag.\<close>

definition refresh_provider :: Provider where
  "refresh_provider = json_provider\<lparr> pv_Spec := (pv_Spec json_provider)\<lparr>
     spec_Configuration := \<lparr> kvo_Selectors = [], kvo_TrimKeyPrefixes = [],
       kvo_Refresh = Some \<lparr> dr_Monitoring = None, dr_Interval = ''0'', dr_Enabled = True \<rparr> \<rparr>,
     spec_FeatureFlag := Some \<lparr> ff_Selectors = [], ff_Refresh = Some \<lparr> ffr_Interval = ''0'', ffr_Enabled = True \<rparr> \<rparr> \<rparr> \<rparr>"

definition refresh_loader :: loader where
  "refresh_loader = test_loader refresh_provider silent_client
     (Some (answers [plain_setting ''a'' ''{}'', flag_setting ''Beta'' ''{}'']))"

definition refresh_map :: ConfigMap where
  "refresh_map = empty_ConfigMap\<lparr> cmo_Data := Some [(''settings.json'', json_encode (VMap written_doc))] \<rparr>"

definition refresh_state :: ReconciliationState where
  "refresh_state =
     \<lparr> rc_Generation = 1, rc_ConfigMapResourceVersion = Some [], rc_Annotations = [], rc_SentinelETags = [],
       rc_KeyValueETags = [], rc_FeatureFlagETags = [], rc_ExistingK8sSecrets = [],
       rc_NextKeyValueRefreshReconcileTime = 0, rc_NextSecretReferenceRefreshReconcileTime = 0,
       rc_NextFeatureFlagRefreshReconcileTime = 0, rc_ClientManager = None \<rparr>"

definition refresh_processor :: "loader processor" where
  "refresh_processor =
     \<lparr> pr_Retriever = refresh_loader, pr_Provider = refresh_provider, pr_Settings = empty_target, pr_ShouldReconcile = False,
       pr_State = refresh_state, pr_CurrentTime = 1, pr_Options = NewRefreshOptions, pr_Resolver = None,
       pr_SharedSecrets = False \<rparr>"

abbreviation refresh_pass :: "loader processor \<times> unit res" where
  "refresh_pass \<equiv> PopulateSettings (loader_retriever test_ctx 0) refresh_map [] refresh_processor"

lemma refresh_pass_ok: "is_Ok (snd refresh_pass)" "\<not> shouldReconcile refresh_processor refresh_map []"
  "ro_featureFlagRefreshNeeded (pr_Options (fst refresh_pass))" "ro_keyValuePageETagsChanged (pr_Options (fst refresh_pass))"
  by code_simp+

theorem both_refreshes_compose_witness:
  "\<exists>s latest parsed. tg_ConfigMapSettings (pr_Settings (fst refresh_pass)) = Some [(''settings.json'', s)]
    \<and> document_of num_canon s (gostore FeatureManagementSectionName (VMap latest) parsed)"
proof -
  obtain p' where p': "refresh_pass = (p', Ok ())"
    using refresh_pass_ok(1) by (cases refresh_pass) (auto simp: is_Ok_iff)
  have spec: "pv_Spec refresh_provider = pv_Spec (ldr_Provider (pr_Retriever refresh_processor))"
    "spec_FeatureFlag (pv_Spec refresh_provider) \<noteq> None"
    "ct_ConfigMapData (spec_Target (pv_Spec refresh_provider)) = Some sample_options"
    "do_Type sample_options = Json" "do_Key sample_options = ''settings.json''" "pr_Options refresh_processor = NewRefreshOptions"
    by (simp_all add: refresh_processor_def refresh_loader_def test_loader_def refresh_provider_def json_provider_spec sample_options_def)
  have map: "golookup (slice (cmo_Data refresh_map)) (do_Key sample_options) = Some (json_encode (VMap written_doc))"
    by (simp add: refresh_map_def spec(5))
  have "ro_featureFlagRefreshNeeded (pr_Options p')" "ro_sentinelChanged (pr_Options p') \<or> ro_keyValuePageETagsChanged (pr_Options p')"
    using refresh_pass_ok(3,4) by (simp_all add: p')
  from both_refreshes_compose [OF codec_written p' spec(6) refresh_pass_ok(2) spec(1-4) map written_doc_plain written_doc_flags this]
  show ?thesis by (auto simp: p' spec(5))
qed

end
