(* ===== verification/Refresh_Timers.thy ===== *)
theory Refresh_Timers
  imports Processor
begin

text \<open>
  What the timers of \<^verbatim>\<open>internal/controller/processor.go\<close> promise: when the provider is visited
  again, what a failed pass leaves to be done, and that an idle pass makes no request.
\<close>

section \<open>Intervals and timers\<close>

lemma duration_or_zero_Nil [simp]: "duration_or_zero [] = 0"
  by (simp add: duration_or_zero_def ParseDuration_def invalid_duration_def)

lemma verified_interval: "verifyRefreshInterval i m arg = Ok () \<Longrightarrow> 0 \<le> m \<Longrightarrow> 0 \<le> duration_or_zero i"
  by (auto simp: verifyRefreshInterval_Ok duration_or_zero_def)

lemma minimal_intervals:
  "0 \<le> MinimalFeatureFlagRefreshInterval" "0 \<le> MinimalSecretRefreshInterval" "0 \<le> MinimalSentinelBasedRefreshInterval"
  by (simp_all add: MinimalFeatureFlagRefreshInterval_def MinimalSecretRefreshInterval_def
      MinimalSentinelBasedRefreshInterval_def duration_defs)

lemma accepted_intervals:
  assumes "verifyObject env spec = Ok ()"
    and "i \<in> {feature_flag_interval spec, key_value_interval spec, secret_interval spec}" and "i = Some d"
  shows "0 \<le> duration_or_zero d"
proof -
  have v: "\<forall>ff. spec_FeatureFlag spec = Some ff \<longrightarrow> verify_feature_flag spec ff = Ok ()"
    "\<forall>sr. spec_Secret spec = Some sr \<longrightarrow> verify_secret env sr = Ok ()"
    "\<forall>r. kvo_Refresh (spec_Configuration spec) = Some r \<longrightarrow> verify_refresh r = Ok ()"
    using assms(1) by (auto simp: verifyObject_def verify_Ok)
  consider "feature_flag_interval spec = Some d" | "key_value_interval spec = Some d" | "secret_interval spec = Some d"
    using assms(2,3) by auto
  then show ?thesis
  proof cases
    case 1
    then show ?thesis
      using v(1) minimal_intervals verified_interval
      by (fastforce simp: feature_flag_interval_def verify_feature_flag_def split: option.splits if_splits)
  next
    case 2
    then obtain r where r: "kvo_Refresh (spec_Configuration spec) = Some r" "d = dr_Interval r"
      by (auto simp: key_value_interval_def key_value_refresh_def split: option.splits if_splits)
    then show ?thesis
      using v(3) minimal_intervals verified_interval [of d]
      by (cases "d = []") (auto simp: verify_refresh_def)
  next
    case 3
    then show ?thesis
      using v(2) minimal_intervals verified_interval
      by (fastforce simp: secret_interval_def verify_secret_def split: option.splits if_splits)
  qed
qed

text \<open>The timers of the refreshes that are enabled.\<close>

definition enabled_timers :: "ProviderSpec \<Rightarrow> ReconciliationState \<Rightarrow> go_time list" where
  "enabled_timers spec st =
     map snd (filter (\<lambda>(i, t). i \<noteq> None)
       [(key_value_interval spec, rc_NextKeyValueRefreshReconcileTime st),
        (secret_interval spec, rc_NextSecretReferenceRefreshReconcileTime st),
        (feature_flag_interval spec, rc_NextFeatureFlagRefreshReconcileTime st)])"

lemma set_enabled_timers:
  "t \<in> set (enabled_timers spec st) \<longleftrightarrow>
     (key_value_interval spec \<noteq> None \<and> t = rc_NextKeyValueRefreshReconcileTime st) \<or>
     (secret_interval spec \<noteq> None \<and> t = rc_NextSecretReferenceRefreshReconcileTime st) \<or>
     (feature_flag_interval spec \<noteq> None \<and> t = rc_NextFeatureFlagRefreshReconcileTime st)"
  by (auto simp: enabled_timers_def)

lemma bex_timers:
  "(\<exists>t \<in> set (enabled_timers spec st). P t) \<longleftrightarrow>
     (key_value_interval spec \<noteq> None \<and> P (rc_NextKeyValueRefreshReconcileTime st)) \<or>
     (secret_interval spec \<noteq> None \<and> P (rc_NextSecretReferenceRefreshReconcileTime st)) \<or>
     (feature_flag_interval spec \<noteq> None \<and> P (rc_NextFeatureFlagRefreshReconcileTime st))"
  by (simp add: Bex_def set_enabled_timers conj_disj_distribR ex_disj_distrib)

lemma ball_timers:
  "(\<forall>t \<in> set (enabled_timers spec st). P t) \<longleftrightarrow>
     (key_value_interval spec \<noteq> None \<longrightarrow> P (rc_NextKeyValueRefreshReconcileTime st)) \<and>
     (secret_interval spec \<noteq> None \<longrightarrow> P (rc_NextSecretReferenceRefreshReconcileTime st)) \<and>
     (feature_flag_interval spec \<noteq> None \<longrightarrow> P (rc_NextFeatureFlagRefreshReconcileTime st))"
  using bex_timers [of spec st "\<lambda>t. \<not> P t"] by blast

lemma next_requeue_time_Min:
  assumes "n \<noteq> 0 \<or> filter (\<lambda>t. t \<noteq> 0) ts \<noteq> []"
  shows "next_requeue_time ts n = Min (set (filter (\<lambda>t. t \<noteq> 0) ts) \<union> (if n = 0 then {} else {n}))"
  using assms
proof (induction ts arbitrary: n)
  case (Cons t ts)
  consider "t = 0" | "t \<noteq> 0" "n = 0" | "t \<noteq> 0" "n \<noteq> 0" by blast
  then show ?case
  proof cases
    case 3
    then have "next_requeue_time (t # ts) n = next_requeue_time ts (min t n)" by (simp add: min_def)
    also have "\<dots> = Min (set (filter (\<lambda>t. t \<noteq> 0) ts) \<union> {min t n})"
      using Cons.IH [of "min t n"] 3 by (simp add: min_def)
    also have "\<dots> = Min (insert n (insert t (set (filter (\<lambda>t. t \<noteq> 0) ts))))"
      by (cases "{x \<in> set ts. x \<noteq> 0} = {}") (simp_all add: min.assoc min.commute min.left_commute)
    finally show ?thesis using 3 by simp
  qed (use Cons in auto)
qed auto

lemma act_bind_fails:
  assumes "act_bind m f s = (t, r)" and "r \<noteq> Ok ()"
  obtains (first) "m s = (t, r)" | (second) s' where "m s = (s', Ok ())" "f () s' = (t, r)"
proof (cases "m s")
  case (Pair s' r0)
  then show ?thesis
    using assms that by (cases r0) (auto simp: act_bind_def)
qed

text \<open>Passes that leave everything but the timers of disabled refreshes and the flags for the requeue.\<close>

definition quiet :: "'s processor \<Rightarrow> 's processor \<Rightarrow> bool" where
  "quiet p p' \<longleftrightarrow>
     pr_Retriever p' = pr_Retriever p \<and> pr_Settings p' = pr_Settings p \<and> pr_Provider p' = pr_Provider p \<and>
     pr_CurrentTime p' = pr_CurrentTime p \<and> \<not> pr_ShouldReconcile p' \<and>
     ro_ConfigMapSettingPopulated (pr_Options p') = ro_ConfigMapSettingPopulated (pr_Options p) \<and>
     ro_SecretSettingPopulated (pr_Options p') = ro_SecretSettingPopulated (pr_Options p) \<and>
     (feature_flag_interval (pv_Spec (pr_Provider p)) \<noteq> None \<longrightarrow>
        rc_NextFeatureFlagRefreshReconcileTime (pr_State p') = rc_NextFeatureFlagRefreshReconcileTime (pr_State p)) \<and>
     (key_value_interval (pv_Spec (pr_Provider p)) \<noteq> None \<longrightarrow>
        rc_NextKeyValueRefreshReconcileTime (pr_State p') = rc_NextKeyValueRefreshReconcileTime (pr_State p)) \<and>
     (secret_interval (pv_Spec (pr_Provider p)) \<noteq> None \<longrightarrow>
        rc_NextSecretReferenceRefreshReconcileTime (pr_State p') = rc_NextSecretReferenceRefreshReconcileTime (pr_State p))"

lemma quiet_trans: "quiet p q \<Longrightarrow> quiet q r \<Longrightarrow> quiet p r"
  by (simp add: quiet_def)

lemma feature_flag_idle:
  assumes "\<not> pr_ShouldReconcile p"
    and "feature_flag_interval (pv_Spec (pr_Provider p)) \<noteq> None \<Longrightarrow> pr_CurrentTime p \<le> rc_NextFeatureFlagRefreshReconcileTime (pr_State p)"
  shows "\<exists>p'. (\<forall>rt. processFeatureFlagRefresh rt cm p = (p', Ok ())) \<and> quiet p p'
    \<and> ro_secretReferenceRefreshEnabled (pr_Options p') = ro_secretReferenceRefreshEnabled (pr_Options p)"
  using assms by (cases "feature_flag_interval (pv_Spec (pr_Provider p))")
    (auto simp: processFeatureFlagRefresh_def quiet_def with_options_def with_state_def)

lemma key_value_idle:
  assumes "\<not> pr_ShouldReconcile p"
    and "key_value_interval (pv_Spec (pr_Provider p)) \<noteq> None \<Longrightarrow> pr_CurrentTime p \<le> rc_NextKeyValueRefreshReconcileTime (pr_State p)"
  shows "\<exists>p'. (\<forall>rt. processKeyValueRefresh rt cm p = (p', Ok ())) \<and> quiet p p'
    \<and> ro_secretReferenceRefreshEnabled (pr_Options p') = ro_secretReferenceRefreshEnabled (pr_Options p)"
  using assms by (cases "key_value_refresh (pv_Spec (pr_Provider p))")
    (auto simp: processKeyValueRefresh_def key_value_interval_def quiet_def with_options_def with_state_def)

lemma secret_idle:
  assumes "\<not> pr_ShouldReconcile p" and "\<not> ro_secretReferenceRefreshEnabled (pr_Options p)"
    and "secret_interval (pv_Spec (pr_Provider p)) \<noteq> None \<Longrightarrow> pr_CurrentTime p \<le> rc_NextSecretReferenceRefreshReconcileTime (pr_State p)"
  shows "\<exists>p'. (\<forall>rt. processSecretReferenceRefresh rt es p = (p', Ok ())) \<and> quiet p p'"
  using assms by (cases "secret_interval (pv_Spec (pr_Provider p))")
    (auto simp: processSecretReferenceRefresh_def quiet_def with_options_def with_state_def Let_def)

lemma pass_start:
  "PopulateSettings rt cm es p =
     act_bind (\<lambda>p. if pr_ShouldReconcile p then processFullReconciliation rt p else (p, Ok ())) (\<lambda>_.
     act_bind (processFeatureFlagRefresh rt cm) (\<lambda>_.
     act_bind (processKeyValueRefresh rt cm) (\<lambda>_. processSecretReferenceRefresh rt es)))
     (p\<lparr> pr_ShouldReconcile := shouldReconcile p cm es \<rparr>)"
  by (simp add: PopulateSettings_def)

text \<open>The processor after the full load of a pass, if there was one.\<close>

definition pass_begun :: "'s processor \<Rightarrow> 's processor \<Rightarrow> bool" where
  "pass_begun p p0 \<longleftrightarrow>
     pr_Provider p0 = pr_Provider p \<and> pr_CurrentTime p0 = pr_CurrentTime p \<and> pr_State p0 = pr_State p \<and>
     ro_keyValueRefreshEnabled (pr_Options p0) = ro_keyValueRefreshEnabled (pr_Options p) \<and>
     ro_secretReferenceRefreshEnabled (pr_Options p0) = ro_secretReferenceRefreshEnabled (pr_Options p) \<and>
     ro_featureFlagRefreshEnabled (pr_Options p0) = ro_featureFlagRefreshEnabled (pr_Options p)"

text \<open>Where a pass can fail, with what the steps before the failing one have kept.\<close>

lemma failed_pass_cases:
  assumes "PopulateSettings rt cm es p = (p', r)" and "r \<noteq> Ok ()"
  obtains (full) "shouldReconcile p cm es" "pr_State p' = pr_State p" "pr_Provider p' = pr_Provider p"
    | (flags) p0 where "pass_begun p p0" "processFeatureFlagRefresh rt cm p0 = (p', r)"
    | (keys) p0 p1 where "pass_begun p p0" "processFeatureFlagRefresh rt cm p0 = (p1, Ok ())"
        "processKeyValueRefresh rt cm p1 = (p', r)"
    | (secrets) p0 p1 p2 where "pass_begun p p0" "processFeatureFlagRefresh rt cm p0 = (p1, Ok ())"
        "processKeyValueRefresh rt cm p1 = (p2, Ok ())" "processSecretReferenceRefresh rt es p2 = (p', r)"
proof -
  let ?b = "shouldReconcile p cm es"
  from assms(1) [unfolded pass_start] assms(2) show thesis
  proof (cases rule: act_bind_fails)
    case first
    then show thesis
      using assms(2) full_frame [of rt "p\<lparr> pr_ShouldReconcile := ?b \<rparr>" p' r] by (intro full) (auto split: if_splits)
  next
    case (second p0)
    have begun: "pass_begun p p0"
      using second(1) full_frame [of rt "p\<lparr> pr_ShouldReconcile := ?b \<rparr>" p0 "Ok ()"]
      by (auto simp: pass_begun_def split: if_splits)
    from second(2) assms(2) show thesis
    proof (cases rule: act_bind_fails)
      case (second p1)
      from second(2) assms(2) show thesis
        by (cases rule: act_bind_fails) (use keys [OF begun second(1)] secrets [OF begun second(1)] in auto)
    qed (use flags [OF begun] in auto)
  qed
qed

section \<open>Properties\<close>

text \<open>
  C5. The provider is visited again exactly when it has to be.  After a pass that succeeded with
  an accepted specification, every enabled timer is at the time of the pass or later; the
  provider is requeued if some refresh is enabled, after the time to the earliest enabled
  timer, and never after less than a second.
\<close>

theorem requeue_in_time:
  assumes "verifyObject env (pv_Spec (pr_Provider p)) = Ok ()"
    and "pr_Options p = NewRefreshOptions" and "0 < pr_CurrentTime p"
    and "PopulateSettings rt existingConfigMap existingSecrets p = (p', Ok ())"
    and "timers = enabled_timers (pv_Spec (pr_Provider p)) (pr_State (fst (Finish now p')))"
  shows "(\<forall>t \<in> set timers. pr_CurrentTime p \<le> t)
    \<and> snd (Finish now p') =
        (if timers = [] then \<lparr> rr_Requeue = False, rr_RequeueAfter = 0 \<rparr>
         else \<lparr> rr_Requeue = True, rr_RequeueAfter = max second (time_Sub (Min (set timers)) now) \<rparr>)"
proof -
  let ?spec = "pv_Spec (pr_Provider p)"
  note pt = pass_timers [OF assms(4,2) refl refl]
  have st: "enabled_timers ?spec (pr_State (fst (Finish now p'))) = enabled_timers ?spec (pr_State p')"
    by (simp add: Finish_def Let_def with_state_def finish_state_def enabled_timers_def)
  have nn: "0 \<le> duration_or_zero d" if "i \<in> {feature_flag_interval ?spec, key_value_interval ?spec, secret_interval ?spec}" "i = Some d" for i d
    using accepted_intervals [OF assms(1) that] .
  have ahead: "\<forall>t \<in> set timers. pr_CurrentTime p \<le> t"
    using pt nn unfolding assms(5) st by (auto simp: enabled_timers_def timer_set_def split: option.splits)
  let ?all = "[rc_NextKeyValueRefreshReconcileTime (pr_State p'), rc_NextSecretReferenceRefreshReconcileTime (pr_State p'),
      rc_NextFeatureFlagRefreshReconcileTime (pr_State p')]"
  have nz: "filter (\<lambda>t. t \<noteq> 0) ?all = timers"
    using pt ahead assms(3) unfolding assms(5) st by (auto simp: enabled_timers_def timer_set_def split: option.splits)
  have req: "next_requeue_time ?all 0 = Min (set timers)" if "timers \<noteq> []"
    using next_requeue_time_Min [of 0 ?all] that unfolding nz by simp
  have en: "timers = [] \<longleftrightarrow> \<not> ro_secretReferenceRefreshEnabled (pr_Options p') \<and> \<not> ro_keyValueRefreshEnabled (pr_Options p')
      \<and> \<not> ro_featureFlagRefreshEnabled (pr_Options p')"
    using pt unfolding assms(5) st by (auto simp: enabled_timers_def)
  have calc: "calculateRequeueAfterInterval now st' = max second (time_Sub (Min (set timers)) now)"
    if "timers \<noteq> []" "rc_NextKeyValueRefreshReconcileTime st' = rc_NextKeyValueRefreshReconcileTime (pr_State p')"
      "rc_NextSecretReferenceRefreshReconcileTime st' = rc_NextSecretReferenceRefreshReconcileTime (pr_State p')"
      "rc_NextFeatureFlagRefreshReconcileTime st' = rc_NextFeatureFlagRefreshReconcileTime (pr_State p')" for st'
    unfolding calculateRequeueAfterInterval_def that(2-4) req [OF that(1)] Let_def by (simp add: max_def)
  show ?thesis
    using ahead en calc by (auto simp: Finish_def Let_def with_state_def finish_state_def)
qed

text \<open>
  C6. A pass that fails is repeated.  It changes nothing in the state of the provider but the
  timers, so what made it load everything still does, or an enabled timer is still in the
  past and its refresh will be tried by the next pass.
\<close>

theorem failed_pass_retried:
  assumes "PopulateSettings rt existingConfigMap existingSecrets p = (p', r)" and "r \<noteq> Ok ()"
    and "pr_Options p = NewRefreshOptions"
  shows "(\<exists>tk ts tf. pr_State p' = (pr_State p)\<lparr> rc_NextKeyValueRefreshReconcileTime := tk,
        rc_NextSecretReferenceRefreshReconcileTime := ts, rc_NextFeatureFlagRefreshReconcileTime := tf \<rparr>)
    \<and> (shouldReconcile p' existingConfigMap existingSecrets
       \<or> (\<exists>t \<in> set (enabled_timers (pv_Spec (pr_Provider p)) (pr_State p')). t < pr_CurrentTime p))"
proof -
  note off = assms(3) [unfolded NewRefreshOptions_def]
  from assms(1,2) show ?thesis
  proof (cases rule: failed_pass_cases)
    case full
    have "shouldReconcile p' existingConfigMap existingSecrets = shouldReconcile p existingConfigMap existingSecrets"
      by (simp only: shouldReconcile_def full(2,3))
    then show ?thesis using full by (cases "pr_State p") auto
  next
    case (flags p0)
    then have "feature_flag_interval (pv_Spec (pr_Provider p)) \<noteq> None"
      using feature_flag_gate.disabled [OF _ _ flags(2)] assms(2) off by (auto simp: pass_begun_def)
    then show ?thesis
      using feature_flag_gate.failed [OF flags(2) assms(2)] feature_flag_frame(1) [OF flags(2)] flags(1)
      by (cases "pr_State p") (auto simp: bex_timers pass_begun_def)
  next
    case (keys p0 p1)
    note ff = feature_flag_gate.frame [OF keys(2)] feature_flag_frame [OF keys(2)]
    have "key_value_interval (pv_Spec (pr_Provider p)) \<noteq> None"
      using key_value_gate.disabled [OF _ _ keys(3)] keys(1) assms(2) off ff by (auto simp: pass_begun_def)
    then show ?thesis
      using key_value_gate.failed [OF keys(3) assms(2)] key_value_frame(1) [OF keys(3)] keys(1) ff
      by (cases "pr_State p") (auto simp: bex_timers pass_begun_def)
  next
    case (secrets p0 p1 p2)
    note kept = feature_flag_gate.frame [OF secrets(2)] feature_flag_frame [OF secrets(2)]
      key_value_gate.frame [OF secrets(3)] key_value_frame [OF secrets(3)]
    have "secret_interval (pv_Spec (pr_Provider p)) \<noteq> None"
      using secret_gate.disabled [OF _ _ secrets(4)] secrets(1) assms(2) off kept by (auto simp: pass_begun_def)
    then show ?thesis
      using secret_gate.failed [OF secrets(4) assms(2)] secret_frame(1) [OF secrets(4)] secrets(1) kept
      by (cases "pr_State p") (auto simp: bex_timers pass_begun_def)
  qed
qed

text \<open>
  C25. An idle pass makes no request.  When nothing calls for a full load and no enabled timer has
  passed, the pass succeeds, whatever the retriever is, without calling it, and populates
  neither the ConfigMap nor the secrets.
\<close>

theorem idle_pass_makes_no_request:
  assumes "\<not> shouldReconcile p existingConfigMap existingSecrets"
    and "\<forall>t \<in> set (enabled_timers (pv_Spec (pr_Provider p)) (pr_State p)). pr_CurrentTime p \<le> t"
    and "pr_Options p = NewRefreshOptions"
  shows "\<exists>p'. (\<forall>rt. PopulateSettings rt existingConfigMap existingSecrets p = (p', Ok ()))
    \<and> pr_Retriever p' = pr_Retriever p \<and> pr_Settings p' = pr_Settings p
    \<and> \<not> ro_ConfigMapSettingPopulated (pr_Options p') \<and> \<not> ro_SecretSettingPopulated (pr_Options p')
    \<and> enabled_timers (pv_Spec (pr_Provider p)) (pr_State p') = enabled_timers (pv_Spec (pr_Provider p)) (pr_State p)"
proof -
  let ?p = "p\<lparr> pr_ShouldReconcile := False \<rparr>" and ?spec = "pv_Spec (pr_Provider p)"
  have t: "feature_flag_interval ?spec \<noteq> None \<Longrightarrow> pr_CurrentTime p \<le> rc_NextFeatureFlagRefreshReconcileTime (pr_State p)"
    "key_value_interval ?spec \<noteq> None \<Longrightarrow> pr_CurrentTime p \<le> rc_NextKeyValueRefreshReconcileTime (pr_State p)"
    "secret_interval ?spec \<noteq> None \<Longrightarrow> pr_CurrentTime p \<le> rc_NextSecretReferenceRefreshReconcileTime (pr_State p)"
    using assms(2) by (simp_all add: ball_timers)
  have q: "quiet p ?p" by (simp add: quiet_def)
  obtain p1 where p1: "\<forall>rt. processFeatureFlagRefresh rt existingConfigMap ?p = (p1, Ok ())" "quiet ?p p1"
    "ro_secretReferenceRefreshEnabled (pr_Options p1) = ro_secretReferenceRefreshEnabled (pr_Options ?p)"
    using feature_flag_idle [of ?p existingConfigMap] t(1) by auto
  have q1: "quiet p p1" by (rule quiet_trans [OF q p1(2)])
  obtain p2 where p2: "\<forall>rt. processKeyValueRefresh rt existingConfigMap p1 = (p2, Ok ())" "quiet p1 p2"
    "ro_secretReferenceRefreshEnabled (pr_Options p2) = ro_secretReferenceRefreshEnabled (pr_Options p1)"
    using key_value_idle [of p1 existingConfigMap] t(2) q1 by (auto simp: quiet_def [of p p1])
  have q2: "quiet p p2" by (rule quiet_trans [OF q1 p2(2)])
  obtain p3 where p3: "\<forall>rt. processSecretReferenceRefresh rt existingSecrets p2 = (p3, Ok ())" "quiet p2 p3"
    using secret_idle [of p2 existingSecrets] t(3) q2 p1(3) p2(3) assms(3)
    by (auto simp: quiet_def [of p p2] NewRefreshOptions_def)
  have q3: "quiet p p3" by (rule quiet_trans [OF q2 p3(2)])
  have "PopulateSettings rt existingConfigMap existingSecrets p = (p3, Ok ())" for rt
    using assms(1) p1(1) p2(1) p3(1) by (simp add: pass_start act_bind_def)
  moreover have "enabled_timers ?spec (pr_State p3) = enabled_timers ?spec (pr_State p)"
    using q3 by (simp add: quiet_def enabled_timers_def)
  ultimately show ?thesis
    using q3 assms(3) by (auto simp: quiet_def NewRefreshOptions_def)
qed

text \<open>
  C37. A feature flag refresh whose result is lost.  When the flags have changed and were read, and
  the key-value refresh of the same pass fails, the timer of the flags has advanced although
  no ConfigMap was written: the change is picked up one interval later.
\<close>

theorem flag_refresh_lost_on_failure:
  assumes "\<not> shouldReconcile p existingConfigMap existingSecrets"
    and "feature_flag_interval (pv_Spec (pr_Provider p)) = Some i"
    and "rc_NextFeatureFlagRefreshReconcileTime (pr_State p) < pr_CurrentTime p"
    and "rt_CheckPageETags rt (rc_FeatureFlagETags (pr_State p)) (pr_Retriever p) = (s1, Ok True)"
    and "rt_RefreshFeatureFlagSettings rt (slice (cmo_Data existingConfigMap)) s1 = (s2, Ok settings)"
    and "PopulateSettings rt existingConfigMap existingSecrets p = (p', Err e)"
  shows "rc_NextFeatureFlagRefreshReconcileTime (pr_State p') = pr_CurrentTime p + duration_or_zero i
    \<and> rc_FeatureFlagETags (pr_State p') = rc_FeatureFlagETags (pr_State p)"
proof -
  let ?p = "p\<lparr> pr_ShouldReconcile := False \<rparr>"
  obtain p1 where p1: "processFeatureFlagRefresh rt existingConfigMap ?p = (p1, Ok ())"
      "rc_NextFeatureFlagRefreshReconcileTime (pr_State p1) = pr_CurrentTime p + duration_or_zero i"
      "rc_FeatureFlagETags (pr_State p1) = rc_FeatureFlagETags (pr_State p)"
    using assms(2-5) by (simp add: processFeatureFlagRefresh_def refresh_simps)
  have "act_bind (processKeyValueRefresh rt existingConfigMap) (\<lambda>_. processSecretReferenceRefresh rt existingSecrets) p1 = (p', Err e)"
    using assms(6) p1(1) assms(1) by (simp add: pass_start act_bind_def)
  moreover have "Err e \<noteq> (Ok () :: unit res)" by simp
  ultimately show ?thesis
  proof (cases rule: act_bind_fails)
    case first
    then show ?thesis using key_value_frame(1) [OF first] p1(2,3) by auto
  next
    case (second p2)
    then show ?thesis using key_value_frame(1) [OF second(1)] secret_frame(1) [OF second(2)] p1(2,3) by auto
  qed
qed

section \<open>Witnesses\<close>

text \<open>A store whose pages have changed and whose sentinels cannot be read.\<close>

definition busy_retriever :: "unit retriever" where
  "busy_retriever =
     \<lparr> rt_CreateTargetSettings = (\<lambda>resolver s. (s, Ok (empty_target\<lparr> tg_ConfigMapSettings := Some [] \<rparr>))),
       rt_CheckAndRefreshSentinels = (\<lambda>provider e s. (s, Err (LibError ''busy''))),
       rt_CheckPageETags = (\<lambda>e s. (s, Ok True)),
       rt_RefreshKeyValueSettings = (\<lambda>m resolver s. (s, Ok (empty_target\<lparr> tg_ConfigMapSettings := Some [] \<rparr>))),
       rt_RefreshFeatureFlagSettings = (\<lambda>m s. (s, Ok (empty_target\<lparr> tg_ConfigMapSettings := Some [] \<rparr>))),
       rt_ResolveSecretReferences = (\<lambda>refs resolver s. (s, Ok empty_target)) \<rparr>"

definition new_state :: ReconciliationState where
  "new_state =
     \<lparr> rc_Generation = -1, rc_ConfigMapResourceVersion = None, rc_Annotations = [], rc_SentinelETags = [],
       rc_KeyValueETags = [], rc_FeatureFlagETags = [], rc_ExistingK8sSecrets = [],
       rc_NextKeyValueRefreshReconcileTime = 0, rc_NextSecretReferenceRefreshReconcileTime = 0,
       rc_NextFeatureFlagRefreshReconcileTime = 0, rc_ClientManager = None \<rparr>"

text \<open>The state after a load at time 1 of a provider without secrets.\<close>

definition loaded_state :: ReconciliationState where
  "loaded_state = new_state\<lparr> rc_Generation := 1, rc_ConfigMapResourceVersion := Some [],
     rc_NextKeyValueRefreshReconcileTime := 1, rc_NextFeatureFlagRefreshReconcileTime := 1 \<rparr>"

definition test_processor :: "ReconciliationState \<Rightarrow> ProviderSpec \<Rightarrow> go_time \<Rightarrow> unit processor" where
  "test_processor st spec now =
     \<lparr> pr_Retriever = (), pr_Provider = sample_provider\<lparr> pv_Spec := spec \<rparr>, pr_Settings = empty_target,
       pr_ShouldReconcile = False, pr_State = st, pr_CurrentTime = now, pr_Options = NewRefreshOptions,
       pr_Resolver = None, pr_SharedSecrets = False \<rparr>"

definition secretless_spec :: ProviderSpec where
  "secretless_spec = checked_spec\<lparr> spec_Secret := None \<rparr>"

lemma test_processor_simps [simp]:
  "pr_Retriever (test_processor st spec now) = ()" "pv_Spec (pr_Provider (test_processor st spec now)) = spec"
  "pr_State (test_processor st spec now) = st" "pr_CurrentTime (test_processor st spec now) = now"
  "pr_Options (test_processor st spec now) = NewRefreshOptions"
  "pv_Generation (pr_Provider (test_processor st spec now)) = 1"
  "pv_Annotations (pr_Provider (test_processor st spec now)) = []"
  by (simp_all add: test_processor_def sample_provider_def)

lemma checked_intervals:
  "feature_flag_interval checked_spec = Some ''30s''" "key_value_interval checked_spec = Some ''1s''"
  "secret_interval checked_spec = Some ''1m''" "feature_flag_interval secretless_spec = Some ''30s''"
  "key_value_interval secretless_spec = Some ''1s''" "secret_interval secretless_spec = None"
  by (simp_all add: secretless_spec_def checked_spec_def sample_spec_def feature_flag_interval_def key_value_interval_def
      key_value_refresh_def secret_interval_def sample_secret_options_def)

theorem requeue_in_time_witness:
  "\<exists>p'. PopulateSettings busy_retriever empty_ConfigMap [] (test_processor new_state checked_spec 1) = (p', Ok ())
    \<and> rr_Requeue (snd (Finish 1 p'))"
proof -
  let ?p = "test_processor new_state checked_spec 1"
  have "shouldReconcile ?p empty_ConfigMap []" by (simp add: shouldReconcile_def Let_def new_state_def)
  then obtain p' where p': "PopulateSettings busy_retriever empty_ConfigMap [] ?p = (p', Ok ())"
    by (simp add: pass_start processFullReconciliation_def processFeatureFlagRefresh_def processKeyValueRefresh_def
        processSecretReferenceRefresh_def refresh_simps busy_retriever_def deref_def test_processor_def sample_provider_def
        checked_spec_def feature_flag_interval_def key_value_refresh_def secret_interval_def sample_secret_options_def
        NewRefreshOptions_def new_state_def)
  moreover have v: "verifyObject uuid_env (pv_Spec (pr_Provider ?p)) = Ok ()" using checked_spec_accepted by simp
  ultimately show ?thesis
    using requeue_in_time [OF v _ _ p' refl, of 1] by (simp add: enabled_timers_def checked_intervals)
qed

lemma loaded_quiet: "\<not> shouldReconcile (test_processor loaded_state secretless_spec now) empty_ConfigMap []"
  by (simp add: shouldReconcile_def Let_def loaded_state_def new_state_def annotationChanged_def empty_ConfigMap_def
      named_meta_def secretless_spec_def)

lemma busy_pass:
  "\<exists>p'. PopulateSettings busy_retriever empty_ConfigMap [] (test_processor loaded_state secretless_spec 2) = (p', Err (LibError ''busy''))"
proof -
  have "key_value_refresh secretless_spec = Some \<lparr> dr_Monitoring = Some \<lparr> mon_Sentinels = [\<lparr> sen_Key = ''s'', sen_Label = None \<rparr>] \<rparr>,
      dr_Interval = ''1s'', dr_Enabled = True \<rparr>"
    by (simp add: secretless_spec_def checked_spec_def key_value_refresh_def)
  then show ?thesis
    using loaded_quiet [of 2]
    by (simp add: pass_start processFeatureFlagRefresh_def processKeyValueRefresh_def check_key_values_def checked_intervals
        refresh_simps busy_retriever_def loaded_state_def)
qed

theorem failed_pass_retried_witness:
  "\<exists>p'. PopulateSettings busy_retriever empty_ConfigMap [] (test_processor loaded_state secretless_spec 2) = (p', Err (LibError ''busy''))
    \<and> (shouldReconcile p' empty_ConfigMap [] \<or> (\<exists>t \<in> set (enabled_timers secretless_spec (pr_State p')). t < 2))"
proof -
  obtain p' where p': "PopulateSettings busy_retriever empty_ConfigMap [] (test_processor loaded_state secretless_spec 2)
      = (p', Err (LibError ''busy''))" using busy_pass by blast
  from failed_pass_retried [OF p'] p' show ?thesis by simp
qed

theorem idle_pass_makes_no_request_witness:
  "\<exists>p'. PopulateSettings busy_retriever empty_ConfigMap [] (test_processor loaded_state secretless_spec 1) = (p', Ok ())
    \<and> \<not> ro_ConfigMapSettingPopulated (pr_Options p')"
proof -
  have "\<forall>t \<in> set (enabled_timers (pv_Spec (pr_Provider (test_processor loaded_state secretless_spec 1)))
      (pr_State (test_processor loaded_state secretless_spec 1))). pr_CurrentTime (test_processor loaded_state secretless_spec 1) \<le> t"
    by (simp add: ball_timers checked_intervals loaded_state_def)
  from idle_pass_makes_no_request [OF loaded_quiet this] show ?thesis by auto
qed

theorem flag_refresh_lost_on_failure_witness:
  "\<exists>p'. PopulateSettings busy_retriever empty_ConfigMap [] (test_processor loaded_state secretless_spec 2) = (p', Err (LibError ''busy''))
    \<and> rc_NextFeatureFlagRefreshReconcileTime (pr_State p') = 2 + duration_or_zero ''30s''"
proof -
  obtain p' where p': "PopulateSettings busy_retriever empty_ConfigMap [] (test_processor loaded_state secretless_spec 2)
      = (p', Err (LibError ''busy''))" using busy_pass by blast
  have "rc_NextFeatureFlagRefreshReconcileTime (pr_State (test_processor loaded_state secretless_spec 2))
      < pr_CurrentTime (test_processor loaded_state secretless_spec 2)"
    by (simp add: loaded_state_def)
  from flag_refresh_lost_on_failure [OF loaded_quiet _ this _ _ p', of "''30s''"] p' show ?thesis
    by (simp add: checked_intervals busy_retriever_def)
qed

end
