(* ===== verification/Secret_Refresh.thy ===== *)
theory Secret_Refresh
  imports Processor
begin

text \<open>
  What a refresh of the Key Vault references does to the secrets
  (\<^verbatim>\<open>processSecretReferenceRefresh\<close> of \<^verbatim>\<open>internal/controller/processor.go\<close>): only references
  without a version are resolved again, and what they resolve to replaces their entries in
  the secrets that exist.
\<close>

section \<open>References without a version\<close>

definition unversioned :: "(string, KeyVaultSecretMetadata) gomap \<Rightarrow> (string, KeyVaultSecretMetadata) gomap" where
  "unversioned m = filter (\<lambda>(k, md). kvm_SecretVersion md = []) m"

lemma golookup_unversioned:
  assumes "gomap_ok m"
  shows "golookup (unversioned m) k =
    (case golookup m k of None \<Rightarrow> None | Some md \<Rightarrow> if kvm_SecretVersion md = [] then Some md else None)"
proof -
  have k: "k' \<in> fst ` set (filter P m) \<Longrightarrow> k' \<in> fst ` set m" for k' P by auto
  show ?thesis
    using assms unfolding unversioned_def gomap_ok_def gokeys_def
  proof (induction m)
    case (Cons e m)
    then show ?case
      by (cases e) (auto simp: map_of_eq_None_iff split: option.splits)
  qed simp
qed

lemma gomap_ok_unversioned: "gomap_ok m \<Longrightarrow> gomap_ok (unversioned m)"
  by (induction m) (auto simp: gomap_ok_def gokeys_def unversioned_def)

definition target_of :: "SecretType \<Rightarrow> TargetK8sSecretMetadata option \<Rightarrow> TargetK8sSecretMetadata" where
  "target_of ty t =
     (case t of Some t \<Rightarrow> t | None \<Rightarrow> \<lparr> tk_Type = ty, tk_SecretsKeyVaultMetadata = [], tk_SecretResourceVersion = [] \<rparr>)"

lemma solve_keys_lookup:
  "golookup (solve_keys name ty m toSolve) n =
     (if n = name \<and> unversioned m \<noteq> [] then
        Some ((target_of ty (golookup toSolve name))\<lparr> tk_SecretsKeyVaultMetadata :=
          gostore_all (unversioned m) (tk_SecretsKeyVaultMetadata (target_of ty (golookup toSolve name))) \<rparr>)
      else golookup toSolve n)"
proof (induction m arbitrary: toSolve)
  case (Cons e m)
  obtain k md where "e = (k, md)" by fastforce
  with Cons show ?case
    by (cases "unversioned m = []") (auto simp: unversioned_def target_of_def gostore_all_def Let_def split: option.split)
qed (simp add: unversioned_def)

text \<open>The references that are resolved: those without a version, under the secrets that have one.\<close>

lemma solve_secrets_lookup:
  assumes "gomap_ok existing" and "\<forall>k \<in> set (gokeys existing). golookup toSolve k = None"
  shows "golookup (solve_secrets existing toSolve) n =
    (case golookup existing n of
       None \<Rightarrow> golookup toSolve n
     | Some s \<Rightarrow>
         if unversioned (tk_SecretsKeyVaultMetadata s) = [] then None
         else Some \<lparr> tk_Type = tk_Type s, tk_SecretsKeyVaultMetadata = gostore_all (unversioned (tk_SecretsKeyVaultMetadata s)) [],
                     tk_SecretResourceVersion = [] \<rparr>)"
  using assms
proof (induction existing arbitrary: toSolve)
  case (Cons e existing)
  obtain name s where e: "e = (name, s)" by fastforce
  have ok: "gomap_ok existing" "name \<notin> set (gokeys existing)"
    using Cons.prems(1) e by (auto simp: gomap_ok_def gokeys_def)
  let ?ts = "solve_keys name (tk_Type s) (tk_SecretsKeyVaultMetadata s) toSolve"
  have "\<forall>k \<in> set (gokeys existing). golookup ?ts k = None"
    using Cons.prems(2) e ok(2) by (auto simp: solve_keys_lookup gokeys_def)
  note ih = Cons.IH [OF ok(1) this]
  have "golookup existing name = None" using ok(2) by (simp add: gokeys_def map_of_eq_None_iff)
  moreover have "golookup toSolve name = None" using Cons.prems(2) e by (simp add: gokeys_def)
  ultimately show ?case
    using e ih by (auto simp: solve_keys_lookup target_of_def split: option.split)
qed simp

lemma gomap_ok_solve_keys: "gomap_ok toSolve \<Longrightarrow> gomap_ok (solve_keys name ty m toSolve)"
  by (induction name ty m toSolve rule: solve_keys.induct) (auto simp: Let_def)

lemma gomap_ok_solve_secrets: "gomap_ok toSolve \<Longrightarrow> gomap_ok (solve_secrets existing toSolve)"
  by (induction existing toSolve rule: solve_secrets.induct) (auto intro: gomap_ok_solve_keys)

lemma option_eq_iff: "x = y \<longleftrightarrow> (\<forall>w. x = Some w \<longleftrightarrow> y = Some w)"
  by (cases x; cases y) auto

section \<open>Updating the secrets that exist\<close>

lemma update_secrets_lookup:
  assumes "update_secrets secrets new = Ok out" and "gomap_ok new"
  shows "golookup secrets n = None \<Longrightarrow> golookup out n = None"
    and "golookup secrets n = Some old \<Longrightarrow> golookup new n = None \<Longrightarrow> golookup out n = Some old"
    and "golookup secrets n = Some old \<Longrightarrow> golookup new n = Some v \<Longrightarrow>
      \<exists>d. merge_data (sc_Data old) (sc_Data v) = Ok d \<and> golookup out n = Some (old\<lparr> sc_Data := d \<rparr>)"
proof -
  have "(case golookup secrets n of
      None \<Rightarrow> golookup out n = None
    | Some old \<Rightarrow> (case golookup new n of
        None \<Rightarrow> golookup out n = Some old
      | Some v \<Rightarrow> \<exists>d. merge_data (sc_Data old) (sc_Data v) = Ok d \<and> golookup out n = Some (old\<lparr> sc_Data := d \<rparr>)))"
    using assms
  proof (induction new arbitrary: secrets)
    case (Cons e new)
    obtain j v where e: "e = (j, v)" by fastforce
    have new: "gomap_ok new" "golookup new j = None"
      using Cons.prems(2) e by (auto simp: gomap_ok_def gokeys_def map_of_eq_None_iff)
    show ?case
    proof (cases "golookup secrets j")
      case None
      then show ?thesis
        using Cons.IH [of secrets] Cons.prems(1) new e by (auto split: option.splits)
    next
      case (Some old)
      then obtain d where d: "merge_data (sc_Data old) (sc_Data v) = Ok d"
          "update_secrets (gostore j (old\<lparr> sc_Data := d \<rparr>) secrets) new = Ok out"
        using Cons.prems(1) e by auto
      from Cons.IH [OF d(2) new(1)] show ?thesis
        using Some d(1) e new(2) by (cases "n = j") (auto split: option.splits)
    qed
  qed (simp split: option.split)
  then show "golookup secrets n = None \<Longrightarrow> golookup out n = None"
    "golookup secrets n = Some old \<Longrightarrow> golookup new n = None \<Longrightarrow> golookup out n = Some old"
    "golookup secrets n = Some old \<Longrightarrow> golookup new n = Some v \<Longrightarrow>
      \<exists>d. merge_data (sc_Data old) (sc_Data v) = Ok d \<and> golookup out n = Some (old\<lparr> sc_Data := d \<rparr>)"
    by auto
qed

lemma golookup_secret_contents: "golookup (secret_contents es) n = map_option sco_Content (golookup es n)"
  by (induction es) (auto simp: secret_contents_def)

lemma resolve_secret_data_ok:
  assumes "resolve_secret cd cr spec resolve name ref = Ok content"
  shows "gomap_ok (slice (sc_Data content))"
proof -
  have nil: "gomap_ok []" by (simp add: gomap_ok_def gokeys_def)
  show ?thesis
  proof (cases "tk_Type ref = SecretTypeTLS")
    case True
    then show ?thesis
      using resolve_secret_tls_keys [OF assms] by (auto simp: gomap_ok_def gokeys_def TlsKey_def TlsCrt_def)
  next
    case False
    then show ?thesis
      using assms nil gomap_ok_gostore_all [OF nil] by (auto simp: resolve_secret_def split: if_splits)
  qed
qed

lemma merge_data_distinct:
  assumes "merge_data a b = Ok d" and "gomap_ok (slice b)"
  shows "golookup (slice d) k = (case golookup (slice b) k of Some v \<Rightarrow> Some v | None \<Rightarrow> golookup (slice a) k)"
  using merge_data_Ok [OF assms(1), of k] map_of_rev_distinct [of "slice b"] assms(2)
  by (simp add: gomap_ok_def gokeys_def)

section \<open>Properties\<close>

text \<open>The value a reference resolves to now.\<close>

definition fresh_value :: "resolver \<Rightarrow> KeyVaultSecretMetadata \<Rightarrow> string option" where
  "fresh_value resolve md = (case resolve md of Ok r \<Rightarrow> sec_Value r | _ \<Rightarrow> None)"

text \<open>The steps of a refresh that is due and resolves references.\<close>

lemma secret_refresh_steps:
  assumes "processSecretReferenceRefresh rt es p = (p', Ok ())"
    and "secret_interval (pv_Spec (pr_Provider p)) \<noteq> None"
    and "rc_NextSecretReferenceRefreshReconcileTime (pr_State p) < pr_CurrentTime p"
    and "\<not> ro_SecretSettingPopulated (pr_Options p)"
  obtains s resolved where
    "rt_ResolveSecretReferences rt (solve_secrets (rc_ExistingK8sSecrets (pr_State p)) []) (pr_Resolver p) (pr_Retriever p)
       = (s, Ok resolved)"
    "update_secrets (secret_contents es) (tg_SecretSettings resolved) = Ok (tg_SecretSettings (pr_Settings p'))"
    "tg_K8sSecrets (pr_Settings p') = rc_ExistingK8sSecrets (pr_State p)"
  using assms
  by (auto simp: processSecretReferenceRefresh_def resolve_unversioned_def refresh_simps deref_def
      split: refresh_splits)

text \<open>The references without a version, secret by secret.\<close>

lemma unversioned_refs:
  assumes "gomap_ok m"
  shows "golookup (solve_secrets m []) n =
    (case golookup m n of None \<Rightarrow> None
     | Some s \<Rightarrow>
         if unversioned (tk_SecretsKeyVaultMetadata s) = [] then None
         else Some \<lparr> tk_Type = tk_Type s, tk_SecretsKeyVaultMetadata = gostore_all (unversioned (tk_SecretsKeyVaultMetadata s)) [],
                     tk_SecretResourceVersion = [] \<rparr>)"
  using solve_secrets_lookup [OF assms, of "[]" n] by (simp split: option.split)

text \<open>What an opaque secret of such references resolves to.\<close>

lemma unversioned_values:
  assumes "resolve_secret cd cr spec resolve name \<lparr> tk_Type = SecretTypeOpaque,
      tk_SecretsKeyVaultMetadata = gostore_all (unversioned m) [], tk_SecretResourceVersion = [] \<rparr> = Ok v"
    and "gomap_ok m" and "spec_Secret spec = Some sr" and "sg_SecretData (sr_Target sr) = None"
  shows "golookup (slice (sc_Data v)) k =
    (case golookup (unversioned m) k of None \<Rightarrow> None | Some md \<Rightarrow> fresh_value resolve md)"
proof -
  have g: "golookup (gostore_all (unversioned m) []) k = golookup (unversioned m) k" for k
    using gomap_ok_unversioned [OF assms(2)] map_of_rev_distinct [of "unversioned m"]
    by (simp add: golookup_gostore_all_empty gomap_ok_def gokeys_def)
  obtain data where data: "sc_Data v = Some data" and val: "\<forall>k w. golookup data k = Some w \<longleftrightarrow>
       (\<exists>md r. golookup (unversioned m) k = Some md \<and> resolve md = Ok r \<and> sec_Value r = Some w)"
    using resolve_secret_opaque [OF assms(1) _ _ assms(3,4)] by (auto simp: g)
  have "golookup data k = (case golookup (unversioned m) k of None \<Rightarrow> None | Some md \<Rightarrow> fresh_value resolve md)"
    by (rule option_eq_iff [THEN iffD2]) (auto simp: val fresh_value_def split: option.splits res.splits)
  then show ?thesis using data by simp
qed

text \<open>
  The resolver of a refresh: the controller passes none, so the loader makes one from the
  authentication settings of its provider.
\<close>

definition refresh_resolver :: "'k loader_ctx \<Rightarrow> loader processor \<Rightarrow> resolver res" where
  "refresh_resolver lc p =
     (case pr_Resolver p of
        Some r \<Rightarrow> Ok r
      | None \<Rightarrow> new_resolver lc (ce_env (lc_calls lc (ldr_calls (pr_Retriever p)))) (ldr_Provider (pr_Retriever p)))"

text \<open>What is resolved for one opaque secret, and how it gets into the secret in the cluster.\<close>

abbreviation unversioned_reference :: "TargetK8sSecretMetadata \<Rightarrow> TargetK8sSecretMetadata" where
  "unversioned_reference md \<equiv>
     \<lparr> tk_Type = SecretTypeOpaque, tk_SecretsKeyVaultMetadata = gostore_all (unversioned (tk_SecretsKeyVaultMetadata md)) [],
       tk_SecretResourceVersion = [] \<rparr>"

lemma refreshed_secret:
  assumes "processSecretReferenceRefresh (loader_retriever lc addr) existingSecrets p = (p', Ok ())"
    and "secret_interval (pv_Spec (pr_Provider p)) \<noteq> None"
    and "rc_NextSecretReferenceRefreshReconcileTime (pr_State p) < pr_CurrentTime p"
    and "\<not> ro_SecretSettingPopulated (pr_Options p)"
    and "gomap_ok (rc_ExistingK8sSecrets (pr_State p))"
    and "golookup (rc_ExistingK8sSecrets (pr_State p)) name = Some md" and "tk_Type md = SecretTypeOpaque"
    and "golookup existingSecrets name = Some secret"
  obtains resolve where "refresh_resolver lc p = Ok resolve"
    "if unversioned (tk_SecretsKeyVaultMetadata md) = []
     then golookup (tg_SecretSettings (pr_Settings p')) name = Some (sco_Content secret)
     else \<exists>v d. resolve_secret (lc_codec lc) (lc_crypto lc) (pv_Spec (ldr_Provider (pr_Retriever p))) resolve name
             (unversioned_reference md) = Ok v
         \<and> merge_data (sc_Data (sco_Content secret)) (sc_Data v) = Ok d
         \<and> golookup (tg_SecretSettings (pr_Settings p')) name = Some ((sco_Content secret)\<lparr> sc_Data := d \<rparr>)"
proof -
  let ?refs = "solve_secrets (rc_ExistingK8sSecrets (pr_State p)) []" and ?m = "tk_SecretsKeyVaultMetadata md"
  let ?cd = "lc_codec lc" and ?cr = "lc_crypto lc" and ?spec = "pv_Spec (ldr_Provider (pr_Retriever p))"
  obtain s resolved where
    r: "rt_ResolveSecretReferences (loader_retriever lc addr) ?refs (pr_Resolver p) (pr_Retriever p) = (s, Ok resolved)"
    and u: "update_secrets (secret_contents existingSecrets) (tg_SecretSettings resolved) = Ok (tg_SecretSettings (pr_Settings p'))"
    using secret_refresh_steps [OF assms(1-4)] by metis
  obtain resolve out where resolve: "refresh_resolver lc p = Ok resolve"
    and out: "resolve_all ?cd ?cr ?spec resolve ?refs = Ok out" "tg_SecretSettings resolved = out"
    using r by (auto simp: loader_retriever_def ResolveSecretReferences_def refresh_resolver_def split: option.splits)
  note entries = resolve_all_entries [OF out(1)]
  have keys: "gokeys out = gokeys ?refs" using list_all2_keys [OF entries] .
  have old: "golookup (secret_contents existingSecrets) name = Some (sco_Content secret)"
    using assms(8) by (simp add: golookup_secret_contents)
  have ok: "gomap_ok out"
    using keys gomap_ok_solve_secrets [of "[]"] by (simp add: gomap_ok_def gokeys_def)
  show thesis
  proof (rule that [OF resolve], cases "unversioned ?m = []")
    case True
    then have "golookup ?refs name = None" using unversioned_refs [OF assms(5)] assms(6) by simp
    then have "golookup out name = None" using keys by (metis map_of_eq_None_iff gokeys_def list.set_map)
    then show "if unversioned ?m = [] then golookup (tg_SecretSettings (pr_Settings p')) name = Some (sco_Content secret)
     else \<exists>v d. resolve_secret ?cd ?cr ?spec resolve name (unversioned_reference md) = Ok v
         \<and> merge_data (sc_Data (sco_Content secret)) (sc_Data v) = Ok d
         \<and> golookup (tg_SecretSettings (pr_Settings p')) name = Some ((sco_Content secret)\<lparr> sc_Data := d \<rparr>)"
      using update_secrets_lookup(2) [OF u _ old] out(2) ok True by simp
  next
    case False
    have "golookup ?refs name = Some (unversioned_reference md)" using unversioned_refs [OF assms(5)] assms(6,7) False by simp
    then obtain v where v: "golookup out name = Some v" "resolve_secret ?cd ?cr ?spec resolve name (unversioned_reference md) = Ok v"
      using list_all2_lookup [OF entries] by blast
    then show "if unversioned ?m = [] then golookup (tg_SecretSettings (pr_Settings p')) name = Some (sco_Content secret)
     else \<exists>v d. resolve_secret ?cd ?cr ?spec resolve name (unversioned_reference md) = Ok v
         \<and> merge_data (sc_Data (sco_Content secret)) (sc_Data v) = Ok d
         \<and> golookup (tg_SecretSettings (pr_Settings p')) name = Some ((sco_Content secret)\<lparr> sc_Data := d \<rparr>)"
      using update_secrets_lookup(3) [OF u _ old] out(2) ok False by auto
  qed
qed

text \<open>
  C10. A refresh of the secret references rewrites exactly the entries whose reference has no
  version.  It keeps the set of secrets and their types; in an opaque secret without data
  options, a reference without a version gets the value it resolves to now, if it has one,
  and every other entry keeps the value it had.  The references are resolved by the resolver
  of the pass or, as the controller sets none, by the one the loader makes.
\<close>

theorem secret_refresh_exact:
  assumes "processSecretReferenceRefresh (loader_retriever lc addr) existingSecrets p = (p', Ok ())"
    and "secret_interval (pv_Spec (pr_Provider p)) \<noteq> None"
    and "rc_NextSecretReferenceRefreshReconcileTime (pr_State p) < pr_CurrentTime p"
    and "\<not> ro_SecretSettingPopulated (pr_Options p)"
    and "spec_Secret (pv_Spec (ldr_Provider (pr_Retriever p))) = Some sr" and "sg_SecretData (sr_Target sr) = None"
    and "gomap_ok (rc_ExistingK8sSecrets (pr_State p))"
    and "golookup (rc_ExistingK8sSecrets (pr_State p)) name = Some md" and "tk_Type md = SecretTypeOpaque"
    and "gomap_ok (tk_SecretsKeyVaultMetadata md)" and "golookup existingSecrets name = Some secret"
  shows "\<exists>resolve content. refresh_resolver lc p = Ok resolve
    \<and> golookup (tg_SecretSettings (pr_Settings p')) name = Some content
    \<and> sc_Type content = sc_Type (sco_Content secret)
    \<and> (\<forall>k. golookup (slice (sc_Data content)) k =
        (case golookup (tk_SecretsKeyVaultMetadata md) k of
           Some m \<Rightarrow>
             if kvm_SecretVersion m = [] \<and> fresh_value resolve m \<noteq> None then fresh_value resolve m
             else golookup (slice (sc_Data (sco_Content secret))) k
         | None \<Rightarrow> golookup (slice (sc_Data (sco_Content secret))) k))"
proof -
  let ?m = "tk_SecretsKeyVaultMetadata md"
  obtain resolve where resolve: "refresh_resolver lc p = Ok resolve" and new:
    "if unversioned ?m = [] then golookup (tg_SecretSettings (pr_Settings p')) name = Some (sco_Content secret)
     else \<exists>v d. resolve_secret (lc_codec lc) (lc_crypto lc) (pv_Spec (ldr_Provider (pr_Retriever p))) resolve name
             (unversioned_reference md) = Ok v
         \<and> merge_data (sc_Data (sco_Content secret)) (sc_Data v) = Ok d
         \<and> golookup (tg_SecretSettings (pr_Settings p')) name = Some ((sco_Content secret)\<lparr> sc_Data := d \<rparr>)"
    using refreshed_secret [OF assms(1-4,7-9,11)] .
  note versions = golookup_unversioned [OF assms(10)]
  show ?thesis
  proof (cases "unversioned ?m = []")
    case True
    then have "kvm_SecretVersion m \<noteq> []" if "golookup ?m k = Some m" for k m
      using versions [of k] that by (auto split: if_splits)
    then show ?thesis using resolve new True by (auto split: option.split)
  next
    case False
    then obtain v d where v: "resolve_secret (lc_codec lc) (lc_crypto lc) (pv_Spec (ldr_Provider (pr_Retriever p))) resolve name
          (unversioned_reference md) = Ok v"
      and d: "merge_data (sc_Data (sco_Content secret)) (sc_Data v) = Ok d"
        "golookup (tg_SecretSettings (pr_Settings p')) name = Some ((sco_Content secret)\<lparr> sc_Data := d \<rparr>)"
      using new by auto
    then show ?thesis
      using resolve merge_data_distinct [OF d(1) resolve_secret_data_ok [OF v]] unversioned_values [OF v assms(10,5,6)] versions
      by (auto split: option.splits)
  qed
qed

text \<open>
  C38. With data options that ask for one document, a refresh forgets the references that have a
  version.  The document is rendered from the values of the references without a version
  alone, whenever one of them has a value, and it replaces the one in the cluster, which a
  full load renders from all references; the other entries of the secret stay.
\<close>

theorem typed_secret_refresh_drops_versioned:
  assumes "processSecretReferenceRefresh (loader_retriever lc addr) existingSecrets p = (p', Ok ())"
    and "secret_interval (pv_Spec (pr_Provider p)) \<noteq> None"
    and "rc_NextSecretReferenceRefreshReconcileTime (pr_State p) < pr_CurrentTime p"
    and "\<not> ro_SecretSettingPopulated (pr_Options p)"
    and "spec_Secret (pv_Spec (ldr_Provider (pr_Retriever p))) = Some sr"
    and "sg_SecretData (sr_Target sr) = Some opts" and "do_Type opts \<noteq> Default"
    and "gomap_ok (rc_ExistingK8sSecrets (pr_State p))"
    and "golookup (rc_ExistingK8sSecrets (pr_State p)) name = Some md" and "tk_Type md = SecretTypeOpaque"
    and "gomap_ok (tk_SecretsKeyVaultMetadata md)" and "golookup existingSecrets name = Some secret"
  shows "\<exists>resolve vals content. refresh_resolver lc p = Ok resolve
    \<and> reference_values resolve (unversioned (tk_SecretsKeyVaultMetadata md)) vals
    \<and> (\<forall>k m. golookup (tk_SecretsKeyVaultMetadata md) k = Some m \<and> kvm_SecretVersion m \<noteq> [] \<longrightarrow> golookup vals k = None)
    \<and> golookup (tg_SecretSettings (pr_Settings p')) name = Some content
    \<and> (\<forall>k. k \<noteq> do_Key opts \<longrightarrow> golookup (slice (sc_Data content)) k = golookup (slice (sc_Data (sco_Content secret))) k)
    \<and> (vals \<noteq> [] \<longrightarrow> (\<exists>document. createTypedSecrets (lc_codec lc) vals (Some opts) = Ok [(do_Key opts, document)]
          \<and> golookup (slice (sc_Data content)) (do_Key opts) = Some document))"
proof -
  let ?m = "tk_SecretsKeyVaultMetadata md"
  obtain resolve where resolve: "refresh_resolver lc p = Ok resolve" and new:
    "if unversioned ?m = [] then golookup (tg_SecretSettings (pr_Settings p')) name = Some (sco_Content secret)
     else \<exists>v d. resolve_secret (lc_codec lc) (lc_crypto lc) (pv_Spec (ldr_Provider (pr_Retriever p))) resolve name
             (unversioned_reference md) = Ok v
         \<and> merge_data (sc_Data (sco_Content secret)) (sc_Data v) = Ok d
         \<and> golookup (tg_SecretSettings (pr_Settings p')) name = Some ((sco_Content secret)\<lparr> sc_Data := d \<rparr>)"
    using refreshed_secret [OF assms(1-4,8-10,12)] .
  have dropped: "golookup vals k = None"
    if "reference_values resolve (unversioned ?m) vals" "golookup ?m k = Some m" "kvm_SecretVersion m \<noteq> []" for vals k m
    using that golookup_unversioned [OF assms(11), of k] by (cases "golookup vals k") (auto simp: reference_values_def)
  show ?thesis
  proof (cases "unversioned ?m = []")
    case True
    then have "reference_values resolve (unversioned ?m) []" by (simp add: reference_values_def gomap_ok_def gokeys_def)
    then show ?thesis using resolve new True dropped by auto
  next
    case False
    then obtain v d where v: "resolve_secret (lc_codec lc) (lc_crypto lc) (pv_Spec (ldr_Provider (pr_Retriever p))) resolve name
          (unversioned_reference md) = Ok v"
      and d: "merge_data (sc_Data (sco_Content secret)) (sc_Data v) = Ok d"
        "golookup (tg_SecretSettings (pr_Settings p')) name = Some ((sco_Content secret)\<lparr> sc_Data := d \<rparr>)"
      using new by auto
    have ok: "gomap_ok (gostore_all (unversioned ?m) [])" by (rule gomap_ok_gostore_all) (simp add: gomap_ok_def gokeys_def)
    obtain vals typed where "reference_values resolve (gostore_all (unversioned ?m) []) vals"
      and t: "createTypedSecrets (lc_codec lc) vals (Some opts) = Ok typed" "sc_Data v = Some (gostore_all typed [])"
      using resolve_secret_rendered [OF v _ _ assms(5)] ok assms(6) by auto
    then have vals: "reference_values resolve (unversioned ?m) vals"
      by (simp add: reference_values_def gostore_all_same gomap_ok_unversioned [OF assms(11)])
    have typed: "vals = [] \<and> typed = [] \<or> (\<exists>document. typed = [(do_Key opts, document)])"
      using t(1) assms(7) by (auto simp: createTypedSecrets_def split: if_splits)
    have entries: "golookup (slice d) k = (case golookup (gostore_all typed []) k of
        Some w \<Rightarrow> Some w | None \<Rightarrow> golookup (slice (sc_Data (sco_Content secret))) k)" for k
      using merge_data_distinct [OF d(1) resolve_secret_data_ok [OF v], of k] t(2) by simp
    show ?thesis
      using resolve vals dropped [OF vals] d(2) typed entries t(1)
      by (intro exI [of _ resolve] exI [of _ vals] exI [of _ "(sco_Content secret)\<lparr> sc_Data := d \<rparr>"]) (auto simp: gostore_all_def)
  qed
qed

text \<open>A provider whose secrets are refreshed every minute; one reference has a version.\<close>

definition refreshed_options :: "DataOptions option \<Rightarrow> SecretReferenceOptions" where
  "refreshed_options opts =
     \<lparr> sr_Target = \<lparr> sg_SecretName = ''secrets'', sg_SecretData = opts \<rparr>, sr_Auth = None,
       sr_Refresh = Some \<lparr> rs_Interval = ''1m'', rs_Enabled = True \<rparr> \<rparr>"

definition refreshed_provider :: "DataOptions option \<Rightarrow> Provider" where
  "refreshed_provider opts =
     sample_provider\<lparr> pv_Spec := sample_spec\<lparr> spec_Secret := Some (refreshed_options opts) \<rparr> \<rparr>"

definition two_references :: k8s_secrets where
  "two_references =
     [(''secrets'', \<lparr> tk_Type = SecretTypeOpaque,
        tk_SecretsKeyVaultMetadata = [(''a'', sample_metadata), (''b'', sample_metadata\<lparr> kvm_SecretVersion := ''v1'' \<rparr>)],
        tk_SecretResourceVersion = ''1'' \<rparr>)]"

definition refreshed_state :: ReconciliationState where
  "refreshed_state =
     \<lparr> rc_Generation = 1, rc_ConfigMapResourceVersion = Some [], rc_Annotations = [], rc_SentinelETags = [],
       rc_KeyValueETags = [], rc_FeatureFlagETags = [], rc_ExistingK8sSecrets = two_references,
       rc_NextKeyValueRefreshReconcileTime = 0, rc_NextSecretReferenceRefreshReconcileTime = 1,
       rc_NextFeatureFlagRefreshReconcileTime = 0, rc_ClientManager = None \<rparr>"

definition refreshed_processor :: "DataOptions option \<Rightarrow> loader processor" where
  "refreshed_processor opts =
     \<lparr> pr_Retriever = test_loader (refreshed_provider opts) silent_client None,
       pr_Provider = refreshed_provider opts, pr_Settings = empty_target, pr_ShouldReconcile = False,
       pr_State = refreshed_state, pr_CurrentTime = 2, pr_Options = NewRefreshOptions,
       pr_Resolver = None, pr_SharedSecrets = False \<rparr>"

definition secret_with :: "(string, string) gomap \<Rightarrow> Secret" where
  "secret_with data = (named_Secret ''secrets'')\<lparr> sco_Content := \<lparr> sc_Type = SecretTypeOpaque, sc_Data = Some data \<rparr> \<rparr>"

lemma refreshed_spec:
  "secret_interval (pv_Spec (refreshed_provider opts)) = Some ''1m''"
  "spec_Secret (pv_Spec (refreshed_provider opts)) = Some (refreshed_options opts)"
  "ldr_Provider (pr_Retriever (refreshed_processor opts)) = refreshed_provider opts"
  by (simp_all add: refreshed_provider_def secret_interval_def refreshed_options_def refreshed_processor_def test_loader_def)

lemma refreshed_references:
  "solve_secrets two_references [] =
     [(''secrets'', \<lparr> tk_Type = SecretTypeOpaque, tk_SecretsKeyVaultMetadata = [(''a'', sample_metadata)],
        tk_SecretResourceVersion = [] \<rparr>)]"
  by (simp add: two_references_def sample_metadata_def)

text \<open>The resolver the loader makes for it: the vault of the tests answers with the name of a secret.\<close>

lemma refreshed_resolver:
  obtains r where "new_resolver test_ctx (sample_env sample_srv) (refreshed_provider opts) = Ok r"
    "r sample_metadata = Ok \<lparr> sec_Value = Some ''s'', sec_ContentType = None \<rparr>"
proof -
  have "\<exists>r. new_resolver test_ctx (sample_env sample_srv) (refreshed_provider opts) = Ok r
      \<and> r sample_metadata = Ok \<lparr> sec_Value = Some ''s'', sec_ContentType = None \<rparr>"
    by (simp add: new_resolver_def test_ctx_def createSecretReferenceResolver_def createSecretClients_def
        CreateTokenCredential_def new_credential_def refreshed_provider_def refreshed_options_def res_map_def)
      (simp add: sample_env_def Resolve_def new_secret_client_def sample_vault_env_def sample_metadata_def)
  then show thesis using that by blast
qed

lemma refreshed_env: "ce_env (lc_calls test_ctx n) = sample_env sample_srv"
  by (simp add: test_ctx_def sample_call_def)

lemma refreshed_run:
  assumes "createTypedSecrets test_codec [(''a'', ''s'')] opts = Ok typed" and "data' = gostore_all (gostore_all typed []) data"
  shows "\<exists>p'. processSecretReferenceRefresh (loader_retriever test_ctx 0) [(''secrets'', secret_with data)] (refreshed_processor opts) = (p', Ok ())
    \<and> tg_SecretSettings (pr_Settings p') = [(''secrets'', \<lparr> sc_Type = SecretTypeOpaque, sc_Data = Some data' \<rparr>)]"
proof -
  obtain r where r: "new_resolver test_ctx (sample_env sample_srv) (refreshed_provider opts) = Ok r"
    "r sample_metadata = Ok \<lparr> sec_Value = Some ''s'', sec_ContentType = None \<rparr>"
    by (rule refreshed_resolver)
  have "resolve_all test_codec cr (pv_Spec (refreshed_provider opts)) r (solve_secrets two_references [])
    = Ok [(''secrets'', \<lparr> sc_Type = SecretTypeOpaque, sc_Data = Some (gostore_all typed []) \<rparr>)]" for cr :: "string crypto"
    using assms(1) r(2) unfolding refreshed_references
    by (simp add: resolve_secret_def deref_def refreshed_spec refreshed_options_def wrap_error_def del: res_bind_eq_Ok)
  then have "ResolveSecretReferences (lc_codec test_ctx) (lc_crypto test_ctx) (pv_Spec (refreshed_provider opts))
      (new_resolver test_ctx (sample_env sample_srv) (refreshed_provider opts)) (solve_secrets two_references []) None
    = Ok (empty_target\<lparr> tg_SecretSettings := [(''secrets'', \<lparr> sc_Type = SecretTypeOpaque, sc_Data = Some (gostore_all typed []) \<rparr>)],
        tg_K8sSecrets := solve_secrets two_references [] \<rparr>)"
    using r(1) by (simp add: ResolveSecretReferences_def flag_codec del: res_bind_eq_Ok)
  then show ?thesis
    using assms(2) refreshed_spec [of opts]
    by (simp add: processSecretReferenceRefresh_def resolve_unversioned_def refresh_simps deref_def loader_retriever_def
        refreshed_processor_def refreshed_state_def refreshed_options_def NewRefreshOptions_def merge_data_def
        secret_contents_def secret_with_def empty_target_def refreshed_env del: res_bind_eq_Ok)
qed

lemma gomap_single:
  assumes "gomap_ok m" and "\<And>k v. golookup m k = Some v \<longleftrightarrow> k = key \<and> v = val"
  shows "m = [(key, val)]"
proof -
  have d: "distinct (map fst m)" using assms(1) by (simp add: gomap_ok_def gokeys_def)
  then have s: "set m = {(key, val)}"
    using assms(2) map_of_eq_Some_iff [OF d] by auto
  moreover have "length m = card (set m)" using d distinct_card [of m] by (simp add: distinct_map)
  ultimately obtain x where "m = [x]" by (auto simp: length_Suc_conv)
  with s show ?thesis by simp
qed

lemma secret_with_sc: "slice (sc_Data (sco_Content (secret_with data))) = data"
  by (simp add: secret_with_def)

text \<open>The hypotheses of the two properties for this pass.\<close>

abbreviation two_metadata :: TargetK8sSecretMetadata where
  "two_metadata \<equiv> \<lparr> tk_Type = SecretTypeOpaque,
     tk_SecretsKeyVaultMetadata = [(''a'', sample_metadata), (''b'', sample_metadata\<lparr> kvm_SecretVersion := ''v1'' \<rparr>)],
     tk_SecretResourceVersion = ''1'' \<rparr>"

lemma refreshed_pass:
  "secret_interval (pv_Spec (pr_Provider (refreshed_processor opts))) \<noteq> None"
  "rc_NextSecretReferenceRefreshReconcileTime (pr_State (refreshed_processor opts)) < pr_CurrentTime (refreshed_processor opts)"
  "\<not> ro_SecretSettingPopulated (pr_Options (refreshed_processor opts))"
  "spec_Secret (pv_Spec (ldr_Provider (pr_Retriever (refreshed_processor opts)))) = Some (refreshed_options opts)"
  "sg_SecretData (sr_Target (refreshed_options opts)) = opts"
  "gomap_ok (rc_ExistingK8sSecrets (pr_State (refreshed_processor opts)))"
  "golookup (rc_ExistingK8sSecrets (pr_State (refreshed_processor opts))) ''secrets'' = Some two_metadata"
  "tk_Type two_metadata = SecretTypeOpaque" "gomap_ok (tk_SecretsKeyVaultMetadata two_metadata)"
  "golookup [(''secrets'', secret_with data)] ''secrets'' = Some (secret_with data)"
  using refreshed_spec [of opts]
  by (simp_all add: refreshed_processor_def refreshed_state_def refreshed_options_def NewRefreshOptions_def two_references_def
      gomap_ok_def gokeys_def test_loader_def)

lemma refreshed_fresh:
  assumes "refresh_resolver test_ctx (refreshed_processor opts) = Ok resolve"
  shows "resolve sample_metadata = Ok \<lparr> sec_Value = Some ''s'', sec_ContentType = None \<rparr>"
proof -
  obtain r where r: "new_resolver test_ctx (sample_env sample_srv) (refreshed_provider opts) = Ok r"
    "r sample_metadata = Ok \<lparr> sec_Value = Some ''s'', sec_ContentType = None \<rparr>"
    by (rule refreshed_resolver)
  have "refresh_resolver test_ctx (refreshed_processor opts) = Ok r"
    using r(1) by (simp add: refresh_resolver_def refreshed_processor_def refreshed_env test_loader_def)
  with assms r(2) show ?thesis by simp
qed

theorem secret_refresh_exact_witness:
  "\<exists>p' content. processSecretReferenceRefresh (loader_retriever test_ctx 0)
      [(''secrets'', secret_with [(''a'', ''old''), (''b'', ''kept'')])] (refreshed_processor None) = (p', Ok ())
    \<and> golookup (tg_SecretSettings (pr_Settings p')) ''secrets'' = Some content
    \<and> golookup (slice (sc_Data content)) ''a'' = Some ''s'' \<and> golookup (slice (sc_Data content)) ''b'' = Some ''kept''"
proof -
  obtain p' where p': "processSecretReferenceRefresh (loader_retriever test_ctx 0)
      [(''secrets'', secret_with [(''a'', ''old''), (''b'', ''kept'')])] (refreshed_processor None) = (p', Ok ())"
    using refreshed_run [of None "[(''a'', ''s'')]"] by (auto simp: createTypedSecrets_def)
  obtain resolve content where res: "refresh_resolver test_ctx (refreshed_processor None) = Ok resolve"
    and c: "golookup (tg_SecretSettings (pr_Settings p')) ''secrets'' = Some content"
    and val: "\<forall>k. golookup (slice (sc_Data content)) k =
      (case golookup (tk_SecretsKeyVaultMetadata two_metadata) k of
         Some m \<Rightarrow>
           if kvm_SecretVersion m = [] \<and> fresh_value resolve m \<noteq> None then fresh_value resolve m
           else golookup [(''a'', ''old''), (''b'', ''kept'')] k
       | None \<Rightarrow> golookup [(''a'', ''old''), (''b'', ''kept'')] k)"
    using secret_refresh_exact [OF p' refreshed_pass(1-10)] unfolding secret_with_sc by blast
  have "fresh_value resolve sample_metadata = Some ''s''" using refreshed_fresh [OF res] by (simp add: fresh_value_def)
  then have "golookup (slice (sc_Data content)) ''a'' = Some ''s''" "golookup (slice (sc_Data content)) ''b'' = Some ''kept''"
    using val by (simp_all add: sample_metadata_def)
  with p' c show ?thesis by blast
qed

theorem typed_secret_refresh_drops_versioned_witness:
  "\<exists>p' content. processSecretReferenceRefresh (loader_retriever test_ctx 0)
      [(''secrets'', secret_with [(''doc'', json_encode (VMap [(''a'', VStr ''old''), (''b'', VStr ''kept'')]))])]
      (refreshed_processor (Some \<lparr> do_Type = Json, do_Key = ''doc'', do_Separator = None \<rparr>)) = (p', Ok ())
    \<and> golookup (tg_SecretSettings (pr_Settings p')) ''secrets'' = Some content
    \<and> golookup (slice (sc_Data content)) ''doc'' = Some (json_encode (VMap [(''a'', VStr ''s'')]))"
proof -
  let ?o = "\<lparr> do_Type = Json, do_Key = ''doc'', do_Separator = None \<rparr>"
  let ?es = "[(''secrets'', secret_with [(''doc'', json_encode (VMap [(''a'', VStr ''old''), (''b'', VStr ''kept'')]))])]"
  have "parsed_settings [(''a'', VStr ''s'')] None = Ok [(''a'', VStr ''s'')]" by code_simp
  then have typed: "createTypedSecrets test_codec [(''a'', ''s'')] (Some ?o) = Ok [(''doc'', json_encode (VMap [(''a'', VStr ''s'')]))]"
    by (simp add: createTypedSecrets_def marshalJsonYaml_def test_codec_def go_codec_def del: res_bind_eq_Ok)
  obtain p' where p': "processSecretReferenceRefresh (loader_retriever test_ctx 0) ?es (refreshed_processor (Some ?o)) = (p', Ok ())"
    using refreshed_run [OF typed refl] by blast
  obtain resolve vals content where r: "refresh_resolver test_ctx (refreshed_processor (Some ?o)) = Ok resolve"
    and v: "reference_values resolve (unversioned (tk_SecretsKeyVaultMetadata two_metadata)) vals"
    and c: "golookup (tg_SecretSettings (pr_Settings p')) ''secrets'' = Some content"
    and doc: "vals \<noteq> [] \<longrightarrow> (\<exists>document. createTypedSecrets (lc_codec test_ctx) vals (Some ?o) = Ok [(''doc'', document)]
          \<and> golookup (slice (sc_Data content)) ''doc'' = Some document)"
    using typed_secret_refresh_drops_versioned [OF p' refreshed_pass(1-5) _ refreshed_pass(6-10)] by auto
  have "unversioned (tk_SecretsKeyVaultMetadata two_metadata) = [(''a'', sample_metadata)]"
    by (simp add: unversioned_def sample_metadata_def)
  then have "golookup vals k = Some w \<longleftrightarrow> k = ''a'' \<and> w = ''s''" for k w
    using v refreshed_fresh [OF r] by (auto simp: reference_values_def)
  then have "vals = [(''a'', ''s'')]" using v by (intro gomap_single) (auto simp: reference_values_def)
  with p' c doc typed show ?thesis by (auto simp: flag_codec)
qed

end
