(* ===== verification/Spec2Isabelle.thy ===== *)
theory Spec2Isabelle
  imports Start_Up Cluster_Access Reconcile_Returns Combined_Refresh Refresh_Timers Secret_Refresh Request_Tracing
begin

text \<open>
  A verification of the Azure App Configuration Kubernetes provider.

  \<^bold>\<open>The program.\<close>  A controller watches custom resources of kind
  \<^verbatim>\<open>AzureAppConfigurationProvider\<close>.  For each of them it loads key-values, feature flags and Key
  Vault references from an App Configuration store, renders them into a ConfigMap and into
  secrets, and keeps these up to date with timed refreshes.  The packages under
  \<^verbatim>\<open>src/internal\<close> are layered: \<^verbatim>\<open>controller\<close> validates a resource, runs one pass and writes
  the objects; \<^verbatim>\<open>loader\<close> talks to the store, its replicas and the vaults and renders what it
  got; \<^verbatim>\<open>jsonc\<close> strips comments from JSON.  The controller sees the loader through the
  interface \<^verbatim>\<open>ConfigurationSettingsRetriever\<close>, the loader sees the stores through the interface
  \<^verbatim>\<open>ClientManager\<close> and the clients of the Azure SDK.

  \<^bold>\<open>Conventions.\<close>  A Go function that can fail gives a \<^typ>\<open>'a res\<close>: a value, an error or a
  panic (nil dereference, write into a nil map).  Code that changes state is an action of
  \<open>Go_Actions\<close>: it gives the state afterwards and the result, so the state persists when the
  result is an error.  A Go map is an association list with one entry per key, in the order
  in which a range visits it; theorems about ranges hold for every order.  Pointers are
  options.  Times are integers of nanoseconds, with 0 for the zero time; durations wrap
  around at 64 bits where the code multiplies them, and back-off intervals are computed in
  double precision arithmetic that is written out.

  \<^bold>\<open>Language and standard library.\<close>
  \<open>Go_Prelude\<close> (results, maps, the locale \<open>kv_store\<close>), \<open>Go_Strings\<close> (\<^verbatim>\<open>strings\<close>, \<^verbatim>\<open>strconv\<close>),
  \<open>Go_Actions\<close> and \<open>Action_Logic\<close> (actions, Hoare triples with a postcondition for values, errors
  and panics, and the derived judgements \<open>errs\<close> for errors and \<open>keeps\<close> for invariants), \<open>Go_Json\<close>
  (\<^verbatim>\<open>encoding/json\<close>: printer, parser with fuel, proof that the fuel is enough, round trip, the
  locale \<open>document_format\<close>), \<open>Go_Url\<close> and \<open>Url_Case\<close> (\<^verbatim>\<open>url.Parse\<close>), \<open>Go_Duration\<close>
  (\<^verbatim>\<open>time.ParseDuration\<close> with its overflow checks).

  \<^bold>\<open>Package api/v1.\<close>
  \<open>Api_Types\<close>: the structs of \<^verbatim>\<open>azureappconfigurationprovider_types.go\<close> as records, the
  enumerations as datatypes, selectors and their comparable form.

  \<^bold>\<open>Package main.\<close>
  \<open>Start_Up\<close>: \<^verbatim>\<open>cmd/main.go\<close>, the registration of the types and \<^verbatim>\<open>SetupWithManager\<close>.  The process
  starts a manager exactly when every step before succeeded; otherwise it exits with 1 after the
  one error it logs, or ends without a word.  The reconciler it makes has no states and no
  retriever, which is how every history starts.

  \<^bold>\<open>Package jsonc.\<close>
  \<open>Jsonc\<close>: the index loops of \<^verbatim>\<open>StripComments\<close>, equal to a scanner with five states; lines keep
  their numbers, string literals their text, and stripping twice is stripping once.

  \<^bold>\<open>Package loader.\<close>
  \<^item> \<open>Loader_Types\<close>: the structs of the package and \<^verbatim>\<open>errors.go\<close>.
  \<^item> \<open>Setting_Tree\<close> (\<^verbatim>\<open>tree.go\<close>): every setting is found at the path its key names; which keys
    make the conversion panic.
  \<^item> \<open>Typed_Settings\<close>, \<open>Rendered_Documents\<close> (\<^verbatim>\<open>typed_setting.go\<close>): rendering and reading back.
  \<^item> \<open>Selectors\<close>: normalising and deduplicating selectors, an instance of the locale \<open>last_wins\<close>
    that the feature flags share.
  \<^item> \<open>Settings_Clients\<close> (\<^verbatim>\<open>settings_client.go\<close>): the requests; the ETag check is exact.
  \<^item> \<open>Client_Manager\<close> (\<^verbatim>\<open>configuration_client_manager.go\<close>): clients, replicas found by DNS,
    back-off; invariants over all histories of a manager (\<open>manager_reach\<close>).
  \<^item> \<open>Cluster_Access\<close>: \<^verbatim>\<open>getConfigMap\<close>, \<^verbatim>\<open>GetSecret\<close> and the token callback; with \<open>cluster_env\<close> they
    are what the client manager reads the cluster with.
  \<^item> \<open>Request_Tracing\<close> (\<^verbatim>\<open>request_tracing.go\<close>): the correlation header.
  \<^item> \<open>Key_Vault\<close> (\<^verbatim>\<open>keyvault_reference_resolver.go\<close>): parsing references, routing them to vaults
    (locale \<open>stable_resolver\<close>), resolving and merging secrets.
  \<^item> \<open>Failover\<close>, \<open>Store_Access\<close>: the order of the clients, the attempts, what they record, and
    that every answer is an answer of a client of the store.
  \<^item> \<open>Setting_Loader\<close>, \<open>Loader_Refresh\<close> (\<^verbatim>\<open>configuration_setting_loader.go\<close>): loading and the
    partial refreshes; the last setting and the last feature flag win, a refresh of one kind
    keeps the other, sentinels are compared exactly.

  \<^item> \<open>Definedness\<close>, \<open>Sound_Stores\<close>, \<open>Loader_Returns\<close>: a judgement \<open>safely\<close> for actions that keep an
    invariant and do not panic.  With clients that answer with settings that can be processed
    (\<open>sound_client\<close>: array indices written in the canonical way, feature flags with a value) no
    operation of the loader panics.

  \<^bold>\<open>Package controller.\<close>
  \<^item> \<open>Spec_Validation\<close> (\<^verbatim>\<open>utils.go\<close>): every check of a specification, what an accepted one
    satisfies, and that it cannot make the loader's construction panic.
  \<^item> \<open>Kube_Objects\<close>, \<open>Target_Changes\<close>: objects, who owns them, whether they are written at all.
  \<^item> \<open>Processor\<close> (\<^verbatim>\<open>processor.go\<close>): one pass over a provider.  The locale \<open>refresh_gate\<close> is what the
    three timed refreshes have in common; each is an interpretation.  \<open>Refresh_Timers\<close> shows
    when the provider is visited again, that failures are retried and that an idle pass makes no
    request; \<open>Secret_Refresh\<close> what a refresh does to the secrets.
  \<^item> \<open>Retriever_Contract\<close>: what the processor and the reconciler rely on in a retriever, as the
    locale \<open>settings_source\<close>, which the loader interprets: delivered secrets are recorded under
    their names.  \<open>Combined_Refresh\<close> composes the processor with the loader: a pass that refreshes
    both kinds of settings loses neither.  \<open>Pass_Returns\<close> has the locale \<open>returning_source\<close>, of
    retrievers that do not panic, which the loader interprets: then a whole pass does not panic.
    \<open>Manager_Upkeep\<close> shows that a pass leaves a client manager that can be used again.
  \<^item> \<open>Reconciler\<close> (\<^verbatim>\<open>appconfigurationprovider_controller.go\<close>): \<^verbatim>\<open>Reconcile\<close> with all its early
    returns and the deferred patch of the status, over the states of all providers.
    \<open>Reconcile_Safety\<close> proves with Hoare triples that only owned objects are written or
    deleted; \<open>Reconcile_Outcome\<close> that every run reports how it ended and is queued again
    when that helps; \<open>Throttling\<close> that no error of loading carries status 429, so the branch for
    the \<^verbatim>\<open>Retry-After\<close> header is dead.
  \<^item> \<open>Reconcile_States\<close> and \<open>Controller_History\<close>: the states kept between the reconciliations of
    all providers.  \<open>history\<close> is the step relation of the controller since its start; an
    invariant over it shows that recorded secrets stay known, that nothing but loading can panic
    in a reconciliation, and what a panic does to the provider.  The record \<open>promises\<close> holds what
    the world promises of each provider: its specifications and its clients.
  \<^item> \<open>Reconcile_Returns\<close> closes the circle: with stores, secrets and clients as promised
    (\<open>served\<close>), loading does not panic, so in every history the reconciliation returns with a
    final status.
  \<^item> \<open>Event_Handler\<close> (\<^verbatim>\<open>event_handler.go\<close>): which changes wake which provider.

  \<^bold>\<open>Termination, bounds and fuel.\<close>  All loops are total functions except two.  The JSON parser
  has fuel, twice the length of the text and two; \<open>parse_fuel_enough\<close> shows that more would not
  change its result.  The
  query for numbered SRV records (\<open>alt_loop\<close>) runs until a name is missing, so it is a partial
  function, and the query is proved to return when the DNS has only finitely many of them.
  The status patch is tried three times as in the source.

  \<^bold>\<open>Parameters.\<close>  Code outside the repository is an argument of the definitions: the Azure SDK's
  clients and credentials, DNS, the Kubernetes client and \<^verbatim>\<open>controllerutil\<close>, the clock, random
  numbers, the YAML libraries, \<^verbatim>\<open>crypto/x509\<close>, \<^verbatim>\<open>pem\<close>, \<^verbatim>\<open>pkcs12\<close>, environment variables.  The
  Kubernetes client, the clock, the DNS and the SDK when it makes clients are asked with the number
  of the call, so their answers may change from call to call.  A client that was made is a function
  (\<open>az_client\<close>): it answers equal requests alike while a reconciliation runs, and between two
  reconciliations the stores behind the clients that are kept may change (the step \<open>meanwhile\<close> of
  \<open>history\<close>).  The two YAML libraries that the packages import, version 3 in \<^verbatim>\<open>loader\<close> and version 2 in
  \<^verbatim>\<open>controller\<close>, are different fields of the record \<open>codec\<close>.  What theorems need of
  them is a named hypothesis (\<open>serves\<close>, \<open>library_calm\<close>, \<open>kube_calm\<close>, \<open>local_libraries\<close>,
  \<open>builds_all\<close>, \<open>served\<close>), and the instances after the theorems satisfy it.  Histories of the controller assume that the generation of a provider determines
  its specification, as the API server promises, until the controller has seen the provider
  gone: a provider that is deleted and created again unnoticed starts again at generation 1 and
  is outside these theorems.

  \<^bold>\<open>Not modelled.\<close>  The generated \<^verbatim>\<open>zz_generated.deepcopy.go\<close> and mocks (values of the model are
  copies; where the source shares a map, the model says so), and logging except where the
  arguments of a message can panic.  The goroutines that resolve secrets run one after the
  other: they share nothing but the result map, and the error is the first in that order.
  Reconciliations of one provider do not overlap, as the controller runtime promises.
\<close>

end
